(* ===== verification/GizPrelude.thy ===== *)
theory GizPrelude
  imports Main "HOL-Library.Word" "HOL-Library.AList"
begin

text \<open>
  Shared vocabulary of the development: machine integers and byte strings, the parts of
  the Go standard library the sources lean on (little-endian integers of
  \<^verbatim>\<open>encoding/binary\<close>, the \<^verbatim>\<open>copy\<close> built-in), Go maps as association lists, and the
  generic lemmas the components share.
\<close>

unbundle bit_operations_syntax

named_theorems go_simps \<open>unfolding of the modelled Go built-ins\<close>

section \<open>Machine integers and byte strings\<close>

type_synonym u8 = "8 word"
type_synonym u32 = "32 word"
type_synonym u64 = "64 word"
type_synonym bytes = "8 word list"

section \<open>Go built-ins\<close>

text \<open>
  \<open>go_copy dst src\<close> is \<^verbatim>\<open>copy(dst, src)\<close>: the contents of \<^verbatim>\<open>dst\<close> afterwards. It writes
  the smaller of the two lengths, and the number written is \<open>copied dst src\<close>.
\<close>

definition go_copy :: "'a list \<Rightarrow> 'a list \<Rightarrow> 'a list" where
  "go_copy dst src = take (length dst) src @ drop (length src) dst"

definition copied :: "'a list \<Rightarrow> 'a list \<Rightarrow> nat" where
  "copied dst src = min (length dst) (length src)"

text \<open>
  \<open>copy_at xs i j src\<close> is \<^verbatim>\<open>copy(xs[i:j], src)\<close>: the slice is a window on \<open>xs\<close>, so
  the write shows in \<open>xs\<close>.
\<close>

definition copy_at :: "'a list \<Rightarrow> nat \<Rightarrow> nat \<Rightarrow> 'a list \<Rightarrow> 'a list" where
  "copy_at xs i j src = take i xs @ go_copy (drop i (take j xs)) src @ drop j xs"

text \<open>\<open>go_slice xs i j\<close> is \<^verbatim>\<open>xs[i:j]\<close>.\<close>

definition go_slice :: "'a list \<Rightarrow> nat \<Rightarrow> nat \<Rightarrow> 'a list" where
  "go_slice xs i j = drop i (take j xs)"

lemma length_go_copy [simp]: "length (go_copy dst src) = length dst"
  by (simp add: go_copy_def)

lemma go_copy_same_length: "length src = length dst \<Longrightarrow> go_copy dst src = src"
  by (simp add: go_copy_def)

lemma length_copy_at [simp]:
  "i \<le> j \<Longrightarrow> j \<le> length xs \<Longrightarrow> length (copy_at xs i j src) = length xs"
  by (simp add: copy_at_def)

lemma length_go_slice [simp]: "length (go_slice xs i j) = min (length xs) j - i"
  by (simp add: go_slice_def)

lemma copied_le [simp]: "copied dst src \<le> length dst" "copied dst src \<le> length src"
  by (simp_all add: copied_def)

lemma nth_go_copy:
  "k < length dst \<Longrightarrow> go_copy dst src ! k = (if k < length src then src ! k else dst ! k)"
  by (auto simp: go_copy_def nth_append)

lemma nth_copy_at:
  "i \<le> j \<Longrightarrow> j \<le> length xs \<Longrightarrow> k < length xs \<Longrightarrow>
   copy_at xs i j src ! k =
     (if i \<le> k \<and> k < j \<and> k - i < length src then src ! (k - i) else xs ! k)"
  by (auto simp: copy_at_def nth_append nth_go_copy)

text \<open>A buffer cut into blocks: writing one block leaves its neighbours alone.\<close>

lemma copy_at_block:
  "length pre = i \<Longrightarrow> i + length mid = j \<Longrightarrow>
   copy_at (pre @ mid @ post) i j src = pre @ go_copy mid src @ post"
  by (simp add: copy_at_def)

lemma go_slice_block:
  "length pre = i \<Longrightarrow> i + length mid = j \<Longrightarrow> go_slice (pre @ mid @ post) i j = mid"
  by (simp add: go_slice_def)

lemma replicate_update_0: "0 < n \<Longrightarrow> (replicate n a)[0 := b] = b # replicate (n - 1) a"
  by (cases n) auto

lemma take_go_slice: "i \<le> j \<Longrightarrow> take i xs @ go_slice xs i j = take j xs"
  by (simp add: go_slice_def take_add [symmetric] flip: drop_take)
    (metis append_take_drop_id min.absorb1 take_take)

section \<open>Little-endian integers\<close>

text \<open>
  \<^verbatim>\<open>binary.LittleEndian.PutUint32\<close> and \<^verbatim>\<open>PutUint64\<close> write the low byte first;
  \<^verbatim>\<open>Uint32\<close> and \<^verbatim>\<open>Uint64\<close> read the first four and eight bytes of their argument.
  The callers check lengths first, so the readers are only applied to long enough lists.
\<close>

definition put_u32 :: "u32 \<Rightarrow> bytes" where
  "put_u32 w = [ucast w, ucast (drop_bit 8 w), ucast (drop_bit 16 w), ucast (drop_bit 24 w)]"

definition get_u32 :: "bytes \<Rightarrow> u32" where
  "get_u32 b = ucast (b ! 0) OR push_bit 8 (ucast (b ! 1)) OR push_bit 16 (ucast (b ! 2))
     OR push_bit 24 (ucast (b ! 3))"

definition put_u64 :: "u64 \<Rightarrow> bytes" where
  "put_u64 w = [ucast w, ucast (drop_bit 8 w), ucast (drop_bit 16 w), ucast (drop_bit 24 w),
     ucast (drop_bit 32 w), ucast (drop_bit 40 w), ucast (drop_bit 48 w), ucast (drop_bit 56 w)]"

definition get_u64 :: "bytes \<Rightarrow> u64" where
  "get_u64 b = ucast (b ! 0) OR push_bit 8 (ucast (b ! 1)) OR push_bit 16 (ucast (b ! 2))
     OR push_bit 24 (ucast (b ! 3)) OR push_bit 32 (ucast (b ! 4)) OR push_bit 40 (ucast (b ! 5))
     OR push_bit 48 (ucast (b ! 6)) OR push_bit 56 (ucast (b ! 7))"

lemma length_put_u32 [simp]: "length (put_u32 w) = 4"
  by (simp add: put_u32_def)

lemma length_put_u64 [simp]: "length (put_u64 w) = 8"
  by (simp add: put_u64_def)

lemma put_u32_neq_Nil [simp]: "put_u32 w \<noteq> []"
  by (simp add: put_u32_def)

lemma get_put_u32 [simp]: "get_u32 (put_u32 w @ rest) = w"
proof (rule bit_word_eqI)
  fix n :: nat
  assume n: "n < LENGTH(32)"
  consider "n < 8" | "8 \<le> n" "n < 16" | "16 \<le> n" "n < 24" | "24 \<le> n" by linarith
  then show "bit (get_u32 (put_u32 w @ rest)) n = bit w n"
    using n by cases (simp_all add: get_u32_def put_u32_def bit_simps less_diff_conv2)
qed

lemma get_put_u64 [simp]: "get_u64 (put_u64 w @ rest) = w"
proof (rule bit_word_eqI)
  fix n :: nat
  assume n: "n < LENGTH(64)"
  consider "n < 8" | "8 \<le> n" "n < 16" | "16 \<le> n" "n < 24" | "24 \<le> n" "n < 32"
    | "32 \<le> n" "n < 40" | "40 \<le> n" "n < 48" | "48 \<le> n" "n < 56" | "56 \<le> n"
    by linarith
  then show "bit (get_u64 (put_u64 w @ rest)) n = bit w n"
    using n by cases (simp_all add: get_u64_def put_u64_def bit_simps less_diff_conv2)
qed

lemma get_put_u32_exact [simp]: "get_u32 (put_u32 w) = w"
  using get_put_u32 [of w "[]"] by simp

lemma get_put_u64_exact [simp]: "get_u64 (put_u64 w) = w"
  using get_put_u64 [of w "[]"] by simp

lemma put_get_u32: "length b = 4 \<Longrightarrow> put_u32 (get_u32 b) = b"
proof -
  assume "length b = 4"
  then obtain b0 b1 b2 b3 where b: "b = [b0, b1, b2, b3]"
    by (auto simp: length_Suc_conv eval_nat_numeral)
  have "ucast (get_u32 b) = b0" "ucast (drop_bit 8 (get_u32 b)) = b1"
    "ucast (drop_bit 16 (get_u32 b)) = b2" "ucast (drop_bit 24 (get_u32 b)) = b3"
    by (rule bit_word_eqI, auto simp: b get_u32_def bit_simps dest: bit_imp_le_length)+
  then show ?thesis by (simp add: put_u32_def b)
qed

lemma put_get_u64: "length b = 8 \<Longrightarrow> put_u64 (get_u64 b) = b"
proof -
  assume "length b = 8"
  then obtain b0 b1 b2 b3 b4 b5 b6 b7 where b: "b = [b0, b1, b2, b3, b4, b5, b6, b7]"
    by (auto simp: length_Suc_conv eval_nat_numeral)
  have "ucast (get_u64 b) = b0" "ucast (drop_bit 8 (get_u64 b)) = b1"
    "ucast (drop_bit 16 (get_u64 b)) = b2" "ucast (drop_bit 24 (get_u64 b)) = b3"
    "ucast (drop_bit 32 (get_u64 b)) = b4" "ucast (drop_bit 40 (get_u64 b)) = b5"
    "ucast (drop_bit 48 (get_u64 b)) = b6" "ucast (drop_bit 56 (get_u64 b)) = b7"
    by (rule bit_word_eqI, auto simp: b get_u64_def bit_simps dest: bit_imp_le_length)+
  then show ?thesis by (simp add: put_u64_def b)
qed

lemma put_u32_inject [simp]: "put_u32 v = put_u32 w \<longleftrightarrow> v = w"
  by (metis get_put_u32)

lemma put_u64_inject [simp]: "put_u64 v = put_u64 w \<longleftrightarrow> v = w"
  by (metis get_put_u64)

section \<open>Go maps\<close>

text \<open>
  A Go map is an association list with distinct keys, so that \<^verbatim>\<open>len\<close> and \<^verbatim>\<open>range\<close>
  compute: \<^verbatim>\<open>range\<close> visits the entries in list order, and a statement about every such
  list covers every iteration order the Go runtime may choose.
\<close>

type_synonym ('k, 'v) gomap = "('k \<times> 'v) list"

abbreviation map_get :: "('k, 'v) gomap \<Rightarrow> 'k \<Rightarrow> 'v option" where
  "map_get m k \<equiv> map_of m k"

abbreviation map_put :: "'k \<Rightarrow> 'v \<Rightarrow> ('k, 'v) gomap \<Rightarrow> ('k, 'v) gomap" where
  "map_put k v m \<equiv> AList.update k v m"

abbreviation map_del :: "'k \<Rightarrow> ('k, 'v) gomap \<Rightarrow> ('k, 'v) gomap" where
  "map_del k m \<equiv> AList.delete k m"

definition wf_map :: "('k, 'v) gomap \<Rightarrow> bool" where
  "wf_map m \<longleftrightarrow> distinct (map fst m)"

lemma wf_map_Nil [simp]: "wf_map []"
  by (simp add: wf_map_def)

lemma wf_map_put [simp]: "wf_map m \<Longrightarrow> wf_map (map_put k v m)"
  by (simp add: wf_map_def distinct_update)

lemma wf_map_del [simp]: "wf_map m \<Longrightarrow> wf_map (map_del k m)"
  by (simp add: wf_map_def distinct_delete)

lemma map_get_put [simp]: "map_get (map_put k v m) = (map_get m)(k \<mapsto> v)"
  by (rule update_conv')

lemma map_get_del [simp]: "map_get (map_del k m) = (map_get m)(k := None)"
  by (rule delete_conv')

lemma wf_map_mem: "wf_map m \<Longrightarrow> (k, v) \<in> set m \<longleftrightarrow> map_get m k = Some v"
  by (simp add: wf_map_def)

section \<open>Time\<close>

text \<open>
  A duration is its number of nanoseconds. A \<^verbatim>\<open>time.Time\<close> that the code compares with the zero
  time is an option, \<open>None\<close> being \<^verbatim>\<open>time.Time{}\<close>; \<^verbatim>\<open>Sub\<close> from the zero time saturates at the
  greatest duration.
\<close>

definition second :: int where "second = 1000000000"

type_synonym gotime = "int option"

definition since :: "int \<Rightarrow> gotime \<Rightarrow> int" where
  "since now t = (case t of None \<Rightarrow> 2 ^ 63 - 1 | Some t \<Rightarrow> now - t)"

lemma since_simps [simp]: "since now (Some t) = now - t" "since now None = 2 ^ 63 - 1"
  by (simp_all add: since_def)

end
