(* ===== verification/NoiseMessage.thy ===== *)
theory NoiseMessage
  imports GizPrelude
begin

text \<open>
  The wire messages of \<^verbatim>\<open>pkgs/giznet/internal/noise/message.go\<close>: builders that fill a
  buffer of fixed layout, and parsers that check the length and the type byte first. A
  \<^verbatim>\<open>Key\<close> (a Go array of 32 bytes) is a byte list whose length the statements fix.
\<close>

datatype message_error = ErrMessageTooShort | ErrInvalidMessageType

definition KeySize :: nat where "KeySize = 32"
definition TagSize :: nat where "TagSize = 16"

definition MessageTypeHandshakeInit :: u8 where "MessageTypeHandshakeInit = 1"
definition MessageTypeHandshakeResp :: u8 where "MessageTypeHandshakeResp = 2"
definition MessageTypeCookieReply :: u8 where "MessageTypeCookieReply = 3"
definition MessageTypeTransport :: u8 where "MessageTypeTransport = 4"

definition HandshakeInitSize :: nat where "HandshakeInitSize = 1 + 4 + 32 + 48"
definition HandshakeRespSize :: nat where "HandshakeRespSize = 1 + 4 + 4 + 32 + 16"
definition TransportHeaderSize :: nat where "TransportHeaderSize = 1 + 4 + 8"

lemmas message_consts =
  KeySize_def TagSize_def MessageTypeHandshakeInit_def MessageTypeHandshakeResp_def
  MessageTypeCookieReply_def MessageTypeTransport_def HandshakeInitSize_def
  HandshakeRespSize_def TransportHeaderSize_def

record TransportMessage =
  tm_ReceiverIndex :: u32
  tm_Counter :: u64
  tm_Ciphertext :: bytes

record HandshakeInitMessage =
  hi_SenderIndex :: u32
  hi_Ephemeral :: bytes
  hi_Static :: bytes

record HandshakeRespMessage =
  hr_SenderIndex :: u32
  hr_ReceiverIndex :: u32
  hr_Ephemeral :: bytes
  hr_Empty :: bytes

section \<open>Parsers and builders\<close>

definition ParseTransportMessage :: "bytes \<Rightarrow> message_error + TransportMessage" where
  "ParseTransportMessage data =
     (if length data < TransportHeaderSize + TagSize then Inl ErrMessageTooShort
      else if data ! 0 \<noteq> MessageTypeTransport then Inl ErrInvalidMessageType
      else Inr \<lparr>tm_ReceiverIndex = get_u32 (go_slice data 1 5),
                tm_Counter = get_u64 (go_slice data 5 13),
                tm_Ciphertext = drop 13 data\<rparr>)"

definition BuildTransportMessage :: "u32 \<Rightarrow> u64 \<Rightarrow> bytes \<Rightarrow> bytes" where
  "BuildTransportMessage receiverIndex counter ciphertext =
     (let msg = replicate (TransportHeaderSize + length ciphertext) 0;
          msg = msg[0 := MessageTypeTransport];
          msg = copy_at msg 1 5 (put_u32 receiverIndex);
          msg = copy_at msg 5 13 (put_u64 counter)
      in copy_at msg 13 (length msg) ciphertext)"

definition ParseHandshakeInit :: "bytes \<Rightarrow> message_error + HandshakeInitMessage" where
  "ParseHandshakeInit data =
     (if length data < HandshakeInitSize then Inl ErrMessageTooShort
      else if data ! 0 \<noteq> MessageTypeHandshakeInit then Inl ErrInvalidMessageType
      else Inr \<lparr>hi_SenderIndex = get_u32 (go_slice data 1 5),
                hi_Ephemeral = go_copy (replicate KeySize 0) (go_slice data 5 37),
                hi_Static = go_copy (replicate 48 0) (go_slice data 37 85)\<rparr>)"

definition BuildHandshakeInit :: "u32 \<Rightarrow> bytes \<Rightarrow> bytes \<Rightarrow> bytes" where
  "BuildHandshakeInit senderIndex ephemeral staticEnc =
     (let msg = replicate HandshakeInitSize 0;
          msg = msg[0 := MessageTypeHandshakeInit];
          msg = copy_at msg 1 5 (put_u32 senderIndex);
          msg = copy_at msg 5 37 ephemeral
      in copy_at msg 37 85 staticEnc)"

definition ParseHandshakeResp :: "bytes \<Rightarrow> message_error + HandshakeRespMessage" where
  "ParseHandshakeResp data =
     (if length data < HandshakeRespSize then Inl ErrMessageTooShort
      else if data ! 0 \<noteq> MessageTypeHandshakeResp then Inl ErrInvalidMessageType
      else Inr \<lparr>hr_SenderIndex = get_u32 (go_slice data 1 5),
                hr_ReceiverIndex = get_u32 (go_slice data 5 9),
                hr_Ephemeral = go_copy (replicate KeySize 0) (go_slice data 9 41),
                hr_Empty = go_copy (replicate 16 0) (go_slice data 41 57)\<rparr>)"

definition BuildHandshakeResp :: "u32 \<Rightarrow> u32 \<Rightarrow> bytes \<Rightarrow> bytes \<Rightarrow> bytes" where
  "BuildHandshakeResp senderIndex receiverIndex ephemeral emptyEnc =
     (let msg = replicate HandshakeRespSize 0;
          msg = msg[0 := MessageTypeHandshakeResp];
          msg = copy_at msg 1 5 (put_u32 senderIndex);
          msg = copy_at msg 5 9 (put_u32 receiverIndex);
          msg = copy_at msg 9 41 ephemeral
      in copy_at msg 41 57 emptyEnc)"

definition GetMessageType :: "bytes \<Rightarrow> message_error + u8" where
  "GetMessageType data = (if length data < 1 then Inl ErrMessageTooShort else Inr (data ! 0))"

section \<open>The layouts in closed form\<close>

lemma BuildTransportMessage_eq:
  "BuildTransportMessage ri c ct = MessageTypeTransport # put_u32 ri @ put_u64 c @ ct"
proof -
  have m0: "(replicate (TransportHeaderSize + length ct) 0)[0 := MessageTypeTransport]
      = [MessageTypeTransport] @ replicate 4 0 @ replicate 8 0 @ replicate (length ct) 0"
    by (simp add: TransportHeaderSize_def replicate_add [symmetric] replicate_update_0 del: replicate_append_same)
  show ?thesis
    unfolding BuildTransportMessage_def Let_def m0
    using copy_at_block [of "[MessageTypeTransport]" 1 "replicate 4 0" 5
        "replicate 8 0 @ replicate (length ct) 0" "put_u32 ri"]
      copy_at_block [of "[MessageTypeTransport] @ put_u32 ri" 5 "replicate 8 0" 13
        "replicate (length ct) 0" "put_u64 c"]
      copy_at_block [of "[MessageTypeTransport] @ put_u32 ri @ put_u64 c" 13
        "replicate (length ct) 0" "13 + length ct" "[]" ct]
    by (simp add: go_copy_same_length)
qed

lemma BuildHandshakeInit_eq:
  "BuildHandshakeInit si e s =
     MessageTypeHandshakeInit # put_u32 si @ go_copy (replicate 32 0) e @ go_copy (replicate 48 0) s"
proof -
  have m0: "(replicate HandshakeInitSize 0)[0 := MessageTypeHandshakeInit]
      = [MessageTypeHandshakeInit] @ replicate 4 0 @ replicate 32 0 @ replicate 48 0"
    by (simp add: HandshakeInitSize_def replicate_add [symmetric] replicate_update_0 del: replicate_append_same)
  show ?thesis
    unfolding BuildHandshakeInit_def Let_def m0
    using copy_at_block [of "[MessageTypeHandshakeInit]" 1 "replicate 4 0" 5
        "replicate 32 0 @ replicate 48 0" "put_u32 si"]
      copy_at_block [of "[MessageTypeHandshakeInit] @ put_u32 si" 5 "replicate 32 0" 37
        "replicate 48 0" e]
      copy_at_block [of "[MessageTypeHandshakeInit] @ put_u32 si @ go_copy (replicate 32 0) e" 37
        "replicate 48 0" 85 "[]" s]
    by (simp add: go_copy_same_length)
qed

lemma BuildHandshakeResp_eq:
  "BuildHandshakeResp si ri e m =
     MessageTypeHandshakeResp # put_u32 si @ put_u32 ri @ go_copy (replicate 32 0) e
       @ go_copy (replicate 16 0) m"
proof -
  have m0: "(replicate HandshakeRespSize 0)[0 := MessageTypeHandshakeResp]
      = [MessageTypeHandshakeResp] @ replicate 4 0 @ replicate 4 0 @ replicate 32 0 @ replicate 16 0"
    by (simp add: HandshakeRespSize_def replicate_add [symmetric] replicate_update_0 del: replicate_append_same)
  show ?thesis
    unfolding BuildHandshakeResp_def Let_def m0
    using copy_at_block [of "[MessageTypeHandshakeResp]" 1 "replicate 4 0" 5
        "replicate 4 0 @ replicate 32 0 @ replicate 16 0" "put_u32 si"]
      copy_at_block [of "[MessageTypeHandshakeResp] @ put_u32 si" 5 "replicate 4 0" 9
        "replicate 32 0 @ replicate 16 0" "put_u32 ri"]
      copy_at_block [of "[MessageTypeHandshakeResp] @ put_u32 si @ put_u32 ri" 9 "replicate 32 0" 41
        "replicate 16 0" e]
      copy_at_block [of "[MessageTypeHandshakeResp] @ put_u32 si @ put_u32 ri
          @ go_copy (replicate 32 0) e" 41 "replicate 16 0" 57 "[]" m]
    by (simp add: go_copy_same_length)
qed

section \<open>Cutting a message into its fields\<close>

lemma cut_at: "i \<le> j \<Longrightarrow> drop i xs = go_slice xs i j @ drop j xs"
  by (simp add: go_slice_def) (metis append_take_drop_id drop_drop drop_take le_add_diff_inverse2)

lemma cut_head: "1 \<le> length xs \<Longrightarrow> xs = xs ! 0 # drop 1 xs"
  by (cases xs) auto

lemma transport_cut:
  "13 \<le> length data \<Longrightarrow>
   data = data ! 0 # go_slice data 1 5 @ go_slice data 5 13 @ drop 13 data"
  using cut_head [of data] cut_at [of 1 5 data] cut_at [of 5 13 data] by simp

lemma init_cut:
  "85 \<le> length data \<Longrightarrow>
   data = data ! 0 # go_slice data 1 5 @ go_slice data 5 37 @ go_slice data 37 85 @ drop 85 data"
  using cut_head [of data] cut_at [of 1 5 data] cut_at [of 5 37 data] cut_at [of 37 85 data] by simp

lemma resp_cut:
  "57 \<le> length data \<Longrightarrow>
   data = data ! 0 # go_slice data 1 5 @ go_slice data 5 9 @ go_slice data 9 41
            @ go_slice data 41 57 @ drop 57 data"
  using cut_head [of data] cut_at [of 1 5 data] cut_at [of 5 9 data] cut_at [of 9 41 data]
    cut_at [of 41 57 data] by simp

lemma slice_behind:
  "length pre = i \<Longrightarrow> i + length mid = j \<Longrightarrow> go_slice (x # pre @ mid @ post) (Suc i) (Suc j) = mid"
  using go_slice_block [of "x # pre" "Suc i" mid "Suc j" post] by simp

lemma Parse_BuildTransportMessage:
  assumes "16 \<le> length c"
  shows "ParseTransportMessage (BuildTransportMessage ri n c)
     = Inr \<lparr>tm_ReceiverIndex = ri, tm_Counter = n, tm_Ciphertext = c\<rparr>"
proof -
  let ?h = "put_u32 ri" and ?c = "put_u64 n" and ?d = "BuildTransportMessage ri n c"
  have d: "?d = MessageTypeTransport # ?h @ ?c @ c" by (simp add: BuildTransportMessage_eq)
  have "go_slice ?d 1 5 = ?h" "go_slice ?d 5 13 = ?c"
    using slice_behind [of "[]" 0 ?h 4 _ "?c @ c"] slice_behind [of ?h 4 ?c 12 _ c]
    by (simp_all add: d)
  with assms show ?thesis
    by (simp add: ParseTransportMessage_def message_consts) (simp add: d MessageTypeTransport_def)
qed

section \<open>Properties\<close>

text \<open>
  C35: \<^verbatim>\<open>ParseTransportMessage\<close> inverts \<^verbatim>\<open>BuildTransportMessage\<close> in both directions: a packet
  parses to given fields exactly when it is the packet built from them and its ciphertext
  holds at least the 16-byte tag. In particular parsing loses no byte of the packet.
\<close>

theorem TransportMessage_codec:
  "ParseTransportMessage data = Inr m \<longleftrightarrow>
     data = BuildTransportMessage (tm_ReceiverIndex m) (tm_Counter m) (tm_Ciphertext m)
     \<and> 16 \<le> length (tm_Ciphertext m)"
proof
  assume L: "ParseTransportMessage data = Inr m"
  then have "13 + 16 \<le> length data" "data ! 0 = MessageTypeTransport"
    and m: "tm_ReceiverIndex m = get_u32 (go_slice data 1 5)"
      "tm_Counter m = get_u64 (go_slice data 5 13)" "tm_Ciphertext m = drop 13 data"
    by (auto simp: ParseTransportMessage_def message_consts split: if_splits)
  then show "data = BuildTransportMessage (tm_ReceiverIndex m) (tm_Counter m) (tm_Ciphertext m)
     \<and> 16 \<le> length (tm_Ciphertext m)"
    using transport_cut [of data] by (simp add: BuildTransportMessage_eq m put_get_u32 put_get_u64)
next
  assume "data = BuildTransportMessage (tm_ReceiverIndex m) (tm_Counter m) (tm_Ciphertext m)
     \<and> 16 \<le> length (tm_Ciphertext m)"
  then show "ParseTransportMessage data = Inr m" by (simp add: Parse_BuildTransportMessage)
qed

lemma HandshakeInit_codec:
  "ParseHandshakeInit data = Inr i \<longleftrightarrow>
     (\<exists>extra. data = BuildHandshakeInit (hi_SenderIndex i) (hi_Ephemeral i) (hi_Static i) @ extra)
     \<and> length (hi_Ephemeral i) = 32 \<and> length (hi_Static i) = 48"
proof
  assume L: "ParseHandshakeInit data = Inr i"
  then have len: "85 \<le> length data" and ty: "data ! 0 = MessageTypeHandshakeInit"
    and i: "hi_SenderIndex i = get_u32 (go_slice data 1 5)"
      "hi_Ephemeral i = go_slice data 5 37" "hi_Static i = go_slice data 37 85"
    by (auto simp: ParseHandshakeInit_def message_consts go_copy_same_length split: if_splits)
  have "data = BuildHandshakeInit (hi_SenderIndex i) (hi_Ephemeral i) (hi_Static i) @ drop 85 data"
    using init_cut [OF len] len ty
    by (simp add: BuildHandshakeInit_eq i put_get_u32 go_copy_same_length)
  then show "(\<exists>extra. data = BuildHandshakeInit (hi_SenderIndex i) (hi_Ephemeral i) (hi_Static i) @ extra)
     \<and> length (hi_Ephemeral i) = 32 \<and> length (hi_Static i) = 48"
    using len by (auto simp: i)
next
  let ?h = "put_u32 (hi_SenderIndex i)" and ?e = "hi_Ephemeral i" and ?s = "hi_Static i"
  assume "(\<exists>extra. data = BuildHandshakeInit (hi_SenderIndex i) ?e ?s @ extra)
     \<and> length ?e = 32 \<and> length ?s = 48"
  then obtain extra where len: "length ?e = 32" "length ?s = 48"
    and d: "data = MessageTypeHandshakeInit # ?h @ ?e @ ?s @ extra"
    by (auto simp: BuildHandshakeInit_eq go_copy_same_length)
  have "go_slice data 1 5 = ?h" "go_slice data 5 37 = ?e" "go_slice data 37 85 = ?s"
    using len slice_behind [of "[]" 0 ?h 4 _ "?e @ ?s @ extra"]
      slice_behind [of ?h 4 ?e 36 _ "?s @ extra"] slice_behind [of "?h @ ?e" 36 ?s 84 _ extra]
    by (simp_all add: d)
  then show "ParseHandshakeInit data = Inr i"
    using len
    by (simp add: ParseHandshakeInit_def message_consts go_copy_same_length)
      (simp add: d MessageTypeHandshakeInit_def)
qed

lemma HandshakeResp_codec:
  "ParseHandshakeResp data = Inr r \<longleftrightarrow>
     (\<exists>extra. data = BuildHandshakeResp (hr_SenderIndex r) (hr_ReceiverIndex r) (hr_Ephemeral r)
        (hr_Empty r) @ extra)
     \<and> length (hr_Ephemeral r) = 32 \<and> length (hr_Empty r) = 16"
proof
  assume L: "ParseHandshakeResp data = Inr r"
  then have len: "57 \<le> length data" and ty: "data ! 0 = MessageTypeHandshakeResp"
    and r: "hr_SenderIndex r = get_u32 (go_slice data 1 5)"
      "hr_ReceiverIndex r = get_u32 (go_slice data 5 9)"
      "hr_Ephemeral r = go_slice data 9 41" "hr_Empty r = go_slice data 41 57"
    by (auto simp: ParseHandshakeResp_def message_consts go_copy_same_length split: if_splits)
  have "data = BuildHandshakeResp (hr_SenderIndex r) (hr_ReceiverIndex r) (hr_Ephemeral r)
      (hr_Empty r) @ drop 57 data"
    using resp_cut [OF len] len ty
    by (simp add: BuildHandshakeResp_eq r put_get_u32 go_copy_same_length)
  then show "(\<exists>extra. data = BuildHandshakeResp (hr_SenderIndex r) (hr_ReceiverIndex r)
      (hr_Ephemeral r) (hr_Empty r) @ extra)
     \<and> length (hr_Ephemeral r) = 32 \<and> length (hr_Empty r) = 16"
    using len by (auto simp: r)
next
  let ?h = "put_u32 (hr_SenderIndex r)" and ?g = "put_u32 (hr_ReceiverIndex r)"
    and ?e = "hr_Ephemeral r" and ?m = "hr_Empty r"
  assume "(\<exists>extra. data = BuildHandshakeResp (hr_SenderIndex r) (hr_ReceiverIndex r) ?e ?m @ extra)
     \<and> length ?e = 32 \<and> length ?m = 16"
  then obtain extra where len: "length ?e = 32" "length ?m = 16"
    and d: "data = MessageTypeHandshakeResp # ?h @ ?g @ ?e @ ?m @ extra"
    by (auto simp: BuildHandshakeResp_eq go_copy_same_length)
  have "go_slice data 1 5 = ?h" "go_slice data 5 9 = ?g" "go_slice data 9 41 = ?e"
    "go_slice data 41 57 = ?m"
    using len slice_behind [of "[]" 0 ?h 4 _ "?g @ ?e @ ?m @ extra"]
      slice_behind [of ?h 4 ?g 8 _ "?e @ ?m @ extra"]
      slice_behind [of "?h @ ?g" 8 ?e 40 _ "?m @ extra"]
      slice_behind [of "?h @ ?g @ ?e" 40 ?m 56 _ extra]
    by (simp_all add: d)
  then show "ParseHandshakeResp data = Inr r"
    using len
    by (simp add: ParseHandshakeResp_def message_consts go_copy_same_length)
      (simp add: d MessageTypeHandshakeResp_def)
qed

text \<open>
  C36: The handshake messages round-trip: a packet parses as an initiation (response) with given
  fields exactly when it is the built packet followed by any trailing bytes, the ephemeral
  key having 32 bytes and the encrypted part 48 (16).
\<close>

theorem Handshake_codec:
  "(ParseHandshakeInit data = Inr i \<longleftrightarrow>
     (\<exists>extra. data = BuildHandshakeInit (hi_SenderIndex i) (hi_Ephemeral i) (hi_Static i) @ extra)
     \<and> length (hi_Ephemeral i) = 32 \<and> length (hi_Static i) = 48)
   \<and> (ParseHandshakeResp data = Inr r \<longleftrightarrow>
     (\<exists>extra. data = BuildHandshakeResp (hr_SenderIndex r) (hr_ReceiverIndex r) (hr_Ephemeral r)
        (hr_Empty r) @ extra)
     \<and> length (hr_Ephemeral r) = 32 \<and> length (hr_Empty r) = 16)"
  by (simp only: HandshakeInit_codec HandshakeResp_codec simp_thms)

text \<open>
  The type byte decides which parser can accept a packet, so no packet is taken for two kinds
  of message.
\<close>

lemma message_kinds_disjoint:
  "ParseTransportMessage data = Inr t \<Longrightarrow> GetMessageType data = Inr MessageTypeTransport"
  "ParseHandshakeInit data = Inr i \<Longrightarrow> GetMessageType data = Inr MessageTypeHandshakeInit"
  "ParseHandshakeResp data = Inr r \<Longrightarrow> GetMessageType data = Inr MessageTypeHandshakeResp"
  by (auto simp: ParseTransportMessage_def ParseHandshakeInit_def ParseHandshakeResp_def
      GetMessageType_def message_consts split: if_splits)

end
