(* ===== verification/NoiseCipher.thy ===== *)
theory NoiseCipher
  imports NoiseMessage
begin

text \<open>
  Cipher modes, hashing, key derivation and AEAD use of
  \<^verbatim>\<open>pkgs/giznet/internal/noise/cipher.go\<close>, and the key pairs of \<^verbatim>\<open>keypair.go\<close>.

  The primitives are not in the repository and are the record \<open>crypto\<close>, an argument of
  every definition that uses them: X25519, BLAKE2s-256 and the two AEADs, selected by mode.
  \<open>crypto_laws\<close> names what the code relies on: output lengths, that opening undoes sealing, and
  that honest Diffie-Hellman exchanges agree on a value that is not all zero. A Go \<^verbatim>\<open>[32]byte\<close>
  is a byte list; a panic is the error \<open>Panic\<close>.
\<close>

section \<open>Primitives as parameters\<close>

type_synonym CipherMode = string

record crypto =
  x25519 :: "bytes \<Rightarrow> bytes \<Rightarrow> bytes option"
  blake2s_256 :: "bytes \<Rightarrow> bytes"
  aead_seal :: "CipherMode \<Rightarrow> bytes \<Rightarrow> bytes \<Rightarrow> bytes \<Rightarrow> bytes \<Rightarrow> bytes"
  aead_open :: "CipherMode \<Rightarrow> bytes \<Rightarrow> bytes \<Rightarrow> bytes \<Rightarrow> bytes \<Rightarrow> bytes option"

datatype noise_error =
    UnsupportedCipherMode string
  | PlaintextHasNoAEAD
  | InvalidAEADKeySize nat
  | MissingAEAD
  | AEADOpenFailed
  | ErrDecryptionFailed
  | RandomFailed
  | ErrDHFailed
  | ErrInvalidPublicKey
  | ErrHandshakeFinished
  | ErrHandshakeNotReady
  | ErrInvalidMessage
  | ErrMissingLocalStatic
  | ErrMissingRemoteStatic
  | NotOurTurn nat
  | NotPeersTurn nat
  | ErrSessionNotEstablished
  | ErrReplayDetected
  | ErrNonceExhausted
  | Panic

definition CipherModeChaChaPoly :: CipherMode where "CipherModeChaChaPoly = ''chacha_poly''"
definition CipherModeAES256GCM :: CipherMode where "CipherModeAES256GCM = ''aes_256_gcm''"
definition CipherModePlaintext :: CipherMode where "CipherModePlaintext = ''plaintext''"

lemmas mode_defs = CipherModeChaChaPoly_def CipherModeAES256GCM_def CipherModePlaintext_def

definition HashSize :: nat where "HashSize = 32"

definition zero_key :: bytes where "zero_key = replicate KeySize 0"

lemma length_zero_key [simp]: "length zero_key = 32"
  by (simp add: zero_key_def KeySize_def)

section \<open>Cipher modes and protocol names\<close>

definition NormalizeCipherMode :: "CipherMode \<Rightarrow> noise_error + CipherMode" where
  "NormalizeCipherMode mode =
     (if mode = '''' \<or> mode = CipherModeChaChaPoly then Inr CipherModeChaChaPoly
      else if mode = CipherModeAES256GCM \<or> mode = CipherModePlaintext then Inr mode
      else Inl (UnsupportedCipherMode mode))"

definition MustNormalizeCipherMode :: "CipherMode \<Rightarrow> noise_error + CipherMode" where
  "MustNormalizeCipherMode mode =
     (case NormalizeCipherMode mode of Inl e \<Rightarrow> Inl Panic | Inr m \<Rightarrow> Inr m)"

definition ProtocolName :: "string \<Rightarrow> CipherMode \<Rightarrow> noise_error + string" where
  "ProtocolName patternName mode =
     (case NormalizeCipherMode mode of
        Inl e \<Rightarrow> Inl e
      | Inr mode \<Rightarrow>
          let build = (\<lambda>cipherName. ''Noise_'' @ patternName @ ''_25519_'' @ cipherName @ ''_BLAKE2s'')
          in if mode = CipherModeChaChaPoly then Inr (build ''ChaChaPoly'')
             else if mode = CipherModeAES256GCM then Inr (build ''AESGCM'')
             else if mode = CipherModePlaintext then Inr (build ''Plaintext'')
             else Inl (UnsupportedCipherMode mode))"

fun str_contains :: "string \<Rightarrow> string \<Rightarrow> bool" where
  "str_contains [] sub = (sub = [])"
| "str_contains (c # cs) sub = (take (length sub) (c # cs) = sub \<or> str_contains cs sub)"

definition CipherModeFromProtocolName :: "string \<Rightarrow> CipherMode" where
  "CipherModeFromProtocolName protocolName =
     (if str_contains protocolName ''_AESGCM_'' then CipherModeAES256GCM
      else if str_contains protocolName ''_Plaintext_'' then CipherModePlaintext
      else CipherModeChaChaPoly)"

section \<open>Hashing and key derivation\<close>

text \<open>The variadic \<^verbatim>\<open>data ...[]byte\<close> is written to the hash piece by piece, so the hash is that of the concatenation.\<close>

definition Hash :: "crypto \<Rightarrow> bytes list \<Rightarrow> bytes" where
  "Hash C data = blake2s_256 C (concat data)"

text \<open>
  \<^verbatim>\<open>crypto/hmac\<close> over BLAKE2s-256 (block size 64): a key of at most 64 bytes is padded with
  zeros, a longer one is hashed first.
\<close>

definition hmac_pad :: "crypto \<Rightarrow> bytes \<Rightarrow> bytes" where
  "hmac_pad C key = (let k = (if 64 < length key then blake2s_256 C key else key)
                     in k @ replicate (64 - length k) 0)"

definition HMAC :: "crypto \<Rightarrow> bytes \<Rightarrow> bytes list \<Rightarrow> bytes" where
  "HMAC C key data =
     (let k = hmac_pad C key
      in blake2s_256 C (map (\<lambda>b. b XOR 0x5c) k
           @ blake2s_256 C (map (\<lambda>b. b XOR 0x36) k @ concat data)))"

definition HKDF :: "crypto \<Rightarrow> bytes \<Rightarrow> bytes \<Rightarrow> int \<Rightarrow> noise_error + bytes list" where
  "HKDF C chainingKey input numOutputs =
     (if numOutputs < 1 \<or> 3 < numOutputs then Inl Panic
      else let secret = HMAC C chainingKey [input];
               o0 = HMAC C secret [[0x01]];
               o1 = HMAC C secret [o0, [0x02]];
               o2 = HMAC C secret [o1, [0x03]]
           in Inr ([o0] @ (if 2 \<le> numOutputs then [o1] else [])
                        @ (if 3 \<le> numOutputs then [o2] else [])))"

definition KDF1 :: "crypto \<Rightarrow> bytes \<Rightarrow> bytes \<Rightarrow> bytes" where
  "KDF1 C chainingKey input =
     (case HKDF C chainingKey input 1 of Inr [k] \<Rightarrow> k | _ \<Rightarrow> [])"

definition KDF2 :: "crypto \<Rightarrow> bytes \<Rightarrow> bytes \<Rightarrow> bytes \<times> bytes" where
  "KDF2 C chainingKey input =
     (case HKDF C chainingKey input 2 of Inr [k0, k1] \<Rightarrow> (k0, k1) | _ \<Rightarrow> ([], []))"

definition KDF3 :: "crypto \<Rightarrow> bytes \<Rightarrow> bytes \<Rightarrow> bytes \<times> bytes \<times> bytes" where
  "KDF3 C chainingKey input =
     (case HKDF C chainingKey input 3 of Inr [k0, k1, k2] \<Rightarrow> (k0, k1, k2) | _ \<Rightarrow> ([], [], []))"

section \<open>AEADs\<close>

text \<open>A \<^verbatim>\<open>cipher.AEAD\<close> is the mode and key it was made from.\<close>

type_synonym aead = "CipherMode \<times> bytes"

definition NewAEADWithMode :: "CipherMode \<Rightarrow> bytes \<Rightarrow> noise_error + aead" where
  "NewAEADWithMode mode key =
     (case NormalizeCipherMode mode of
        Inl e \<Rightarrow> Inl e
      | Inr mode \<Rightarrow>
          if mode = CipherModePlaintext then Inl PlaintextHasNoAEAD
          else if length key \<noteq> 32 then Inl (InvalidAEADKeySize (length key))
          else if mode = CipherModeChaChaPoly \<or> mode = CipherModeAES256GCM then Inr (mode, key)
          else Inl (UnsupportedCipherMode mode))"

definition NewAEAD :: "bytes \<Rightarrow> noise_error + aead" where
  "NewAEAD key = NewAEADWithMode CipherModeChaChaPoly key"

definition nonce_bytes :: "u64 \<Rightarrow> bytes" where
  "nonce_bytes nonce = copy_at (replicate 12 0) 0 8 (put_u64 nonce)"

definition plain_seal :: "bytes \<Rightarrow> bytes" where
  "plain_seal plaintext = go_copy (replicate (length plaintext + TagSize) 0) plaintext"

definition plain_open :: "bytes \<Rightarrow> noise_error + bytes" where
  "plain_open ciphertext =
     (if length ciphertext < TagSize then Inl ErrDecryptionFailed
      else Inr (go_copy (replicate (length ciphertext - TagSize) 0)
                 (go_slice ciphertext 0 (length ciphertext - TagSize))))"

definition sealWithAEAD ::
  "crypto \<Rightarrow> CipherMode \<Rightarrow> aead option \<Rightarrow> u64 \<Rightarrow> bytes \<Rightarrow> bytes \<Rightarrow> noise_error + bytes" where
  "sealWithAEAD C mode aead nonce plaintext ad =
     (case NormalizeCipherMode mode of
        Inl e \<Rightarrow> Inl e
      | Inr mode \<Rightarrow>
          if mode = CipherModePlaintext then Inr (plain_seal plaintext)
          else (case aead of
                  None \<Rightarrow> Inl MissingAEAD
                | Some (m, k) \<Rightarrow> Inr (aead_seal C m k (nonce_bytes nonce) plaintext ad)))"

definition openWithAEAD ::
  "crypto \<Rightarrow> CipherMode \<Rightarrow> aead option \<Rightarrow> u64 \<Rightarrow> bytes \<Rightarrow> bytes \<Rightarrow> noise_error + bytes" where
  "openWithAEAD C mode aead nonce ciphertext ad =
     (case NormalizeCipherMode mode of
        Inl e \<Rightarrow> Inl e
      | Inr mode \<Rightarrow>
          if mode = CipherModePlaintext then plain_open ciphertext
          else (case aead of
                  None \<Rightarrow> Inl MissingAEAD
                | Some (m, k) \<Rightarrow>
                    (case aead_open C m k (nonce_bytes nonce) ciphertext ad of
                       None \<Rightarrow> Inl AEADOpenFailed
                     | Some p \<Rightarrow> Inr p)))"

definition EncryptWithMode ::
  "crypto \<Rightarrow> CipherMode \<Rightarrow> bytes \<Rightarrow> u64 \<Rightarrow> bytes \<Rightarrow> bytes \<Rightarrow> noise_error + bytes" where
  "EncryptWithMode C mode key nonce plaintext ad =
     (case NormalizeCipherMode mode of
        Inl e \<Rightarrow> Inl e
      | Inr mode \<Rightarrow>
          if mode = CipherModePlaintext then Inr (plain_seal plaintext)
          else (case NewAEADWithMode mode key of
                  Inl e \<Rightarrow> Inl e
                | Inr (m, k) \<Rightarrow> Inr (aead_seal C m k (nonce_bytes nonce) plaintext ad)))"

definition DecryptWithMode ::
  "crypto \<Rightarrow> CipherMode \<Rightarrow> bytes \<Rightarrow> u64 \<Rightarrow> bytes \<Rightarrow> bytes \<Rightarrow> noise_error + bytes" where
  "DecryptWithMode C mode key nonce ciphertext ad =
     (case NormalizeCipherMode mode of
        Inl e \<Rightarrow> Inl e
      | Inr mode \<Rightarrow>
          if mode = CipherModePlaintext then plain_open ciphertext
          else (case NewAEADWithMode mode key of
                  Inl e \<Rightarrow> Inl e
                | Inr (m, k) \<Rightarrow>
                    (case aead_open C m k (nonce_bytes nonce) ciphertext ad of
                       None \<Rightarrow> Inl AEADOpenFailed
                     | Some p \<Rightarrow> Inr p)))"

definition EncryptWithADMode ::
  "crypto \<Rightarrow> CipherMode \<Rightarrow> bytes \<Rightarrow> bytes \<Rightarrow> bytes \<Rightarrow> noise_error + bytes" where
  "EncryptWithADMode C mode key ad plaintext =
     (case EncryptWithMode C mode key 0 plaintext ad of Inl e \<Rightarrow> Inl Panic | Inr c \<Rightarrow> Inr c)"

definition DecryptWithADMode ::
  "crypto \<Rightarrow> CipherMode \<Rightarrow> bytes \<Rightarrow> bytes \<Rightarrow> bytes \<Rightarrow> noise_error + bytes" where
  "DecryptWithADMode C mode key ad ciphertext = DecryptWithMode C mode key 0 ciphertext ad"

section \<open>Keys and key pairs\<close>

definition Key_IsZero :: "bytes \<Rightarrow> bool" where
  "Key_IsZero k \<longleftrightarrow> k = zero_key"

definition Key_Equal :: "bytes \<Rightarrow> bytes \<Rightarrow> bool" where
  "Key_Equal k other =
     (foldl (\<lambda>result i. result OR (k ! i XOR other ! i)) 0 [0..<KeySize] = 0)"

record KeyPair =
  kp_Private :: bytes
  kp_Public :: bytes

definition x25519_basepoint :: bytes where
  "x25519_basepoint = 9 # replicate 31 0"

definition clamp :: "bytes \<Rightarrow> bytes" where
  "clamp privateKey =
     (let priv = privateKey;
          priv = priv[0 := priv ! 0 AND 248];
          priv = priv[31 := priv ! 31 AND 127]
      in priv[31 := priv ! 31 OR 64])"

definition NewKeyPair :: "crypto \<Rightarrow> bytes \<Rightarrow> noise_error + KeyPair" where
  "NewKeyPair C privateKey =
     (let priv = clamp privateKey
      in case x25519 C priv x25519_basepoint of
           None \<Rightarrow> Inl ErrDHFailed
         | Some pub \<Rightarrow> Inr \<lparr>kp_Private = priv, kp_Public = go_copy zero_key pub\<rparr>)"

text \<open>
  The random source is the list of bytes it still holds: \<^verbatim>\<open>io.ReadFull\<close> takes 32 of them or
  fails.
\<close>

definition GenerateKeyPairFrom :: "crypto \<Rightarrow> bytes \<Rightarrow> noise_error + (KeyPair \<times> bytes)" where
  "GenerateKeyPairFrom C random =
     (if length random < KeySize then Inl RandomFailed
      else case NewKeyPair C (take KeySize random) of
             Inl e \<Rightarrow> Inl e
           | Inr kp \<Rightarrow> Inr (kp, drop KeySize random))"

definition DH :: "crypto \<Rightarrow> KeyPair \<Rightarrow> bytes \<Rightarrow> noise_error + bytes" where
  "DH C kp peerPublic =
     (case x25519 C (kp_Private kp) peerPublic of
        None \<Rightarrow> Inl ErrDHFailed
      | Some shared \<Rightarrow>
          let result = go_copy zero_key shared
          in if Key_IsZero result then Inl ErrInvalidPublicKey else Inr result)"

section \<open>What the code relies on\<close>

definition crypto_laws :: "crypto \<Rightarrow> bool" where
  "crypto_laws C \<longleftrightarrow>
     (\<forall>d. length (blake2s_256 C d) = 32) \<and>
     (\<forall>m k n p ad. length k = 32 \<longrightarrow> length n = 12 \<longrightarrow>
        length (aead_seal C m k n p ad) = length p + 16
        \<and> aead_open C m k n (aead_seal C m k n p ad) ad = Some p) \<and>
     (\<forall>a b. length a = 32 \<longrightarrow> length b = 32 \<longrightarrow>
        (\<exists>A B s. x25519 C (clamp a) x25519_basepoint = Some A \<and> length A = 32
           \<and> x25519 C (clamp b) x25519_basepoint = Some B \<and> length B = 32
           \<and> x25519 C (clamp a) B = Some s \<and> x25519 C (clamp b) A = Some s
           \<and> length s = 32 \<and> s \<noteq> zero_key))"

text \<open>
  A concrete instance, so that the laws are seen to be satisfiable: bytewise disjunction for
  the group, truncation for the hash, and a 16-byte zero tag for both AEADs.
\<close>

definition toy_crypto :: crypto where
  "toy_crypto =
     \<lparr>x25519 = (\<lambda>k p. Some (map2 (OR) k p)),
      blake2s_256 = (\<lambda>d. take 32 (d @ replicate 32 0)),
      aead_seal = (\<lambda>m k n p ad. p @ replicate 16 0),
      aead_open = (\<lambda>m k n c ad. if length c < 16 then None else Some (take (length c - 16) c))\<rparr>"

lemma length_clamp [simp]: "length (clamp a) = length a"
  by (simp add: clamp_def Let_def)

lemma toy_shared:
  "length a = 32 \<Longrightarrow> length b = 32 \<Longrightarrow>
   map2 (OR) a (map2 (OR) b x25519_basepoint) = map2 (OR) b (map2 (OR) a x25519_basepoint)"
  by (rule nth_equalityI) (simp_all add: x25519_basepoint_def or.left_commute)

lemma toy_shared_nonzero:
  assumes "length a = 32" "length b = 32"
  shows "map2 (OR) a (map2 (OR) b x25519_basepoint) \<noteq> zero_key"
proof
  assume eq: "map2 (OR) a (map2 (OR) b x25519_basepoint) = zero_key"
  have "map2 (OR) a (map2 (OR) b x25519_basepoint) ! 0 = a ! 0 OR (b ! 0 OR 9)"
    using assms by (simp add: x25519_basepoint_def)
  moreover have "bit (a ! 0 OR (b ! 0 OR 9)) 0" by (simp add: bit_simps)
  ultimately show False by (simp add: eq zero_key_def KeySize_def)
qed

lemma toy_crypto_laws: "crypto_laws toy_crypto"
  unfolding crypto_laws_def
proof (intro conjI allI impI)
  fix a b :: bytes
  assume len: "length a = 32" "length b = 32"
  have "map2 (OR) (clamp b) (map2 (OR) (clamp a) x25519_basepoint)
      = map2 (OR) (clamp a) (map2 (OR) (clamp b) x25519_basepoint)"
    using len by (intro toy_shared) simp_all
  moreover have "map2 (OR) (clamp a) (map2 (OR) (clamp b) x25519_basepoint) \<noteq> zero_key"
    using len by (intro toy_shared_nonzero) simp_all
  ultimately show "\<exists>A B s. x25519 toy_crypto (clamp a) x25519_basepoint = Some A \<and> length A = 32
           \<and> x25519 toy_crypto (clamp b) x25519_basepoint = Some B \<and> length B = 32
           \<and> x25519 toy_crypto (clamp a) B = Some s \<and> x25519 toy_crypto (clamp b) A = Some s
           \<and> length s = 32 \<and> s \<noteq> zero_key"
    using len by (simp add: toy_crypto_def x25519_basepoint_def)
qed (auto simp: toy_crypto_def)

section \<open>Lemmas\<close>

lemma length_HMAC: "crypto_laws C \<Longrightarrow> length (HMAC C k d) = 32"
  by (simp add: HMAC_def Let_def crypto_laws_def)

lemma length_Hash: "crypto_laws C \<Longrightarrow> length (Hash C d) = 32"
  by (simp add: Hash_def crypto_laws_def)

lemma HKDF_2:
  "HKDF C ck input 2 =
     (let secret = HMAC C ck [input]; o0 = HMAC C secret [[0x01]]
      in Inr [o0, HMAC C secret [o0, [0x02]]])"
  by (simp add: HKDF_def Let_def)

lemma HKDF_panics: "HKDF C ck input n = Inl Panic \<longleftrightarrow> n < 1 \<or> 3 < n"
  by (simp add: HKDF_def Let_def)

lemma HKDF_count: "HKDF C ck input n = Inr ks \<Longrightarrow> int (length ks) = n"
  by (auto simp: HKDF_def Let_def split: if_splits)

lemma length_KDF2:
  "crypto_laws C \<Longrightarrow> length (fst (KDF2 C ck i)) = 32 \<and> length (snd (KDF2 C ck i)) = 32"
  by (simp add: KDF2_def HKDF_2 Let_def length_HMAC)

lemma Normalize_idem:
  "NormalizeCipherMode mode = Inr m \<Longrightarrow> NormalizeCipherMode m = Inr m"
  by (auto simp: NormalizeCipherMode_def mode_defs split: if_splits)

lemma Normalize_cases:
  "NormalizeCipherMode mode = Inr m \<Longrightarrow>
   m = CipherModeChaChaPoly \<or> m = CipherModeAES256GCM \<or> m = CipherModePlaintext"
  by (auto simp: NormalizeCipherMode_def split: if_splits)

lemma plain_open_seal [simp]: "plain_open (plain_seal p) = Inr p"
  by (simp add: plain_open_def plain_seal_def go_copy_def go_slice_def)

lemma length_plain_seal [simp]: "length (plain_seal p) = length p + 16"
  by (simp add: plain_seal_def TagSize_def)

lemma length_nonce_bytes [simp]: "length (nonce_bytes n) = 12"
  by (simp add: nonce_bytes_def)

lemma NewAEADWithMode_ok:
  "NormalizeCipherMode mode = Inr m \<Longrightarrow> m \<noteq> CipherModePlaintext \<Longrightarrow> length key = 32 \<Longrightarrow>
   NewAEADWithMode mode key = Inr (m, key)"
  using Normalize_cases [of mode m] by (auto simp: NewAEADWithMode_def)

lemma Encrypt_Decrypt_WithMode:
  assumes laws: "crypto_laws C" and mode: "NormalizeCipherMode mode = Inr m"
    and key: "length key = 32"
  shows "\<exists>c. EncryptWithMode C mode key n p ad = Inr c \<and> length c = length p + 16
     \<and> DecryptWithMode C mode key n c ad = Inr p"
proof (cases "m = CipherModePlaintext")
  case True
  then show ?thesis using mode by (simp add: EncryptWithMode_def DecryptWithMode_def)
next
  case False
  have "NewAEADWithMode m key = Inr (m, key)"
    using Normalize_idem [OF mode] False key by (rule NewAEADWithMode_ok)
  then show ?thesis using mode False key laws
    by (simp add: EncryptWithMode_def DecryptWithMode_def crypto_laws_def)
qed

lemma seal_open_AEAD:
  assumes laws: "crypto_laws C" and mode: "NormalizeCipherMode mode = Inr m"
    and aead: "m \<noteq> CipherModePlaintext \<Longrightarrow> \<exists>m' k. aead = Some (m', k) \<and> length k = 32"
  shows "\<exists>c. sealWithAEAD C mode aead n p ad = Inr c \<and> length c = length p + 16
     \<and> openWithAEAD C mode aead n c ad = Inr p"
proof (cases "m = CipherModePlaintext")
  case True
  then show ?thesis using mode by (simp add: sealWithAEAD_def openWithAEAD_def)
next
  case False
  then obtain m' k where "aead = Some (m', k)" "length k = 32" using aead by blast
  then show ?thesis using mode False laws
    by (simp add: sealWithAEAD_def openWithAEAD_def crypto_laws_def)
qed

text \<open>An honest key pair came out of \<^verbatim>\<open>NewKeyPair\<close>.\<close>

definition honest :: "crypto \<Rightarrow> KeyPair \<Rightarrow> bool" where
  "honest C kp \<longleftrightarrow> (\<exists>a. length a = 32 \<and> NewKeyPair C a = Inr kp)"

lemma honest_DH:
  assumes laws: "crypto_laws C" and "honest C p" "honest C q"
  shows "\<exists>s. DH C p (kp_Public q) = Inr s \<and> DH C q (kp_Public p) = Inr s \<and> length s = 32"
proof -
  from assms(2,3) obtain a b where ab: "length a = 32" "length b = 32"
    and kp: "NewKeyPair C a = Inr p" "NewKeyPair C b = Inr q"
    by (auto simp: honest_def)
  from laws ab obtain A B s where
    "x25519 C (clamp a) x25519_basepoint = Some A" "length A = 32"
    "x25519 C (clamp b) x25519_basepoint = Some B" "length B = 32"
    "x25519 C (clamp a) B = Some s" "x25519 C (clamp b) A = Some s" "length s = 32" "s \<noteq> zero_key"
    unfolding crypto_laws_def by blast
  with kp show ?thesis
    by (auto simp: NewKeyPair_def DH_def Let_def go_copy_same_length Key_IsZero_def)
qed

lemma honest_length: "crypto_laws C \<Longrightarrow> honest C p \<Longrightarrow> length (kp_Public p) = 32"
  by (auto simp: honest_def NewKeyPair_def Let_def split: option.splits)

lemma GenerateKeyPairFrom_ok:
  assumes laws: "crypto_laws C" and "32 \<le> length random"
  shows "\<exists>kp. GenerateKeyPairFrom C random = Inr (kp, drop 32 random) \<and> honest C kp"
proof -
  have len: "length (take 32 random) = 32" using assms(2) by simp
  with laws have "\<exists>A. x25519 C (clamp (take 32 random)) x25519_basepoint = Some A"
    unfolding crypto_laws_def by blast
  then obtain kp where "NewKeyPair C (take 32 random) = Inr kp"
    by (auto simp: NewKeyPair_def Let_def)
  with assms(2) len show ?thesis
    unfolding GenerateKeyPairFrom_def honest_def KeySize_def
    by (intro exI [of _ kp] conjI exI [of _ "take 32 random"]) simp_all
qed

text \<open>The constant-time comparison decides equality of keys.\<close>

lemma foldl_or_eq_0:
  "foldl (\<lambda>r i. r OR f i) (a :: u8) is = 0 \<longleftrightarrow> a = 0 \<and> (\<forall>i\<in>set is. f i = 0)"
  by (induction "is" arbitrary: a) (auto simp: or_eq_0_iff)

lemma xor_eq_0: "a XOR b = 0 \<longleftrightarrow> a = b" for a b :: u8
proof
  assume z: "a XOR b = 0"
  have "a = a XOR (b XOR b)" by simp
  also have "\<dots> = (a XOR b) XOR b" by (simp only: xor.assoc)
  finally show "a = b" by (simp add: z)
qed simp

lemma Key_Equal_iff: "length k = 32 \<Longrightarrow> length k' = 32 \<Longrightarrow> Key_Equal k k' \<longleftrightarrow> k = k'"
  by (auto simp: Key_Equal_def foldl_or_eq_0 KeySize_def xor_eq_0 intro: nth_equalityI)

end
