(* ===== verification/NoiseHandshake.thy ===== *)
theory NoiseHandshake
  imports NoiseCipher
begin

text \<open>
  The Noise handshake of \<^verbatim>\<open>pkgs/giznet/internal/noise/state.go\<close> and
  \<^verbatim>\<open>handshake.go\<close>: cipher states, the symmetric state, and the token interpreter of
  \<^verbatim>\<open>WriteMessage\<close> and \<^verbatim>\<open>ReadMessage\<close>. A method with a pointer receiver takes the state and
  returns it updated, also when it fails: the Go methods mutate the state before they return
  an error.
\<close>

section \<open>Cipher states\<close>

record CipherState =
  cs_key :: bytes
  cs_nonce :: u64
  cs_mode :: CipherMode
  cs_aead :: "aead option"

definition NewCipherStateWithMode :: "CipherMode \<Rightarrow> bytes \<Rightarrow> noise_error + CipherState" where
  "NewCipherStateWithMode mode key =
     (case NormalizeCipherMode mode of
        Inl e \<Rightarrow> Inl e
      | Inr mode \<Rightarrow>
          if mode = CipherModePlaintext
          then Inr \<lparr>cs_key = key, cs_nonce = 0, cs_mode = mode, cs_aead = None\<rparr>
          else (case NewAEADWithMode mode key of
                  Inl e \<Rightarrow> Inl e
                | Inr aead \<Rightarrow>
                    Inr \<lparr>cs_key = key, cs_nonce = 0, cs_mode = mode, cs_aead = Some aead\<rparr>))"

definition NewCipherState :: "bytes \<Rightarrow> noise_error + CipherState" where
  "NewCipherState key = NewCipherStateWithMode CipherModeChaChaPoly key"

definition CipherState_Encrypt ::
  "crypto \<Rightarrow> CipherState \<Rightarrow> bytes \<Rightarrow> bytes \<Rightarrow> (noise_error + bytes) \<times> CipherState" where
  "CipherState_Encrypt C cs plaintext ad =
     (let r = sealWithAEAD C (cs_mode cs) (cs_aead cs) (cs_nonce cs) plaintext ad;
          cs = cs\<lparr>cs_nonce := cs_nonce cs + 1\<rparr>
      in case r of Inl e \<Rightarrow> (Inl Panic, cs) | Inr c \<Rightarrow> (Inr c, cs))"

definition CipherState_Decrypt ::
  "crypto \<Rightarrow> CipherState \<Rightarrow> bytes \<Rightarrow> bytes \<Rightarrow> (noise_error + bytes) \<times> CipherState" where
  "CipherState_Decrypt C cs ciphertext ad =
     (openWithAEAD C (cs_mode cs) (cs_aead cs) (cs_nonce cs) ciphertext ad,
      cs\<lparr>cs_nonce := cs_nonce cs + 1\<rparr>)"

definition DecryptWithNonce ::
  "crypto \<Rightarrow> CipherState \<Rightarrow> bytes \<Rightarrow> bytes \<Rightarrow> u64 \<Rightarrow> noise_error + bytes" where
  "DecryptWithNonce C cs ciphertext ad nonce =
     openWithAEAD C (cs_mode cs) (cs_aead cs) nonce ciphertext ad"

section \<open>The symmetric state\<close>

record SymmetricState =
  ss_chainingKey :: bytes
  ss_hash :: bytes
  ss_cipherMode :: CipherMode

definition str_bytes :: "string \<Rightarrow> bytes" where
  "str_bytes s = map of_char s"

definition initProtocolName :: "crypto \<Rightarrow> string \<Rightarrow> SymmetricState \<Rightarrow> SymmetricState" where
  "initProtocolName C protocolName ss =
     (let ck = (if length protocolName \<le> HashSize then go_copy zero_key (str_bytes protocolName)
                else Hash C [str_bytes protocolName])
      in ss\<lparr>ss_chainingKey := ck, ss_hash := ck\<rparr>)"

definition NewSymmetricState :: "crypto \<Rightarrow> string \<Rightarrow> SymmetricState" where
  "NewSymmetricState C protocolName =
     initProtocolName C protocolName
       \<lparr>ss_chainingKey = zero_key, ss_hash = zero_key,
        ss_cipherMode = CipherModeFromProtocolName protocolName\<rparr>"

definition NewSymmetricStateWithMode ::
  "crypto \<Rightarrow> string \<Rightarrow> CipherMode \<Rightarrow> noise_error + SymmetricState" where
  "NewSymmetricStateWithMode C patternName mode =
     (case NormalizeCipherMode mode of
        Inl e \<Rightarrow> Inl e
      | Inr mode \<Rightarrow>
          (case ProtocolName patternName mode of
             Inl e \<Rightarrow> Inl e
           | Inr protocolName \<Rightarrow>
               Inr (initProtocolName C protocolName
                 \<lparr>ss_chainingKey = zero_key, ss_hash = zero_key, ss_cipherMode = mode\<rparr>)))"

definition MixKey :: "crypto \<Rightarrow> bytes \<Rightarrow> SymmetricState \<Rightarrow> bytes \<times> SymmetricState" where
  "MixKey C input ss =
     (let (newCK, k) = KDF2 C (ss_chainingKey ss) input in (k, ss\<lparr>ss_chainingKey := newCK\<rparr>))"

definition MixHash :: "crypto \<Rightarrow> bytes \<Rightarrow> SymmetricState \<Rightarrow> SymmetricState" where
  "MixHash C data ss = ss\<lparr>ss_hash := Hash C [ss_hash ss, data]\<rparr>"

definition MixKeyAndHash :: "crypto \<Rightarrow> bytes \<Rightarrow> SymmetricState \<Rightarrow> bytes \<times> SymmetricState" where
  "MixKeyAndHash C input ss =
     (let (ck, temp, k) = KDF3 C (ss_chainingKey ss) input
      in (k, MixHash C temp (ss\<lparr>ss_chainingKey := ck\<rparr>)))"

definition EncryptAndHash ::
  "crypto \<Rightarrow> bytes \<Rightarrow> bytes \<Rightarrow> SymmetricState \<Rightarrow> noise_error + (bytes \<times> SymmetricState)" where
  "EncryptAndHash C key plaintext ss =
     (case EncryptWithADMode C (ss_cipherMode ss) key (ss_hash ss) plaintext of
        Inl e \<Rightarrow> Inl e
      | Inr ciphertext \<Rightarrow> Inr (ciphertext, MixHash C ciphertext ss))"

definition DecryptAndHash ::
  "crypto \<Rightarrow> bytes \<Rightarrow> bytes \<Rightarrow> SymmetricState \<Rightarrow> noise_error + (bytes \<times> SymmetricState)" where
  "DecryptAndHash C key ciphertext ss =
     (case DecryptWithADMode C (ss_cipherMode ss) key (ss_hash ss) ciphertext of
        Inl e \<Rightarrow> Inl e
      | Inr plaintext \<Rightarrow> Inr (plaintext, MixHash C ciphertext ss))"

definition SymmetricState_Split ::
  "crypto \<Rightarrow> SymmetricState \<Rightarrow> noise_error + (CipherState \<times> CipherState)" where
  "SymmetricState_Split C ss =
     (case HKDF C (ss_chainingKey ss) [] 2 of
        Inl e \<Rightarrow> Inl e
      | Inr keys \<Rightarrow>
          (case NewCipherStateWithMode (ss_cipherMode ss) (keys ! 0) of
             Inl e \<Rightarrow> Inl e
           | Inr cs1 \<Rightarrow>
               (case NewCipherStateWithMode (ss_cipherMode ss) (keys ! 1) of
                  Inl e \<Rightarrow> Inl e
                | Inr cs2 \<Rightarrow> Inr (cs1, cs2))))"

section \<open>Patterns and configuration\<close>

definition tokenE :: string where "tokenE = ''e''"
definition tokenS :: string where "tokenS = ''s''"
definition tokenEE :: string where "tokenEE = ''ee''"
definition tokenES :: string where "tokenES = ''es''"
definition tokenSE :: string where "tokenSE = ''se''"
definition tokenSS :: string where "tokenSS = ''ss''"

lemmas token_defs = tokenE_def tokenS_def tokenEE_def tokenES_def tokenSE_def tokenSS_def

record Pattern =
  pat_Name :: string
  pat_InitiatorPreMsg :: "string list"
  pat_ResponderPreMsg :: "string list"
  pat_MessagePatterns :: "string list list"

definition PatternIK :: Pattern where
  "PatternIK = \<lparr>pat_Name = ''IK'', pat_InitiatorPreMsg = [], pat_ResponderPreMsg = [tokenS],
     pat_MessagePatterns = [[tokenE, tokenES, tokenS, tokenSS], [tokenE, tokenEE, tokenSE]]\<rparr>"

definition PatternXX :: Pattern where
  "PatternXX = \<lparr>pat_Name = ''XX'', pat_InitiatorPreMsg = [], pat_ResponderPreMsg = [],
     pat_MessagePatterns = [[tokenE], [tokenE, tokenEE, tokenS, tokenES], [tokenS, tokenSE]]\<rparr>"

definition PatternNN :: Pattern where
  "PatternNN = \<lparr>pat_Name = ''NN'', pat_InitiatorPreMsg = [], pat_ResponderPreMsg = [],
     pat_MessagePatterns = [[tokenE], [tokenE, tokenEE]]\<rparr>"

record Config =
  cfg_Pattern :: Pattern
  cfg_Initiator :: bool
  cfg_LocalStatic :: "KeyPair option"
  cfg_RemoteStatic :: "bytes option"
  cfg_Prologue :: bytes
  cfg_PresharedKey :: "bytes option"
  cfg_CipherMode :: CipherMode

record HandshakeState =
  hs_config :: Config
  hs_ss :: SymmetricState
  hs_localEphemeral :: "KeyPair option"
  hs_remoteEphemeral :: bytes
  hs_remoteStatic :: bytes
  hs_msgIndex :: nat
  hs_finished :: bool

definition validateConfig :: "Config \<Rightarrow> noise_error option" where
  "validateConfig config =
     (let pattern = cfg_Pattern config;
          needsLocalStatic = list_ex (list_ex (\<lambda>token. token = tokenS \<or> token = tokenSS
            \<or> token = tokenSE \<or> token = tokenES)) (pat_MessagePatterns pattern)
      in if needsLocalStatic \<and> cfg_LocalStatic config = None then Some ErrMissingLocalStatic
         else if pat_Name pattern = ''IK'' \<and> cfg_Initiator config \<and> cfg_RemoteStatic config = None
           then Some ErrMissingRemoteStatic
         else None)"

text \<open>The two pre-message loops: the peer's tokens mix its known static key, our own mix ours.\<close>

fun premsg_remote :: "crypto \<Rightarrow> string list \<Rightarrow> HandshakeState \<Rightarrow> noise_error + HandshakeState" where
  "premsg_remote C [] hs = Inr hs"
| "premsg_remote C (token # tokens) hs =
     (if token = tokenS then
        (case cfg_RemoteStatic (hs_config hs) of
           None \<Rightarrow> Inl ErrMissingRemoteStatic
         | Some k \<Rightarrow> premsg_remote C tokens
             (hs\<lparr>hs_ss := MixHash C k (hs_ss hs), hs_remoteStatic := k\<rparr>))
      else premsg_remote C tokens hs)"

fun premsg_local :: "crypto \<Rightarrow> string list \<Rightarrow> HandshakeState \<Rightarrow> noise_error + HandshakeState" where
  "premsg_local C [] hs = Inr hs"
| "premsg_local C (token # tokens) hs =
     (if token = tokenS then
        (case cfg_LocalStatic (hs_config hs) of
           None \<Rightarrow> Inl Panic
         | Some kp \<Rightarrow> premsg_local C tokens (hs\<lparr>hs_ss := MixHash C (kp_Public kp) (hs_ss hs)\<rparr>))
      else premsg_local C tokens hs)"

definition NewHandshakeState :: "crypto \<Rightarrow> Config \<Rightarrow> noise_error + HandshakeState" where
  "NewHandshakeState C config =
     (case validateConfig config of
        Some e \<Rightarrow> Inl e
      | None \<Rightarrow>
        (case NormalizeCipherMode (cfg_CipherMode config) of
           Inl e \<Rightarrow> Inl e
         | Inr mode \<Rightarrow>
           let config = config\<lparr>cfg_CipherMode := mode\<rparr>; pattern = cfg_Pattern config in
           (case NewSymmetricStateWithMode C (pat_Name pattern) mode of
              Inl e \<Rightarrow> Inl e
            | Inr ss \<Rightarrow>
              let hs = \<lparr>hs_config = config, hs_ss = MixHash C (cfg_Prologue config) ss,
                        hs_localEphemeral = None, hs_remoteEphemeral = zero_key,
                        hs_remoteStatic = zero_key, hs_msgIndex = 0, hs_finished = False\<rparr>
              in if cfg_Initiator config then
                   (case premsg_remote C (pat_ResponderPreMsg pattern) hs of
                      Inl e \<Rightarrow> Inl e
                    | Inr hs \<Rightarrow> premsg_local C (pat_InitiatorPreMsg pattern) hs)
                 else
                   (case premsg_remote C (pat_InitiatorPreMsg pattern) hs of
                      Inl e \<Rightarrow> Inl e
                    | Inr hs \<Rightarrow> premsg_local C (pat_ResponderPreMsg pattern) hs))))"

section \<open>Messages\<close>

text \<open>
  The four Diffie-Hellman tokens are handled alike by the writer and the reader. A nil key pair
  is dereferenced by \<^verbatim>\<open>DH\<close>, which panics.
\<close>

definition pair_DH :: "crypto \<Rightarrow> KeyPair option \<Rightarrow> bytes \<Rightarrow> noise_error + bytes" where
  "pair_DH C kp peerPublic = (case kp of None \<Rightarrow> Inl Panic | Some kp \<Rightarrow> DH C kp peerPublic)"

definition dh_shared :: "crypto \<Rightarrow> HandshakeState \<Rightarrow> string \<Rightarrow> noise_error + bytes" where
  "dh_shared C hs token =
     (let e = hs_localEphemeral hs; s = cfg_LocalStatic (hs_config hs);
          re = hs_remoteEphemeral hs; rs = hs_remoteStatic hs in
      if token = tokenEE then pair_DH C e re
      else if token = tokenES then
        (if cfg_Initiator (hs_config hs) then pair_DH C e rs else pair_DH C s re)
      else if token = tokenSE then
        (if cfg_Initiator (hs_config hs) then pair_DH C s re else pair_DH C e rs)
      else pair_DH C s rs)"

definition is_dh_token :: "string \<Rightarrow> bool" where
  "is_dh_token token \<longleftrightarrow> token = tokenEE \<or> token = tokenES \<or> token = tokenSE \<or> token = tokenSS"

definition dh_token :: "crypto \<Rightarrow> HandshakeState \<Rightarrow> string \<Rightarrow> noise_error option \<times> HandshakeState" where
  "dh_token C hs token =
     (case dh_shared C hs token of
        Inl e \<Rightarrow> (Some e, hs)
      | Inr shared \<Rightarrow> (None, hs\<lparr>hs_ss := snd (MixKey C shared (hs_ss hs))\<rparr>))"

text \<open>The writer's loop carries the state, the message built so far and the random source.\<close>

type_synonym writer = "HandshakeState \<times> bytes \<times> bytes"

definition write_token :: "crypto \<Rightarrow> string \<Rightarrow> writer \<Rightarrow> noise_error option \<times> writer" where
  "write_token C token w =
     (case w of (hs, msg, random) \<Rightarrow>
      if token = tokenE then
        (case GenerateKeyPairFrom C random of
           Inl e \<Rightarrow> (Some e, (hs\<lparr>hs_localEphemeral := None\<rparr>, msg, random))
         | Inr (kp, random) \<Rightarrow>
             let hs = hs\<lparr>hs_localEphemeral := Some kp, hs_ss := MixHash C (kp_Public kp) (hs_ss hs)\<rparr>;
                 hs = (if cfg_PresharedKey (hs_config hs) \<noteq> None
                       then hs\<lparr>hs_ss := snd (MixKey C (kp_Public kp) (hs_ss hs))\<rparr> else hs)
             in (None, (hs, msg @ kp_Public kp, random)))
      else if token = tokenS then
        (case MixKey C [] (hs_ss hs) of (k, ss) \<Rightarrow>
           let hs = hs\<lparr>hs_ss := ss\<rparr> in
           (case cfg_LocalStatic (hs_config hs) of
              None \<Rightarrow> (Some Panic, (hs, msg, random))
            | Some kp \<Rightarrow>
                (case EncryptAndHash C k (kp_Public kp) ss of
                   Inl e \<Rightarrow> (Some e, (hs, msg, random))
                 | Inr (encrypted, ss) \<Rightarrow> (None, (hs\<lparr>hs_ss := ss\<rparr>, msg @ encrypted, random)))))
      else if is_dh_token token then
        (case dh_token C hs token of (err, hs) \<Rightarrow> (err, (hs, msg, random)))
      else (None, w))"

fun write_tokens :: "crypto \<Rightarrow> string list \<Rightarrow> writer \<Rightarrow> noise_error option \<times> writer" where
  "write_tokens C [] w = (None, w)"
| "write_tokens C (token # tokens) w =
     (case write_token C token w of
        (Some e, w) \<Rightarrow> (Some e, w)
      | (None, w) \<Rightarrow> write_tokens C tokens w)"

definition my_turn :: "HandshakeState \<Rightarrow> bool" where
  "my_turn hs \<longleftrightarrow> (cfg_Initiator (hs_config hs) \<and> hs_msgIndex hs mod 2 = 0)
     \<or> (\<not> cfg_Initiator (hs_config hs) \<and> hs_msgIndex hs mod 2 = 1)"

definition hs_messages :: "HandshakeState \<Rightarrow> string list list" where
  "hs_messages hs = pat_MessagePatterns (cfg_Pattern (hs_config hs))"

definition next_message :: "HandshakeState \<Rightarrow> HandshakeState" where
  "next_message hs =
     (let hs = hs\<lparr>hs_msgIndex := hs_msgIndex hs + 1\<rparr>
      in if length (hs_messages hs) \<le> hs_msgIndex hs then hs\<lparr>hs_finished := True\<rparr> else hs)"

definition WriteMessage ::
  "crypto \<Rightarrow> HandshakeState \<Rightarrow> bytes \<Rightarrow> bytes \<Rightarrow> (noise_error + bytes) \<times> HandshakeState \<times> bytes" where
  "WriteMessage C hs payload random =
     (if hs_finished hs then (Inl ErrHandshakeFinished, hs, random)
      else if \<not> my_turn hs then (Inl (NotOurTurn (hs_msgIndex hs)), hs, random)
      else if length (hs_messages hs) \<le> hs_msgIndex hs then (Inl ErrHandshakeFinished, hs, random)
      else
        (case write_tokens C (hs_messages hs ! hs_msgIndex hs) (hs, [], random) of
           (Some e, (hs, msg, random)) \<Rightarrow> (Inl e, hs, random)
         | (None, (hs, msg, random)) \<Rightarrow>
             if payload \<noteq> [] \<or> hs_msgIndex hs = length (hs_messages hs) - 1 then
               (case MixKey C [] (hs_ss hs) of (k, ss) \<Rightarrow>
                  (case EncryptAndHash C k payload ss of
                     Inl e \<Rightarrow> (Inl e, hs\<lparr>hs_ss := ss\<rparr>, random)
                   | Inr (encrypted, ss) \<Rightarrow>
                       (Inr (msg @ encrypted), next_message (hs\<lparr>hs_ss := ss\<rparr>), random)))
             else (Inr msg, next_message hs, random)))"

text \<open>The reader's loop carries the state and the offset; the message is fixed.\<close>

type_synonym reader = "HandshakeState \<times> nat"

definition read_token :: "crypto \<Rightarrow> bytes \<Rightarrow> string \<Rightarrow> reader \<Rightarrow> noise_error option \<times> reader" where
  "read_token C msg token r =
     (case r of (hs, offset) \<Rightarrow>
      if token = tokenE then
        if length msg < offset + KeySize then (Some ErrInvalidMessage, (hs, offset))
        else
          let re = go_copy (hs_remoteEphemeral hs) (go_slice msg offset (offset + KeySize));
              hs = hs\<lparr>hs_remoteEphemeral := re, hs_ss := MixHash C re (hs_ss hs)\<rparr>;
              hs = (if cfg_PresharedKey (hs_config hs) \<noteq> None
                    then hs\<lparr>hs_ss := snd (MixKey C re (hs_ss hs))\<rparr> else hs)
          in (None, (hs, offset + KeySize))
      else if token = tokenS then
        (case MixKey C [] (hs_ss hs) of (k, ss) \<Rightarrow>
           let hs = hs\<lparr>hs_ss := ss\<rparr>; encryptedLen = KeySize + TagSize in
           if length msg < offset + encryptedLen then (Some ErrInvalidMessage, (hs, offset))
           else
             (case DecryptAndHash C k (go_slice msg offset (offset + encryptedLen)) ss of
                Inl e \<Rightarrow> (Some e, (hs, offset))
              | Inr (decrypted, ss) \<Rightarrow>
                  (None, (hs\<lparr>hs_ss := ss, hs_remoteStatic := go_copy (hs_remoteStatic hs) decrypted\<rparr>,
                          offset + encryptedLen))))
      else if is_dh_token token then
        (case dh_token C hs token of (err, hs) \<Rightarrow> (err, (hs, offset)))
      else (None, r))"

fun read_tokens :: "crypto \<Rightarrow> bytes \<Rightarrow> string list \<Rightarrow> reader \<Rightarrow> noise_error option \<times> reader" where
  "read_tokens C msg [] r = (None, r)"
| "read_tokens C msg (token # tokens) r =
     (case read_token C msg token r of
        (Some e, r) \<Rightarrow> (Some e, r)
      | (None, r) \<Rightarrow> read_tokens C msg tokens r)"

definition ReadMessage ::
  "crypto \<Rightarrow> HandshakeState \<Rightarrow> bytes \<Rightarrow> (noise_error + bytes) \<times> HandshakeState" where
  "ReadMessage C hs msg =
     (if hs_finished hs then (Inl ErrHandshakeFinished, hs)
      else if my_turn hs then (Inl (NotPeersTurn (hs_msgIndex hs)), hs)
      else if length (hs_messages hs) \<le> hs_msgIndex hs then (Inl ErrHandshakeFinished, hs)
      else
        (case read_tokens C msg (hs_messages hs ! hs_msgIndex hs) (hs, 0) of
           (Some e, (hs, offset)) \<Rightarrow> (Inl e, hs)
         | (None, (hs, offset)) \<Rightarrow>
             if offset < length msg then
               (case MixKey C [] (hs_ss hs) of (k, ss) \<Rightarrow>
                  (case DecryptAndHash C k (drop offset msg) ss of
                     Inl e \<Rightarrow> (Inl e, hs\<lparr>hs_ss := ss\<rparr>)
                   | Inr (payload, ss) \<Rightarrow> (Inr payload, next_message (hs\<lparr>hs_ss := ss\<rparr>))))
             else (Inr [], next_message hs)))"

definition HandshakeState_Split ::
  "crypto \<Rightarrow> HandshakeState \<Rightarrow> noise_error + (CipherState \<times> CipherState)" where
  "HandshakeState_Split C hs =
     (if \<not> hs_finished hs then Inl ErrHandshakeNotReady
      else case SymmetricState_Split C (hs_ss hs) of
             Inl e \<Rightarrow> Inl e
           | Inr (cs1, cs2) \<Rightarrow> if cfg_Initiator (hs_config hs) then Inr (cs1, cs2) else Inr (cs2, cs1))"

definition LocalEphemeral :: "HandshakeState \<Rightarrow> bytes" where
  "LocalEphemeral hs =
     (case hs_localEphemeral hs of None \<Rightarrow> zero_key | Some kp \<Rightarrow> kp_Public kp)"

end
