(* ===== verification/NoiseAgreement.thy ===== *)
theory NoiseAgreement
  imports NoiseHandshake
begin

text \<open>
  Two handshake states that talk to each other stay in step. The proof follows the token
  interpreter: one token at a time the writer's and the reader's symmetric states remain
  equal, and each side knows the public keys the other has sent. The known keys are a list of
  pairs: the sender's role (\<open>True\<close> for the initiator) and the kind of key. It covers every
  pattern whose tokens only use keys that were sent before (\<open>pattern_ok\<close>).
\<close>

section \<open>Well-formed patterns\<close>

type_synonym known = "(bool \<times> string) list"

definition learn :: "bool \<Rightarrow> string \<Rightarrow> known \<Rightarrow> known" where
  "learn i t known =
     (if t = tokenE \<or> t = tokenS then (i, t) # known else known)"

definition token_ok :: "string \<Rightarrow> known \<Rightarrow> bool" where
  "token_ok t known \<longleftrightarrow>
     (if t = tokenEE then (True, tokenE) \<in> set known \<and> (False, tokenE) \<in> set known
      else if t = tokenES then (True, tokenE) \<in> set known \<and> (False, tokenS) \<in> set known
      else if t = tokenSE then (True, tokenS) \<in> set known \<and> (False, tokenE) \<in> set known
      else if t = tokenSS then (True, tokenS) \<in> set known \<and> (False, tokenS) \<in> set known
      else True)"

fun tokens_ok :: "bool \<Rightarrow> string list \<Rightarrow> known \<Rightarrow> bool" where
  "tokens_ok i [] known = True"
| "tokens_ok i (t # ts) known = (token_ok t known \<and> tokens_ok i ts (learn i t known))"

definition learn_all :: "bool \<Rightarrow> string list \<Rightarrow> known \<Rightarrow> known" where
  "learn_all i ts known = fold (learn i) ts known"

fun messages_ok :: "bool \<Rightarrow> string list list \<Rightarrow> known \<Rightarrow> bool" where
  "messages_ok i [] known = True"
| "messages_ok i (m # ms) known =
     (tokens_ok i m known \<and> messages_ok (\<not> i) ms (learn_all i m known))"

definition premsg_known :: "Pattern \<Rightarrow> known" where
  "premsg_known p =
     (if tokenS \<in> set (pat_InitiatorPreMsg p) then [(True, tokenS)] else [])
     @ (if tokenS \<in> set (pat_ResponderPreMsg p) then [(False, tokenS)] else [])"

text \<open>
  At most one side may have a pre-message: with two, the initiator mixes the responder's key
  first and the responder mixes the initiator's key first, and the transcripts differ.
\<close>

definition pattern_ok :: "Pattern \<Rightarrow> bool" where
  "pattern_ok p \<longleftrightarrow>
     pat_MessagePatterns p \<noteq> []
     \<and> \<not> (tokenS \<in> set (pat_InitiatorPreMsg p) \<and> tokenS \<in> set (pat_ResponderPreMsg p))
     \<and> messages_ok True (pat_MessagePatterns p) (premsg_known p)"

lemma patterns_ok: "pattern_ok PatternIK" "pattern_ok PatternXX" "pattern_ok PatternNN"
  by (simp_all add: pattern_ok_def PatternIK_def PatternXX_def PatternNN_def premsg_known_def
      token_defs token_ok_def learn_def learn_all_def)

section \<open>States in step\<close>

definition knows :: "crypto \<Rightarrow> known \<Rightarrow> HandshakeState \<Rightarrow> HandshakeState \<Rightarrow> bool" where
  "knows C known a b \<longleftrightarrow>
     ((cfg_Initiator (hs_config a), tokenE) \<in> set known \<longrightarrow>
        (\<exists>kp. hs_localEphemeral a = Some kp \<and> honest C kp \<and> hs_remoteEphemeral b = kp_Public kp)) \<and>
     ((cfg_Initiator (hs_config a), tokenS) \<in> set known \<longrightarrow>
        (\<exists>kp. cfg_LocalStatic (hs_config a) = Some kp \<and> honest C kp
           \<and> hs_remoteStatic b = kp_Public kp))"

definition sized :: "HandshakeState \<Rightarrow> bool" where
  "sized a \<longleftrightarrow> length (hs_remoteEphemeral a) = 32 \<and> length (hs_remoteStatic a) = 32"

definition needs_static :: "HandshakeState \<Rightarrow> bool" where
  "needs_static a \<longleftrightarrow> (tokenS \<in> set (concat (hs_messages a)) \<longrightarrow> cfg_LocalStatic (hs_config a) \<noteq> None)"

definition honest_static :: "crypto \<Rightarrow> HandshakeState \<Rightarrow> bool" where
  "honest_static C a \<longleftrightarrow> (\<forall>kp. cfg_LocalStatic (hs_config a) = Some kp \<longrightarrow> honest C kp)"

definition fits :: "crypto \<Rightarrow> HandshakeState \<Rightarrow> bool" where
  "fits C a \<longleftrightarrow> sized a \<and> needs_static a \<and> honest_static C a"

lemmas fits_defs = fits_def sized_def needs_static_def honest_static_def

definition mode_ok :: "CipherMode \<Rightarrow> bool" where
  "mode_ok m \<longleftrightarrow> (\<exists>n. NormalizeCipherMode m = Inr n)"

lemma mode_okE: "mode_ok m \<Longrightarrow> (\<And>n. NormalizeCipherMode m = Inr n \<Longrightarrow> P) \<Longrightarrow> P"
  by (auto simp: mode_ok_def)

definition in_step :: "crypto \<Rightarrow> known \<Rightarrow> HandshakeState \<Rightarrow> HandshakeState \<Rightarrow> bool" where
  "in_step C known a b \<longleftrightarrow>
     hs_ss a = hs_ss b \<and>
     mode_ok (ss_cipherMode (hs_ss b)) \<and>
     hs_msgIndex a = hs_msgIndex b \<and> hs_finished a = hs_finished b \<and>
     hs_messages a = hs_messages b \<and>
     cfg_Initiator (hs_config a) = (\<not> cfg_Initiator (hs_config b)) \<and>
     (cfg_PresharedKey (hs_config a) = None \<longleftrightarrow> cfg_PresharedKey (hs_config b) = None) \<and>
     fits C a \<and> fits C b \<and> knows C known a b \<and> knows C known b a"

lemma in_step_sym: "in_step C known a b \<longleftrightarrow> in_step C known b a"
  by (auto simp: in_step_def)

lemma hs_messages_simps [simp]:
  "hs_messages (hs\<lparr>hs_ss := x\<rparr>) = hs_messages hs"
  "hs_messages (hs\<lparr>hs_localEphemeral := y\<rparr>) = hs_messages hs"
  "hs_messages (hs\<lparr>hs_remoteEphemeral := z\<rparr>) = hs_messages hs"
  "hs_messages (hs\<lparr>hs_remoteStatic := z\<rparr>) = hs_messages hs"
  "hs_messages (hs\<lparr>hs_msgIndex := n\<rparr>) = hs_messages hs"
  "hs_messages (hs\<lparr>hs_finished := b\<rparr>) = hs_messages hs"
  by (simp_all add: hs_messages_def)

lemma MixKey_mode [simp]: "ss_cipherMode (snd (MixKey C i ss)) = ss_cipherMode ss"
  by (simp add: MixKey_def split_beta Let_def)

lemma MixHash_mode [simp]: "ss_cipherMode (MixHash C d ss) = ss_cipherMode ss"
  by (simp add: MixHash_def)

lemma length_MixKey: "crypto_laws C \<Longrightarrow> length (fst (MixKey C i ss)) = 32"
  by (simp add: MixKey_def split_beta Let_def length_KDF2)

lemma Encrypt_Decrypt_AndHash:
  assumes "crypto_laws C" "NormalizeCipherMode (ss_cipherMode ss) = Inr m" "length key = 32"
  shows "\<exists>c. EncryptAndHash C key p ss = Inr (c, MixHash C c ss) \<and> length c = length p + 16
     \<and> DecryptAndHash C key c ss = Inr (p, MixHash C c ss)"
  using Encrypt_Decrypt_WithMode [OF assms, of 0 p "ss_hash ss"]
  by (auto simp: EncryptAndHash_def DecryptAndHash_def EncryptWithADMode_def DecryptWithADMode_def)

text \<open>A Diffie-Hellman token over known keys gives both sides the same secret.\<close>

lemma pair_DH_agree:
  assumes "crypto_laws C"
    and "xa = Some p" "honest C p" "yb = kp_Public p"
    and "xb = Some q" "honest C q" "ya = kp_Public q"
  shows "\<exists>s. pair_DH C xa ya = Inr s \<and> pair_DH C xb yb = Inr s"
  using honest_DH [OF assms(1,3,6)] assms by (auto simp: pair_DH_def)

lemma knows_E:
  "knows C known a b \<Longrightarrow> (cfg_Initiator (hs_config a), tokenE) \<in> set known \<Longrightarrow>
   \<exists>kp. hs_localEphemeral a = Some kp \<and> honest C kp \<and> hs_remoteEphemeral b = kp_Public kp"
  by (simp add: knows_def)

lemma knows_S:
  "knows C known a b \<Longrightarrow> (cfg_Initiator (hs_config a), tokenS) \<in> set known \<Longrightarrow>
   \<exists>kp. cfg_LocalStatic (hs_config a) = Some kp \<and> honest C kp \<and> hs_remoteStatic b = kp_Public kp"
  by (simp add: knows_def)

lemma dh_shared_cases:
  "dh_shared C hs tokenEE = pair_DH C (hs_localEphemeral hs) (hs_remoteEphemeral hs)"
  "dh_shared C hs tokenES = (if cfg_Initiator (hs_config hs)
     then pair_DH C (hs_localEphemeral hs) (hs_remoteStatic hs)
     else pair_DH C (cfg_LocalStatic (hs_config hs)) (hs_remoteEphemeral hs))"
  "dh_shared C hs tokenSE = (if cfg_Initiator (hs_config hs)
     then pair_DH C (cfg_LocalStatic (hs_config hs)) (hs_remoteEphemeral hs)
     else pair_DH C (hs_localEphemeral hs) (hs_remoteStatic hs))"
  "dh_shared C hs tokenSS = pair_DH C (cfg_LocalStatic (hs_config hs)) (hs_remoteStatic hs)"
  by (simp_all add: dh_shared_def Let_def token_defs)

lemma token_ok_cases:
  "token_ok tokenEE known \<longleftrightarrow> (True, tokenE) \<in> set known \<and> (False, tokenE) \<in> set known"
  "token_ok tokenES known \<longleftrightarrow> (True, tokenE) \<in> set known \<and> (False, tokenS) \<in> set known"
  "token_ok tokenSE known \<longleftrightarrow> (True, tokenS) \<in> set known \<and> (False, tokenE) \<in> set known"
  "token_ok tokenSS known \<longleftrightarrow> (True, tokenS) \<in> set known \<and> (False, tokenS) \<in> set known"
  by (simp_all add: token_ok_def token_defs)

text \<open>Stated for the initiator and the responder; who writes does not matter.\<close>

lemma dh_shared_roles:
  assumes laws: "crypto_laws C" and k: "knows C known i r" "knows C known r i"
    and role: "cfg_Initiator (hs_config i)" "\<not> cfg_Initiator (hs_config r)"
    and dh: "is_dh_token t" and ok: "token_ok t known"
  shows "\<exists>s. dh_shared C i t = Inr s \<and> dh_shared C r t = Inr s"
proof -
  note eI = knows_E [OF k(1)] and sI = knows_S [OF k(1)]
    and eR = knows_E [OF k(2)] and sR = knows_S [OF k(2)]
  consider "t = tokenEE" | "t = tokenES" | "t = tokenSE" | "t = tokenSS"
    using dh by (auto simp: is_dh_token_def)
  then show ?thesis
  proof cases
    case 1
    then obtain p q where "hs_localEphemeral i = Some p" "honest C p" "hs_remoteEphemeral r = kp_Public p"
      "hs_localEphemeral r = Some q" "honest C q" "hs_remoteEphemeral i = kp_Public q"
      using ok eI eR role by (auto simp: token_ok_cases)
    from pair_DH_agree [OF laws this] show ?thesis by (simp add: 1 dh_shared_cases)
  next
    case 2
    then obtain p q where "hs_localEphemeral i = Some p" "honest C p" "hs_remoteEphemeral r = kp_Public p"
      "cfg_LocalStatic (hs_config r) = Some q" "honest C q" "hs_remoteStatic i = kp_Public q"
      using ok eI sR role by (auto simp: token_ok_cases)
    from pair_DH_agree [OF laws this] show ?thesis by (simp add: 2 dh_shared_cases role)
  next
    case 3
    then obtain p q where "cfg_LocalStatic (hs_config i) = Some p" "honest C p"
      "hs_remoteStatic r = kp_Public p"
      "hs_localEphemeral r = Some q" "honest C q" "hs_remoteEphemeral i = kp_Public q"
      using ok sI eR role by (auto simp: token_ok_cases)
    from pair_DH_agree [OF laws this] show ?thesis by (simp add: 3 dh_shared_cases role)
  next
    case 4
    then obtain p q where "cfg_LocalStatic (hs_config i) = Some p" "honest C p"
      "hs_remoteStatic r = kp_Public p"
      "cfg_LocalStatic (hs_config r) = Some q" "honest C q" "hs_remoteStatic i = kp_Public q"
      using ok sI sR role by (auto simp: token_ok_cases)
    from pair_DH_agree [OF laws this] show ?thesis by (simp add: 4 dh_shared_cases)
  qed
qed

lemma dh_shared_agree:
  assumes "crypto_laws C" and sync: "in_step C known a b" and "is_dh_token t" "token_ok t known"
  shows "\<exists>s. dh_shared C a t = Inr s \<and> dh_shared C b t = Inr s"
proof (cases "cfg_Initiator (hs_config a)")
  case True
  then show ?thesis using assms dh_shared_roles [of C known a b t] by (simp add: in_step_def)
next
  case False
  then show ?thesis using assms dh_shared_roles [of C known b a t]
    by (simp add: in_step_def) metis
qed

section \<open>One token\<close>

text \<open>How the three kinds of token change states in step.\<close>

lemma in_step_ss:
  assumes "in_step C known a b" "ss_cipherMode x = ss_cipherMode (hs_ss a)"
  shows "in_step C known (a\<lparr>hs_ss := x\<rparr>) (b\<lparr>hs_ss := x\<rparr>)"
  using assms by (simp add: in_step_def knows_def fits_defs)

lemma knows_learn_E:
  assumes "knows C known a b" "honest C kp"
  shows "knows C ((cfg_Initiator (hs_config a), tokenE) # known)
           (a\<lparr>hs_localEphemeral := Some kp\<rparr>) (b\<lparr>hs_remoteEphemeral := kp_Public kp\<rparr>)"
  using assms by (simp add: knows_def token_defs)

lemma knows_learn_E_other:
  assumes "knows C known b a" "cfg_Initiator (hs_config b) \<noteq> i"
  shows "knows C ((i, tokenE) # known)
           (b\<lparr>hs_remoteEphemeral := x\<rparr>) (a\<lparr>hs_localEphemeral := y\<rparr>)"
  using assms by (simp add: knows_def token_defs)

lemma knows_learn_S:
  assumes "knows C known a b" "honest C kp" "cfg_LocalStatic (hs_config a) = Some kp"
  shows "knows C ((cfg_Initiator (hs_config a), tokenS) # known)
           a (b\<lparr>hs_remoteStatic := kp_Public kp\<rparr>)"
  using assms by (simp add: knows_def token_defs)

lemma knows_learn_S_other:
  assumes "knows C known b a" "cfg_Initiator (hs_config b) \<noteq> i"
  shows "knows C ((i, tokenS) # known) (b\<lparr>hs_remoteStatic := x\<rparr>) a"
  using assms by (simp add: knows_def token_defs)

lemma in_step_E:
  assumes "in_step C known a b" "honest C kp" "length (kp_Public kp) = 32"
  shows "in_step C ((cfg_Initiator (hs_config a), tokenE) # known)
           (a\<lparr>hs_localEphemeral := Some kp\<rparr>) (b\<lparr>hs_remoteEphemeral := kp_Public kp\<rparr>)"
  using assms knows_learn_E [of C known a b kp]
    knows_learn_E_other [of C known b a "cfg_Initiator (hs_config a)"]
  by (simp add: in_step_def fits_defs)

lemma in_step_S:
  assumes "in_step C known a b" "honest C kp" "length (kp_Public kp) = 32"
    "cfg_LocalStatic (hs_config a) = Some kp"
  shows "in_step C ((cfg_Initiator (hs_config a), tokenS) # known)
           a (b\<lparr>hs_remoteStatic := kp_Public kp\<rparr>)"
  using assms knows_learn_S [of C known a b kp]
    knows_learn_S_other [of C known b a "cfg_Initiator (hs_config a)"]
  by (simp add: in_step_def fits_defs)

definition same_frame :: "HandshakeState \<Rightarrow> HandshakeState \<Rightarrow> bool" where
  "same_frame a a' \<longleftrightarrow> hs_config a' = hs_config a \<and> hs_msgIndex a' = hs_msgIndex a
     \<and> hs_finished a' = hs_finished a"

lemma same_frame_refl [simp]: "same_frame a a"
  by (simp add: same_frame_def)

lemma same_frame_trans: "same_frame a b \<Longrightarrow> same_frame b c \<Longrightarrow> same_frame a c"
  by (simp add: same_frame_def)

lemma same_frame_messages: "same_frame a b \<Longrightarrow> hs_messages b = hs_messages a"
  by (simp add: same_frame_def hs_messages_def)

text \<open>
  \<open>token_step\<close> says that the writer appends \<open>out\<close> and the reader, with the same bytes at its
  offset, consumes exactly them, and the two states are in step again.
\<close>

definition token_step ::
  "crypto \<Rightarrow> string \<Rightarrow> known \<Rightarrow> HandshakeState \<Rightarrow> HandshakeState \<Rightarrow> bytes \<Rightarrow> nat \<Rightarrow> bool" where
  "token_step C t known w r random used \<longleftrightarrow>
     (\<exists>w' r' out.
        (\<forall>msg. write_token C t (w, msg, random) = (None, (w', msg @ out, drop used random))) \<and>
        (\<forall>pre post. read_token C (pre @ out @ post) t (r, length pre)
            = (None, (r', length pre + length out))) \<and>
        in_step C (learn (cfg_Initiator (hs_config w)) t known) w' r' \<and>
        same_frame w w' \<and> same_frame r r')"

lemma token_stepI:
  "(\<And>msg. write_token C t (w, msg, random) = (None, (w', msg @ out, drop used random))) \<Longrightarrow>
   (\<And>pre post. read_token C (pre @ out @ post) t (r, length pre)
      = (None, (r', length pre + length out))) \<Longrightarrow>
   in_step C (learn (cfg_Initiator (hs_config w)) t known) w' r' \<Longrightarrow>
   same_frame w w' \<Longrightarrow> same_frame r r' \<Longrightarrow> token_step C t known w r random used"
  unfolding token_step_def by blast

lemma token_step_E:
  assumes laws: "crypto_laws C" and sync: "in_step C known w r" and "32 \<le> length random"
  shows "token_step C tokenE known w r random 32"
proof -
  obtain kp where gen: "GenerateKeyPairFrom C random = Inr (kp, drop 32 random)" and kp: "honest C kp"
    using GenerateKeyPairFrom_ok [OF laws assms(3)] by blast
  define mix where "mix ss = (if cfg_PresharedKey (hs_config w) \<noteq> None
    then snd (MixKey C (kp_Public kp) (MixHash C (kp_Public kp) ss)) else MixHash C (kp_Public kp) ss)"
    for ss
  define w' where "w' = w\<lparr>hs_localEphemeral := Some kp, hs_ss := mix (hs_ss w)\<rparr>"
  define r' where "r' = r\<lparr>hs_remoteEphemeral := kp_Public kp, hs_ss := mix (hs_ss r)\<rparr>"
  have psk: "cfg_PresharedKey (hs_config r) = None \<longleftrightarrow> cfg_PresharedKey (hs_config w) = None"
    using sync by (simp add: in_step_def)
  have len: "length (kp_Public kp) = 32" using honest_length [OF laws kp] .
  have rlen: "length (hs_remoteEphemeral r) = 32" and eq: "hs_ss r = hs_ss w"
    using sync by (simp_all add: in_step_def fits_defs)
  have mix_mode: "ss_cipherMode (mix ss) = ss_cipherMode ss" for ss by (simp add: mix_def)
  show ?thesis
  proof (rule token_stepI [where w' = w' and r' = r' and out = "kp_Public kp"])
    fix msg
    show "write_token C tokenE (w, msg, random) = (None, (w', msg @ kp_Public kp, drop 32 random))"
      by (simp add: write_token_def gen w'_def mix_def)
  next
    fix pre post
    have "go_slice (pre @ kp_Public kp @ post) (length pre) (length pre + KeySize) = kp_Public kp"
      by (rule go_slice_block) (simp_all add: len KeySize_def)
    then show "read_token C (pre @ kp_Public kp @ post) tokenE (r, length pre)
        = (None, (r', length pre + length (kp_Public kp)))"
      using psk len rlen
      by (cases "cfg_PresharedKey (hs_config w)")
        (simp_all add: read_token_def r'_def mix_def go_copy_same_length KeySize_def Let_def)
  next
    show "in_step C (learn (cfg_Initiator (hs_config w)) tokenE known) w' r'"
      unfolding w'_def r'_def eq learn_def
      using in_step_ss [OF in_step_E [OF sync kp len], of "mix (hs_ss w)"]
      by (simp add: mix_mode)
  qed (simp_all add: same_frame_def w'_def r'_def)
qed

lemma token_step_S:
  assumes laws: "crypto_laws C" and sync: "in_step C known w r"
    and mem: "tokenS \<in> set (concat (hs_messages w))"
  shows "token_step C tokenS known w r random 0"
proof -
  obtain kp where kp: "cfg_LocalStatic (hs_config w) = Some kp" "honest C kp"
    using sync mem by (auto simp: in_step_def fits_defs)
  have len: "length (kp_Public kp) = 32" using honest_length [OF laws kp(2)] .
  obtain k ss where mk: "MixKey C [] (hs_ss w) = (k, ss)" by fastforce
  have klen: "length k = 32" using length_MixKey [OF laws, of "[]" "hs_ss w"] by (simp add: mk)
  have mode: "ss_cipherMode ss = ss_cipherMode (hs_ss w)"
    using MixKey_mode [of C "[]" "hs_ss w"] by (simp only: mk snd_conv)
  obtain m where "NormalizeCipherMode (ss_cipherMode ss) = Inr m"
    using sync mode by (auto simp: in_step_def elim: mode_okE)
  then obtain c where c: "EncryptAndHash C k (kp_Public kp) ss = Inr (c, MixHash C c ss)"
    "length c = 48" "DecryptAndHash C k c ss = Inr (kp_Public kp, MixHash C c ss)"
    using Encrypt_Decrypt_AndHash [OF laws _ klen, of ss _ "kp_Public kp"] len by auto
  define w' where "w' = w\<lparr>hs_ss := MixHash C c ss\<rparr>"
  define r' where "r' = r\<lparr>hs_remoteStatic := kp_Public kp, hs_ss := MixHash C c ss\<rparr>"
  have eq: "hs_ss r = hs_ss w" and rlen: "length (hs_remoteStatic r) = 32"
    using sync by (simp_all add: in_step_def fits_defs)
  show ?thesis
  proof (rule token_stepI [where w' = w' and r' = r' and out = c])
    fix msg
    show "write_token C tokenS (w, msg, random) = (None, (w', msg @ c, drop 0 random))"
      by (simp add: write_token_def token_defs mk kp c w'_def)
  next
    fix pre post
    have "go_slice (pre @ c @ post) (length pre) (length pre + (KeySize + TagSize)) = c"
      by (rule go_slice_block) (simp_all add: c KeySize_def TagSize_def)
    then show "read_token C (pre @ c @ post) tokenS (r, length pre)
        = (None, (r', length pre + length c))"
      using len rlen
      by (simp add: read_token_def token_defs mk eq c r'_def go_copy_same_length KeySize_def TagSize_def)
  next
    show "in_step C (learn (cfg_Initiator (hs_config w)) tokenS known) w' r'"
      unfolding w'_def r'_def learn_def
      using in_step_ss [OF in_step_S [OF sync kp(2) len kp(1)], of "MixHash C c ss"]
      by (simp add: mode)
  qed (simp_all add: same_frame_def w'_def r'_def)
qed

lemma token_step_DH:
  assumes laws: "crypto_laws C" and sync: "in_step C known w r"
    and dh: "is_dh_token t" and ok: "token_ok t known"
  shows "token_step C t known w r random 0"
proof -
  obtain s where s: "dh_shared C w t = Inr s" "dh_shared C r t = Inr s"
    using dh_shared_agree [OF laws sync dh ok] by blast
  have eq: "hs_ss r = hs_ss w" using sync by (simp add: in_step_def)
  have ne: "t \<noteq> tokenE" "t \<noteq> tokenS" using dh by (auto simp: is_dh_token_def token_defs)
  define w' where "w' = w\<lparr>hs_ss := snd (MixKey C s (hs_ss w))\<rparr>"
  define r' where "r' = r\<lparr>hs_ss := snd (MixKey C s (hs_ss r))\<rparr>"
  have dt: "dh_token C w t = (None, w')" "dh_token C r t = (None, r')"
    by (simp_all add: dh_token_def s w'_def r'_def)
  show ?thesis
  proof (rule token_stepI [where out = "[]" and w' = w' and r' = r'])
    show "write_token C t (w, msg, random) = (None, (w', msg @ [], drop 0 random))" for msg
      by (simp add: write_token_def ne dh dt)
    show "read_token C (pre @ [] @ post) t (r, length pre) = (None, (r', length pre + length []))"
      for pre post by (simp add: read_token_def ne dh dt)
    show "in_step C (learn (cfg_Initiator (hs_config w)) t known) w' r'"
      unfolding w'_def r'_def learn_def eq
      using in_step_ss [OF sync, of "snd (MixKey C s (hs_ss w))"] ne by simp
  qed (simp_all add: same_frame_def w'_def r'_def)
qed

lemma token_step_other:
  assumes "in_step C known w r" "\<not> is_dh_token t" "t \<noteq> tokenE" "t \<noteq> tokenS"
  shows "token_step C t known w r random 0"
  using assms
  by (intro token_stepI [where out = "[]" and w' = w and r' = r])
    (simp_all add: write_token_def read_token_def learn_def)

lemma token_step:
  assumes "crypto_laws C" "in_step C known w r" "token_ok t known"
    "t \<in> set (concat (hs_messages w))" "t = tokenE \<longrightarrow> 32 \<le> length random"
  shows "token_step C t known w r random (if t = tokenE then 32 else 0)"
  using assms token_step_E token_step_S token_step_DH token_step_other
  by (cases "t = tokenE"; cases "t = tokenS"; cases "is_dh_token t") (simp_all del: set_concat)

section \<open>One message\<close>

text \<open>The random bytes a message consumes: 32 for every ephemeral key.\<close>

definition random_of :: "string list \<Rightarrow> nat" where
  "random_of ts = 32 * count_list ts tokenE"

lemma random_of_simps [simp]:
  "random_of [] = 0"
  "random_of (t # ts) = (if t = tokenE then 32 else 0) + random_of ts"
  by (simp_all add: random_of_def)

lemma learn_all_simps [simp]:
  "learn_all i [] known = known"
  "learn_all i (t # ts) known = learn_all i ts (learn i t known)"
  by (simp_all add: learn_all_def)

definition tokens_step ::
  "crypto \<Rightarrow> string list \<Rightarrow> known \<Rightarrow> HandshakeState \<Rightarrow> HandshakeState \<Rightarrow> bytes
   \<Rightarrow> HandshakeState \<Rightarrow> HandshakeState \<Rightarrow> bytes \<Rightarrow> bool" where
  "tokens_step C ts known w r random w' r' out \<longleftrightarrow>
     (\<forall>msg. write_tokens C ts (w, msg, random) = (None, (w', msg @ out, drop (random_of ts) random))) \<and>
     (\<forall>pre post. read_tokens C (pre @ out @ post) ts (r, length pre)
         = (None, (r', length pre + length out))) \<and>
     in_step C (learn_all (cfg_Initiator (hs_config w)) ts known) w' r' \<and>
     same_frame w w' \<and> same_frame r r'"

lemma tokens_step_Nil: "in_step C known w r \<Longrightarrow> tokens_step C [] known w r random w r []"
  by (simp add: tokens_step_def)

lemma tokens_step_Cons:
  assumes wr: "\<And>msg. write_token C t (w, msg, random) = (None, (w1, msg @ out1, drop n random))"
    and rd: "\<And>pre post. read_token C (pre @ out1 @ post) t (r, length pre)
            = (None, (r1, length pre + length out1))"
    and n: "n = (if t = tokenE then 32 else 0)"
    and fr: "same_frame w w1" "same_frame r r1"
    and rest: "tokens_step C ts (learn (cfg_Initiator (hs_config w)) t known) w1 r1
            (drop n random) w' r' out"
  shows "tokens_step C (t # ts) known w r random w' r' (out1 @ out)"
proof -
  have "read_tokens C (pre @ (out1 @ out) @ post) (t # ts) (r, length pre)
      = (None, (r', length pre + length (out1 @ out)))" for pre post
  proof -
    have "read_tokens C ((pre @ out1) @ out @ post) ts (r1, length (pre @ out1))
        = (None, (r', length (pre @ out1) + length out))"
      using rest by (simp only: tokens_step_def)
    then show ?thesis using rd [of pre "out @ post"] by simp
  qed
  moreover have "write_tokens C (t # ts) (w, msg, random)
      = (None, (w', msg @ out1 @ out, drop (random_of (t # ts)) random))" for msg
    using rest wr by (simp add: tokens_step_def n add.commute)
  moreover have "cfg_Initiator (hs_config w1) = cfg_Initiator (hs_config w)"
    using fr by (simp add: same_frame_def)
  ultimately show ?thesis
    using rest fr unfolding tokens_step_def learn_all_simps
    by (elim conjE, intro conjI allI) (assumption | erule same_frame_trans | simp only: | simp)+
qed

lemma tokens_step:
  assumes "crypto_laws C" "in_step C known w r"
    "tokens_ok (cfg_Initiator (hs_config w)) ts known"
    "set ts \<subseteq> set (concat (hs_messages w))" "random_of ts \<le> length random"
  shows "\<exists>w' r' out. tokens_step C ts known w r random w' r' out"
  using assms
proof (induction ts arbitrary: known w r random)
  case Nil
  then show ?case using tokens_step_Nil by blast
next
  case (Cons t ts)
  let ?n = "if t = tokenE then 32 else 0 :: nat"
  have "token_step C t known w r random ?n"
    using Cons.prems by (intro token_step) (auto split: if_splits)
  then obtain w1 r1 out1 where one:
    "\<And>msg. write_token C t (w, msg, random) = (None, (w1, msg @ out1, drop ?n random))"
    "\<And>pre post. read_token C (pre @ out1 @ post) t (r, length pre)
       = (None, (r1, length pre + length out1))"
    "in_step C (learn (cfg_Initiator (hs_config w)) t known) w1 r1"
    "same_frame w w1" "same_frame r r1"
    unfolding token_step_def by blast
  have "cfg_Initiator (hs_config w1) = cfg_Initiator (hs_config w)" "hs_messages w1 = hs_messages w"
    using one(4) by (simp_all add: same_frame_def hs_messages_def)
  moreover have "random_of ts \<le> length (drop ?n random)"
    using Cons.prems(5) by auto
  moreover have "set ts \<subseteq> set (concat (hs_messages w))"
    "tokens_ok (cfg_Initiator (hs_config w)) ts (learn (cfg_Initiator (hs_config w)) t known)"
    using Cons.prems(3,4) by simp_all
  ultimately obtain w' r' out where
    "tokens_step C ts (learn (cfg_Initiator (hs_config w)) t known) w1 r1 (drop ?n random) w' r' out"
    using Cons.IH [OF Cons.prems(1) one(3), of "drop ?n random"] by metis
  from tokens_step_Cons [OF one(1,2) refl one(4,5) this] show ?case by blast
qed

lemma my_turn_flip:
  "in_step C known w r \<Longrightarrow> my_turn w \<longleftrightarrow> \<not> my_turn r"
  by (auto simp: in_step_def my_turn_def)

lemma in_step_next:
  "in_step C known w r \<Longrightarrow> in_step C known (next_message w) (next_message r)"
  by (simp add: in_step_def next_message_def Let_def knows_def fits_defs)

definition message_step ::
  "crypto \<Rightarrow> known \<Rightarrow> HandshakeState \<Rightarrow> HandshakeState \<Rightarrow> bytes \<Rightarrow> bytes
   \<Rightarrow> HandshakeState \<Rightarrow> HandshakeState \<Rightarrow> bool" where
  "message_step C known w r payload random w' r' \<longleftrightarrow>
     (\<exists>msg. WriteMessage C w payload random
              = (Inr msg, w', drop (random_of (hs_messages w ! hs_msgIndex w)) random)
          \<and> ReadMessage C r msg = (Inr payload, r')) \<and>
     in_step C (learn_all (cfg_Initiator (hs_config w)) (hs_messages w ! hs_msgIndex w) known) w' r' \<and>
     hs_config w' = hs_config w \<and> hs_config r' = hs_config r \<and>
     hs_msgIndex w' = hs_msgIndex w + 1 \<and>
     hs_finished w' = (length (hs_messages w) \<le> hs_msgIndex w + 1)"

lemma next_message_fields [simp]:
  "hs_config (next_message a) = hs_config a" "hs_ss (next_message a) = hs_ss a"
  "hs_msgIndex (next_message a) = hs_msgIndex a + 1"
  "hs_messages (next_message a) = hs_messages a"
  "hs_finished (next_message a) = (hs_finished a \<or> length (hs_messages a) \<le> hs_msgIndex a + 1)"
  by (auto simp: next_message_def Let_def hs_messages_def)

lemma message_step_payload:
  assumes laws: "crypto_laws C" and turn: "my_turn w" "\<not> hs_finished w"
    and idx: "hs_msgIndex w < length (hs_messages w)" and sync: "in_step C known w r"
    and ts: "tokens_step C (hs_messages w ! hs_msgIndex w) known w r random w1 r1 out"
    and sent: "payload \<noteq> [] \<or> hs_msgIndex w = length (hs_messages w) - 1"
  shows "\<exists>w' r'. message_step C known w r payload random w' r'"
proof -
  let ?k = "learn_all (cfg_Initiator (hs_config w)) (hs_messages w ! hs_msgIndex w) known"
  have st: "in_step C ?k w1 r1" and fr: "same_frame w w1" "same_frame r r1"
    using ts by (simp_all add: tokens_step_def)
  obtain k ss where mk: "MixKey C [] (hs_ss w1) = (k, ss)" by fastforce
  have klen: "length k = 32" using length_MixKey [OF laws, of "[]" "hs_ss w1"] by (simp add: mk)
  have mode: "ss_cipherMode ss = ss_cipherMode (hs_ss w1)"
    using MixKey_mode [of C "[]" "hs_ss w1"] by (simp only: mk snd_conv)
  obtain m where "NormalizeCipherMode (ss_cipherMode ss) = Inr m"
    using st mode by (auto simp: in_step_def elim: mode_okE)
  then obtain c where c: "EncryptAndHash C k payload ss = Inr (c, MixHash C c ss)"
    "length c = length payload + 16" "DecryptAndHash C k c ss = Inr (payload, MixHash C c ss)"
    using Encrypt_Decrypt_AndHash [OF laws _ klen, of ss _ payload] by auto
  have eq: "hs_ss r1 = hs_ss w1" using st by (simp add: in_step_def)
  have same: "hs_messages w1 = hs_messages w" "hs_msgIndex w1 = hs_msgIndex w"
    "hs_finished r = hs_finished w" "hs_messages r = hs_messages w" "hs_msgIndex r = hs_msgIndex w"
    using fr same_frame_messages [OF fr(1)] sync by (simp_all add: same_frame_def in_step_def)
  have "WriteMessage C w payload random = (Inr (out @ c), next_message (w1\<lparr>hs_ss := MixHash C c ss\<rparr>),
      drop (random_of (hs_messages w ! hs_msgIndex w)) random)"
    using ts turn idx sent by (simp add: WriteMessage_def tokens_step_def same mk c)
  moreover have "read_tokens C (out @ c) (hs_messages w ! hs_msgIndex w) (r, 0) = (None, (r1, length out))"
  proof -
    have "read_tokens C ([] @ out @ c) (hs_messages w ! hs_msgIndex w) (r, length ([] :: bytes))
        = (None, (r1, length ([] :: bytes) + length out))"
      using ts by (simp only: tokens_step_def)
    then show ?thesis by simp
  qed
  then have "ReadMessage C r (out @ c) = (Inr payload, next_message (r1\<lparr>hs_ss := MixHash C c ss\<rparr>))"
    using turn idx c my_turn_flip [OF sync] by (simp add: ReadMessage_def same eq mk)
  moreover have "in_step C ?k (w1\<lparr>hs_ss := MixHash C c ss\<rparr>) (r1\<lparr>hs_ss := MixHash C c ss\<rparr>)"
    by (rule in_step_ss [OF st]) (simp add: mode)
  from in_step_next [OF this] have
    "in_step C ?k (next_message (w1\<lparr>hs_ss := MixHash C c ss\<rparr>)) (next_message (r1\<lparr>hs_ss := MixHash C c ss\<rparr>))" .
  ultimately have "message_step C known w r payload random
      (next_message (w1\<lparr>hs_ss := MixHash C c ss\<rparr>)) (next_message (r1\<lparr>hs_ss := MixHash C c ss\<rparr>))"
    using fr turn(2) by (simp add: message_step_def same same_frame_def)
  then show ?thesis by blast
qed

lemma message_step_empty:
  assumes turn: "my_turn w" "\<not> hs_finished w"
    and idx: "hs_msgIndex w < length (hs_messages w)" and sync: "in_step C known w r"
    and ts: "tokens_step C (hs_messages w ! hs_msgIndex w) known w r random w1 r1 out"
    and sent: "\<not> (payload \<noteq> [] \<or> hs_msgIndex w = length (hs_messages w) - 1)"
  shows "\<exists>w' r'. message_step C known w r payload random w' r'"
proof -
  let ?k = "learn_all (cfg_Initiator (hs_config w)) (hs_messages w ! hs_msgIndex w) known"
  have st: "in_step C ?k w1 r1" and fr: "same_frame w w1" "same_frame r r1"
    using ts by (simp_all add: tokens_step_def)
  have same: "hs_messages w1 = hs_messages w" "hs_msgIndex w1 = hs_msgIndex w"
    "hs_finished r = hs_finished w" "hs_messages r = hs_messages w" "hs_msgIndex r = hs_msgIndex w"
    using fr same_frame_messages [OF fr(1)] sync by (simp_all add: same_frame_def in_step_def)
  have "WriteMessage C w payload random
      = (Inr out, next_message w1, drop (random_of (hs_messages w ! hs_msgIndex w)) random)"
    using ts turn idx sent by (simp add: WriteMessage_def tokens_step_def same)
  moreover have "read_tokens C out (hs_messages w ! hs_msgIndex w) (r, 0) = (None, (r1, length out))"
  proof -
    have "read_tokens C ([] @ out @ []) (hs_messages w ! hs_msgIndex w) (r, length ([] :: bytes))
        = (None, (r1, length ([] :: bytes) + length out))"
      using ts by (simp only: tokens_step_def)
    then show ?thesis by simp
  qed
  then have "ReadMessage C r out = (Inr [], next_message r1)"
    using turn idx my_turn_flip [OF sync] by (simp add: ReadMessage_def same)
  ultimately have "message_step C known w r payload random (next_message w1) (next_message r1)"
    using fr turn(2) sent in_step_next [OF st] by (simp add: message_step_def same same_frame_def)
  then show ?thesis by blast
qed

lemma message_step:
  assumes "crypto_laws C" "my_turn w" "\<not> hs_finished w"
    "hs_msgIndex w < length (hs_messages w)" "in_step C known w r"
    "tokens_ok (cfg_Initiator (hs_config w)) (hs_messages w ! hs_msgIndex w) known"
    "random_of (hs_messages w ! hs_msgIndex w) \<le> length random"
  shows "\<exists>w' r'. message_step C known w r payload random w' r'"
proof -
  have "set (hs_messages w ! hs_msgIndex w) \<subseteq> set (concat (hs_messages w))"
    using nth_mem [OF assms(4)] by auto
  then obtain w1 r1 out where
    ts: "tokens_step C (hs_messages w ! hs_msgIndex w) known w r random w1 r1 out"
    using tokens_step [OF assms(1,5,6) _ assms(7)] by blast
  show ?thesis
    using message_step_payload [OF assms(1-5) ts] message_step_empty [OF assms(2-5) ts] by blast
qed

end
