(* ===== verification/NoiseExchange.thy ===== *)
theory NoiseExchange
  imports NoiseAgreement
begin

text \<open>
  A whole handshake: two states made by \<^verbatim>\<open>NewHandshakeState\<close> from matching configurations
  exchange messages in turn until the pattern is used up. Both sides then hold the same
  transcript hash and swapped transport keys, and know each other's static key.
\<close>

section \<open>Exchanging messages in turn\<close>

text \<open>
  \<open>exchange\<close> hands every message of the writer to the reader and swaps the roles. The random
  bytes are those \<^verbatim>\<open>crypto/rand\<close> yields, in the order in which the two sides draw them.
\<close>

fun exchange :: "crypto \<Rightarrow> HandshakeState \<Rightarrow> HandshakeState \<Rightarrow> bytes list \<Rightarrow> bytes
    \<Rightarrow> noise_error + (bytes list \<times> HandshakeState \<times> HandshakeState)" where
  "exchange C w r [] random = Inr ([], w, r)"
| "exchange C w r (payload # payloads) random =
     (case WriteMessage C w payload random of
        (Inl e, _) \<Rightarrow> Inl e
      | (Inr msg, w', random') \<Rightarrow>
          (case ReadMessage C r msg of
             (Inl e, _) \<Rightarrow> Inl e
           | (Inr received, r') \<Rightarrow>
               (case exchange C r' w' payloads random' of
                  Inl e \<Rightarrow> Inl e
                | Inr (receiveds, r'', w'') \<Rightarrow> Inr (received # receiveds, w'', r''))))"

definition random_all :: "string list list \<Rightarrow> nat" where
  "random_all ms = sum_list (map random_of ms)"

fun known_after :: "bool \<Rightarrow> string list list \<Rightarrow> known \<Rightarrow> known" where
  "known_after i [] known = known"
| "known_after i (m # ms) known = known_after (\<not> i) ms (learn_all i m known)"

text \<open>The state of an exchange with the messages \<open>ms\<close> still to come.\<close>

definition ready :: "crypto \<Rightarrow> known \<Rightarrow> string list list \<Rightarrow> HandshakeState \<Rightarrow> HandshakeState \<Rightarrow> bool" where
  "ready C known ms w r \<longleftrightarrow>
     in_step C known w r \<and> ms = drop (hs_msgIndex w) (hs_messages w)
     \<and> hs_msgIndex w \<le> length (hs_messages w)
     \<and> (hs_finished w \<longleftrightarrow> ms = []) \<and> my_turn w
     \<and> messages_ok (cfg_Initiator (hs_config w)) ms known"

lemma my_turn_next:
  assumes "in_step C known w r" "my_turn w" "hs_config r' = hs_config r"
    "hs_msgIndex r' = hs_msgIndex w + 1"
  shows "my_turn r'"
  using assms by (auto simp: in_step_def my_turn_def) presburger+

lemma ready_step:
  assumes laws: "crypto_laws C" and rd: "ready C known (m # ms) w r" and "random_of m \<le> length random"
  shows "\<exists>msg w' r'. WriteMessage C w payload random = (Inr msg, w', drop (random_of m) random)
     \<and> ReadMessage C r msg = (Inr payload, r')
     \<and> ready C (learn_all (cfg_Initiator (hs_config w)) m known) ms r' w'
     \<and> hs_config w' = hs_config w \<and> hs_config r' = hs_config r"
proof -
  have st: "in_step C known w r" and turn: "my_turn w" and nf: "\<not> hs_finished w"
    and ok: "messages_ok (cfg_Initiator (hs_config w)) (m # ms) known"
    and dr: "m # ms = drop (hs_msgIndex w) (hs_messages w)"
    using rd unfolding ready_def by blast+
  have idx: "hs_msgIndex w < length (hs_messages w)"
    using dr by (metis drop_all list.simps(3) not_le)
  have m: "hs_messages w ! hs_msgIndex w = m" and ms: "ms = drop (Suc (hs_msgIndex w)) (hs_messages w)"
    using dr idx by (metis Cons_nth_drop_Suc list.inject)+
  obtain w' r' where step: "message_step C known w r payload random w' r'"
    using message_step [OF laws turn nf idx st, of random payload] ok assms(3) unfolding m by auto
  then have st': "in_step C (learn_all (cfg_Initiator (hs_config w)) m known) w' r'"
    and cw: "hs_config w' = hs_config w" and cr: "hs_config r' = hs_config r"
    and iw: "hs_msgIndex w' = hs_msgIndex w + 1"
    and fw: "hs_finished w' = (length (hs_messages w) \<le> hs_msgIndex w + 1)"
    by (simp_all add: message_step_def m)
  have mw: "hs_messages w' = hs_messages w" using cw by (simp add: hs_messages_def)
  have same: "hs_messages r' = hs_messages w'" "hs_msgIndex r' = hs_msgIndex w'"
    "hs_finished r' = hs_finished w'" "cfg_Initiator (hs_config r') = (\<not> cfg_Initiator (hs_config w'))"
    using st' by (auto simp: in_step_def)
  have "ready C (learn_all (cfg_Initiator (hs_config w)) m known) ms r' w'"
    unfolding ready_def
    using st' ok idx ms my_turn_next [OF st turn cr] same mw iw fw cw
    by (simp add: in_step_sym [of C _ r'])
  then show ?thesis using step cw cr by (auto simp: message_step_def m)
qed

lemma exchange_ready:
  assumes "crypto_laws C" "ready C known ms w r" "length payloads = length ms"
    "random_all ms \<le> length random"
  shows "\<exists>w' r'. exchange C w r payloads random = Inr (payloads, w', r')
     \<and> in_step C (known_after (cfg_Initiator (hs_config w)) ms known) w' r'
     \<and> hs_finished w' \<and> hs_finished r'
     \<and> hs_config w' = hs_config w \<and> hs_config r' = hs_config r"
  using assms
proof (induction ms arbitrary: known w r payloads random)
  case Nil
  then show ?case by (auto simp: ready_def in_step_def)
next
  case (Cons m ms)
  obtain p ps where ps: "payloads = p # ps" using Cons.prems(3) by (cases payloads) auto
  obtain msg w' r' where
    wr: "WriteMessage C w p random = (Inr msg, w', drop (random_of m) random)"
      "ReadMessage C r msg = (Inr p, r')"
    and rd: "ready C (learn_all (cfg_Initiator (hs_config w)) m known) ms r' w'"
    and cf: "hs_config w' = hs_config w" "hs_config r' = hs_config r"
    using ready_step [OF Cons.prems(1,2), of random p] Cons.prems(4)
    by (auto simp: random_all_def)
  have role: "cfg_Initiator (hs_config r) = (\<not> cfg_Initiator (hs_config w))"
    using Cons.prems(2) by (auto simp: ready_def in_step_def)
  have len: "length ps = length ms" "random_all ms \<le> length (drop (random_of m) random)"
    using Cons.prems(3,4) by (simp_all add: ps random_all_def)
  obtain r2 w2 where "exchange C r' w' ps (drop (random_of m) random) = Inr (ps, r2, w2)"
     "in_step C (known_after (cfg_Initiator (hs_config r')) ms
        (learn_all (cfg_Initiator (hs_config w)) m known)) r2 w2"
     "hs_finished r2" "hs_finished w2" "hs_config r2 = hs_config r'" "hs_config w2 = hs_config w'"
    using Cons.IH [OF Cons.prems(1) rd len] by blast
  then show ?case using wr cf role by (auto simp: ps in_step_sym)
qed

section \<open>Two fresh states\<close>

definition mix_pre :: "crypto \<Rightarrow> bytes \<Rightarrow> string list \<Rightarrow> SymmetricState \<Rightarrow> SymmetricState" where
  "mix_pre C k ts ss = fold (\<lambda>t ss. if t = tokenS then MixHash C k ss else ss) ts ss"

lemma mix_pre_simps [simp]:
  "mix_pre C k [] ss = ss"
  "mix_pre C k (t # ts) ss = mix_pre C k ts (if t = tokenS then MixHash C k ss else ss)"
  by (simp_all add: mix_pre_def)

lemma mix_pre_id: "tokenS \<notin> set ts \<Longrightarrow> mix_pre C k ts ss = ss"
  by (induction ts) auto

lemma mix_pre_mode [simp]: "ss_cipherMode (mix_pre C k ts ss) = ss_cipherMode ss"
  by (induction ts arbitrary: ss) simp_all

lemma premsg_remote_eq:
  "(tokenS \<in> set ts \<Longrightarrow> cfg_RemoteStatic (hs_config hs) = Some k) \<Longrightarrow>
   premsg_remote C ts hs = Inr (hs\<lparr>hs_ss := mix_pre C k ts (hs_ss hs),
      hs_remoteStatic := (if tokenS \<in> set ts then k else hs_remoteStatic hs)\<rparr>)"
  by (induction ts arbitrary: hs) auto

lemma premsg_local_eq:
  "(tokenS \<in> set ts \<Longrightarrow> \<exists>kp. cfg_LocalStatic (hs_config hs) = Some kp \<and> kp_Public kp = k) \<Longrightarrow>
   premsg_local C ts hs = Inr (hs\<lparr>hs_ss := mix_pre C k ts (hs_ss hs)\<rparr>)"
  by (induction ts arbitrary: hs) auto

text \<open>The state both sides start from, before the pre-messages.\<close>

definition start_state :: "crypto \<Rightarrow> Config \<Rightarrow> CipherMode \<Rightarrow> SymmetricState \<Rightarrow> HandshakeState" where
  "start_state C config mode ss =
     \<lparr>hs_config = config\<lparr>cfg_CipherMode := mode\<rparr>, hs_ss = MixHash C (cfg_Prologue config) ss,
      hs_localEphemeral = None, hs_remoteEphemeral = zero_key, hs_remoteStatic = zero_key,
      hs_msgIndex = 0, hs_finished = False\<rparr>"

text \<open>
  Two matching configurations: same pattern, prologue and mode, opposite roles, a preshared
  key on both sides or on neither, honest static keys wherever the pattern uses one, and the
  peer's public key as \<^verbatim>\<open>RemoteStatic\<close> where it is a pre-message.
\<close>

definition peer_known :: "string list \<Rightarrow> Config \<Rightarrow> Config \<Rightarrow> bool" where
  "peer_known ts a b \<longleftrightarrow> (tokenS \<in> set ts \<longrightarrow>
     (\<exists>kp. cfg_LocalStatic b = Some kp \<and> cfg_RemoteStatic a = Some (kp_Public kp)))"

definition honest_config :: "crypto \<Rightarrow> Config \<Rightarrow> bool" where
  "honest_config C a \<longleftrightarrow> (case cfg_LocalStatic a of None \<Rightarrow> True | Some kp \<Rightarrow> honest C kp)"

definition matching :: "crypto \<Rightarrow> Config \<Rightarrow> Config \<Rightarrow> bool" where
  "matching C ci cr \<longleftrightarrow>
     cfg_Initiator ci \<and> \<not> cfg_Initiator cr \<and> cfg_Pattern ci = cfg_Pattern cr
     \<and> cfg_Prologue ci = cfg_Prologue cr
     \<and> NormalizeCipherMode (cfg_CipherMode ci) = NormalizeCipherMode (cfg_CipherMode cr)
     \<and> mode_ok (cfg_CipherMode ci)
     \<and> (cfg_PresharedKey ci = None \<longleftrightarrow> cfg_PresharedKey cr = None)
     \<and> validateConfig ci = None \<and> validateConfig cr = None
     \<and> honest_config C ci \<and> honest_config C cr
     \<and> peer_known (pat_ResponderPreMsg (cfg_Pattern cr)) ci cr
     \<and> peer_known (pat_InitiatorPreMsg (cfg_Pattern cr)) cr ci"

lemma NewHandshakeState_eq:
  assumes "validateConfig a = None" "NormalizeCipherMode (cfg_CipherMode a) = Inr m"
    "NewSymmetricStateWithMode C (pat_Name (cfg_Pattern a)) m = Inr ss"
    "theirs = (if cfg_Initiator a then pat_ResponderPreMsg (cfg_Pattern a)
               else pat_InitiatorPreMsg (cfg_Pattern a))"
    "ours = (if cfg_Initiator a then pat_InitiatorPreMsg (cfg_Pattern a)
             else pat_ResponderPreMsg (cfg_Pattern a))"
    "tokenS \<in> set theirs \<Longrightarrow> cfg_RemoteStatic a = Some k"
    "tokenS \<in> set ours \<Longrightarrow> \<exists>kp. cfg_LocalStatic a = Some kp \<and> kp_Public kp = k'"
  shows "NewHandshakeState C a = Inr ((start_state C a m ss)\<lparr>
      hs_ss := mix_pre C k' ours (mix_pre C k theirs (MixHash C (cfg_Prologue a) ss)),
      hs_remoteStatic := (if tokenS \<in> set theirs then k else zero_key)\<rparr>)"
  using assms
  by (simp add: NewHandshakeState_def start_state_def Let_def
      premsg_remote_eq [where k = k] premsg_local_eq [where k = k'] del: premsg_remote.simps premsg_local.simps)

lemma NewSymmetricStateWithMode_ok:
  assumes "NormalizeCipherMode mode = Inr m"
  shows "\<exists>ss. NewSymmetricStateWithMode C name m = Inr ss \<and> ss_cipherMode ss = m"
  using Normalize_idem [OF assms] Normalize_cases [OF assms]
  by (auto simp: NewSymmetricStateWithMode_def ProtocolName_def initProtocolName_def Let_def)

lemma validate_static:
  assumes "validateConfig a = None" "cfg_LocalStatic a = None"
  shows "tokenS \<notin> set (concat (pat_MessagePatterns (cfg_Pattern a)))"
  using assms by (auto simp: validateConfig_def Let_def list_ex_iff split: if_splits)

lemma fits_fresh:
  assumes "validateConfig a = None" "honest_config C a" "length k = 32"
  shows "fits C ((start_state C a m ss)\<lparr>hs_ss := ss', hs_remoteStatic := k\<rparr>)"
  using assms validate_static [OF assms(1)]
  by (auto simp: fits_defs start_state_def honest_config_def hs_messages_def
      split: option.splits)

lemma knows_fresh_i:
  assumes "cfg_Initiator ci" "honest_config C ci"
    "peer_known (pat_InitiatorPreMsg p) cr ci" "p = cfg_Pattern ci"
    "kr = (if tokenS \<in> set (pat_InitiatorPreMsg p) then the (cfg_RemoteStatic cr) else zero_key)"
  shows "knows C (premsg_known p) ((start_state C ci m ss)\<lparr>hs_ss := x, hs_remoteStatic := k\<rparr>)
           ((start_state C cr m' ss')\<lparr>hs_ss := x', hs_remoteStatic := kr\<rparr>)"
  using assms
  by (auto simp: knows_def start_state_def premsg_known_def token_defs peer_known_def honest_config_def)

lemma knows_fresh_r:
  assumes "\<not> cfg_Initiator cr" "honest_config C cr"
    "peer_known (pat_ResponderPreMsg p) ci cr" "p = cfg_Pattern cr"
    "ki = (if tokenS \<in> set (pat_ResponderPreMsg p) then the (cfg_RemoteStatic ci) else zero_key)"
  shows "knows C (premsg_known p) ((start_state C cr m ss)\<lparr>hs_ss := x, hs_remoteStatic := k\<rparr>)
           ((start_state C ci m' ss')\<lparr>hs_ss := x', hs_remoteStatic := ki\<rparr>)"
  using assms
  by (auto simp: knows_def start_state_def premsg_known_def token_defs peer_known_def honest_config_def)

text \<open>Two fresh states of matching configurations are ready to exchange the whole pattern.\<close>

lemma fresh_ready:
  assumes laws: "crypto_laws C" and m: "matching C ci cr" and ok: "pattern_ok (cfg_Pattern ci)"
  shows "\<exists>i r. NewHandshakeState C ci = Inr i \<and> NewHandshakeState C cr = Inr r
     \<and> ready C (premsg_known (cfg_Pattern ci)) (pat_MessagePatterns (cfg_Pattern ci)) i r
     \<and> cfg_LocalStatic (hs_config i) = cfg_LocalStatic ci
     \<and> cfg_LocalStatic (hs_config r) = cfg_LocalStatic cr
     \<and> cfg_Initiator (hs_config i) \<and> \<not> cfg_Initiator (hs_config r)"
proof -
  define p where "p = cfg_Pattern ci"
  let ?I = "pat_InitiatorPreMsg p" and ?R = "pat_ResponderPreMsg p"
  have p: "cfg_Pattern ci = p" "cfg_Pattern cr = p"
    and role: "cfg_Initiator ci" "\<not> cfg_Initiator cr"
    and valid: "validateConfig ci = None" "validateConfig cr = None"
    and hon: "honest_config C ci" "honest_config C cr"
    and peer: "peer_known ?R ci cr" "peer_known ?I cr ci"
    and pro: "cfg_Prologue cr = cfg_Prologue ci"
    and psk: "cfg_PresharedKey ci = None \<longleftrightarrow> cfg_PresharedKey cr = None"
    using m by (simp_all add: matching_def p_def)
  obtain mode where mode: "NormalizeCipherMode (cfg_CipherMode ci) = Inr mode"
    "NormalizeCipherMode (cfg_CipherMode cr) = Inr mode"
  proof -
    from m have "mode_ok (cfg_CipherMode ci)" by (simp add: matching_def)
    then obtain n where "NormalizeCipherMode (cfg_CipherMode ci) = Inr n" by (rule mode_okE)
    with m show thesis by (intro that [of n]) (simp_all add: matching_def)
  qed
  obtain ss where ss: "NewSymmetricStateWithMode C (pat_Name p) mode = Inr ss" "ss_cipherMode ss = mode"
    using NewSymmetricStateWithMode_ok [OF mode(1)] by blast
  define kR where "kR = the (cfg_RemoteStatic ci)"
  define kI where "kI = the (cfg_RemoteStatic cr)"
  have kR: "tokenS \<in> set ?R \<Longrightarrow> cfg_RemoteStatic ci = Some kR"
      "tokenS \<in> set ?R \<Longrightarrow> \<exists>kp. cfg_LocalStatic cr = Some kp \<and> kp_Public kp = kR"
    and kI: "tokenS \<in> set ?I \<Longrightarrow> cfg_RemoteStatic cr = Some kI"
      "tokenS \<in> set ?I \<Longrightarrow> \<exists>kp. cfg_LocalStatic ci = Some kp \<and> kp_Public kp = kI"
    using peer by (auto simp: peer_known_def kR_def kI_def)
  have len: "tokenS \<in> set ?R \<Longrightarrow> length kR = 32" "tokenS \<in> set ?I \<Longrightarrow> length kI = 32"
    using kR(2) kI(2) hon honest_length [OF laws] by (auto simp: honest_config_def)
  have one: "tokenS \<notin> set ?I \<or> tokenS \<notin> set ?R" using ok by (auto simp: pattern_ok_def p)
  define x where "x = mix_pre C kI ?I (mix_pre C kR ?R (MixHash C (cfg_Prologue ci) ss))"
  define i where "i = (start_state C ci mode ss)\<lparr>hs_ss := x,
    hs_remoteStatic := (if tokenS \<in> set ?R then kR else zero_key)\<rparr>"
  define r where "r = (start_state C cr mode ss)\<lparr>hs_ss := x,
    hs_remoteStatic := (if tokenS \<in> set ?I then kI else zero_key)\<rparr>"
  have i: "NewHandshakeState C ci = Inr i"
    using NewHandshakeState_eq [OF valid(1) mode(1), of C ss ?R ?I kR kI] ss kR(1) kI(2) role p
    by (simp add: i_def x_def)
  have "x = mix_pre C kR ?R (mix_pre C kI ?I (MixHash C (cfg_Prologue ci) ss))"
    using one by (auto simp: x_def mix_pre_id)
  then have r: "NewHandshakeState C cr = Inr r"
    using NewHandshakeState_eq [OF valid(2) mode(2), of C ss ?I ?R kI kR] ss kI(1) kR(2) role p pro
    by (simp add: r_def)
  have "mode_ok (ss_cipherMode x)"
    using Normalize_idem [OF mode(1)] ss(2) by (auto simp: x_def mode_ok_def)
  moreover have "fits C i" "fits C r"
    unfolding i_def r_def using valid hon len by (intro fits_fresh; simp)+
  moreover have "knows C (premsg_known p) i r"
    unfolding i_def r_def by (rule knows_fresh_i [OF role(1) hon(1) peer(2)]) (simp_all add: p kI_def)
  moreover have "knows C (premsg_known p) r i"
    unfolding i_def r_def by (rule knows_fresh_r [OF role(2) hon(2) peer(1)]) (simp_all add: p kR_def)
  moreover have fields: "hs_ss i = x" "hs_ss r = x" "hs_msgIndex i = 0" "hs_msgIndex r = 0"
    "\<not> hs_finished i" "\<not> hs_finished r" "hs_messages i = pat_MessagePatterns p"
    "hs_messages r = pat_MessagePatterns p"
    "hs_config i = ci\<lparr>cfg_CipherMode := mode\<rparr>" "hs_config r = cr\<lparr>cfg_CipherMode := mode\<rparr>"
    by (simp_all add: i_def r_def start_state_def hs_messages_def p)
  ultimately have "in_step C (premsg_known p) i r"
    unfolding in_step_def using role psk by simp
  then have "ready C (premsg_known p) (pat_MessagePatterns p) i r"
    using ok fields role by (simp add: ready_def my_turn_def pattern_ok_def p)
  then show ?thesis using i r fields role p by simp
qed

section \<open>The keys of a finished handshake\<close>

lemma NewCipherStateWithMode_ok:
  assumes "NormalizeCipherMode mode = Inr m" "length key = 32"
  shows "\<exists>cs. NewCipherStateWithMode mode key = Inr cs \<and> cs_key cs = key \<and> cs_nonce cs = 0
     \<and> cs_mode cs = m \<and> (m \<noteq> CipherModePlaintext \<longrightarrow> cs_aead cs = Some (m, key))"
  using assms Normalize_idem [OF assms(1)] NewAEADWithMode_ok [OF Normalize_idem [OF assms(1)]]
  by (cases "m = CipherModePlaintext") (simp_all add: NewCipherStateWithMode_def)

lemma Split_ok:
  assumes "crypto_laws C" "NormalizeCipherMode (ss_cipherMode ss) = Inr m"
  shows "\<exists>a b. SymmetricState_Split C ss = Inr (a, b)
     \<and> cs_mode a = m \<and> cs_mode b = m \<and> cs_nonce a = 0 \<and> cs_nonce b = 0
     \<and> (m \<noteq> CipherModePlaintext \<longrightarrow> cs_aead a = Some (m, cs_key a) \<and> cs_aead b = Some (m, cs_key b))
     \<and> length (cs_key a) = 32 \<and> length (cs_key b) = 32"
proof -
  obtain k1 k2 where k: "HKDF C (ss_chainingKey ss) [] 2 = Inr [k1, k2]" "length k1 = 32" "length k2 = 32"
    using assms(1) by (auto simp: HKDF_2 Let_def length_HMAC)
  obtain a where "NewCipherStateWithMode (ss_cipherMode ss) k1 = Inr a" "cs_key a = k1" "cs_nonce a = 0"
     "cs_mode a = m" "m \<noteq> CipherModePlaintext \<longrightarrow> cs_aead a = Some (m, k1)"
    using NewCipherStateWithMode_ok [OF assms(2) k(2)] by blast
  moreover obtain b where "NewCipherStateWithMode (ss_cipherMode ss) k2 = Inr b" "cs_key b = k2"
     "cs_nonce b = 0" "cs_mode b = m" "m \<noteq> CipherModePlaintext \<longrightarrow> cs_aead b = Some (m, k2)"
    using NewCipherStateWithMode_ok [OF assms(2) k(3)] by blast
  ultimately show ?thesis using k by (simp add: SymmetricState_Split_def)
qed

lemma split_in_step:
  assumes "crypto_laws C" "in_step C known w r" "hs_finished w" "hs_finished r"
  shows "\<exists>a b. HandshakeState_Split C w = Inr (a, b) \<and> HandshakeState_Split C r = Inr (b, a)"
proof -
  obtain m where "NormalizeCipherMode (ss_cipherMode (hs_ss r)) = Inr m"
    using assms(2) by (auto simp: in_step_def elim: mode_okE)
  then obtain a b where "SymmetricState_Split C (hs_ss r) = Inr (a, b)"
    using Split_ok [OF assms(1)] by blast
  then show ?thesis using assms(2-4) by (auto simp: HandshakeState_Split_def in_step_def)
qed

lemma handshake_run:
  assumes laws: "crypto_laws C" and m: "matching C ci cr" and ok: "pattern_ok (cfg_Pattern ci)"
    and len: "length payloads = length (pat_MessagePatterns (cfg_Pattern ci))"
      "random_all (pat_MessagePatterns (cfg_Pattern ci)) \<le> length random"
  shows "\<exists>i r i' r' known a b. NewHandshakeState C ci = Inr i \<and> NewHandshakeState C cr = Inr r
     \<and> exchange C i r payloads random = Inr (payloads, i', r')
     \<and> known = known_after True (pat_MessagePatterns (cfg_Pattern ci)) (premsg_known (cfg_Pattern ci))
     \<and> in_step C known i' r'
     \<and> cfg_Initiator (hs_config i') \<and> \<not> cfg_Initiator (hs_config r')
     \<and> cfg_LocalStatic (hs_config i') = cfg_LocalStatic ci
     \<and> cfg_LocalStatic (hs_config r') = cfg_LocalStatic cr
     \<and> HandshakeState_Split C i' = Inr (a, b) \<and> HandshakeState_Split C r' = Inr (b, a)"
proof -
  obtain i r where ir: "NewHandshakeState C ci = Inr i" "NewHandshakeState C cr = Inr r"
     "ready C (premsg_known (cfg_Pattern ci)) (pat_MessagePatterns (cfg_Pattern ci)) i r"
     "cfg_LocalStatic (hs_config i) = cfg_LocalStatic ci" "cfg_LocalStatic (hs_config r) = cfg_LocalStatic cr"
     "cfg_Initiator (hs_config i)" "\<not> cfg_Initiator (hs_config r)"
    using fresh_ready [OF laws m ok] by blast
  obtain i' r' where ex: "exchange C i r payloads random = Inr (payloads, i', r')"
     "in_step C (known_after (cfg_Initiator (hs_config i)) (pat_MessagePatterns (cfg_Pattern ci))
        (premsg_known (cfg_Pattern ci))) i' r'"
     "hs_finished i'" "hs_finished r'" "hs_config i' = hs_config i" "hs_config r' = hs_config r"
    using exchange_ready [OF laws ir(3) len] by blast
  obtain a b where "HandshakeState_Split C i' = Inr (a, b)" "HandshakeState_Split C r' = Inr (b, a)"
    using split_in_step [OF laws ex(2-4)] by blast
  with ir ex show ?thesis by simp
qed

section \<open>Properties\<close>

text \<open>
  C21: two peers with matching configurations complete the handshake: every payload is
  delivered, both end with the same transcript hash, and the transport keys one sends with are
  those the other receives with.
\<close>

theorem handshake_agreement:
  assumes "crypto_laws C" "matching C ci cr" "pattern_ok (cfg_Pattern ci)"
    "length payloads = length (pat_MessagePatterns (cfg_Pattern ci))"
    "random_all (pat_MessagePatterns (cfg_Pattern ci)) \<le> length random"
  shows "\<exists>i r i' r' a b. NewHandshakeState C ci = Inr i \<and> NewHandshakeState C cr = Inr r
     \<and> exchange C i r payloads random = Inr (payloads, i', r')
     \<and> ss_hash (hs_ss i') = ss_hash (hs_ss r')
     \<and> HandshakeState_Split C i' = Inr (a, b) \<and> HandshakeState_Split C r' = Inr (b, a)"
proof -
  from handshake_run [OF assms] obtain i r i' r' known a b where
    "NewHandshakeState C ci = Inr i" "NewHandshakeState C cr = Inr r"
    "exchange C i r payloads random = Inr (payloads, i', r')" "in_step C known i' r'"
    "HandshakeState_Split C i' = Inr (a, b)" "HandshakeState_Split C r' = Inr (b, a)"
    by blast
  then show ?thesis by (simp add: in_step_def)
qed

text \<open>The configurations of the witnesses, over the toy primitives.\<close>

definition toy_key :: "nat \<Rightarrow> KeyPair" where
  "toy_key n = (case NewKeyPair toy_crypto (replicate 32 (of_nat n)) of
     Inr kp \<Rightarrow> kp | Inl _ \<Rightarrow> \<lparr>kp_Private = [], kp_Public = []\<rparr>)"

definition toy_config :: "Pattern \<Rightarrow> bool \<Rightarrow> KeyPair \<Rightarrow> bytes \<Rightarrow> bytes option \<Rightarrow> Config" where
  "toy_config p i kp remote psk =
     \<lparr>cfg_Pattern = p, cfg_Initiator = i, cfg_LocalStatic = Some kp, cfg_RemoteStatic = Some remote,
      cfg_Prologue = [1, 2, 3], cfg_PresharedKey = psk, cfg_CipherMode = CipherModePlaintext\<rparr>"

lemma toy_key_honest: "honest toy_crypto (toy_key n)"
proof -
  have "\<exists>kp. NewKeyPair toy_crypto (replicate 32 (of_nat n)) = Inr kp"
    by (simp add: NewKeyPair_def toy_crypto_def Let_def)
  then show ?thesis by (auto simp: honest_def toy_key_def intro!: exI [of _ "replicate 32 (of_nat n)"])
qed

lemma toy_matching:
  assumes "p = PatternIK \<or> p = PatternXX \<or> p = PatternNN" "psk = None \<longleftrightarrow> psk' = None"
  shows "matching toy_crypto (toy_config p True (toy_key 1) (kp_Public (toy_key 2)) psk)
           (toy_config p False (toy_key 2) (kp_Public (toy_key 1)) psk')"
  using assms
  by (auto simp: matching_def toy_config_def mode_ok_def NormalizeCipherMode_def validateConfig_def
      Let_def honest_config_def toy_key_honest peer_known_def)

theorem handshake_agreement_witness:
  "\<exists>i r i' r' a b.
     NewHandshakeState toy_crypto (toy_config PatternIK True (toy_key 1) (kp_Public (toy_key 2)) None) = Inr i
     \<and> NewHandshakeState toy_crypto (toy_config PatternIK False (toy_key 2) (kp_Public (toy_key 1)) None) = Inr r
     \<and> exchange toy_crypto i r [[10, 20], []] (replicate 64 7) = Inr ([[10, 20], []], i', r')
     \<and> ss_hash (hs_ss i') = ss_hash (hs_ss r')
     \<and> HandshakeState_Split toy_crypto i' = Inr (a, b) \<and> HandshakeState_Split toy_crypto r' = Inr (b, a)"
proof (rule handshake_agreement [OF toy_crypto_laws toy_matching])
  show "pattern_ok (cfg_Pattern (toy_config PatternIK True (toy_key 1) (kp_Public (toy_key 2)) None))"
    by (simp add: toy_config_def patterns_ok)
qed (simp_all add: toy_config_def PatternIK_def random_all_def token_defs)

text \<open>
  C28: after the handshake each side holds the peer's true static public key whenever the
  pattern transmits it or presupposes it.
\<close>

theorem handshake_identities:
  assumes "crypto_laws C" "matching C ci cr" "pattern_ok (cfg_Pattern ci)"
    "length payloads = length (pat_MessagePatterns (cfg_Pattern ci))"
    "random_all (pat_MessagePatterns (cfg_Pattern ci)) \<le> length random"
    "known = known_after True (pat_MessagePatterns (cfg_Pattern ci)) (premsg_known (cfg_Pattern ci))"
  shows "\<exists>i r i' r'. NewHandshakeState C ci = Inr i \<and> NewHandshakeState C cr = Inr r
     \<and> exchange C i r payloads random = Inr (payloads, i', r')
     \<and> ((True, tokenS) \<in> set known \<longrightarrow>
          (\<exists>kp. cfg_LocalStatic ci = Some kp \<and> hs_remoteStatic r' = kp_Public kp))
     \<and> ((False, tokenS) \<in> set known \<longrightarrow>
          (\<exists>kp. cfg_LocalStatic cr = Some kp \<and> hs_remoteStatic i' = kp_Public kp))"
proof -
  from handshake_run [OF assms(1-5)] obtain i r i' r' where
    "NewHandshakeState C ci = Inr i" "NewHandshakeState C cr = Inr r"
    "exchange C i r payloads random = Inr (payloads, i', r')" "in_step C known i' r'"
    "cfg_Initiator (hs_config i')" "\<not> cfg_Initiator (hs_config r')"
    "cfg_LocalStatic (hs_config i') = cfg_LocalStatic ci"
    "cfg_LocalStatic (hs_config r') = cfg_LocalStatic cr"
    unfolding assms(6) by blast
  then show ?thesis by (auto simp: in_step_def knows_def)
qed

theorem handshake_identities_witness:
  "\<exists>i r i' r'.
     NewHandshakeState toy_crypto (toy_config PatternXX True (toy_key 1) (kp_Public (toy_key 2)) None) = Inr i
     \<and> NewHandshakeState toy_crypto (toy_config PatternXX False (toy_key 2) (kp_Public (toy_key 1)) None) = Inr r
     \<and> exchange toy_crypto i r [[1], [2], [3]] (replicate 64 7) = Inr ([[1], [2], [3]], i', r')
     \<and> hs_remoteStatic r' = kp_Public (toy_key 1) \<and> hs_remoteStatic i' = kp_Public (toy_key 2)"
proof -
  let ?ci = "toy_config PatternXX True (toy_key 1) (kp_Public (toy_key 2)) None"
  let ?cr = "toy_config PatternXX False (toy_key 2) (kp_Public (toy_key 1)) None"
  define known where "known = known_after True (pat_MessagePatterns (cfg_Pattern ?ci)) (premsg_known (cfg_Pattern ?ci))"
  have m: "matching toy_crypto ?ci ?cr" by (rule toy_matching) simp_all
  have ok: "pattern_ok (cfg_Pattern ?ci)" by (simp add: toy_config_def patterns_ok)
  have len: "length [[1], [2], [3 :: 8 word]] = length (pat_MessagePatterns (cfg_Pattern ?ci))"
    "random_all (pat_MessagePatterns (cfg_Pattern ?ci)) \<le> length (replicate 64 (7 :: 8 word))"
    by (simp_all add: toy_config_def PatternXX_def random_all_def token_defs)
  have k: "(True, tokenS) \<in> set known \<and> (False, tokenS) \<in> set known"
    by (simp add: known_def toy_config_def PatternXX_def premsg_known_def token_defs learn_def)
  have "cfg_LocalStatic ?ci = Some (toy_key 1)" "cfg_LocalStatic ?cr = Some (toy_key 2)"
    by (simp_all add: toy_config_def)
  then show ?thesis
    using handshake_identities [OF toy_crypto_laws m ok len known_def] k
    by (simp only: option.inject simp_thms)
qed

lemma validateConfig_psk [simp]: "validateConfig (c\<lparr>cfg_PresharedKey := k\<rparr>) = validateConfig c"
  by (simp add: validateConfig_def Let_def)

lemma matching_psk:
  assumes "matching C ci cr" "cfg_PresharedKey ci = Some k1"
  shows "matching C ci (cr\<lparr>cfg_PresharedKey := Some k2\<rparr>)"
  using assms by (simp add: matching_def peer_known_def honest_config_def)

text \<open>
  C40: the value of the preshared key is never mixed in: two peers configured with different
  preshared keys still complete the handshake with the same keys.
\<close>

theorem handshake_ignores_psk_value:
  assumes "crypto_laws C"
    "matching C ci cr" "cfg_PresharedKey ci = Some k1" "pattern_ok (cfg_Pattern ci)"
    "length payloads = length (pat_MessagePatterns (cfg_Pattern ci))"
    "random_all (pat_MessagePatterns (cfg_Pattern ci)) \<le> length random"
  shows "\<exists>i r i' r' a b. NewHandshakeState C ci = Inr i
     \<and> NewHandshakeState C (cr\<lparr>cfg_PresharedKey := Some k2\<rparr>) = Inr r
     \<and> exchange C i r payloads random = Inr (payloads, i', r')
     \<and> HandshakeState_Split C i' = Inr (a, b) \<and> HandshakeState_Split C r' = Inr (b, a)"
proof -
  from matching_psk [OF assms(2,3)] have "matching C ci (cr\<lparr>cfg_PresharedKey := Some k2\<rparr>)" .
  from handshake_run [OF assms(1) this assms(4-6)] show ?thesis by blast
qed

theorem handshake_ignores_psk_value_witness:
  "\<exists>i r i' r' a b.
     NewHandshakeState toy_crypto
       (toy_config PatternNN True (toy_key 1) (kp_Public (toy_key 2)) (Some (replicate 32 1))) = Inr i
     \<and> NewHandshakeState toy_crypto ((toy_config PatternNN False (toy_key 2) (kp_Public (toy_key 1)) (Some (replicate 32 3)))
          \<lparr>cfg_PresharedKey := Some (replicate 32 2)\<rparr>) = Inr r
     \<and> exchange toy_crypto i r [[], [5]] (replicate 64 9) = Inr ([[], [5]], i', r')
     \<and> HandshakeState_Split toy_crypto i' = Inr (a, b) \<and> HandshakeState_Split toy_crypto r' = Inr (b, a)"
proof (rule handshake_ignores_psk_value [OF toy_crypto_laws])
  show "matching toy_crypto
     (toy_config PatternNN True (toy_key 1) (kp_Public (toy_key 2)) (Some (replicate 32 1)))
     (toy_config PatternNN False (toy_key 2) (kp_Public (toy_key 1)) (Some (replicate 32 3)))"
    by (rule toy_matching) simp_all
  show "pattern_ok (cfg_Pattern
     (toy_config PatternNN True (toy_key 1) (kp_Public (toy_key 2)) (Some (replicate 32 1))))"
    by (simp add: toy_config_def patterns_ok)
qed (simp_all add: toy_config_def PatternNN_def random_all_def token_defs)

end
