(* ===== verification/NoiseReplay.thy ===== *)
theory NoiseReplay
  imports GizPrelude
begin

text \<open>
  The anti-replay window of \<^verbatim>\<open>pkgs/giznet/internal/noise/replay.go\<close>: a bitmap of 32
  64-bit words in which bit \<open>d\<close> stands for the nonce \<open>maxNonce - d\<close>. Every method takes
  the mutex for its whole body, so each is one atomic step on the record.
\<close>

definition ReplayWindowSize :: nat where "ReplayWindowSize = 2048"
definition replayWindowWords :: nat where "replayWindowWords = ReplayWindowSize div 64"

lemmas window_consts = ReplayWindowSize_def replayWindowWords_def

record ReplayFilter =
  rf_bitmap :: "u64 list"
  rf_maxNonce :: u64

definition NewReplayFilter :: ReplayFilter where
  "NewReplayFilter = \<lparr>rf_bitmap = replicate replayWindowWords 0, rf_maxNonce = 0\<rparr>"

definition checkLocked :: "ReplayFilter \<Rightarrow> u64 \<Rightarrow> bool" where
  "checkLocked rf nonce =
     (if rf_maxNonce rf < nonce then True
      else let delta = rf_maxNonce rf - nonce in
        if of_nat ReplayWindowSize \<le> delta then False
        else let wordIndex = unat (delta div 64); bitIndex = unat (delta mod 64)
             in rf_bitmap rf ! wordIndex AND push_bit bitIndex 1 = 0)"

text \<open>The carry loop of \<^verbatim>\<open>slideWindow\<close>: shift each word left and move the bits shifted out into the next.\<close>

fun shift_words :: "nat \<Rightarrow> u64 \<Rightarrow> u64 list \<Rightarrow> u64 list" where
  "shift_words bitShift carry [] = []"
| "shift_words bitShift carry (w # ws) =
     (push_bit bitShift w OR carry) # shift_words bitShift (drop_bit (64 - bitShift) w) ws"

definition slideWindow :: "u64 \<Rightarrow> ReplayFilter \<Rightarrow> ReplayFilter" where
  "slideWindow shift rf =
     (if of_nat ReplayWindowSize \<le> shift
      then rf\<lparr>rf_bitmap := replicate replayWindowWords 0\<rparr>
      else let wordShift = unat (shift div 64); bitShift = unat (shift mod 64);
               bm = rf_bitmap rf;
               bm = (if 0 < wordShift
                     then replicate wordShift 0
                       @ drop wordShift (copy_at bm wordShift replayWindowWords
                           (take (replayWindowWords - wordShift) bm))
                     else bm);
               bm = (if 0 < bitShift then shift_words bitShift 0 bm else bm)
           in rf\<lparr>rf_bitmap := bm\<rparr>)"

definition updateLocked :: "u64 \<Rightarrow> ReplayFilter \<Rightarrow> ReplayFilter" where
  "updateLocked nonce rf =
     (if rf_maxNonce rf < nonce then
        let shift = nonce - rf_maxNonce rf;
            rf = slideWindow shift rf;
            rf = rf\<lparr>rf_maxNonce := nonce\<rparr>
        in rf\<lparr>rf_bitmap := (rf_bitmap rf)[0 := rf_bitmap rf ! 0 OR 1]\<rparr>
      else
        let delta = rf_maxNonce rf - nonce in
        if delta < of_nat ReplayWindowSize then
          let wordIndex = unat (delta div 64); bitIndex = unat (delta mod 64)
          in rf\<lparr>rf_bitmap := (rf_bitmap rf)
                 [wordIndex := rf_bitmap rf ! wordIndex OR push_bit bitIndex 1]\<rparr>
        else rf)"

definition Check :: "ReplayFilter \<Rightarrow> u64 \<Rightarrow> bool" where
  "Check rf nonce = checkLocked rf nonce"

definition Update :: "u64 \<Rightarrow> ReplayFilter \<Rightarrow> ReplayFilter" where
  "Update nonce rf = updateLocked nonce rf"

definition CheckAndUpdate :: "u64 \<Rightarrow> ReplayFilter \<Rightarrow> bool \<times> ReplayFilter" where
  "CheckAndUpdate nonce rf =
     (if \<not> checkLocked rf nonce then (False, rf) else (True, updateLocked nonce rf))"

definition ReplayFilter_Reset :: "ReplayFilter \<Rightarrow> ReplayFilter" where
  "ReplayFilter_Reset rf =
     rf\<lparr>rf_bitmap := replicate (length (rf_bitmap rf)) 0, rf_maxNonce := 0\<rparr>"

definition ReplayFilter_MaxNonce :: "ReplayFilter \<Rightarrow> u64" where
  "ReplayFilter_MaxNonce rf = rf_maxNonce rf"

section \<open>The bitmap as a set of distances\<close>

definition window_bit :: "u64 list \<Rightarrow> nat \<Rightarrow> bool" where
  "window_bit bm d = bit (bm ! (d div 64)) (d mod 64)"

lemma length_shift_words [simp]: "length (shift_words b c ws) = length ws"
  by (induction ws arbitrary: c) auto

lemma nth_shift_words:
  "k < length ws \<Longrightarrow> shift_words b c ws ! k =
     push_bit b (ws ! k) OR (if k = 0 then c else drop_bit (64 - b) (ws ! (k - 1)))"
proof (induction ws arbitrary: c k)
  case Nil
  then show ?case by simp
next
  case (Cons w ws)
  then show ?case by (cases k) (auto split: if_splits simp: nth_Cons')
qed

lemma window_bit_words:
  assumes "length bm = 32" "ws \<le> 32" "d < 2048"
  shows "window_bit (replicate ws 0 @ take (32 - ws) bm) d
           \<longleftrightarrow> 64 * ws \<le> d \<and> window_bit bm (d - 64 * ws)"
proof (cases "d div 64 < ws")
  case True
  then show ?thesis by (auto simp: window_bit_def nth_append)
next
  case False
  then have "64 * ws \<le> d" by auto
  moreover have "d div 64 < 32" using assms(3) by auto
  moreover have "(d - 64 * ws) div 64 = d div 64 - ws" "(d - 64 * ws) mod 64 = d mod 64"
    using \<open>64 * ws \<le> d\<close> by (metis div_mult_self2 mod_mult_self2 add_diff_inverse_nat diff_add_inverse
        diff_add_inverse2 le_add_diff_inverse2 not_less zero_neq_numeral mult.commute)+
  moreover have "d div 64 - ws < 32 - ws" using False \<open>d div 64 < 32\<close> by simp
  ultimately show ?thesis using False assms
    by (simp add: window_bit_def nth_append)
qed

lemma window_bit_bits:
  assumes "length bm = 32" "0 < b" "b < 64" "d < 2048"
  shows "window_bit (shift_words b 0 bm) d \<longleftrightarrow> b \<le> d \<and> window_bit bm (d - b)"
proof -
  define k j where "k = d div 64" and "j = d mod 64"
  have d: "d = 64 * k + j" and j: "j < 64" and k: "k < 32"
    using assms by (auto simp: k_def j_def)
  have lhs: "window_bit (shift_words b 0 bm) d \<longleftrightarrow>
      b \<le> j \<and> bit (bm ! k) (j - b) \<or> 0 < k \<and> bit (bm ! (k - 1)) (64 - b + j)"
    using assms j k
    by (auto simp: window_bit_def nth_shift_words bit_simps k_def [symmetric] j_def [symmetric])
  show ?thesis
  proof (cases "b \<le> j")
    case True
    then have "d - b = 64 * k + (j - b)" "j - b < 64" using j by (simp_all add: d)
    then have "(d - b) div 64 = k" "(d - b) mod 64 = j - b" by simp_all
    moreover have "\<not> bit (bm ! (k - 1)) (64 - b + j)"
      using True assms(3) by (auto dest: bit_imp_le_length)
    ultimately show ?thesis using True lhs by (simp add: window_bit_def d)
  next
    case False
    show ?thesis
    proof (cases "k = 0")
      case True
      then show ?thesis using False lhs d by simp
    next
      case k0: False
      then obtain k' where k': "k = Suc k'" by (cases k) auto
      then have "d - b = 64 * k' + (64 - b + j)" using False assms(3) by (simp add: d)
      moreover have "64 - b + j < 64" using False assms(2,3) by simp
      ultimately have "(d - b) div 64 = k'" "(d - b) mod 64 = 64 - b + j" by auto
      moreover have "b \<le> d" using k' assms(3) by (simp add: d)
      ultimately show ?thesis using False lhs k' by (simp add: window_bit_def)
    qed
  qed
qed

lemma slide_copy:
  assumes "length bm = 32" "ws \<le> 32"
  shows "replicate ws 0 @ drop ws (copy_at bm ws 32 (take (32 - ws) bm))
           = replicate ws 0 @ take (32 - ws) bm"
  using assms by (simp add: copy_at_def go_copy_def)

lemma slideWindow_bitmap:
  assumes len: "length (rf_bitmap rf) = 32"
  shows "length (rf_bitmap (slideWindow s rf)) = 32"
    and "d < 2048 \<Longrightarrow> window_bit (rf_bitmap (slideWindow s rf)) d
           \<longleftrightarrow> unat s \<le> d \<and> window_bit (rf_bitmap rf) (d - unat s)"
    and "rf_maxNonce (slideWindow s rf) = rf_maxNonce rf"
proof -
  define w b where "w = unat (s div 64)" and "b = unat (s mod 64)"
  have wb: "unat s = 64 * w + b" "b < 64"
    by (simp_all add: w_def b_def unat_div unat_mod)
  define bm where "bm = replicate w 0 @ take (32 - w) (rf_bitmap rf)"
  have small: "rf_bitmap (slideWindow s rf) = (if 0 < b then shift_words b 0 bm else bm)"
    and w32: "w < 32" if "unat s < 2048"
  proof -
    show "w < 32" using that wb by simp
    then show "rf_bitmap (slideWindow s rf) = (if 0 < b then shift_words b 0 bm else bm)"
      using that len slide_copy [of "rf_bitmap rf" w]
      by (simp add: slideWindow_def window_consts word_le_nat_alt bm_def Let_def
          w_def [symmetric] b_def [symmetric])
  qed
  have big: "rf_bitmap (slideWindow s rf) = replicate 32 0" if "2048 \<le> unat s"
    using that by (simp add: slideWindow_def window_consts word_le_nat_alt)
  have "length bm = 32" if "unat s < 2048"
    using w32 [OF that] len by (simp add: bm_def)
  then show len': "length (rf_bitmap (slideWindow s rf)) = 32"
    using small big by (cases "unat s < 2048") simp_all
  show "rf_maxNonce (slideWindow s rf) = rf_maxNonce rf"
    by (simp add: slideWindow_def Let_def)
  assume d: "d < 2048"
  show "window_bit (rf_bitmap (slideWindow s rf)) d
           \<longleftrightarrow> unat s \<le> d \<and> window_bit (rf_bitmap rf) (d - unat s)"
  proof (cases "unat s < 2048")
    case False
    then show ?thesis using d big by (simp add: window_bit_def)
  next
    case True
    have "length bm = 32" using w32 [OF True] len by (simp add: bm_def)
    then have "window_bit (rf_bitmap (slideWindow s rf)) d \<longleftrightarrow> b \<le> d \<and> window_bit bm (d - b)"
      using small [OF True] window_bit_bits [of bm b d] wb(2) d by simp
    also have "\<dots> \<longleftrightarrow> b \<le> d \<and> 64 * w \<le> d - b \<and> window_bit (rf_bitmap rf) (d - b - 64 * w)"
      using window_bit_words [of "rf_bitmap rf" w "d - b"] len w32 [OF True] d by (simp add: bm_def)
    also have "\<dots> \<longleftrightarrow> unat s \<le> d \<and> window_bit (rf_bitmap rf) (d - unat s)"
      by (auto simp: wb(1) algebra_simps)
    finally show ?thesis .
  qed
qed

lemma window_bit_set:
  assumes "length bm = 32" "e < 2048" "d < 2048"
  shows "window_bit (bm[e div 64 := bm ! (e div 64) OR push_bit (e mod 64) 1]) d
           \<longleftrightarrow> d = e \<or> window_bit bm d"
proof (cases "d div 64 = e div 64")
  case True
  then have "d mod 64 = e mod 64 \<longleftrightarrow> d = e" by (metis div_mult_mod_eq)
  moreover have "e div 64 < 32" using assms(2) by auto
  ultimately show ?thesis using True assms(1)
    by (auto simp: window_bit_def bit_simps)
next
  case False
  then show ?thesis by (auto simp: window_bit_def)
qed

section \<open>The abstraction: the set of nonces recorded so far\<close>

definition tracks :: "ReplayFilter \<Rightarrow> nat set \<Rightarrow> bool" where
  "tracks rf S \<longleftrightarrow> length (rf_bitmap rf) = 32 \<and> (\<forall>n\<in>S. n \<le> unat (rf_maxNonce rf)) \<and>
     (\<forall>d<2048. window_bit (rf_bitmap rf) d \<longleftrightarrow>
        d \<le> unat (rf_maxNonce rf) \<and> unat (rf_maxNonce rf) - d \<in> S)"

lemma tracks_New: "tracks NewReplayFilter {}"
  by (auto simp: tracks_def NewReplayFilter_def window_consts window_bit_def)

lemma tracks_Reset: "tracks rf S \<Longrightarrow> tracks (ReplayFilter_Reset rf) {}"
  by (auto simp: tracks_def ReplayFilter_Reset_def window_bit_def)

lemma unat_diff_le: "(n :: u64) \<le> m \<Longrightarrow> unat (m - n) = unat m - unat n"
  by (rule unat_sub)

lemma checkLocked_spec:
  assumes "tracks rf S"
  shows "checkLocked rf nonce \<longleftrightarrow>
    unat (rf_maxNonce rf) < unat nonce + 2048 \<and> unat nonce \<notin> S"
proof (cases "rf_maxNonce rf < nonce")
  case True
  then show ?thesis using assms
    by (auto simp: checkLocked_def tracks_def word_less_nat_alt)
next
  case False
  define d where "d = unat (rf_maxNonce rf - nonce)"
  have le: "nonce \<le> rf_maxNonce rf" using False by simp
  then have d: "d = unat (rf_maxNonce rf) - unat nonce" "unat nonce \<le> unat (rf_maxNonce rf)"
    by (simp_all add: d_def unat_diff_le word_le_nat_alt)
  have "checkLocked rf nonce \<longleftrightarrow> d < 2048 \<and> \<not> window_bit (rf_bitmap rf) d"
    using False
    by (auto simp: checkLocked_def window_consts Let_def d_def word_le_nat_alt unat_div unat_mod
        window_bit_def and_exp_eq_0_iff_not_bit push_bit_eq_mult)
  moreover have "window_bit (rf_bitmap rf) d \<longleftrightarrow> unat nonce \<in> S" if "d < 2048"
    using assms that d by (simp add: tracks_def)
  ultimately show ?thesis using d by (cases "d < 2048") auto
qed

lemma tracks_update:
  assumes "tracks rf S"
  shows "tracks (updateLocked nonce rf) (insert (unat nonce) S)"
proof (cases "rf_maxNonce rf < nonce")
  case True
  let ?s = "nonce - rf_maxNonce rf" and ?r = "slideWindow (nonce - rf_maxNonce rf) rf"
  have s: "unat ?s = unat nonce - unat (rf_maxNonce rf)" "unat (rf_maxNonce rf) < unat nonce"
    using True unat_diff_le [OF less_imp_le [OF True]] by (simp_all add: word_less_nat_alt)
  have len: "length (rf_bitmap rf) = 32" using assms by (simp add: tracks_def)
  have "window_bit ((rf_bitmap ?r)[0 := rf_bitmap ?r ! 0 OR 1]) d \<longleftrightarrow>
      d \<le> unat nonce \<and> unat nonce - d \<in> insert (unat nonce) S" if "d < 2048" for d
    using assms that s window_bit_set [of "rf_bitmap ?r" 0 d] slideWindow_bitmap(1,2) [OF len, where s = ?s]
    by (auto simp: tracks_def)
  then show ?thesis using True assms s slideWindow_bitmap(1) [OF len, where s = ?s]
    by (auto simp: updateLocked_def tracks_def Let_def)
next
  case False
  define e where "e = unat (rf_maxNonce rf - nonce)"
  have le: "nonce \<le> rf_maxNonce rf" using False by simp
  then have e: "e = unat (rf_maxNonce rf) - unat nonce" "unat nonce \<le> unat (rf_maxNonce rf)"
    by (simp_all add: e_def unat_diff_le word_le_nat_alt)
  have "updateLocked nonce rf = (if e < 2048 then
      rf\<lparr>rf_bitmap := (rf_bitmap rf)[e div 64 := rf_bitmap rf ! (e div 64) OR push_bit (e mod 64) 1]\<rparr>
      else rf)"
    using False by (simp add: updateLocked_def window_consts Let_def e_def word_less_nat_alt
        unat_div unat_mod)
  then show ?thesis using assms e window_bit_set [of "rf_bitmap rf" e]
    by (auto simp: tracks_def)
qed

lemma tracks_CheckAndUpdate:
  assumes "tracks rf S"
  shows "fst (CheckAndUpdate nonce rf)
      \<longleftrightarrow> unat (rf_maxNonce rf) < unat nonce + 2048 \<and> unat nonce \<notin> S"
    and "tracks (snd (CheckAndUpdate nonce rf))
      (if fst (CheckAndUpdate nonce rf) then insert (unat nonce) S else S)"
  using assms by (auto simp: CheckAndUpdate_def checkLocked_spec tracks_update)

lemma updateLocked_max: "rf_maxNonce (updateLocked nonce rf) = max (rf_maxNonce rf) nonce"
  by (auto simp: updateLocked_def Let_def max_def slideWindow_def)

section \<open>Runs of the filter\<close>

text \<open>
  Packets arrive as a list of nonces and each is passed to \<^verbatim>\<open>CheckAndUpdate\<close>; the run
  collects the decisions.
\<close>

fun replay_run :: "ReplayFilter \<Rightarrow> u64 list \<Rightarrow> bool list" where
  "replay_run rf [] = []"
| "replay_run rf (n # ns) =
     (let (ok, rf') = CheckAndUpdate n rf in ok # replay_run rf' ns)"

text \<open>
  The specification remembers every accepted nonce and has no bitmap: a nonce is accepted when
  it is new and less than 2048 behind every nonce accepted before.
\<close>

fun accept_run :: "nat list \<Rightarrow> nat list \<Rightarrow> bool list" where
  "accept_run acc [] = []"
| "accept_run acc (n # ns) =
     (let ok = n \<notin> set acc \<and> list_all (\<lambda>m. m < n + 2048) acc
      in ok # accept_run (if ok then n # acc else acc) ns)"

definition max_of :: "nat list \<Rightarrow> nat" where
  "max_of acc = foldr max acc 0"

lemma list_all_max_of: "0 < k \<Longrightarrow> list_all (\<lambda>m. m < k) acc \<longleftrightarrow> max_of acc < k"
  by (induction acc) (auto simp: max_of_def)

lemma replay_run_refines:
  "tracks rf (set acc) \<Longrightarrow> unat (rf_maxNonce rf) = max_of acc \<Longrightarrow>
   replay_run rf ns = accept_run acc (map unat ns)"
proof (induction ns arbitrary: rf acc)
  case Nil
  then show ?case by simp
next
  case (Cons n ns)
  let ?r = "CheckAndUpdate n rf"
  have ok: "fst ?r \<longleftrightarrow> unat n \<notin> set acc \<and> list_all (\<lambda>m. m < unat n + 2048) acc"
    using tracks_CheckAndUpdate(1) [OF Cons.prems(1), of n] Cons.prems(2)
    by (auto simp: list_all_max_of)
  let ?acc = "if fst ?r then unat n # acc else acc"
  have "tracks (snd ?r) (set ?acc)"
    using tracks_CheckAndUpdate(2) [OF Cons.prems(1), of n] by (simp split: if_splits)
  moreover have "unat (rf_maxNonce (snd ?r)) = max_of ?acc"
    using Cons.prems(2)
    by (auto simp: CheckAndUpdate_def updateLocked_max max_of_def max_def word_le_nat_alt)
  ultimately have "replay_run (snd ?r) ns = accept_run ?acc (map unat ns)" by (rule Cons.IH)
  with ok show ?case by (simp add: split_beta Let_def)
qed

fun accepted :: "'a list \<Rightarrow> bool list \<Rightarrow> 'a list" where
  "accepted (x # xs) (b # bs) = (if b then x # accepted xs bs else accepted xs bs)"
| "accepted _ _ = []"

lemma accept_run_fresh:
  "distinct (accepted ns (accept_run acc ns)) \<and>
   set (accepted ns (accept_run acc ns)) \<inter> set acc = {}"
proof (induction ns arbitrary: acc)
  case Nil
  then show ?case by simp
next
  case (Cons n ns)
  from Cons.IH [of acc] Cons.IH [of "n # acc"] show ?case by (auto simp: Let_def)
qed

lemmas replay_run_from_New = replay_run_refines
  [of NewReplayFilter "[]", simplified, OF tracks_New]

lemma NewReplayFilter_max: "unat (rf_maxNonce NewReplayFilter) = max_of []"
  by (simp add: NewReplayFilter_def max_of_def)

lemma accepted_map: "accepted (map f xs) bs = map f (accepted xs bs)"
  by (induction xs bs rule: accepted.induct) auto

section \<open>Properties\<close>

text \<open>
  C22: The sliding bitmap implements its contract exactly, for every sequence of nonces fed to a
  new filter: each decision of \<^verbatim>\<open>CheckAndUpdate\<close> is the decision of the filter that remembers
  all accepted nonces, namely accept when the nonce was not accepted before and lies less than
  2048 behind the highest one. Word shifts, carries and 64-bit wrap-around never disturb it.
\<close>

theorem replay_filter_refines_set:
  "replay_run NewReplayFilter ns = accept_run [] (map unat ns)"
  by (rule replay_run_from_New [OF NewReplayFilter_max])

text \<open>
  No nonce is accepted twice, whatever the order, gaps or repetitions of the packets.
\<close>

theorem replay_filter_no_replay:
  "distinct (accepted ns (replay_run NewReplayFilter ns))"
proof -
  have "replay_run NewReplayFilter ns = accept_run [] (map unat ns)"
    by (rule replay_run_from_New [OF NewReplayFilter_max])
  then have "distinct (map unat (accepted ns (replay_run NewReplayFilter ns)))"
    using accept_run_fresh [of "map unat ns" "[]"] by (simp add: accepted_map)
  then show ?thesis by (simp add: distinct_map)
qed

end
