(* ===== verification/NoiseSession.thy ===== *)
theory NoiseSession
  imports NoiseExchange NoiseMessage NoiseReplay
begin

text \<open>
  Transport sessions, \<^verbatim>\<open>pkgs/giznet/internal/noise/session.go\<close>. The clock is an argument: every
  operation that reads \<^verbatim>\<open>time.Now()\<close> takes the time in nanoseconds. \<^verbatim>\<open>sendNonce\<close> is fetched and
  incremented atomically, so concurrent calls of \<^verbatim>\<open>Encrypt\<close> are sequences of \<open>Encrypt\<close> here.
\<close>

section \<open>State\<close>

type_synonym SessionState = u32

definition SessionStateHandshaking :: SessionState where "SessionStateHandshaking = 0"
definition SessionStateEstablished :: SessionState where "SessionStateEstablished = 1"
definition SessionStateExpired :: SessionState where "SessionStateExpired = 2"

lemmas session_state_defs =
  SessionStateHandshaking_def SessionStateEstablished_def SessionStateExpired_def

definition SessionState_String :: "SessionState \<Rightarrow> string" where
  "SessionState_String s =
     (if s = SessionStateHandshaking then ''handshaking''
      else if s = SessionStateEstablished then ''established''
      else if s = SessionStateExpired then ''expired''
      else ''unknown'')"

definition SessionTimeout :: int where "SessionTimeout = 180 * 1000000000"

definition MaxNonce :: u64 where "MaxNonce = NOT 0 - 1"

record Session =
  ses_localIndex :: u32
  ses_remoteIndex :: u32
  ses_sendKey :: bytes
  ses_recvKey :: bytes
  ses_cipherMode :: CipherMode
  ses_sendAEAD :: "aead option"
  ses_recvAEAD :: "aead option"
  ses_sendNonce :: u64
  ses_recvNonce :: ReplayFilter
  ses_state :: SessionState
  ses_remotePK :: bytes
  ses_createdAt :: int
  ses_lastReceived :: int
  ses_lastSent :: int

record SessionConfig =
  sc_LocalIndex :: u32
  sc_RemoteIndex :: u32
  sc_SendKey :: bytes
  sc_RecvKey :: bytes
  sc_RemotePK :: bytes
  sc_CipherMode :: CipherMode

section \<open>Operations\<close>

definition NewSession :: "SessionConfig \<Rightarrow> int \<Rightarrow> noise_error + Session" where
  "NewSession cfg now =
     (case NormalizeCipherMode (sc_CipherMode cfg) of
        Inl e \<Rightarrow> Inl e
      | Inr mode \<Rightarrow>
          let build = (\<lambda>sendAEAD recvAEAD.
                \<lparr>ses_localIndex = sc_LocalIndex cfg, ses_remoteIndex = sc_RemoteIndex cfg,
                 ses_sendKey = sc_SendKey cfg, ses_recvKey = sc_RecvKey cfg, ses_cipherMode = mode,
                 ses_sendAEAD = sendAEAD, ses_recvAEAD = recvAEAD, ses_sendNonce = 0,
                 ses_recvNonce = NewReplayFilter, ses_state = SessionStateEstablished,
                 ses_remotePK = sc_RemotePK cfg, ses_createdAt = now, ses_lastReceived = now,
                 ses_lastSent = now\<rparr>)
          in if mode \<noteq> CipherModePlaintext then
               (case NewAEADWithMode mode (sc_SendKey cfg) of
                  Inl e \<Rightarrow> Inl e
                | Inr s \<Rightarrow>
                    (case NewAEADWithMode mode (sc_RecvKey cfg) of
                       Inl e \<Rightarrow> Inl e
                     | Inr r \<Rightarrow> Inr (build (Some s) (Some r))))
             else Inr (build None None))"

definition SetRemoteIndex :: "u32 \<Rightarrow> Session \<Rightarrow> Session" where
  "SetRemoteIndex idx s = s\<lparr>ses_remoteIndex := idx\<rparr>"

definition SetState :: "SessionState \<Rightarrow> Session \<Rightarrow> Session" where
  "SetState st s = s\<lparr>ses_state := st\<rparr>"

definition Session_Encrypt ::
  "crypto \<Rightarrow> int \<Rightarrow> bytes \<Rightarrow> Session \<Rightarrow> (noise_error + bytes \<times> u64) \<times> Session" where
  "Session_Encrypt C now plaintext s =
     (if ses_state s \<noteq> SessionStateEstablished then (Inl ErrSessionNotEstablished, s)
      else
        let s = s\<lparr>ses_sendNonce := ses_sendNonce s + 1\<rparr>; nonce = ses_sendNonce s - 1 in
        if MaxNonce \<le> nonce then (Inl ErrNonceExhausted, s)
        else (case sealWithAEAD C (ses_cipherMode s) (ses_sendAEAD s) nonce plaintext [] of
                Inl e \<Rightarrow> (Inl e, s)
              | Inr ciphertext \<Rightarrow> (Inr (ciphertext, nonce), s\<lparr>ses_lastSent := now\<rparr>)))"

definition Session_Decrypt ::
  "crypto \<Rightarrow> int \<Rightarrow> bytes \<Rightarrow> u64 \<Rightarrow> Session \<Rightarrow> (noise_error + bytes) \<times> Session" where
  "Session_Decrypt C now ciphertext nonce s =
     (if ses_state s \<noteq> SessionStateEstablished then (Inl ErrSessionNotEstablished, s)
      else case CheckAndUpdate nonce (ses_recvNonce s) of (ok, rf) \<Rightarrow>
        let s = s\<lparr>ses_recvNonce := rf\<rparr> in
        if \<not> ok then (Inl ErrReplayDetected, s)
        else (case openWithAEAD C (ses_cipherMode s) (ses_recvAEAD s) nonce ciphertext [] of
                Inl e \<Rightarrow> (Inl ErrDecryptionFailed, s)
              | Inr plaintext \<Rightarrow> (Inr plaintext, s\<lparr>ses_lastReceived := now\<rparr>)))"

definition IsExpired :: "int \<Rightarrow> Session \<Rightarrow> bool" where
  "IsExpired now s \<longleftrightarrow>
     (if ses_state s = SessionStateExpired then True else SessionTimeout < now - ses_lastReceived s)"

definition Expire :: "Session \<Rightarrow> Session" where
  "Expire s = s\<lparr>ses_state := SessionStateExpired\<rparr>"

definition RecvMaxNonce :: "Session \<Rightarrow> u64" where
  "RecvMaxNonce s = ReplayFilter_MaxNonce (ses_recvNonce s)"

text \<open>\<^verbatim>\<open>GenerateIndex\<close> reads four bytes of \<^verbatim>\<open>crypto/rand\<close>, given here with what is left of them.\<close>

definition GenerateIndex :: "bytes \<Rightarrow> noise_error + (u32 \<times> bytes)" where
  "GenerateIndex random =
     (if length random < 4 then Inl RandomFailed
      else Inr (get_u32 (go_slice random 0 4), drop 4 random))"

section \<open>Runs of a session\<close>

text \<open>A session is used by several goroutines; a run is any sequence of its state changes.\<close>

datatype session_op =
    OpEncrypt int bytes
  | OpDecrypt int bytes u64
  | OpSetState SessionState
  | OpSetRemoteIndex u32
  | OpExpire

datatype session_out =
    Sent "noise_error + bytes \<times> u64"
  | Received u64 "noise_error + bytes"
  | Silent

fun session_step :: "crypto \<Rightarrow> session_op \<Rightarrow> Session \<Rightarrow> session_out \<times> Session" where
  "session_step C (OpEncrypt now p) s = (case Session_Encrypt C now p s of (r, s) \<Rightarrow> (Sent r, s))"
| "session_step C (OpDecrypt now c n) s =
     (case Session_Decrypt C now c n s of (r, s) \<Rightarrow> (Received n r, s))"
| "session_step C (OpSetState st) s = (Silent, SetState st s)"
| "session_step C (OpSetRemoteIndex i) s = (Silent, SetRemoteIndex i s)"
| "session_step C OpExpire s = (Silent, Expire s)"

fun session_run :: "crypto \<Rightarrow> session_op list \<Rightarrow> Session \<Rightarrow> session_out list" where
  "session_run C [] s = []"
| "session_run C (op # ops) s =
     (case session_step C op s of (out, s) \<Rightarrow> out # session_run C ops s)"

fun sent_nonces :: "session_out list \<Rightarrow> u64 list" where
  "sent_nonces (Sent (Inr (c, n)) # outs) = n # sent_nonces outs"
| "sent_nonces (_ # outs) = sent_nonces outs"
| "sent_nonces [] = []"

fun received_nonces :: "session_out list \<Rightarrow> u64 list" where
  "received_nonces (Received n (Inr p) # outs) = n # received_nonces outs"
| "received_nonces (_ # outs) = received_nonces outs"
| "received_nonces [] = []"

text \<open>One step changes the send nonce by at most one, and only a successful step uses it.\<close>

lemma Encrypt_cases:
  assumes "Session_Encrypt C now p s = (r, s')"
  obtains e where "r = Inl e" "s' = s"
  | e where "r = Inl e" "s' = s\<lparr>ses_sendNonce := ses_sendNonce s + 1\<rparr>"
  | c where "r = Inr (c, ses_sendNonce s)" "ses_sendNonce s < MaxNonce"
      "s' = s\<lparr>ses_sendNonce := ses_sendNonce s + 1, ses_lastSent := now\<rparr>"
      "sealWithAEAD C (ses_cipherMode s) (ses_sendAEAD s) (ses_sendNonce s) p [] = Inr c"
      "ses_state s = SessionStateEstablished"
  using assms
  by (cases "sealWithAEAD C (ses_cipherMode s) (ses_sendAEAD s) (ses_sendNonce s) p []")
    (auto simp: Session_Encrypt_def Let_def not_le split: if_splits)

lemma Decrypt_cases:
  assumes "Session_Decrypt C now c n s = (r, s')"
  obtains e where "r = Inl e" "s' = s"
  | e where "r = Inl e" "s' = s\<lparr>ses_recvNonce := snd (CheckAndUpdate n (ses_recvNonce s))\<rparr>"
  | p where "r = Inr p" "fst (CheckAndUpdate n (ses_recvNonce s))"
      "s' = s\<lparr>ses_recvNonce := snd (CheckAndUpdate n (ses_recvNonce s)), ses_lastReceived := now\<rparr>"
      "openWithAEAD C (ses_cipherMode s) (ses_recvAEAD s) n c [] = Inr p"
      "ses_state s = SessionStateEstablished"
proof (cases "ses_state s = SessionStateEstablished \<and> fst (CheckAndUpdate n (ses_recvNonce s))")
  case ok: True
  show ?thesis
  proof (cases "openWithAEAD C (ses_cipherMode s) (ses_recvAEAD s) n c []")
    case (Inl e)
    then show ?thesis using ok assms that(2) [of ErrDecryptionFailed]
      by (simp add: Session_Decrypt_def split_beta Let_def)
  next
    case (Inr p)
    then show ?thesis using ok assms that(3) [of p]
      by (simp add: Session_Decrypt_def split_beta Let_def)
  qed
next
  case False
  then show ?thesis using assms that(1) [of ErrSessionNotEstablished] that(2) [of ErrReplayDetected]
    by (auto simp: Session_Decrypt_def split_beta Let_def split: if_splits)
qed

lemma step_sendNonce:
  assumes "session_step C op s = (out, s')"
  shows "(ses_sendNonce s' = ses_sendNonce s \<and> sent_nonces [out] = [])
     \<or> (ses_sendNonce s' = ses_sendNonce s + 1 \<and> sent_nonces [out] \<in> {[], [ses_sendNonce s]})"
proof (cases op)
  case (OpEncrypt now p)
  then obtain r where "Session_Encrypt C now p s = (r, s')" "out = Sent r"
    using assms by (auto split: prod.splits)
  then show ?thesis by (auto elim: Encrypt_cases)
next
  case (OpDecrypt now c n)
  then obtain r where r: "Session_Decrypt C now c n s = (r, s')" "out = Received n r"
    using assms by (auto split: prod.splits)
  from r(1) have "ses_sendNonce s' = ses_sendNonce s" by (auto elim: Decrypt_cases)
  with r(2) show ?thesis by simp
qed (use assms in \<open>auto simp: SetState_def SetRemoteIndex_def Expire_def\<close>)

lemma sent_nonces_append: "sent_nonces (xs @ ys) = sent_nonces xs @ sent_nonces ys"
  by (induction xs rule: sent_nonces.induct) auto

lemma received_nonces_append: "received_nonces (xs @ ys) = received_nonces xs @ received_nonces ys"
  by (induction xs rule: received_nonces.induct) auto

lemma unat_plus_one: "unat (n :: u64) + 1 < 2 ^ 64 \<Longrightarrow> unat (n + 1) = unat n + 1"
  by (simp add: unat_word_ariths)

lemma run_sent_nonces:
  assumes "unat (ses_sendNonce s) + length ops \<le> N" and N: "N \<le> 2 ^ 64"
  shows "distinct (sent_nonces (session_run C ops s))
   \<and> (\<forall>n\<in>set (sent_nonces (session_run C ops s)). ses_sendNonce s \<le> n)"
  using assms(1)
proof (induction ops arbitrary: s)
  case (Cons op ops)
  obtain out s' where st: "session_step C op s = (out, s')" by fastforce
  have run: "sent_nonces (session_run C (op # ops) s) = sent_nonces [out] @ sent_nonces (session_run C ops s')"
    using sent_nonces_append [of "[out]" "session_run C ops s'"] by (simp add: st)
  show ?case
  proof (cases "ses_sendNonce s' = ses_sendNonce s \<and> sent_nonces [out] = []")
    case True
    then show ?thesis using Cons.IH [of s'] Cons.prems run by simp
  next
    case False
    then have s': "ses_sendNonce s' = ses_sendNonce s + 1" "sent_nonces [out] \<in> {[], [ses_sendNonce s]}"
      using step_sendNonce [OF st] by auto
    show ?thesis
    proof (cases "ops = []")
      case True
      then show ?thesis using run s'(2) by auto
    next
      case False
      then have lt: "unat (ses_sendNonce s) + 1 < N" using Cons.prems by (cases ops) auto
      have un: "unat (ses_sendNonce s') = unat (ses_sendNonce s) + 1"
        unfolding s'(1) by (rule unat_plus_one [OF less_le_trans [OF lt N]])
      have gt: "ses_sendNonce s < ses_sendNonce s'"
        unfolding word_less_nat_alt un by simp
      have le: "unat (ses_sendNonce s') + length ops \<le> N" using Cons.prems by (simp add: un)
      show ?thesis using Cons.IH [OF le] gt s'(2) unfolding run by (auto dest: less_le_trans)
    qed
  qed
qed simp

text \<open>The filter of a session tracks every counter it ever accepted.\<close>

lemma step_received:
  assumes "session_step C op s = (out, s')" "tracks (ses_recvNonce s) S"
  shows "\<exists>S'. tracks (ses_recvNonce s') S' \<and> S \<subseteq> S' \<and>
     unat ` set (received_nonces [out]) \<subseteq> S' - S"
proof (cases op)
  case (OpDecrypt now c n)
  then obtain r where r: "Session_Decrypt C now c n s = (r, s')" "out = Received n r"
    using assms by (auto split: prod.splits)
  note filter = tracks_CheckAndUpdate [OF assms(2), of n]
  let ?S' = "if fst (CheckAndUpdate n (ses_recvNonce s)) then insert (unat n) S else S"
  from r(1) show ?thesis
  proof (cases rule: Decrypt_cases)
    case 1
    then show ?thesis using assms(2) r(2) by auto
  next
    case 2
    then show ?thesis using filter(2) r(2) by (intro exI [of _ ?S']) auto
  next
    case 3
    then show ?thesis using filter r(2) by (intro exI [of _ ?S']) auto
  qed
next
  case (OpEncrypt now p)
  then obtain r where r: "Session_Encrypt C now p s = (r, s')" "out = Sent r"
    using assms by (auto split: prod.splits)
  from r(1) have "ses_recvNonce s' = ses_recvNonce s" by (auto elim: Encrypt_cases)
  with r(2) show ?thesis using assms(2) by auto
qed (use assms in \<open>auto simp: SetState_def SetRemoteIndex_def Expire_def\<close>)

lemma run_received_nonces:
  "tracks (ses_recvNonce s) S \<Longrightarrow>
   distinct (received_nonces (session_run C ops s))
   \<and> unat ` set (received_nonces (session_run C ops s)) \<inter> S = {}"
proof (induction ops arbitrary: s S)
  case (Cons op ops)
  obtain out s' where st: "session_step C op s = (out, s')" by fastforce
  obtain S' where S': "tracks (ses_recvNonce s') S'" "S \<subseteq> S'"
    "unat ` set (received_nonces [out]) \<subseteq> S' - S"
    using step_received [OF st Cons.prems] by blast
  have run: "received_nonces (session_run C (op # ops) s)
      = received_nonces [out] @ received_nonces (session_run C ops s')"
    using received_nonces_append [of "[out]" "session_run C ops s'"] by (simp add: st)
  have "distinct (received_nonces [out])"
    by (cases "[out]" rule: received_nonces.cases) auto
  moreover have "set (received_nonces [out]) \<inter> set (received_nonces (session_run C ops s')) = {}"
    using Cons.IH [OF S'(1)] S'(3) by blast
  moreover have "unat ` set (received_nonces [out]) \<inter> S = {}"
    "unat ` set (received_nonces (session_run C ops s')) \<inter> S = {}"
    using Cons.IH [OF S'(1)] S'(2,3) by blast+
  ultimately show ?case
    using Cons.IH [OF S'(1)] unfolding run set_append image_Un distinct_append by blast
qed simp

section \<open>Delivery between two sessions\<close>

text \<open>
  The sender wraps each ciphertext with its counter in a transport message; the receiver
  parses the packet and decrypts it with the counter of its header.
\<close>

fun send_all :: "crypto \<Rightarrow> bytes list \<Rightarrow> Session \<Rightarrow> noise_error + bytes list" where
  "send_all C [] s = Inr []"
| "send_all C (p # ps) s =
     (case Session_Encrypt C 0 p s of
        (Inl e, s) \<Rightarrow> Inl e
      | (Inr (c, n), s) \<Rightarrow>
          (case send_all C ps s of
             Inl e \<Rightarrow> Inl e
           | Inr packets \<Rightarrow> Inr (BuildTransportMessage (ses_remoteIndex s) n c # packets)))"

definition receive :: "crypto \<Rightarrow> bytes \<Rightarrow> Session \<Rightarrow> (noise_error + bytes) \<times> Session" where
  "receive C packet s =
     (case ParseTransportMessage packet of
        Inl e \<Rightarrow> (Inl ErrInvalidMessage, s)
      | Inr m \<Rightarrow> Session_Decrypt C 0 (tm_Ciphertext m) (tm_Counter m) s)"

fun receive_all :: "crypto \<Rightarrow> bytes list \<Rightarrow> Session \<Rightarrow> (noise_error + bytes) list" where
  "receive_all C [] s = []"
| "receive_all C (packet # packets) s =
     (case receive C packet s of (r, s) \<Rightarrow> r # receive_all C packets s)"

text \<open>What the receiver should see: the first copy of a packet is delivered, later ones are not.\<close>

fun expected :: "bytes list \<Rightarrow> nat list \<Rightarrow> nat list \<Rightarrow> (noise_error + bytes) list" where
  "expected ps seen [] = []"
| "expected ps seen (i # is) =
     (if i \<in> set seen then Inl ErrReplayDetected else Inr (ps ! i)) # expected ps (i # seen) is"

definition channel :: "crypto \<Rightarrow> Session \<Rightarrow> Session \<Rightarrow> bool" where
  "channel C a b \<longleftrightarrow>
     ses_cipherMode a = ses_cipherMode b \<and> ses_sendAEAD a = ses_recvAEAD b
     \<and> (\<exists>m. NormalizeCipherMode (ses_cipherMode b) = Inr m \<and>
          (m \<noteq> CipherModePlaintext \<longrightarrow> (\<exists>m' k. ses_recvAEAD b = Some (m', k) \<and> length k = 32)))"

lemma channel_seal:
  assumes "crypto_laws C" "channel C a b"
  shows "\<exists>c. sealWithAEAD C (ses_cipherMode a) (ses_sendAEAD a) n p [] = Inr c \<and> 16 \<le> length c
     \<and> openWithAEAD C (ses_cipherMode b) (ses_recvAEAD b) n c [] = Inr p"
proof -
  obtain m where m: "NormalizeCipherMode (ses_cipherMode b) = Inr m"
    "m \<noteq> CipherModePlaintext \<Longrightarrow> \<exists>m' k. ses_recvAEAD b = Some (m', k) \<and> length k = 32"
    using assms(2) by (auto simp: channel_def)
  from seal_open_AEAD [OF assms(1) m, of n p "[]"] assms(2) show ?thesis by (auto simp: channel_def)
qed

definition packet_of :: "crypto \<Rightarrow> Session \<Rightarrow> bytes \<Rightarrow> u64 \<Rightarrow> bytes \<Rightarrow> bool" where
  "packet_of C b packet n p \<longleftrightarrow> (\<exists>ri c. packet = BuildTransportMessage ri n c \<and> 16 \<le> length c
     \<and> openWithAEAD C (ses_cipherMode b) (ses_recvAEAD b) n c [] = Inr p)"

lemma below_MaxNonce: "n < MaxNonce \<longleftrightarrow> unat n < 2 ^ 64 - 2"
  by (simp add: MaxNonce_def word_less_nat_alt)

lemma send_all_ok:
  assumes "crypto_laws C" "channel C a b" "ses_state a = SessionStateEstablished"
    "unat (ses_sendNonce a) + length ps \<le> N" "N \<le> 2048"
  shows "\<exists>packets. send_all C ps a = Inr packets \<and> length packets = length ps
     \<and> (\<forall>i<length ps. packet_of C b (packets ! i) (ses_sendNonce a + of_nat i) (ps ! i))"
  using assms(2-4)
proof (induction ps arbitrary: a)
  case (Cons p ps)
  let ?n = "ses_sendNonce a"
  obtain c where c: "sealWithAEAD C (ses_cipherMode a) (ses_sendAEAD a) ?n p [] = Inr c" "16 \<le> length c"
     "openWithAEAD C (ses_cipherMode b) (ses_recvAEAD b) ?n c [] = Inr p"
    using channel_seal [OF assms(1) Cons.prems(1)] by blast
  define a' where "a' = a\<lparr>ses_sendNonce := ?n + 1, ses_lastSent := 0\<rparr>"
  have small: "unat ?n < 2048" using Cons.prems(3) assms(5) by simp
  then have "?n < MaxNonce" by (simp add: below_MaxNonce)
  then have enc: "Session_Encrypt C 0 p a = (Inr (c, ?n), a')"
    using Cons.prems(2) c(1) by (simp add: Session_Encrypt_def Let_def a'_def)
  have "unat (?n + 1) = unat ?n + 1" using small by (intro unat_plus_one) simp
  then have le: "unat (ses_sendNonce a') + length ps \<le> N" using Cons.prems(3) by (simp add: a'_def)
  have "channel C a' b" "ses_state a' = SessionStateEstablished"
    using Cons.prems(1,2) by (simp_all add: a'_def channel_def)
  from Cons.IH [OF this le] obtain packets where rest: "send_all C ps a' = Inr packets"
    "length packets = length ps"
    "\<forall>i<length ps. packet_of C b (packets ! i) (?n + 1 + of_nat i) (ps ! i)"
    by (auto simp: a'_def)
  let ?pk = "BuildTransportMessage (ses_remoteIndex a') ?n c"
  have "packet_of C b ((?pk # packets) ! i) (?n + of_nat i) ((p # ps) ! i)" if "i < length (p # ps)" for i
    using that c(2,3) rest(3) by (cases i) (auto simp: packet_of_def ac_simps)
  then show ?case using enc rest(1,2) by (intro exI [of _ "?pk # packets"]) simp
qed simp

definition receiving :: "crypto \<Rightarrow> Session \<Rightarrow> nat list \<Rightarrow> bool" where
  "receiving C b seen \<longleftrightarrow> ses_state b = SessionStateEstablished
     \<and> tracks (ses_recvNonce b) (set seen) \<and> unat (rf_maxNonce (ses_recvNonce b)) < 2048"

lemma receive_step:
  assumes "receiving C b seen" "i < 2048" "packet_of C b packet (of_nat i) p"
  shows "\<exists>b'. receive C packet b =
       ((if i \<in> set seen then Inl ErrReplayDetected else Inr p), b')
     \<and> receiving C b' (i # seen)
     \<and> ses_cipherMode b' = ses_cipherMode b \<and> ses_recvAEAD b' = ses_recvAEAD b"
proof -
  obtain ri c where pk: "packet = BuildTransportMessage ri (of_nat i) c" "16 \<le> length c"
    "openWithAEAD C (ses_cipherMode b) (ses_recvAEAD b) (of_nat i) c [] = Inr p"
    using assms(3) by (auto simp: packet_of_def)
  have un: "unat (of_nat i :: u64) = i" using assms(2) by (simp add: unsigned_of_nat take_bit_eq_mod)
  let ?rf = "ses_recvNonce b"
  have tr: "tracks ?rf (set seen)" and mx: "unat (rf_maxNonce ?rf) < 2048"
    using assms(1) by (simp_all add: receiving_def)
  have ok: "fst (CheckAndUpdate (of_nat i) ?rf) \<longleftrightarrow> i \<notin> set seen"
    and tr': "tracks (snd (CheckAndUpdate (of_nat i) ?rf)) (set (i # seen))"
    using tracks_CheckAndUpdate [OF tr, of "of_nat i"] mx by (auto simp: un insert_absorb)
  have mx': "unat (rf_maxNonce (snd (CheckAndUpdate (of_nat i) ?rf))) < 2048"
    using mx assms(2) by (simp add: CheckAndUpdate_def updateLocked_max max_def un)
  show ?thesis
    using assms(1) pk ok tr' mx'
    by (auto simp: receive_def Parse_BuildTransportMessage Session_Decrypt_def split_beta Let_def
        receiving_def)
qed

lemma receive_all_expected:
  assumes "receiving C b seen" "set is \<subseteq> {..<length ps}" "length ps \<le> 2048"
    "\<forall>i<length ps. packet_of C b (packets ! i) (of_nat i) (ps ! i)"
  shows "receive_all C (map ((!) packets) is) b = expected ps seen is"
  using assms(1,2,4)
proof (induction "is" arbitrary: b seen)
  case (Cons i "is")
  have i: "i < length ps" "i < 2048" using Cons.prems(2) assms(3) by auto
  with Cons.prems(3) have "packet_of C b (packets ! i) (of_nat i) (ps ! i)" by simp
  from receive_step [OF Cons.prems(1) i(2) this] obtain b' where b':
    "receive C (packets ! i) b = ((if i \<in> set seen then Inl ErrReplayDetected else Inr (ps ! i)), b')"
    "receiving C b' (i # seen)" "ses_cipherMode b' = ses_cipherMode b" "ses_recvAEAD b' = ses_recvAEAD b"
    by blast
  then have "\<forall>i<length ps. packet_of C b' (packets ! i) (of_nat i) (ps ! i)"
    using Cons.prems(3) by (simp add: packet_of_def)
  from Cons.IH [OF b'(2) _ this] Cons.prems(2) b'(1) show ?case by simp
qed simp

text \<open>Sessions made from matching keys form a channel.\<close>

lemma NewSession_fields:
  assumes "NewSession cfg now = Inr s"
  shows "ses_state s = SessionStateEstablished" "ses_sendNonce s = 0"
    "ses_recvNonce s = NewReplayFilter" "ses_remotePK s = sc_RemotePK cfg"
    "NormalizeCipherMode (sc_CipherMode cfg) = Inr (ses_cipherMode s)"
    "ses_cipherMode s \<noteq> CipherModePlaintext \<Longrightarrow>
       ses_sendAEAD s = Some (ses_cipherMode s, sc_SendKey cfg)
       \<and> ses_recvAEAD s = Some (ses_cipherMode s, sc_RecvKey cfg)
       \<and> length (sc_SendKey cfg) = 32 \<and> length (sc_RecvKey cfg) = 32"
    "ses_cipherMode s = CipherModePlaintext \<Longrightarrow> ses_sendAEAD s = None \<and> ses_recvAEAD s = None"
proof -
  obtain mode where mode: "NormalizeCipherMode (sc_CipherMode cfg) = Inr mode"
    using assms by (auto simp: NewSession_def split: sum.splits)
  have aead: "NewAEADWithMode mode k = Inr x \<longleftrightarrow> mode \<noteq> CipherModePlaintext \<and> length k = 32 \<and> x = (mode, k)"
    for k x using Normalize_idem [OF mode] Normalize_cases [OF mode]
    by (auto simp: NewAEADWithMode_def)
  show "ses_state s = SessionStateEstablished" "ses_sendNonce s = 0"
    "ses_recvNonce s = NewReplayFilter" "ses_remotePK s = sc_RemotePK cfg"
    "NormalizeCipherMode (sc_CipherMode cfg) = Inr (ses_cipherMode s)"
    "ses_cipherMode s \<noteq> CipherModePlaintext \<Longrightarrow>
       ses_sendAEAD s = Some (ses_cipherMode s, sc_SendKey cfg)
       \<and> ses_recvAEAD s = Some (ses_cipherMode s, sc_RecvKey cfg)
       \<and> length (sc_SendKey cfg) = 32 \<and> length (sc_RecvKey cfg) = 32"
    "ses_cipherMode s = CipherModePlaintext \<Longrightarrow> ses_sendAEAD s = None \<and> ses_recvAEAD s = None"
    using assms by (auto simp: NewSession_def mode aead Let_def split: if_splits sum.splits)
qed

lemma NewSession_channel:
  assumes "NewSession ca now = Inr a" "NewSession cb now' = Inr b"
    "NormalizeCipherMode (sc_CipherMode ca) = NormalizeCipherMode (sc_CipherMode cb)"
    "sc_SendKey ca = sc_RecvKey cb"
  shows "channel C a b"
proof -
  note fa = NewSession_fields [OF assms(1)] and fb = NewSession_fields [OF assms(2)]
  have mode: "ses_cipherMode a = ses_cipherMode b" using fa(5) fb(5) assms(3) by simp
  have "NormalizeCipherMode (ses_cipherMode b) = Inr (ses_cipherMode b)"
    using Normalize_idem [OF fb(5)] .
  then show ?thesis using mode fa(6,7) fb(6,7) assms(4)
    by (cases "ses_cipherMode b = CipherModePlaintext") (auto simp: channel_def)
qed

lemma NewSession_receiving: "NewSession cfg now = Inr s \<Longrightarrow> receiving C s []"
  using NewSession_fields [of cfg now s] tracks_New by (simp add: receiving_def NewReplayFilter_def)

lemma delivery:
  assumes laws: "crypto_laws C" and a: "NewSession ca now = Inr a" and b: "NewSession cb now' = Inr b"
    and match: "NormalizeCipherMode (sc_CipherMode ca) = NormalizeCipherMode (sc_CipherMode cb)"
      "sc_SendKey ca = sc_RecvKey cb"
    and len: "length ps \<le> 2048" "set is \<subseteq> {..<length ps}"
  shows "\<exists>packets. send_all C ps a = Inr packets \<and> length packets = length ps
     \<and> receive_all C (map ((!) packets) is) b = expected ps [] is"
proof -
  have "unat (ses_sendNonce a) + length ps \<le> 2048" using len NewSession_fields(2) [OF a] by simp
  from send_all_ok [OF laws NewSession_channel [OF a b match] NewSession_fields(1) [OF a] this]
  obtain packets where p: "send_all C ps a = Inr packets" "length packets = length ps"
    "\<forall>i<length ps. packet_of C b (packets ! i) (of_nat i) (ps ! i)"
    by (auto simp: NewSession_fields(2) [OF a])
  from receive_all_expected [OF NewSession_receiving [OF b] len(2,1) p(3)] p show ?thesis by blast
qed

section \<open>Properties\<close>

text \<open>
  C26: in any run of a new session (encryptions and decryptions interleaved with state changes,
  up to \<open>2 ^ 64\<close> operations) no two successful encryptions use the same nonce.
\<close>

theorem session_nonces_unique:
  assumes "NewSession cfg now = Inr s" "length ops \<le> 2 ^ 64"
  shows "distinct (sent_nonces (session_run C ops s))"
proof -
  have "unat (ses_sendNonce s) + length ops \<le> 2 ^ 64"
    using assms(2) NewSession_fields(2) [OF assms(1)] by simp
  from run_sent_nonces [OF this order_refl] show ?thesis by blast
qed

text \<open>A configuration and a session for the witnesses.\<close>

definition toy_session_config :: SessionConfig where
  "toy_session_config = \<lparr>sc_LocalIndex = 7, sc_RemoteIndex = 9, sc_SendKey = replicate 32 1,
     sc_RecvKey = replicate 32 1, sc_RemotePK = replicate 32 5, sc_CipherMode = CipherModeChaChaPoly\<rparr>"

definition toy_session :: Session where
  "toy_session = \<lparr>ses_localIndex = 7, ses_remoteIndex = 9, ses_sendKey = replicate 32 1,
     ses_recvKey = replicate 32 1, ses_cipherMode = CipherModeChaChaPoly,
     ses_sendAEAD = Some (CipherModeChaChaPoly, replicate 32 1),
     ses_recvAEAD = Some (CipherModeChaChaPoly, replicate 32 1), ses_sendNonce = 0,
     ses_recvNonce = NewReplayFilter, ses_state = SessionStateEstablished,
     ses_remotePK = replicate 32 5, ses_createdAt = 100, ses_lastReceived = 100, ses_lastSent = 100\<rparr>"

lemma toy_NewSession: "NewSession toy_session_config 100 = Inr toy_session"
  by (simp add: NewSession_def toy_session_config_def toy_session_def NormalizeCipherMode_def
      NewAEADWithMode_def mode_defs)

theorem session_nonces_unique_witness:
  "distinct (sent_nonces (session_run toy_crypto
     [OpEncrypt 1 [1], OpSetRemoteIndex 3, OpEncrypt 2 [2], OpExpire, OpEncrypt 3 [3]] toy_session))"
  by (rule session_nonces_unique [OF toy_NewSession]) simp

text \<open>
  C27: in any run of a new session no packet counter is accepted twice: whatever packets arrive
  and however they are repeated, each counter yields at most one plaintext.
\<close>

theorem session_no_replay:
  assumes "NewSession cfg now = Inr s"
  shows "distinct (received_nonces (session_run C ops s))"
proof -
  have "tracks (ses_recvNonce s) {}" using NewSession_fields(3) [OF assms] tracks_New by simp
  from run_received_nonces [OF this] show ?thesis by blast
qed

theorem session_no_replay_witness:
  "distinct (received_nonces (session_run toy_crypto
     [OpDecrypt 1 (replicate 16 0) 5, OpDecrypt 2 (replicate 16 0) 5, OpDecrypt 3 (replicate 17 0) 2]
     toy_session))"
  by (rule session_no_replay [OF toy_NewSession])

text \<open>
  C23: two new sessions with matching keys form a channel: packets may be dropped, reordered and
  duplicated at will (within one window), and the receiver gets the plaintext of the first copy
  of each packet and a replay error for every other copy.
\<close>

theorem session_delivery:
  assumes "crypto_laws C" "NewSession ca now = Inr a" "NewSession cb now' = Inr b"
    "NormalizeCipherMode (sc_CipherMode ca) = NormalizeCipherMode (sc_CipherMode cb)"
    "sc_SendKey ca = sc_RecvKey cb" "length ps \<le> 2048" "set is \<subseteq> {..<length ps}"
  shows "\<exists>packets. send_all C ps a = Inr packets
     \<and> receive_all C (map ((!) packets) is) b = expected ps [] is"
  using delivery [OF assms] by blast

theorem session_delivery_witness:
  "\<exists>packets. send_all toy_crypto [[1], [2, 3]] toy_session = Inr packets
     \<and> receive_all toy_crypto (map ((!) packets) [1, 0, 1]) toy_session
         = [Inr [2, 3], Inr [1], Inl ErrReplayDetected]"
proof -
  have "\<exists>packets. send_all toy_crypto [[1], [2, 3]] toy_session = Inr packets
     \<and> receive_all toy_crypto (map ((!) packets) [1, 0, 1]) toy_session
         = expected [[1], [2, 3]] [] [1, 0, 1]"
    by (rule session_delivery [OF toy_crypto_laws toy_NewSession toy_NewSession])
      (simp_all add: toy_session_config_def)
  then show ?thesis by simp
qed

text \<open>
  C39: the filter is updated before the packet is authenticated, so one forged packet with the
  largest counter makes the session reject every genuine packet that is more than a window
  below it, although the forged packet itself is refused.
\<close>

theorem forged_packet_blocks_session:
  assumes "NewSession cfg now = Inr s"
    "openWithAEAD C (ses_cipherMode s) (ses_recvAEAD s) (- 1) forged [] = Inl e"
    "n \<le> - 1 - 2048"
  shows "\<exists>s'. Session_Decrypt C t forged (- 1) s = (Inl ErrDecryptionFailed, s')
     \<and> Session_Decrypt C t' genuine n s' = (Inl ErrReplayDetected, s')"
proof -
  note f = NewSession_fields [OF assms(1)]
  let ?rf = "snd (CheckAndUpdate (- 1) (ses_recvNonce s))"
  have tr: "tracks (ses_recvNonce s) {}" using f(3) tracks_New by simp
  have ok: "fst (CheckAndUpdate (- 1) (ses_recvNonce s))"
    using tracks_CheckAndUpdate(1) [OF tr, of "- 1"] f(3) by (simp add: NewReplayFilter_def)
  have tr': "tracks ?rf {unat (- 1 :: u64)}"
    using tracks_CheckAndUpdate(2) [OF tr, of "- 1"] ok by simp
  have mx: "rf_maxNonce ?rf = - 1"
    using ok f(3) by (simp add: CheckAndUpdate_def updateLocked_max NewReplayFilter_def split: if_splits)
  have "unat n + 2048 \<le> unat (- 1 :: u64)"
    using assms(3) by (simp add: word_le_nat_alt unsigned_minus_1_eq_mask mask_eq_exp_minus_1)
  then have rej: "\<not> fst (CheckAndUpdate n ?rf)"
    using tracks_CheckAndUpdate(1) [OF tr', of n] by (simp only: mx) linarith
  then have same: "snd (CheckAndUpdate n ?rf) = ?rf"
    by (simp add: CheckAndUpdate_def split: if_splits)
  show ?thesis
    using f(1) ok assms(2) rej same by (simp add: Session_Decrypt_def split_beta Let_def)
qed

theorem forged_packet_blocks_session_witness:
  "\<exists>s'. Session_Decrypt toy_crypto 200 [1, 2, 3] (- 1) toy_session = (Inl ErrDecryptionFailed, s')
     \<and> Session_Decrypt toy_crypto 201 (replicate 20 0) 0 s' = (Inl ErrReplayDetected, s')"
  by (rule forged_packet_blocks_session [OF toy_NewSession, where e = AEADOpenFailed])
    (simp_all add: openWithAEAD_def toy_session_def toy_crypto_def NormalizeCipherMode_def mode_defs)

text \<open>
  The nonce guard does not stick: \<^verbatim>\<open>sendNonce\<close> keeps counting when \<^verbatim>\<open>Encrypt\<close> refuses, and two
  refused calls after exhaustion the counter has wrapped and nonce 0 is used again.
\<close>

lemma nonce_wraps:
  assumes "crypto_laws C" "channel C s b" "ses_state s = SessionStateEstablished"
    "ses_sendNonce s = MaxNonce"
  shows "\<exists>s1 s2 s3 c. Session_Encrypt C t p s = (Inl ErrNonceExhausted, s1)
     \<and> Session_Encrypt C t p s1 = (Inl ErrNonceExhausted, s2)
     \<and> Session_Encrypt C t p s2 = (Inr (c, 0), s3)"
proof -
  obtain c where "sealWithAEAD C (ses_cipherMode s) (ses_sendAEAD s) 0 p [] = Inr c"
    using channel_seal [OF assms(1,2)] by blast
  then show ?thesis using assms(3,4)
    by (simp add: Session_Encrypt_def Let_def MaxNonce_def)
qed

text \<open>
  A session expires exactly when it was marked expired or received nothing for more than
  180 seconds; marking it stops encryption and decryption.
\<close>

lemma session_expiry:
  "IsExpired now s = (ses_state s = SessionStateExpired \<or> 180 * 10 ^ 9 < now - ses_lastReceived s)
   \<and> IsExpired now (Expire s)
   \<and> fst (Session_Encrypt C t p (Expire s)) = Inl ErrSessionNotEstablished
   \<and> fst (Session_Decrypt C t c n (Expire s)) = Inl ErrSessionNotEstablished"
  by (simp add: IsExpired_def Expire_def SessionTimeout_def Session_Encrypt_def Session_Decrypt_def
      session_state_defs)

end
