(* ===== verification/SecureChannel.thy ===== *)
theory SecureChannel
  imports NoiseExchange NoiseSession
begin

text \<open>
  From handshake to session: how both handlers of the UDP layer
  (\<^verbatim>\<open>handleHandshakeInit\<close> and \<^verbatim>\<open>handleHandshakeResp\<close> of \<^verbatim>\<open>core/udp.go\<close>) turn the two cipher
  states of a finished handshake into a transport session, and what the two peers then have.
\<close>

definition split_session ::
  "crypto \<Rightarrow> u32 \<Rightarrow> u32 \<Rightarrow> bytes \<Rightarrow> CipherMode \<Rightarrow> int \<Rightarrow> HandshakeState \<Rightarrow> noise_error + Session" where
  "split_session C localIdx remoteIdx remotePK mode now hs =
     (case HandshakeState_Split C hs of
        Inl e \<Rightarrow> Inl e
      | Inr (sendCS, recvCS) \<Rightarrow>
          NewSession \<lparr>sc_LocalIndex = localIdx, sc_RemoteIndex = remoteIdx, sc_SendKey = cs_key sendCS,
             sc_RecvKey = cs_key recvCS, sc_RemotePK = remotePK, sc_CipherMode = mode\<rparr> now)"

lemma split_session_ok:
  assumes "HandshakeState_Split C hs = Inr (a, b)" "length (cs_key a) = 32" "length (cs_key b) = 32"
    "NormalizeCipherMode mode = Inr m"
  shows "\<exists>s. split_session C li ri pk mode now hs = Inr s
     \<and> NewSession \<lparr>sc_LocalIndex = li, sc_RemoteIndex = ri, sc_SendKey = cs_key a,
         sc_RecvKey = cs_key b, sc_RemotePK = pk, sc_CipherMode = mode\<rparr> now = Inr s"
  using assms Normalize_idem [OF assms(4)] Normalize_cases [OF assms(4)]
  by (auto simp: split_session_def NewSession_def NewAEADWithMode_def KeySize_def Let_def
      split: sum.splits)

lemma split_keys:
  assumes "crypto_laws C" "in_step C known i' r'" "HandshakeState_Split C i' = Inr (a, b)"
  shows "length (cs_key a) = 32 \<and> length (cs_key b) = 32"
proof -
  obtain m where "NormalizeCipherMode (ss_cipherMode (hs_ss i')) = Inr m"
    using assms(2) by (auto simp: in_step_def mode_ok_def)
  from Split_ok [OF assms(1) this] assms(3) show ?thesis
    by (auto simp: HandshakeState_Split_def split: if_splits sum.splits)
qed



end
