(* ===== verification/GizVarint.thy ===== *)
theory GizVarint
  imports GizPrelude
begin

text \<open>
  The varint and payload codecs of \<^verbatim>\<open>pkgs/giznet/internal/core/varint.go\<close> and
  \<^verbatim>\<open>payload.go\<close>: the service number and the protocol byte that travel in front of
  every decrypted transport payload. A Go loop over \<^verbatim>\<open>v >>= 7\<close> is a recursion with
  the measure \<open>unat v\<close>; an index out of range of \<^verbatim>\<open>buf\<close> is the panic \<open>None\<close>.
\<close>

datatype varint_error = ErrVarintTruncated | ErrVarintOverflow

definition MaxVarintLen :: nat where
  "MaxVarintLen = 10"

lemma unat_drop_bit_7: "unat (drop_bit 7 v) = unat v div 128" for v :: u64
  by (simp only: unat_drop_bit_eq) (simp add: drop_bit_eq_div)

lemma drop_bit_7_less: "(0x80 :: u64) \<le> v \<Longrightarrow> unat (drop_bit 7 v) < unat v"
  by (simp add: unat_drop_bit_7 word_le_nat_alt)

function AppendVarint :: "bytes \<Rightarrow> u64 \<Rightarrow> bytes" where
  "AppendVarint dst v =
     (if 0x80 \<le> v then AppendVarint (dst @ [ucast v OR 0x80]) (drop_bit 7 v)
      else dst @ [ucast v])"
  by pat_completeness auto
termination
  by (relation "measure (\<lambda>(dst, v). unat v)") (auto intro: drop_bit_7_less)

function EncodeVarint_loop :: "bytes \<Rightarrow> nat \<Rightarrow> u64 \<Rightarrow> (bytes \<times> nat) option" where
  "EncodeVarint_loop buf i v =
     (if length buf \<le> i then None
      else if 0x80 \<le> v
        then EncodeVarint_loop (buf[i := ucast v OR 0x80]) (i + 1) (drop_bit 7 v)
      else Some (buf[i := ucast v], i + 1))"
  by pat_completeness auto
termination
  by (relation "measure (\<lambda>(buf, i, v). unat v)") (auto intro: drop_bit_7_less)

definition EncodeVarint :: "bytes \<Rightarrow> u64 \<Rightarrow> (bytes \<times> nat) option" where
  "EncodeVarint buf v = EncodeVarint_loop buf 0 v"

fun DecodeVarint_loop :: "nat \<Rightarrow> u64 \<Rightarrow> bytes \<Rightarrow> varint_error + (u64 \<times> nat)" where
  "DecodeVarint_loop i v [] = Inl ErrVarintTruncated"
| "DecodeVarint_loop i v (b # bs) =
     (if MaxVarintLen \<le> i then Inl ErrVarintOverflow
      else let v' = v OR push_bit (7 * i) (ucast (b AND 0x7F))
           in if b < 0x80 then Inr (v', i + 1) else DecodeVarint_loop (i + 1) v' bs)"

definition DecodeVarint :: "bytes \<Rightarrow> varint_error + (u64 \<times> nat)" where
  "DecodeVarint buf = DecodeVarint_loop 0 0 buf"

function VarintLen_loop :: "nat \<Rightarrow> u64 \<Rightarrow> nat" where
  "VarintLen_loop n v = (if 0x80 \<le> v then VarintLen_loop (n + 1) (drop_bit 7 v) else n)"
  by pat_completeness auto
termination
  by (relation "measure (\<lambda>(n, v). unat v)") (auto intro: drop_bit_7_less)

definition VarintLen :: "u64 \<Rightarrow> nat" where
  "VarintLen v = VarintLen_loop 1 v"

declare AppendVarint.simps [simp del] EncodeVarint_loop.simps [simp del]
  VarintLen_loop.simps [simp del]

section \<open>Payload framing\<close>

datatype payload_error = ErrPayloadTooShort

definition EncodePayload :: "u8 \<Rightarrow> bytes \<Rightarrow> bytes" where
  "EncodePayload protocol payload =
     (let result = (replicate (1 + length payload) 0)[0 := protocol]
      in copy_at result 1 (length result) payload)"

definition DecodePayload :: "bytes \<Rightarrow> payload_error + (u8 \<times> bytes)" where
  "DecodePayload data = (case data of [] \<Rightarrow> Inl ErrPayloadTooShort | p # rest \<Rightarrow> Inr (p, rest))"

section \<open>Lengths\<close>

lemma VarintLen_loop_shift: "VarintLen_loop (n + k) v = VarintLen_loop n v + k"
proof (induction n v rule: VarintLen_loop.induct)
  case (1 n v)
  then show ?case
    by (cases "0x80 \<le> v")
      (simp_all add: VarintLen_loop.simps [of n v] VarintLen_loop.simps [of "n + k" v])
qed

lemma VarintLen_step: "VarintLen v = (if 0x80 \<le> v then Suc (VarintLen (drop_bit 7 v)) else 1)"
  using VarintLen_loop_shift [of 1 1 "drop_bit 7 v"]
  by (simp add: VarintLen_def VarintLen_loop.simps [of 1 v] VarintLen_loop.simps [of "Suc 0" v])

lemma VarintLen_pos: "0 < VarintLen v"
  by (subst VarintLen_step) simp

lemma drop_bit_7_lt: "unat v < 2 ^ (7 * Suc k) \<Longrightarrow> unat (drop_bit 7 v) < 2 ^ (7 * k)" for v :: u64
  by (simp add: unat_drop_bit_7 less_mult_imp_div_less power_add mult.commute)

lemma VarintLen_le: "unat v < 2 ^ (7 * k) \<Longrightarrow> 0 < k \<Longrightarrow> VarintLen v \<le> k"
proof (induction k arbitrary: v)
  case 0
  then show ?case by simp
next
  case (Suc k)
  show ?case
  proof (cases "0x80 \<le> v")
    case True
    then have "128 \<le> unat v" by (simp add: word_le_nat_alt)
    with Suc.prems have "0 < k" by (cases k) auto
    moreover from Suc.prems(1) have "unat (drop_bit 7 v) < 2 ^ (7 * k)" by (rule drop_bit_7_lt)
    ultimately have "VarintLen (drop_bit 7 v) \<le> k" by (intro Suc.IH)
    then show ?thesis by (subst VarintLen_step) (simp add: True)
  qed (subst VarintLen_step, simp)
qed

lemma VarintLen_bound: "VarintLen v \<le> MaxVarintLen"
proof -
  have "unat v < 2 ^ 64" using unsigned_less [of v] by simp
  also have "(2::nat) ^ 64 \<le> 2 ^ (7 * 10)" by (rule power_increasing) simp_all
  finally show ?thesis using VarintLen_le [of v 10] by (simp add: MaxVarintLen_def)
qed

section \<open>The encoders\<close>

definition varint_bytes :: "u64 \<Rightarrow> bytes" where
  "varint_bytes v = AppendVarint [] v"

lemma AppendVarint_append: "AppendVarint (pre @ dst) v = pre @ AppendVarint dst v"
proof (induction dst v rule: AppendVarint.induct)
  case (1 dst v)
  then show ?case
    by (cases "0x80 \<le> v")
      (simp_all add: AppendVarint.simps [of dst v] AppendVarint.simps [of "pre @ dst" v])
qed

lemma AppendVarint_bytes: "AppendVarint dst v = dst @ varint_bytes v"
  using AppendVarint_append [of dst "[]" v] by (simp add: varint_bytes_def)

lemma varint_bytes_step:
  "varint_bytes v =
     (if 0x80 \<le> v then (ucast v OR 0x80) # varint_bytes (drop_bit 7 v) else [ucast v])"
  by (simp add: varint_bytes_def [of v] AppendVarint.simps [of "[]" v]
      AppendVarint_bytes [of "[_]"])

lemma length_varint_bytes: "length (varint_bytes v) = VarintLen v"
proof (induction v rule: measure_induct_rule [of unat])
  case (less v)
  then show ?case
    by (subst varint_bytes_step, subst VarintLen_step) (simp add: drop_bit_7_less)
qed

lemma EncodeVarint_loop_correct:
  "i \<le> length buf \<Longrightarrow> EncodeVarint_loop buf i v =
     (if i + VarintLen v \<le> length buf
      then Some (take i buf @ varint_bytes v @ drop (i + VarintLen v) buf, i + VarintLen v)
      else None)"
proof (induction buf i v rule: EncodeVarint_loop.induct)
  case (1 buf i v)
  show ?case
  proof (cases "length buf \<le> i")
    case True
    then show ?thesis using VarintLen_pos [of v] by (simp add: EncodeVarint_loop.simps [of buf i v])
  next
    case room: False
    have split_at: "take (Suc i) (buf[i := x]) = take i buf @ [x]"
      "drop (Suc (i + k)) (buf[i := x]) = drop (Suc (i + k)) buf" for x k
      using room by (simp_all add: take_Suc_conv_app_nth)
    show ?thesis
    proof (cases "0x80 \<le> v")
      case True
      with room "1.IH" "1.prems" show ?thesis
        by (simp add: EncodeVarint_loop.simps [of buf i v] VarintLen_step [of v]
            varint_bytes_step [of v] split_at)
    next
      case False
      with room show ?thesis
        using upd_conv_take_nth_drop [of i buf "ucast v"]
        by (simp add: EncodeVarint_loop.simps [of buf i v] VarintLen_step [of v]
            varint_bytes_step [of v])
    qed
  qed
qed

section \<open>The decoder\<close>

lemma byte_small_iff: "b < 0x80 \<longleftrightarrow> \<not> bit b 7" for b :: u8
proof -
  have "bit b 7 \<longleftrightarrow> bit (unat b) 7"
    by (simp add: bit_unsigned_iff)
  also have "\<dots> \<longleftrightarrow> odd (unat b div 128)"
    by (simp add: bit_iff_odd)
  moreover have "unat b < 256" using unsigned_less [of b] by simp
  then have "unat b div 128 = 0 \<or> unat b div 128 = 1" by auto
  ultimately show ?thesis by (auto simp: word_less_nat_alt)
qed

text \<open>One step of the decoder undoes one step of the encoder.\<close>

lemma low_septet: "b AND 0x7F = take_bit 7 b" for b :: u8
  by (simp add: take_bit_eq_mask mask_eq_exp_minus_1)

lemma septet_ucast: "ucast (take_bit 7 (ucast v :: u8)) = take_bit 7 v" for v :: u64
  by (rule bit_word_eqI) (auto simp: bit_simps)

lemma septet_split: "take_bit 7 v OR push_bit 7 (drop_bit 7 v) = v" for v :: u64
proof (rule bit_word_eqI)
  fix n :: nat
  assume "n < LENGTH(64)"
  then show "bit (take_bit 7 v OR push_bit 7 (drop_bit 7 v)) n = bit v n"
    by (cases "n < 7") (simp_all add: bit_simps)
qed

lemma septet_step:
  "push_bit k (take_bit 7 v) OR push_bit (k + 7) (drop_bit 7 v) = push_bit k v" for v :: u64
proof -
  have "push_bit k (take_bit 7 v) OR push_bit (k + 7) (drop_bit 7 v)
      = push_bit k (take_bit 7 v OR push_bit 7 (drop_bit 7 v))"
    by (simp add: push_bit_or push_bit_push_bit)
  then show ?thesis by (simp add: septet_split)
qed

lemma DecodeVarint_loop_bytes:
  "i + VarintLen v \<le> MaxVarintLen \<Longrightarrow>
   DecodeVarint_loop i acc (varint_bytes v @ rest)
     = Inr (acc OR push_bit (7 * i) v, i + VarintLen v)"
proof (induction v arbitrary: i acc rule: measure_induct_rule [of unat])
  case (less v)
  show ?case
  proof (cases "0x80 \<le> v")
    case True
    let ?b = "ucast v OR 0x80 :: u8"
    let ?acc = "acc OR push_bit (7 * i) (take_bit 7 v)"
    have big: "\<not> ?b < 0x80" by (simp add: byte_small_iff bit_simps)
    have len: "VarintLen v = Suc (VarintLen (drop_bit 7 v))"
      by (subst VarintLen_step) (simp add: True)
    have "DecodeVarint_loop i acc (varint_bytes v @ rest)
        = DecodeVarint_loop (Suc i) ?acc (varint_bytes (drop_bit 7 v) @ rest)"
      using True big len less.prems VarintLen_pos [of "drop_bit 7 v"]
      by (subst varint_bytes_step) (simp add: low_septet septet_ucast)
    also have "\<dots> = Inr (?acc OR push_bit (7 * Suc i) (drop_bit 7 v), Suc i + VarintLen (drop_bit 7 v))"
      using len less.prems by (intro less.IH drop_bit_7_less True) simp
    also have "?acc OR push_bit (7 * Suc i) (drop_bit 7 v) = acc OR push_bit (7 * i) v"
      using septet_step [of "7 * i" v] by (simp add: or.assoc add.commute)
    finally show ?thesis by (simp add: len)
  next
    case False
    then have "unat v < 128" by (simp add: word_less_nat_alt not_le)
    then have "take_bit 7 v = v" by (simp add: word_unat_eq_iff take_bit_eq_mod unat_mod)
    moreover have "(ucast v :: u8) < 0x80"
      using \<open>unat v < 128\<close> by (simp add: word_less_nat_alt unsigned_ucast_eq take_bit_eq_mod)
    ultimately show ?thesis
      using False less.prems
      by (simp add: varint_bytes_step [of v] VarintLen_step [of v] low_septet septet_ucast)
  qed
qed

text \<open>
  The decoder against an independent reading of the format: \<open>c\<close> continuation bytes, then
  one final byte, whose septets are the digits of the value in base 128, least first.
\<close>

definition septets :: "bytes \<Rightarrow> u64" where
  "septets bs = foldr (\<lambda>b v. ucast (take_bit 7 b) OR push_bit 7 v) bs 0"

definition continued :: "bytes \<Rightarrow> nat" where
  "continued bs = length (takeWhile (\<lambda>b. 0x80 \<le> b) bs)"

lemma DecodeVarint_loop_spec:
  "i \<le> MaxVarintLen \<Longrightarrow> DecodeVarint_loop i acc bs =
     (if i + continued bs < MaxVarintLen \<and> continued bs < length bs
      then Inr (acc OR push_bit (7 * i) (septets (take (continued bs + 1) bs)), i + continued bs + 1)
      else if i + length bs \<le> MaxVarintLen then Inl ErrVarintTruncated
      else Inl ErrVarintOverflow)"
proof (induction bs arbitrary: i acc)
  case Nil
  then show ?case by simp
next
  case (Cons b bs)
  have cont: "continued (b # bs) = (if b < 0x80 then 0 else Suc (continued bs))"
    by (simp add: continued_def not_less [symmetric])
  show ?case
  proof (cases "i < MaxVarintLen")
    case False
    with Cons.prems show ?thesis by simp
  next
    case True
    then show ?thesis
      using Cons.IH [of "Suc i"]
      by (auto simp: cont septets_def Let_def low_septet push_bit_or push_bit_push_bit or.assoc
          add.commute [of _ 7])
  qed
qed

section \<open>Properties\<close>

text \<open>
  C37: Decoding the bytes that \<^verbatim>\<open>AppendVarint\<close> appended returns the encoded value and
  consumes exactly \<^verbatim>\<open>VarintLen(v)\<close> bytes, whatever follows them in the buffer.
\<close>

theorem DecodeVarint_AppendVarint:
  "DecodeVarint (drop (length dst) (AppendVarint dst v @ rest)) = Inr (v, VarintLen v)"
  using DecodeVarint_loop_bytes [of 0 v 0 rest] VarintLen_bound [of v]
  by (simp add: AppendVarint_bytes DecodeVarint_def)

text \<open>
  C38: \<^verbatim>\<open>EncodeVarint\<close> writes the same bytes as \<^verbatim>\<open>AppendVarint\<close> at the front of its
  buffer and leaves the rest alone; it panics exactly when the buffer is shorter than
  \<^verbatim>\<open>VarintLen(v)\<close>, and ten bytes are always enough.
\<close>

theorem EncodeVarint_equiv:
  "EncodeVarint buf v =
     (if VarintLen v \<le> length buf
      then Some (AppendVarint [] v @ drop (VarintLen v) buf, VarintLen v) else None)
   \<and> length (AppendVarint [] v) = VarintLen v \<and> 0 < VarintLen v \<and> VarintLen v \<le> 10"
  using EncodeVarint_loop_correct [of 0 buf v] VarintLen_bound [of v]
  by (simp add: EncodeVarint_def varint_bytes_def [symmetric] length_varint_bytes VarintLen_pos
      MaxVarintLen_def)

text \<open>
  \<^verbatim>\<open>DecodeVarint\<close> on every input: it succeeds exactly when a final byte (high bit
  clear) occurs among the first ten, its value is the little-endian base-128 number of the
  bytes up to it (computed modulo \<open>2 ^ 64\<close>), and otherwise it reports truncation for at most
  ten bytes and overflow beyond.
\<close>

theorem DecodeVarint_spec:
  "DecodeVarint buf =
     (let c = length (takeWhile (\<lambda>b. 0x80 \<le> b) buf) in
      if c < 10 \<and> c < length buf
      then Inr (foldr (\<lambda>b v. ucast (take_bit 7 b) OR push_bit 7 v) (take (c + 1) buf) 0, c + 1)
      else if length buf \<le> 10 then Inl ErrVarintTruncated else Inl ErrVarintOverflow)"
  using DecodeVarint_loop_spec [of 0 0 buf]
  by (simp add: DecodeVarint_def continued_def septets_def MaxVarintLen_def Let_def)

text \<open>
  The comment on \<^verbatim>\<open>ErrVarintOverflow\<close> promises the error for every varint that exceeds 64
  bits. A tenth byte with bits beyond the 64th is accepted, and those bits are dropped.
\<close>

lemma DecodeVarint_drops_high_bits:
  "DecodeVarint (replicate 9 0x80 @ [0x7E]) = Inr (0, 10)"
  by code_simp

text \<open>\<^verbatim>\<open>DecodePayload\<close> undoes \<^verbatim>\<open>EncodePayload\<close>, and only the empty message has no protocol byte.\<close>

lemma EncodePayload_eq: "EncodePayload p payload = p # payload"
  by (simp add: EncodePayload_def copy_at_def go_copy_def Let_def)

lemma DecodePayload_EncodePayload: "DecodePayload (EncodePayload p payload) = Inr (p, payload)"
  by (simp add: EncodePayload_eq DecodePayload_def)

lemma DecodePayload_error: "DecodePayload data = Inl e \<longleftrightarrow> data = []"
  by (cases e) (auto simp: DecodePayload_def split: list.splits)

end
