(* ===== verification/CoreConsts.thy ===== *)
theory CoreConsts
  imports GizPrelude
begin

text \<open>
  The constants of \<^verbatim>\<open>pkgs/giznet/internal/core\<close>: the timers of a connection (\<^verbatim>\<open>consts.go\<close>), the
  protocol bytes (\<^verbatim>\<open>protocol.go\<close>), and the one-shot timer of \<^verbatim>\<open>internal/timer/timer.go\<close>.
\<close>

definition RekeyAfterTime :: int where "RekeyAfterTime = 120 * second"
definition RejectAfterTime :: int where "RejectAfterTime = 180 * second"
definition RekeyAttemptTime :: int where "RekeyAttemptTime = 90 * second"
definition RekeyTimeout :: int where "RekeyTimeout = 5 * second"
definition KeepaliveTimeout :: int where "KeepaliveTimeout = 10 * second"

definition RekeyOnRecvThreshold :: int where
  "RekeyOnRecvThreshold = RejectAfterTime - KeepaliveTimeout - RekeyTimeout"

definition SessionCleanupTime :: int where "SessionCleanupTime = RejectAfterTime * 3"

definition RekeyAfterMessages :: u64 where "RekeyAfterMessages = push_bit 60 1"

definition RejectAfterMessages :: u64 where "RejectAfterMessages = NOT 0 - push_bit 13 1"

definition InboundChanSize :: nat where "InboundChanSize = 8192"

lemmas time_defs = RekeyAfterTime_def RejectAfterTime_def RekeyAttemptTime_def RekeyTimeout_def
  KeepaliveTimeout_def RekeyOnRecvThreshold_def SessionCleanupTime_def second_def

definition ProtocolKCP :: u8 where "ProtocolKCP = 0"

section \<open>The timer\<close>

text \<open>
  The loop goroutine sleeps until the deadline it has read, and \<open>Timer_consume\<close> decides whether it
  is still the one to fire: \<open>Timer_fire\<close> is one such wake-up.
\<close>

record Timer =
  tm_deadline :: gotime
  tm_armed :: bool
  tm_closed :: bool

definition NewTimer :: Timer where
  "NewTimer = \<lparr>tm_deadline = None, tm_armed = False, tm_closed = False\<rparr>"

definition Timer_Reset :: "gotime \<Rightarrow> Timer \<Rightarrow> bool \<times> Timer" where
  "Timer_Reset deadline t =
     (if tm_closed t then (False, t)
      else if deadline = None then (True, t\<lparr>tm_deadline := None, tm_armed := False\<rparr>)
      else (True, t\<lparr>tm_deadline := deadline, tm_armed := True\<rparr>))"

definition Timer_Close :: "Timer \<Rightarrow> Timer" where
  "Timer_Close t = (if tm_closed t then t else t\<lparr>tm_closed := True, tm_armed := False\<rparr>)"

definition Timer_currentDeadline :: "Timer \<Rightarrow> gotime" where
  "Timer_currentDeadline t = (if tm_closed t \<or> \<not> tm_armed t then None else tm_deadline t)"

definition Timer_consume :: "gotime \<Rightarrow> Timer \<Rightarrow> bool \<times> Timer" where
  "Timer_consume deadline t =
     (if tm_closed t \<or> \<not> tm_armed t \<or> tm_deadline t \<noteq> deadline then (False, t)
      else (True, t\<lparr>tm_armed := False\<rparr>))"

definition Timer_fire :: "int \<Rightarrow> Timer \<Rightarrow> bool \<times> Timer" where
  "Timer_fire now t =
     (case Timer_currentDeadline t of
        None \<Rightarrow> (False, t)
      | Some d \<Rightarrow> if now < d then (False, t) else Timer_consume (Some d) t)"

lemma Timer_fire_after_Reset:
  assumes "\<not> tm_closed t"
  shows "fst (Timer_fire now (snd (Timer_Reset (Some d) t))) \<longleftrightarrow> d \<le> now"
    "\<not> fst (Timer_fire now (snd (Timer_Reset None t)))"
    "fst (Timer_fire now t) \<Longrightarrow> \<not> fst (Timer_fire later (snd (Timer_fire now t)))"
    "\<not> fst (Timer_fire now (Timer_Close t))"
  using assms by (auto simp: Timer_fire_def Timer_Reset_def Timer_currentDeadline_def Timer_consume_def
      Timer_Close_def split: option.splits if_splits)

end
