(* ===== verification/CoreConn.thy ===== *)
theory CoreConn
  imports SecureChannel GizVarint CoreConsts
begin

text \<open>
  A connection to one peer, \<^verbatim>\<open>pkgs/giznet/internal/core/conn.go\<close>: sessions that are rotated by
  rekeying, the timers that drive it, and the queue of packets that wait for a session. A method
  reads the clock once. The transport, the random source and the goroutines it starts are part of
  the state: \<open>cn_wire\<close> is what was given to \<^verbatim>\<open>WriteTo\<close>, \<open>cn_random\<close> what is left of the random
  bytes, \<open>cn_spawned\<close> the number of rekeys started with \<^verbatim>\<open>go\<close>. Where a method releases the lock
  and later looks again whether something has changed, the argument \<open>mid\<close> is what other goroutines
  did in between. \<^verbatim>\<open>hsState\<close> is compared by pointer, so a handshake state carries a number.
\<close>

section \<open>State\<close>

datatype conn_error =
    ErrMissingLocalKey
  | ErrMissingTransport
  | ErrMissingRemotePK
  | ErrMissingRemoteAddr
  | ErrInvalidConnState
  | ErrNotEstablished
  | ErrInvalidReceiverIndex
  | ErrInvalidRemotePK
  | ErrHandshakeIncomplete
  | ErrHandshakeTimeout
  | ErrConnClosed
  | ErrConnTimeout
  | ErrSessionExpired
  | ErrKCPMustUseStream
  | NoiseError noise_error
  | MessageError message_error
  | PayloadError payload_error
  | TransportError string
  | ContextDone string

datatype ConnState = ConnStateNew | ConnStateHandshaking | ConnStateEstablished | ConnStateClosed

definition ConnState_String :: "ConnState \<Rightarrow> string" where
  "ConnState_String s =
     (case s of
        ConnStateNew \<Rightarrow> ''new''
      | ConnStateHandshaking \<Rightarrow> ''handshaking''
      | ConnStateEstablished \<Rightarrow> ''established''
      | ConnStateClosed \<Rightarrow> ''closed'')"

type_synonym addr = "string option"

text \<open>The third argument of the transport is the number of packets written before.\<close>

record conn_env =
  ce_crypto :: crypto
  ce_write :: "addr \<Rightarrow> bytes \<Rightarrow> nat \<Rightarrow> conn_error option"

record Inbound =
  ib_packets :: "(TransportMessage \<times> addr) list"
  ib_closed :: bool

record Conn =
  cn_timer :: Timer
  cn_localKey :: KeyPair
  cn_remotePK :: bytes
  cn_remoteAddr :: addr
  cn_cipherMode :: CipherMode
  cn_state :: ConnState
  cn_localIdx :: u32
  cn_current :: "Session option"
  cn_previous :: "Session option"
  cn_hsState :: "(nat \<times> HandshakeState) option"
  cn_handshakeStarted :: gotime
  cn_handshakeAttemptStart :: gotime
  cn_lastHandshakeSent :: gotime
  cn_isInitiator :: bool
  cn_createdAt :: gotime
  cn_sessionCreated :: gotime
  cn_lastSent :: gotime
  cn_lastReceived :: gotime
  cn_pendingPackets :: "bytes list"
  cn_rekeyTriggered :: bool
  cn_inbound :: "Inbound option"
  cn_hsCount :: nat
  cn_random :: bytes
  cn_wire :: "(addr \<times> bytes) list"
  cn_spawned :: nat

definition newConnWithCipherMode ::
  "int \<Rightarrow> bytes \<Rightarrow> KeyPair option \<Rightarrow> bool \<Rightarrow> addr \<Rightarrow> bytes \<Rightarrow> CipherMode \<Rightarrow> conn_error + Conn" where
  "newConnWithCipherMode now random localKey hasTransport remoteAddr remotePK cipherMode =
     (case localKey of
        None \<Rightarrow> Inl ErrMissingLocalKey
      | Some key \<Rightarrow>
          if \<not> hasTransport then Inl ErrMissingTransport
          else case NormalizeCipherMode cipherMode of
            Inl e \<Rightarrow> Inl (NoiseError e)
          | Inr mode \<Rightarrow>
              (case GenerateIndex random of
                 Inl e \<Rightarrow> Inl (NoiseError e)
               | Inr (localIdx, random) \<Rightarrow>
                   Inr \<lparr>cn_timer = NewTimer, cn_localKey = key, cn_remotePK = remotePK,
                     cn_remoteAddr = remoteAddr, cn_cipherMode = mode, cn_state = ConnStateNew,
                     cn_localIdx = localIdx, cn_current = None, cn_previous = None, cn_hsState = None,
                     cn_handshakeStarted = None, cn_handshakeAttemptStart = None,
                     cn_lastHandshakeSent = None, cn_isInitiator = False, cn_createdAt = Some now,
                     cn_sessionCreated = None, cn_lastSent = Some now, cn_lastReceived = Some now,
                     cn_pendingPackets = [], cn_rekeyTriggered = False, cn_inbound = None,
                     cn_hsCount = 0, cn_random = random, cn_wire = [], cn_spawned = 0\<rparr>))"

definition newConn ::
  "int \<Rightarrow> bytes \<Rightarrow> KeyPair option \<Rightarrow> bool \<Rightarrow> addr \<Rightarrow> bytes \<Rightarrow> conn_error + Conn" where
  "newConn now random localKey hasTransport remoteAddr remotePK =
     newConnWithCipherMode now random localKey hasTransport remoteAddr remotePK CipherModeChaChaPoly"

definition write_to :: "conn_env \<Rightarrow> addr \<Rightarrow> bytes \<Rightarrow> Conn \<Rightarrow> conn_error option \<times> Conn" where
  "write_to env dst msg c =
     (ce_write env dst msg (length (cn_wire c)), c\<lparr>cn_wire := cn_wire c @ [(dst, msg)]\<rparr>)"

definition resetHandshakeState :: "Conn \<Rightarrow> Conn" where
  "resetHandshakeState c = c\<lparr>cn_state := ConnStateNew, cn_hsState := None\<rparr>"

definition failHandshake :: "conn_error \<Rightarrow> Conn \<Rightarrow> conn_error \<times> Conn" where
  "failHandshake err c = (err, resetHandshakeState c)"

section \<open>Sending\<close>

definition sendPayload ::
  "conn_env \<Rightarrow> int \<Rightarrow> bytes option \<Rightarrow> bool \<Rightarrow> Conn \<Rightarrow> conn_error option \<times> Conn" where
  "sendPayload env now plaintext isKeepalive c =
     (if cn_state c = ConnStateClosed then (Some ErrConnClosed, c)
      else if cn_current c = None \<or> cn_state c \<noteq> ConnStateEstablished then
        if isKeepalive then (Some ErrNotEstablished, c)
        else
          let c = (case plaintext of
                     None \<Rightarrow> c
                   | Some p \<Rightarrow> c\<lparr>cn_pendingPackets := cn_pendingPackets c @ [p]\<rparr>)
          in if cn_hsState c = None \<and> cn_state c = ConnStateNew
             then (Some ErrNotEstablished, c) else (None, c)
      else
        let session = the (cn_current c);
            (res, session) = Session_Encrypt (ce_crypto env) now (case plaintext of None \<Rightarrow> [] | Some p \<Rightarrow> p) session;
            c = c\<lparr>cn_current := Some session\<rparr>
        in case res of
             Inl e \<Rightarrow> (Some (NoiseError e), c)
           | Inr (ciphertext, counter) \<Rightarrow>
               (case write_to env (cn_remoteAddr c)
                   (BuildTransportMessage (ses_remoteIndex session) counter ciphertext) c of
                  (Some e, c) \<Rightarrow> (Some e, c)
                | (None, c) \<Rightarrow> (None, c\<lparr>cn_lastSent := Some now\<rparr>)))"

definition SendKeepalive :: "conn_env \<Rightarrow> int \<Rightarrow> Conn \<Rightarrow> conn_error option \<times> Conn" where
  "SendKeepalive env now c = sendPayload env now None True c"

definition flushPendingPackets :: "conn_env \<Rightarrow> int \<Rightarrow> Conn \<Rightarrow> Conn" where
  "flushPendingPackets env now c =
     (let packets = cn_pendingPackets c; c = c\<lparr>cn_pendingPackets := []\<rparr>
      in fold (\<lambda>pkt c. snd (sendPayload env now (Some pkt) False c)) packets c)"

section \<open>Rekeying\<close>

definition ik_config :: "bool \<Rightarrow> bytes option \<Rightarrow> Conn \<Rightarrow> Config" where
  "ik_config initiator remote c =
     \<lparr>cfg_Pattern = PatternIK, cfg_Initiator = initiator, cfg_LocalStatic = Some (cn_localKey c),
      cfg_RemoteStatic = remote, cfg_Prologue = [], cfg_PresharedKey = None,
      cfg_CipherMode = cn_cipherMode c\<rparr>"

text \<open>The first message of a handshake, with its wire form.\<close>

definition start_handshake ::
  "conn_env \<Rightarrow> u32 \<Rightarrow> bytes \<Rightarrow> Conn \<Rightarrow> (noise_error + HandshakeState \<times> bytes) \<times> bytes" where
  "start_handshake env idx random c =
     (case NewHandshakeState (ce_crypto env) (ik_config True (Some (cn_remotePK c)) c) of
        Inl e \<Rightarrow> (Inl e, random)
      | Inr hs \<Rightarrow>
          (case WriteMessage (ce_crypto env) hs [] random of
             (Inl e, hs, random) \<Rightarrow> (Inl e, random)
           | (Inr msg1, hs, random) \<Rightarrow>
               (Inr (hs, BuildHandshakeInit idx (LocalEphemeral hs) (drop KeySize msg1)), random)))"

definition set_hsState :: "HandshakeState \<Rightarrow> Conn \<Rightarrow> Conn" where
  "set_hsState hs c = c\<lparr>cn_hsState := Some (cn_hsCount c, hs), cn_hsCount := cn_hsCount c + 1\<rparr>"

definition initiateRekey ::
  "conn_env \<Rightarrow> int \<Rightarrow> (Conn \<Rightarrow> Conn) \<Rightarrow> (Conn \<Rightarrow> Conn) \<Rightarrow> Conn \<Rightarrow> conn_error option \<times> Conn" where
  "initiateRekey env now mid mid' c =
     (if cn_state c = ConnStateClosed then (Some ErrConnClosed, c)
      else if cn_hsState c \<noteq> None then (None, c)
      else let remoteAddr = cn_remoteAddr c in
        case GenerateIndex (cn_random c) of
          Inl e \<Rightarrow> (Some (NoiseError e), c)
        | Inr (newIdx, random) \<Rightarrow>
            (case start_handshake env newIdx random c of
               (Inl e, random) \<Rightarrow> (Some (NoiseError e), c\<lparr>cn_random := random\<rparr>)
             | (Inr (hs, wireMsg), random) \<Rightarrow>
                 let c = mid (c\<lparr>cn_random := random\<rparr>) in
                 if cn_state c = ConnStateClosed then (Some ErrConnClosed, c)
                 else case write_to env remoteAddr wireMsg c of
                   (Some e, c) \<Rightarrow> (Some e, c)
                 | (None, c) \<Rightarrow>
                     let c = mid' c in
                     if cn_state c = ConnStateClosed then (Some ErrConnClosed, c)
                     else if cn_hsState c \<noteq> None then (None, c)
                     else (None, (set_hsState hs c)\<lparr>cn_localIdx := newIdx,
                            cn_handshakeStarted := Some now, cn_handshakeAttemptStart := Some now,
                            cn_lastHandshakeSent := Some now, cn_isInitiator := True,
                            cn_rekeyTriggered := True\<rparr>)))"

definition retransmitHandshake ::
  "conn_env \<Rightarrow> int \<Rightarrow> (Conn \<Rightarrow> Conn) \<Rightarrow> (Conn \<Rightarrow> Conn) \<Rightarrow> Conn \<Rightarrow> conn_error option \<times> Conn" where
  "retransmitHandshake env now mid mid' c =
     (if cn_state c = ConnStateClosed then (Some ErrConnClosed, c)
      else if cn_hsState c = None then (None, c)
      else let remoteAddr = cn_remoteAddr c in
        case start_handshake env (cn_localIdx c) (cn_random c) c of
          (Inl e, random) \<Rightarrow> (Some (NoiseError e), c\<lparr>cn_random := random\<rparr>)
        | (Inr (hs, wireMsg), random) \<Rightarrow>
            let c = mid (c\<lparr>cn_random := random\<rparr>) in
            if cn_state c = ConnStateClosed then (Some ErrConnClosed, c)
            else case write_to env remoteAddr wireMsg c of
              (Some e, c) \<Rightarrow> (Some e, c)
            | (None, c) \<Rightarrow>
                let c = mid' c in
                if cn_state c = ConnStateClosed then (Some ErrConnClosed, c)
                else (None, (set_hsState hs c)\<lparr>cn_lastHandshakeSent := Some now\<rparr>))"

definition cleanupSessions :: "Conn \<Rightarrow> Conn" where
  "cleanupSessions c =
     c\<lparr>cn_current := None, cn_previous := None, cn_pendingPackets := [], cn_hsState := None,
       cn_handshakeStarted := None, cn_handshakeAttemptStart := None, cn_lastHandshakeSent := None,
       cn_rekeyTriggered := False,
       cn_state := (if cn_state c = ConnStateEstablished then ConnStateNew else cn_state c)\<rparr>"

section \<open>Ticking\<close>

text \<open>The closures of \<^verbatim>\<open>doTick\<close> that collect the next deadline in the variable \<^verbatim>\<open>next\<close>.\<close>

definition addDeadline :: "gotime \<Rightarrow> gotime \<Rightarrow> gotime" where
  "addDeadline t next_t =
     (case t of
        None \<Rightarrow> next_t
      | Some d \<Rightarrow> (case next_t of None \<Rightarrow> Some d | Some n \<Rightarrow> if d < n then Some d else Some n))"

definition after_time :: "gotime \<Rightarrow> int \<Rightarrow> gotime" where
  "after_time t d = map_option (\<lambda>t. t + (d + 1)) t"

definition addAfter :: "gotime \<Rightarrow> int \<Rightarrow> gotime \<Rightarrow> gotime" where
  "addAfter t d next_t = (if t = None then next_t else addDeadline (after_time t d) next_t)"

definition scheduleHandshake :: "gotime \<Rightarrow> gotime \<Rightarrow> bool \<Rightarrow> gotime \<Rightarrow> gotime" where
  "scheduleHandshake attemptStart sentAt hasHandshake next_t =
     (let next_t = addAfter attemptStart RekeyAttemptTime next_t
      in if hasHandshake then addAfter sentAt RekeyTimeout next_t else next_t)"

definition scheduleEstablished ::
  "gotime \<Rightarrow> gotime \<Rightarrow> gotime \<Rightarrow> bool \<Rightarrow> bool \<Rightarrow> gotime \<Rightarrow> gotime" where
  "scheduleEstablished sentAt receivedAt createdAt initiator rekeyDone next_t =
     (let next_t = addAfter receivedAt SessionCleanupTime next_t;
          next_t = (if initiator then
              let next_t = addAfter receivedAt (KeepaliveTimeout + RekeyTimeout) next_t
              in if \<not> rekeyDone then addAfter createdAt RekeyAfterTime next_t else next_t
            else next_t);
          keepaliveAt = after_time sentAt KeepaliveTimeout
      in case (sentAt, receivedAt, keepaliveAt) of
           (Some s, Some r, Some k) \<Rightarrow>
             if k < r + KeepaliveTimeout then addDeadline keepaliveAt next_t else next_t
         | _ \<Rightarrow> next_t)"

text \<open>A tick returns its error and the next deadline, which \<^verbatim>\<open>tick\<close> hands to the timer.\<close>

type_synonym tick_result = "conn_error option \<times> gotime \<times> Conn"

definition retransmit_and_schedule :: "conn_env \<Rightarrow> int \<Rightarrow> (Conn \<Rightarrow> Conn) \<Rightarrow> gotime \<Rightarrow> Conn \<Rightarrow> tick_result" where
  "retransmit_and_schedule env now mid attemptStart c =
     (case retransmitHandshake env now mid mid c of
        (Some e, c) \<Rightarrow> (Some e, None, c)
      | (None, c) \<Rightarrow> (None, scheduleHandshake attemptStart (Some now) True None, c))"

definition rekey_and_schedule :: "conn_env \<Rightarrow> int \<Rightarrow> (Conn \<Rightarrow> Conn) \<Rightarrow> Conn \<Rightarrow> tick_result" where
  "rekey_and_schedule env now mid c =
     (case initiateRekey env now mid mid c of
        (Some e, c) \<Rightarrow> (Some e, None, c)
      | (None, c) \<Rightarrow> (None, scheduleHandshake (Some now) (Some now) True None, c))"

definition tick_New :: "int \<Rightarrow> Conn \<Rightarrow> tick_result" where
  "tick_New now c =
     (if cn_current c \<noteq> None \<or> cn_previous c \<noteq> None then
        if SessionCleanupTime < since now (cn_lastReceived c) then (None, None, cleanupSessions c)
        else (None, addAfter (cn_lastReceived c) SessionCleanupTime None, c)
      else (None, None, c))"

definition tick_Handshaking :: "conn_env \<Rightarrow> int \<Rightarrow> (Conn \<Rightarrow> Conn) \<Rightarrow> Conn \<Rightarrow> tick_result" where
  "tick_Handshaking env now mid c =
     (let attemptStart = cn_handshakeAttemptStart c; sentAt = cn_lastHandshakeSent c;
          next_t = scheduleHandshake attemptStart sentAt (cn_hsState c \<noteq> None) None
      in if attemptStart \<noteq> None \<and> RekeyAttemptTime < since now attemptStart
           then (Some ErrHandshakeTimeout, next_t, c)
         else if cn_hsState c \<noteq> None \<and> sentAt \<noteq> None \<and> RekeyTimeout < since now sentAt
           then retransmit_and_schedule env now mid attemptStart c
         else (None, next_t, c))"

definition needs_rekey :: "int \<Rightarrow> Conn \<Rightarrow> bool" where
  "needs_rekey now c \<longleftrightarrow>
     (cn_sessionCreated c \<noteq> None \<and> RekeyAfterTime < since now (cn_sessionCreated c))
     \<or> (case cn_current c of None \<Rightarrow> False | Some s \<Rightarrow> RekeyAfterMessages < ses_sendNonce s)"

definition tick_Established ::
  "conn_env \<Rightarrow> int \<Rightarrow> (Conn \<Rightarrow> Conn) \<Rightarrow> bool \<Rightarrow> Conn \<Rightarrow> tick_result" where
  "tick_Established env now mid skipKeepalive c =
     (let lastSent = cn_lastSent c; lastReceived = cn_lastReceived c;
          attemptStart = cn_handshakeAttemptStart c; sentAt = cn_lastHandshakeSent c;
          createdAt = cn_sessionCreated c; initiator = cn_isInitiator c; rekeyDone = cn_rekeyTriggered c;
          next_t = scheduleEstablished lastSent lastReceived createdAt initiator rekeyDone None
      in if (cn_current c \<noteq> None \<or> cn_previous c \<noteq> None)
              \<and> SessionCleanupTime < since now lastReceived
           then (None, None, cleanupSessions c)
         else if RejectAfterTime < since now lastReceived then (Some ErrConnTimeout, next_t, c)
         else if (case cn_current c of
                    None \<Rightarrow> False
                  | Some s \<Rightarrow> RejectAfterMessages < ses_sendNonce s \<or> RejectAfterMessages < RecvMaxNonce s)
           then (Some ErrSessionExpired, next_t, c)
         else if cn_hsState c \<noteq> None then
           (let next_t = scheduleHandshake attemptStart sentAt True None in
            if attemptStart \<noteq> None \<and> RekeyAttemptTime < since now attemptStart
              then (Some ErrHandshakeTimeout, next_t, c)
            else if sentAt \<noteq> None \<and> RekeyTimeout < since now sentAt
              then retransmit_and_schedule env now mid attemptStart c
            else (None, next_t, c))
         else if cn_isInitiator c \<and> KeepaliveTimeout + RekeyTimeout < since now lastReceived
           then rekey_and_schedule env now mid c
         else if cn_isInitiator c \<and> \<not> cn_rekeyTriggered c \<and> needs_rekey now c
           then rekey_and_schedule env now mid c
         else if \<not> skipKeepalive \<and> KeepaliveTimeout < since now lastSent
              \<and> since now lastReceived < KeepaliveTimeout
           then (case SendKeepalive env now c of
                   (Some e, c) \<Rightarrow> (Some e, next_t, c)
                 | (None, c) \<Rightarrow>
                     (None, scheduleEstablished (Some now) lastReceived createdAt initiator rekeyDone None, c))
         else (None, next_t, c))"

definition doTick :: "conn_env \<Rightarrow> int \<Rightarrow> (Conn \<Rightarrow> Conn) \<Rightarrow> bool \<Rightarrow> Conn \<Rightarrow> tick_result" where
  "doTick env now mid skipKeepalive c =
     (case cn_state c of
        ConnStateNew \<Rightarrow> tick_New now c
      | ConnStateHandshaking \<Rightarrow> tick_Handshaking env now mid c
      | ConnStateEstablished \<Rightarrow> tick_Established env now mid skipKeepalive c
      | ConnStateClosed \<Rightarrow> (Some ErrConnClosed, None, c))"

definition tick :: "conn_env \<Rightarrow> int \<Rightarrow> (Conn \<Rightarrow> Conn) \<Rightarrow> bool \<Rightarrow> Conn \<Rightarrow> conn_error option \<times> Conn" where
  "tick env now mid skipKeepalive c =
     (case doTick env now mid skipKeepalive c of
        (Some e, _, c) \<Rightarrow> (Some e, c)
      | (None, next_t, c) \<Rightarrow> (None, c\<lparr>cn_timer := snd (Timer_Reset next_t (cn_timer c))\<rparr>))"

definition Tick :: "conn_env \<Rightarrow> int \<Rightarrow> (Conn \<Rightarrow> Conn) \<Rightarrow> Conn \<Rightarrow> conn_error option \<times> Conn" where
  "Tick env now mid c = tick env now mid False c"

text \<open>The callback of the timer, when the timer fires.\<close>

definition timer_fires :: "conn_env \<Rightarrow> int \<Rightarrow> (Conn \<Rightarrow> Conn) \<Rightarrow> Conn \<Rightarrow> Conn" where
  "timer_fires env now mid c =
     (case Timer_fire now (cn_timer c) of
        (False, t) \<Rightarrow> c\<lparr>cn_timer := t\<rparr>
      | (True, t) \<Rightarrow> snd (tick env now mid False (c\<lparr>cn_timer := t\<rparr>)))"

definition Send ::
  "conn_env \<Rightarrow> int \<Rightarrow> (Conn \<Rightarrow> Conn) \<Rightarrow> u8 \<Rightarrow> bytes \<Rightarrow> Conn \<Rightarrow> conn_error option \<times> Conn" where
  "Send env now mid protocol payload c =
     (if protocol = ProtocolKCP then (Some ErrKCPMustUseStream, c)
      else case tick env now mid True c of (err, c) \<Rightarrow>
        if err \<noteq> None \<and> err \<noteq> Some ErrNotEstablished \<and> err \<noteq> Some ErrConnClosed then (err, c)
        else case sendPayload env now (Some (EncodePayload protocol payload)) False c of
          (Some e, c) \<Rightarrow> (Some e, c)
        | (None, c) \<Rightarrow> (None, snd (tick env now mid False c)))"

section \<open>Handshakes\<close>

text \<open>The noise message rebuilt from the two parts of a wire message.\<close>

definition join_message :: "nat \<Rightarrow> bytes \<Rightarrow> bytes \<Rightarrow> bytes" where
  "join_message n ephemeral rest =
     copy_at (copy_at (replicate (KeySize + n) 0) 0 KeySize ephemeral) KeySize (KeySize + n) rest"

definition establish :: "Session \<Rightarrow> int \<Rightarrow> Conn \<Rightarrow> Conn" where
  "establish session now c =
     c\<lparr>cn_previous := (if cn_current c \<noteq> None then cn_current c else cn_previous c),
       cn_current := Some session, cn_sessionCreated := Some now,
       cn_hsState := None, cn_handshakeStarted := None,
       cn_handshakeAttemptStart := None, cn_lastHandshakeSent := None,
       cn_state := ConnStateEstablished, cn_lastSent := Some now,
       cn_lastReceived := Some now, cn_rekeyTriggered := False\<rparr>"

definition completeHandshake ::
  "conn_env \<Rightarrow> int \<Rightarrow> (Conn \<Rightarrow> Conn) \<Rightarrow> u32 \<Rightarrow> bytes option \<Rightarrow> Conn \<Rightarrow> conn_error option \<times> Conn" where
  "completeHandshake env now mid remoteIdx remotePK c =
     (case cn_hsState c of
        None \<Rightarrow> (Some ErrHandshakeIncomplete, c)
      | Some (_, hs) \<Rightarrow>
          if \<not> hs_finished hs then (Some ErrHandshakeIncomplete, c)
          else case HandshakeState_Split (ce_crypto env) hs of
            Inl e \<Rightarrow> (Some (NoiseError e), resetHandshakeState c)
          | Inr _ \<Rightarrow>
              let c = (case remotePK of None \<Rightarrow> c | Some pk \<Rightarrow> c\<lparr>cn_remotePK := pk\<rparr>) in
              (case split_session (ce_crypto env) (cn_localIdx c) remoteIdx (cn_remotePK c)
                  (cn_cipherMode c) now hs of
                 Inl e \<Rightarrow> (Some (NoiseError e), resetHandshakeState c)
               | Inr session \<Rightarrow>
                   let c = establish session now c;
                       c = (if cn_pendingPackets c \<noteq> [] then flushPendingPackets env now c else c)
                   in (None, snd (tick env now mid False c))))"

definition accept ::
  "conn_env \<Rightarrow> int \<Rightarrow> (Conn \<Rightarrow> Conn) \<Rightarrow> HandshakeInitMessage \<Rightarrow> Conn \<Rightarrow> (conn_error + bytes) \<times> Conn" where
  "accept env now mid msg c =
     (if cn_state c \<noteq> ConnStateNew then (Inl ErrInvalidConnState, c)
      else
        let c = c\<lparr>cn_state := ConnStateHandshaking, cn_handshakeStarted := Some now\<rparr> in
        case NewHandshakeState (ce_crypto env) (ik_config False None c) of
          Inl e \<Rightarrow> (Inl (NoiseError e), c\<lparr>cn_state := ConnStateNew\<rparr>)
        | Inr hs \<Rightarrow>
            let c = set_hsState hs c;
                noiseMsg = join_message 48 (hi_Ephemeral msg) (hi_Static msg)
            in (case ReadMessage (ce_crypto env) hs noiseMsg of
                  (Inl e, hs) \<Rightarrow> (case failHandshake (NoiseError e) c of (e, c) \<Rightarrow> (Inl e, c))
                | (Inr _, hs) \<Rightarrow>
                    let remotePK = hs_remoteStatic hs in
                    (case WriteMessage (ce_crypto env) hs [] (cn_random c) of
                       (Inl e, hs, random) \<Rightarrow>
                         (case failHandshake (NoiseError e) (c\<lparr>cn_random := random\<rparr>) of (e, c) \<Rightarrow> (Inl e, c))
                     | (Inr msg2, hs, random) \<Rightarrow>
                         let c = c\<lparr>cn_random := random,
                                   cn_hsState := map_option (\<lambda>(p, _). (p, hs)) (cn_hsState c)\<rparr>;
                             remoteIdx = hi_SenderIndex msg
                         in (case completeHandshake env now mid remoteIdx (Some remotePK) c of
                               (Some e, c) \<Rightarrow> (Inl e, c)
                             | (None, c) \<Rightarrow>
                                 (Inr (BuildHandshakeResp (cn_localIdx c) remoteIdx (LocalEphemeral hs)
                                         (drop KeySize msg2)), c)))))"


section \<open>Receiving\<close>

text \<open>What the callers of \<^verbatim>\<open>Recv\<close> get: an error, or a protocol byte and a payload.\<close>

type_synonym received = "conn_error + u8 \<times> bytes"

definition put_session :: "bool \<Rightarrow> Session \<Rightarrow> Conn \<Rightarrow> Conn" where
  "put_session is_current s c =
     (if is_current then c\<lparr>cn_current := Some s\<rparr> else c\<lparr>cn_previous := Some s\<rparr>)"

text \<open>The session a packet is for: true for the current one.\<close>

definition find_session :: "u32 \<Rightarrow> Conn \<Rightarrow> conn_error + bool \<times> Session" where
  "find_session idx c =
     (case cn_current c of
        None \<Rightarrow> Inl ErrNotEstablished
      | Some cur \<Rightarrow>
          if idx = ses_localIndex cur then Inr (True, cur)
          else case cn_previous c of
            None \<Rightarrow> Inl ErrInvalidReceiverIndex
          | Some prev \<Rightarrow>
              if idx = ses_localIndex prev then Inr (False, prev) else Inl ErrInvalidReceiverIndex)"

definition decode_received :: "bytes \<Rightarrow> received" where
  "decode_received plaintext =
     (if length plaintext = 0 then Inr (0, [])
      else case DecodePayload plaintext of
        Inl e \<Rightarrow> Inl (PayloadError e)
      | Inr (protocol, payload) \<Rightarrow>
          if protocol = ProtocolKCP then Inl ErrKCPMustUseStream else Inr (protocol, payload))"

definition handleTransportMessage ::
  "conn_env \<Rightarrow> int \<Rightarrow> (Conn \<Rightarrow> Conn) \<Rightarrow> TransportMessage \<Rightarrow> Conn \<Rightarrow> received \<times> Conn" where
  "handleTransportMessage env now mid msg c =
     (let sessionCreated = cn_sessionCreated c; isInitiator = cn_isInitiator c;
          rekeyTriggered = cn_rekeyTriggered c
      in case find_session (tm_ReceiverIndex msg) c of
           Inl e \<Rightarrow> (Inl e, c)
         | Inr (is_current, session) \<Rightarrow>
             (case Session_Decrypt (ce_crypto env) now (tm_Ciphertext msg) (tm_Counter msg) session of
                (Inl e, session) \<Rightarrow> (Inl (NoiseError e), put_session is_current session c)
              | (Inr plaintext, session) \<Rightarrow>
                  let c = (put_session is_current session c)\<lparr>cn_lastReceived := Some now\<rparr>;
                      c = snd (tick env now mid False c);
                      c = (if isInitiator \<and> \<not> rekeyTriggered \<and> sessionCreated \<noteq> None
                              \<and> RekeyOnRecvThreshold < since now sessionCreated
                           then c\<lparr>cn_spawned := cn_spawned c + 1\<rparr> else c)
                  in (decode_received plaintext, c)))"

text \<open>A goroutine that was started with \<^verbatim>\<open>go\<close> runs \<^verbatim>\<open>initiateRekey\<close>.\<close>

definition run_rekey :: "conn_env \<Rightarrow> int \<Rightarrow> (Conn \<Rightarrow> Conn) \<Rightarrow> Conn \<Rightarrow> Conn" where
  "run_rekey env now mid c =
     (if cn_spawned c = 0 then c
      else snd (initiateRekey env now mid mid (c\<lparr>cn_spawned := cn_spawned c - 1\<rparr>)))"

definition update_addr :: "addr \<Rightarrow> Conn \<Rightarrow> Conn" where
  "update_addr fromAddr c = (if fromAddr \<noteq> None then c\<lparr>cn_remoteAddr := fromAddr\<rparr> else c)"

definition rotate :: "Session \<Rightarrow> int \<Rightarrow> Conn \<Rightarrow> Conn" where
  "rotate session now c =
     c\<lparr>cn_previous := (if cn_current c \<noteq> None then cn_current c else cn_previous c),
       cn_current := Some session, cn_sessionCreated := Some now,
       cn_state := ConnStateEstablished, cn_lastReceived := Some now, cn_rekeyTriggered := False\<rparr>"

definition handleHandshakeResponse ::
  "conn_env \<Rightarrow> int \<Rightarrow> (Conn \<Rightarrow> Conn) \<Rightarrow> HandshakeRespMessage \<Rightarrow> addr \<Rightarrow> Conn \<Rightarrow> received \<times> Conn" where
  "handleHandshakeResponse env now mid resp fromAddr c =
     (let localIdx = cn_localIdx c; remotePK = cn_remotePK c; cipherMode = cn_cipherMode c in
      case cn_hsState c of
        None \<Rightarrow> (Inl ErrInvalidConnState, c)
      | Some (ptr, hs) \<Rightarrow>
          if hr_ReceiverIndex resp \<noteq> localIdx then (Inl ErrInvalidReceiverIndex, c)
          else case ReadMessage (ce_crypto env) hs
              (join_message 16 (hr_Ephemeral resp) (hr_Empty resp)) of
            (Inl e, hs) \<Rightarrow> (Inl (NoiseError e), resetHandshakeState c)
          | (Inr _, hs) \<Rightarrow>
              (case split_session (ce_crypto env) localIdx (hr_SenderIndex resp) remotePK cipherMode now hs of
                 Inl e \<Rightarrow> (Inl (NoiseError e), resetHandshakeState c)
               | Inr session \<Rightarrow>
                   let c = mid (c\<lparr>cn_hsState := Some (ptr, hs)\<rparr>) in
                   if map_option fst (cn_hsState c) \<noteq> Some ptr then (Inl ErrInvalidConnState, c)
                   else
                     let c = (rotate session now c)\<lparr>cn_hsState := None, cn_handshakeStarted := None,
                               cn_handshakeAttemptStart := None, cn_lastHandshakeSent := None,
                               cn_isInitiator := True\<rparr>;
                         c = update_addr fromAddr c
                     in (Inr (0, []), snd (tick env now mid False c))))"

definition handleHandshakeInit ::
  "conn_env \<Rightarrow> int \<Rightarrow> (Conn \<Rightarrow> Conn) \<Rightarrow> HandshakeInitMessage \<Rightarrow> addr \<Rightarrow> Conn \<Rightarrow> received \<times> Conn" where
  "handleHandshakeInit env now mid init fromAddr c =
     (let remoteAddr = (if fromAddr \<noteq> None then fromAddr else cn_remoteAddr c) in
      case NewHandshakeState (ce_crypto env) (ik_config False None c) of
        Inl e \<Rightarrow> (Inl (NoiseError e), c)
      | Inr hs \<Rightarrow>
          (case ReadMessage (ce_crypto env) hs (join_message 48 (hi_Ephemeral init) (hi_Static init)) of
             (Inl e, hs) \<Rightarrow> (Inl (NoiseError e), c)
           | (Inr _, hs) \<Rightarrow>
               if cn_remotePK c \<noteq> hs_remoteStatic hs then (Inl ErrInvalidRemotePK, c)
               else case WriteMessage (ce_crypto env) hs [] (cn_random c) of
                 (Inl e, hs, random) \<Rightarrow> (Inl (NoiseError e), c\<lparr>cn_random := random\<rparr>)
               | (Inr msg2, hs, random) \<Rightarrow>
                   (case GenerateIndex random of
                      Inl e \<Rightarrow> (Inl (NoiseError e), c\<lparr>cn_random := random\<rparr>)
                    | Inr (newIdx, random) \<Rightarrow>
                        let c = c\<lparr>cn_random := random\<rparr>;
                            wireResp = BuildHandshakeResp newIdx (hi_SenderIndex init)
                                         (LocalEphemeral hs) (drop KeySize msg2)
                        in (case split_session (ce_crypto env) newIdx (hi_SenderIndex init)
                              (cn_remotePK c) (cn_cipherMode c) now hs of
                              Inl e \<Rightarrow> (Inl (NoiseError e), c)
                            | Inr session \<Rightarrow>
                                (case write_to env remoteAddr wireResp c of
                                   (Some e, c) \<Rightarrow> (Inl e, c)
                                 | (None, c) \<Rightarrow>
                                     let c = (rotate session now (mid c))\<lparr>cn_localIdx := newIdx,
                                               cn_lastSent := Some now, cn_isInitiator := False\<rparr>;
                                         c = update_addr fromAddr c
                                     in (Inr (0, []), snd (tick env now mid False c)))))))"

text \<open>
  \<^verbatim>\<open>Recv\<close> on a connection of a listener takes from the inbound channel, otherwise it reads the
  transport, which gives \<open>input\<close>. \<open>None\<close> is a call that blocks. The checks at the beginning are made
  before it blocks: \<open>Recv_start\<close> is what comes before, \<open>Recv_packet\<close> what comes after.
\<close>

definition Recv_start :: "Conn \<Rightarrow> conn_error option" where
  "Recv_start c =
     (if cn_state c = ConnStateClosed then Some ErrConnClosed
      else if cn_state c = ConnStateNew \<and> cn_current c = None \<and> cn_hsState c = None
        then Some ErrNotEstablished
      else None)"

definition Recv_inbound :: "conn_env \<Rightarrow> int \<Rightarrow> (Conn \<Rightarrow> Conn) \<Rightarrow> Inbound \<Rightarrow> Conn \<Rightarrow> (received \<times> Conn) option" where
  "Recv_inbound env now mid inbound c =
     (case ib_packets inbound of
        [] \<Rightarrow> if ib_closed inbound then Some (Inl ErrConnClosed, c) else None
      | (msg, from) # rest \<Rightarrow>
          let c = c\<lparr>cn_inbound := Some (inbound\<lparr>ib_packets := rest\<rparr>)\<rparr>;
              c = update_addr from c
          in Some (handleTransportMessage env now mid msg c))"

definition Recv_packet ::
  "conn_env \<Rightarrow> int \<Rightarrow> (Conn \<Rightarrow> Conn) \<Rightarrow> conn_error + bytes \<times> addr \<Rightarrow> Conn \<Rightarrow> received \<times> Conn" where
  "Recv_packet env now mid input c =
     (case input of
        Inl e \<Rightarrow> (Inl e, c)
      | Inr (data, fromAddr) \<Rightarrow>
          (case GetMessageType data of
             Inl e \<Rightarrow> (Inl (MessageError e), c)
           | Inr msgType \<Rightarrow>
               if msgType = MessageTypeTransport then
                 (case ParseTransportMessage data of
                    Inl e \<Rightarrow> (Inl (MessageError e), c)
                  | Inr msg \<Rightarrow> handleTransportMessage env now mid msg c)
               else if msgType = MessageTypeHandshakeResp then
                 (case ParseHandshakeResp data of
                    Inl e \<Rightarrow> (Inl (MessageError e), c)
                  | Inr resp \<Rightarrow> handleHandshakeResponse env now mid resp fromAddr c)
               else if msgType = MessageTypeHandshakeInit then
                 (case ParseHandshakeInit data of
                    Inl e \<Rightarrow> (Inl (MessageError e), c)
                  | Inr init \<Rightarrow> handleHandshakeInit env now mid init fromAddr c)
               else (Inl (MessageError ErrInvalidMessageType), c)))"

definition Recv ::
  "conn_env \<Rightarrow> int \<Rightarrow> (Conn \<Rightarrow> Conn) \<Rightarrow> conn_error + bytes \<times> addr \<Rightarrow> Conn \<Rightarrow> (received \<times> Conn) option" where
  "Recv env now mid input c =
     (case Recv_start c of
        Some e \<Rightarrow> Some (Inl e, c)
      | None \<Rightarrow>
          (case cn_inbound c of
             Some inbound \<Rightarrow> Recv_inbound env now mid inbound c
           | None \<Rightarrow> Some (Recv_packet env now mid input c)))"

section \<open>Closing and the rest\<close>

definition Conn_Close :: "Conn \<Rightarrow> Conn" where
  "Conn_Close c =
     (if cn_state c = ConnStateClosed then c
      else c\<lparr>cn_state := ConnStateClosed, cn_current := map_option Expire (cn_current c),
             cn_previous := map_option Expire (cn_previous c), cn_pendingPackets := [],
             cn_hsState := None, cn_handshakeStarted := None, cn_handshakeAttemptStart := None,
             cn_lastHandshakeSent := None, cn_rekeyTriggered := False,
             cn_timer := Timer_Close (cn_timer c)\<rparr>)"

definition SetSession :: "conn_env \<Rightarrow> int \<Rightarrow> (Conn \<Rightarrow> Conn) \<Rightarrow> Session option \<Rightarrow> Conn \<Rightarrow> Conn" where
  "SetSession env now mid s c =
     (case s of
        None \<Rightarrow> c\<lparr>cn_current := None\<rparr>
      | Some session \<Rightarrow>
          snd (tick env now mid False
            (c\<lparr>cn_current := Some session, cn_state := ConnStateEstablished,
               cn_localIdx := ses_localIndex session, cn_sessionCreated := Some now,
               cn_lastSent := Some now, cn_lastReceived := Some now, cn_rekeyTriggered := False\<rparr>)))"

definition SetRemoteAddr :: "addr \<Rightarrow> Conn \<Rightarrow> Conn" where
  "SetRemoteAddr a c = c\<lparr>cn_remoteAddr := a\<rparr>"

definition setInbound :: "Inbound \<Rightarrow> Conn \<Rightarrow> Conn" where
  "setInbound ch c = c\<lparr>cn_inbound := Some ch\<rparr>"

text \<open>The channel has the capacity the listener made it with; sending on a closed channel panics.\<close>

datatype delivered = Delivered bool | DeliverPanics

definition inboundCap :: nat where "inboundCap = 64"

definition deliverPacket :: "TransportMessage \<Rightarrow> addr \<Rightarrow> Conn \<Rightarrow> delivered \<times> Conn" where
  "deliverPacket msg a c =
     (case cn_inbound c of
        None \<Rightarrow> (Delivered False, c)
      | Some inbound \<Rightarrow>
          if cn_state c = ConnStateClosed then (Delivered False, c)
          else if ib_closed inbound then (DeliverPanics, c)
          else if length (ib_packets inbound) < inboundCap then
            (Delivered True,
             c\<lparr>cn_inbound := Some (inbound\<lparr>ib_packets := ib_packets inbound @ [(msg, a)]\<rparr>)\<rparr>)
          else (Delivered False, c))"

end
