(* ===== verification/NoiseFrame.thy ===== *)
theory NoiseFrame
  imports NoiseAgreement
begin

text \<open>
  What the token interpreter leaves alone, whether or not it fails: the configuration, the message
  index and the finished flag. So both flags move only at the end of a message, and a handshake of
  two messages is finished after the second.
\<close>

lemma dh_token_frame: "same_frame hs (snd (dh_token C hs token))"
  by (auto simp: dh_token_def same_frame_def split: sum.splits)

lemma write_token_frame: "same_frame (fst w) (fst (snd (write_token C token w)))"
  using dh_token_frame [of "fst w" C token]
  by (cases w) (auto simp: write_token_def same_frame_def Let_def split: sum.splits prod.splits option.splits)

lemma write_tokens_frame: "same_frame (fst w) (fst (snd (write_tokens C tokens w)))"
proof (induction tokens arbitrary: w)
  case (Cons token tokens)
  obtain e w' where w': "write_token C token w = (e, w')" by (cases "write_token C token w")
  have "same_frame (fst w) (fst w')" using write_token_frame [of w C token] w' by simp
  then show ?case using Cons.IH [of w'] w' by (auto intro: same_frame_trans split: option.splits)
qed (simp add: same_frame_def)

lemma read_token_frame: "same_frame (fst r) (fst (snd (read_token C msg token r)))"
  using dh_token_frame [of "fst r" C token]
  by (cases r) (auto simp: read_token_def same_frame_def Let_def split: sum.splits prod.splits option.splits)

lemma read_tokens_frame: "same_frame (fst r) (fst (snd (read_tokens C msg tokens r)))"
proof (induction tokens arbitrary: r)
  case (Cons token tokens)
  obtain e r' where r': "read_token C msg token r = (e, r')" by (cases "read_token C msg token r")
  have "same_frame (fst r) (fst r')" using read_token_frame [of r C msg token] r' by simp
  then show ?case using Cons.IH [of r'] r' by (auto intro: same_frame_trans split: option.splits)
qed (simp add: same_frame_def)

section \<open>A message moves the index by one\<close>

definition advanced :: "HandshakeState \<Rightarrow> HandshakeState \<Rightarrow> bool" where
  "advanced a b \<longleftrightarrow> hs_config b = hs_config a \<and> hs_msgIndex b = hs_msgIndex a + 1
     \<and> hs_finished b = (length (hs_messages a) \<le> hs_msgIndex a + 1)"

lemma next_advanced:
  "same_frame a b \<Longrightarrow> \<not> hs_finished a \<Longrightarrow> advanced a (next_message (b\<lparr>hs_ss := s\<rparr>))"
  "same_frame a b \<Longrightarrow> \<not> hs_finished a \<Longrightarrow> advanced a (next_message b)"
  by (auto simp: advanced_def same_frame_def next_message_def hs_messages_def Let_def)

lemma WriteMessage_advanced:
  assumes "WriteMessage C hs payload random = (Inr msg, hs', random')"
  shows "advanced hs hs' \<and> \<not> hs_finished hs \<and> my_turn hs"
proof -
  obtain e hs1 m1 r1 where t: "write_tokens C (hs_messages hs ! hs_msgIndex hs) (hs, [], random) = (e, hs1, m1, r1)"
    using prod_cases4 by blast
  then have f: "same_frame hs hs1"
    using write_tokens_frame [of "(hs, [], random)" C "hs_messages hs ! hs_msgIndex hs"] by simp
  have nf: "\<not> hs_finished hs \<and> my_turn hs" using assms by (auto simp: WriteMessage_def split: if_splits)
  then show ?thesis using assms t f
    by (auto simp: WriteMessage_def intro: next_advanced split: if_splits option.splits prod.splits sum.splits)
qed

lemma ReadMessage_advanced:
  assumes "ReadMessage C hs msg = (Inr payload, hs')"
  shows "advanced hs hs' \<and> \<not> hs_finished hs \<and> \<not> my_turn hs"
proof -
  obtain e hs1 o1 where t: "read_tokens C msg (hs_messages hs ! hs_msgIndex hs) (hs, 0) = (e, hs1, o1)"
    using prod_cases3 by blast
  then have f: "same_frame hs hs1"
    using read_tokens_frame [of "(hs, 0)" C msg "hs_messages hs ! hs_msgIndex hs"] by simp
  have nf: "\<not> hs_finished hs \<and> \<not> my_turn hs" using assms by (auto simp: ReadMessage_def split: if_splits)
  then show ?thesis using assms t f
    by (auto simp: ReadMessage_def intro: next_advanced split: if_splits option.splits prod.splits sum.splits)
qed

lemma premsg_frame:
  "premsg_remote C ts hs = Inr hs' \<Longrightarrow> same_frame hs hs'"
  "premsg_local C ts hs = Inr hs' \<Longrightarrow> same_frame hs hs'"
  subgoal by (induction ts arbitrary: hs) (auto simp: same_frame_def split: if_splits option.splits)
  subgoal by (induction ts arbitrary: hs) (auto simp: same_frame_def split: if_splits option.splits)
  done

lemma NewHandshakeState_fresh:
  assumes "NewHandshakeState C config = Inr hs"
  shows "hs_msgIndex hs = 0 \<and> \<not> hs_finished hs
     \<and> (\<exists>mode. NormalizeCipherMode (cfg_CipherMode config) = Inr mode
          \<and> hs_config hs = config\<lparr>cfg_CipherMode := mode\<rparr>)"
  using assms
  by (auto simp: NewHandshakeState_def Let_def same_frame_def dest!: premsg_frame
      split: option.splits sum.splits if_splits)

lemma responder_finished:
  assumes "NewHandshakeState C config = Inr hs" "length (pat_MessagePatterns (cfg_Pattern config)) = 2"
    "ReadMessage C hs msg = (Inr p, hs1)" "WriteMessage C hs1 payload random = (Inr msg2, hs2, random')"
  shows "hs_finished hs2"
  using NewHandshakeState_fresh [OF assms(1)] assms(2) ReadMessage_advanced [OF assms(3)]
    WriteMessage_advanced [OF assms(4)]
  by (auto simp: advanced_def hs_messages_def)

end
