(* ===== verification/CoreConnInv.thy ===== *)
theory CoreConnInv
  imports CoreConn NoiseFrame
begin

text \<open>
  What every operation of a connection keeps, whatever other goroutines do at the points where a
  method has released the lock, and the runs of a connection.
\<close>

section \<open>The invariant\<close>

definition dead :: "Session option \<Rightarrow> bool" where
  "dead s \<longleftrightarrow> (\<forall>x. s = Some x \<longrightarrow> ses_state x \<noteq> SessionStateEstablished)"

text \<open>A closed connection holds nothing back.\<close>

definition shut :: "Conn \<Rightarrow> bool" where
  "shut c \<longleftrightarrow> cn_hsState c = None \<and> cn_pendingPackets c = [] \<and> cn_handshakeAttemptStart c = None
     \<and> cn_lastHandshakeSent c = None \<and> \<not> cn_rekeyTriggered c \<and> tm_closed (cn_timer c)
     \<and> dead (cn_current c) \<and> dead (cn_previous c)"

definition conn_inv :: "Conn \<Rightarrow> bool" where
  "conn_inv c \<longleftrightarrow> cn_lastSent c \<noteq> None \<and> cn_lastReceived c \<noteq> None
     \<and> (\<forall>p hs. cn_hsState c = Some (p, hs) \<longrightarrow> p < cn_hsCount c \<and> cn_lastHandshakeSent c \<noteq> None)
     \<and> (cn_state c = ConnStateClosed \<longrightarrow> shut c)"

lemma conn_invI:
  assumes "cn_lastSent c \<noteq> None" "cn_lastReceived c \<noteq> None"
    "\<And>p hs. cn_hsState c = Some (p, hs) \<Longrightarrow> p < cn_hsCount c \<and> cn_lastHandshakeSent c \<noteq> None"
    "cn_state c = ConnStateClosed \<Longrightarrow> shut c"
  shows "conn_inv c"
  using assms unfolding conn_inv_def by blast

text \<open>The fields the invariant reads; a change of another field keeps it.\<close>

lemma conn_inv_cong:
  assumes "cn_lastSent d = cn_lastSent c" "cn_lastReceived d = cn_lastReceived c"
    "cn_hsState d = cn_hsState c" "cn_hsCount d = cn_hsCount c"
    "cn_lastHandshakeSent d = cn_lastHandshakeSent c" "cn_state d = cn_state c"
    "cn_pendingPackets d = cn_pendingPackets c"
    "cn_handshakeAttemptStart d = cn_handshakeAttemptStart c"
    "cn_rekeyTriggered d = cn_rekeyTriggered c" "tm_closed (cn_timer d) = tm_closed (cn_timer c)"
    "dead (cn_current d) = dead (cn_current c)" "dead (cn_previous d) = dead (cn_previous c)"
  shows "conn_inv d = conn_inv c"
  using assms by (simp add: conn_inv_def shut_def)

named_theorems conn_keeps

lemma inv_random [conn_keeps]: "conn_inv c \<Longrightarrow> conn_inv (c\<lparr>cn_random := r\<rparr>)"
  by (simp add: conn_inv_def shut_def)

lemma inv_spawned [conn_keeps]: "conn_inv c \<Longrightarrow> conn_inv (c\<lparr>cn_spawned := n\<rparr>)"
  by (simp add: conn_inv_def shut_def)

lemma inv_addr [conn_keeps]: "conn_inv c \<Longrightarrow> conn_inv (c\<lparr>cn_remoteAddr := a\<rparr>)"
  by (simp add: conn_inv_def shut_def)

lemma inv_inbound [conn_keeps]: "conn_inv c \<Longrightarrow> conn_inv (c\<lparr>cn_inbound := i\<rparr>)"
  by (simp add: conn_inv_def shut_def)

lemma inv_sent [conn_keeps]: "conn_inv c \<Longrightarrow> conn_inv (c\<lparr>cn_lastSent := Some t\<rparr>)"
  by (simp add: conn_inv_def shut_def)

lemma inv_received [conn_keeps]: "conn_inv c \<Longrightarrow> conn_inv (c\<lparr>cn_lastReceived := Some t\<rparr>)"
  by (simp add: conn_inv_def shut_def)

lemma inv_timer [conn_keeps]: "conn_inv c \<Longrightarrow> conn_inv (c\<lparr>cn_timer := snd (Timer_Reset d (cn_timer c))\<rparr>)"
  by (simp add: conn_inv_def shut_def Timer_Reset_def)

lemma inv_consume [conn_keeps]: "conn_inv c \<Longrightarrow> conn_inv (c\<lparr>cn_timer := snd (Timer_fire now (cn_timer c))\<rparr>)"
  by (simp add: conn_inv_def shut_def Timer_fire_def Timer_consume_def split: option.splits)

lemma inv_write_to [conn_keeps]: "conn_inv c \<Longrightarrow> conn_inv (snd (write_to env a m c))"
  by (simp add: write_to_def conn_inv_def shut_def)

lemma inv_reset [conn_keeps]:
  "conn_inv c \<Longrightarrow> conn_inv (resetHandshakeState c)"
  by (simp add: resetHandshakeState_def conn_inv_def)

lemma inv_cleanup [conn_keeps]: "conn_inv c \<Longrightarrow> conn_inv (cleanupSessions c)"
  by (simp add: cleanupSessions_def conn_inv_def shut_def dead_def)

lemma inv_update_addr [conn_keeps]: "conn_inv c \<Longrightarrow> conn_inv (update_addr a c)"
  by (simp add: update_addr_def inv_addr)

section \<open>Every operation keeps it\<close>

lemma Encrypt_dead:
  assumes "Session_Encrypt C now p s = (r, s')"
  shows "dead (Some s') = dead (Some s)"
  using assms by (auto simp: dead_def elim: Encrypt_cases)

lemma Decrypt_dead:
  assumes "Session_Decrypt C now p n s = (r, s')"
  shows "dead (Some s') = dead (Some s)"
  using assms by (auto simp: dead_def elim: Decrypt_cases)

lemma inv_current:
  "conn_inv c \<Longrightarrow> cn_current c = Some s \<Longrightarrow> dead (Some s') = dead (Some s)
   \<Longrightarrow> conn_inv (c\<lparr>cn_current := Some s'\<rparr>)"
  by (simp add: conn_inv_def shut_def)

lemma inv_put_session:
  assumes "conn_inv c" "find_session idx c = Inr (b, s)" "dead (Some s') = dead (Some s)"
  shows "conn_inv (put_session b s' c)"
  using assms
  by (auto simp: find_session_def put_session_def conn_inv_def shut_def split: option.splits if_splits)

lemma inv_sendPayload [conn_keeps]:
  assumes "conn_inv c"
  shows "conn_inv (snd (sendPayload env now p k c))"
proof (cases "cn_state c = ConnStateClosed \<or> cn_current c = None \<or> cn_state c \<noteq> ConnStateEstablished")
  case True
  then show ?thesis using assms
    by (auto simp: sendPayload_def conn_inv_def Let_def split: option.splits)
next
  case False
  then obtain s where s: "cn_current c = Some s" by auto
  obtain r s' where e: "Session_Encrypt (ce_crypto env) now (case p of None \<Rightarrow> [] | Some p \<Rightarrow> p) s = (r, s')"
    by fastforce
  have i: "conn_inv (c\<lparr>cn_current := Some s'\<rparr>)"
    using inv_current [OF assms s Encrypt_dead [OF e]] .
  show ?thesis
  proof (cases r)
    case (Inl a)
    then show ?thesis using False s e i by (simp add: sendPayload_def Let_def)
  next
    case (Inr x)
    obtain ct n where x: "x = (ct, n)" by fastforce
    obtain e' c' where w: "write_to env (cn_remoteAddr c) (BuildTransportMessage (ses_remoteIndex s') n ct)
        (c\<lparr>cn_current := Some s'\<rparr>) = (e', c')" by fastforce
    have "conn_inv c'" using inv_write_to [OF i] w by (metis snd_conv)
    then show ?thesis using False s e w x Inr
      by (auto simp: sendPayload_def Let_def intro: inv_sent split: option.splits)
  qed
qed

lemma inv_flush [conn_keeps]:
  assumes "conn_inv c"
  shows "conn_inv (flushPendingPackets env now c)"
proof -
  have "conn_inv (c\<lparr>cn_pendingPackets := []\<rparr>)" using assms by (simp add: conn_inv_def shut_def)
  moreover have "conn_inv d \<Longrightarrow> conn_inv (fold (\<lambda>pkt c. snd (sendPayload env now (Some pkt) False c)) ps d)" for ps d
    by (induction ps arbitrary: d) (simp_all add: inv_sendPayload)
  ultimately show ?thesis by (simp add: flushPendingPackets_def Let_def)
qed

lemma inv_set_hsState:
  assumes "conn_inv c" "cn_state c \<noteq> ConnStateClosed"
  shows "conn_inv ((set_hsState hs c)\<lparr>cn_lastHandshakeSent := Some t\<rparr>)"
    "conn_inv ((set_hsState hs c)\<lparr>cn_localIdx := i, cn_handshakeStarted := Some t,
       cn_handshakeAttemptStart := Some t, cn_lastHandshakeSent := Some t, cn_isInitiator := True,
       cn_rekeyTriggered := True\<rparr>)"
  using assms by (simp_all add: set_hsState_def conn_inv_def)

lemma inv_initiateRekey:
  assumes "conn_inv c" "\<And>x. conn_inv x \<Longrightarrow> conn_inv (mid x)" "\<And>x. conn_inv x \<Longrightarrow> conn_inv (mid' x)"
  shows "conn_inv (snd (initiateRekey env now mid mid' c))"
proof -
  have w: "conn_inv (mid' (snd (write_to env a m (mid (c\<lparr>cn_random := r\<rparr>)))))"
    "conn_inv (snd (write_to env a m (mid (c\<lparr>cn_random := r\<rparr>))))" for a m r
    using assms by (auto intro: conn_keeps)
  show ?thesis
    unfolding initiateRekey_def Let_def
    using assms(1) inv_random [OF assms(1)] assms(2) [OF inv_random [OF assms(1)]]
      w [unfolded write_to_def] inv_set_hsState(2)
    by (auto simp: write_to_def split: sum.splits prod.splits option.splits)
qed

lemma inv_retransmit:
  assumes "conn_inv c" "\<And>x. conn_inv x \<Longrightarrow> conn_inv (mid x)" "\<And>x. conn_inv x \<Longrightarrow> conn_inv (mid' x)"
  shows "conn_inv (snd (retransmitHandshake env now mid mid' c))"
proof -
  have w: "conn_inv (mid' (snd (write_to env a m (mid (c\<lparr>cn_random := r\<rparr>)))))"
    "conn_inv (snd (write_to env a m (mid (c\<lparr>cn_random := r\<rparr>))))" for a m r
    using assms by (auto intro: conn_keeps)
  show ?thesis
    unfolding retransmitHandshake_def Let_def
    using assms(1) inv_random [OF assms(1)] assms(2) [OF inv_random [OF assms(1)]]
      w [unfolded write_to_def] inv_set_hsState(1)
    by (auto simp: write_to_def split: sum.splits prod.splits option.splits)
qed

lemma inv_doTick:
  assumes "conn_inv c" "\<And>x. conn_inv x \<Longrightarrow> conn_inv (mid x)"
  shows "conn_inv (snd (snd (doTick env now mid skip c)))"
proof -
  note rt = inv_retransmit [where mid = mid and mid' = mid, OF assms(1,2) assms(2)]
  note rk = inv_initiateRekey [where mid = mid and mid' = mid, OF assms(1,2) assms(2)]
  have 1: "conn_inv (snd (snd (retransmit_and_schedule env now mid a c)))" for a
    using rt by (auto simp: retransmit_and_schedule_def split: prod.splits option.splits) (metis snd_conv)+
  have 2: "conn_inv (snd (snd (rekey_and_schedule env now mid c)))"
    using rk by (auto simp: rekey_and_schedule_def split: prod.splits option.splits) (metis snd_conv)+
  have 3: "conn_inv (snd (SendKeepalive env now c))"
    using assms(1) by (simp add: SendKeepalive_def inv_sendPayload)
  have 4: "conn_inv (snd (snd (tick_New now c)))"
    using assms(1) by (simp add: tick_New_def inv_cleanup)
  have 5: "conn_inv (snd (snd (tick_Handshaking env now mid c)))"
    using assms(1) 1 by (simp add: tick_Handshaking_def Let_def)
  have 6: "conn_inv (snd (snd (case SendKeepalive env now c of
                   (Some e, c) \<Rightarrow> (Some e, d, c) | (None, c) \<Rightarrow> (None, d', c))))" for d d'
    using 3 by (auto split: prod.splits option.splits)
  have 7: "conn_inv (snd (snd (tick_Established env now mid skip c)))"
    unfolding tick_Established_def Let_def
    using assms(1) 1 2 inv_cleanup [OF assms(1)] by (simp add: 6)
  show ?thesis using 4 5 7 assms(1) by (cases "cn_state c") (simp_all add: doTick_def)
qed

lemma inv_tick:
  assumes "conn_inv c" "\<And>x. conn_inv x \<Longrightarrow> conn_inv (mid x)"
  shows "conn_inv (snd (tick env now mid skip c))"
proof -
  obtain e d c1 where d: "doTick env now mid skip c = (e, d, c1)" using prod_cases3 by blast
  have "conn_inv (snd (snd (doTick env now mid skip c)))" by (rule inv_doTick [OF assms])
  then have "conn_inv c1" by (simp add: d)
  then show ?thesis by (simp add: tick_def d inv_timer split: option.splits)
qed

lemma inv_timer_fires:
  assumes "conn_inv c" "\<And>x. conn_inv x \<Longrightarrow> conn_inv (mid x)"
  shows "conn_inv (timer_fires env now mid c)"
proof -
  have "conn_inv (c\<lparr>cn_timer := snd (Timer_fire now (cn_timer c))\<rparr>)" using assms(1) by (rule inv_consume)
  then show ?thesis using assms(2)
    by (auto simp: timer_fires_def intro: inv_tick split: prod.splits bool.splits)
qed

lemma inv_Send:
  assumes "conn_inv c" "\<And>x. conn_inv x \<Longrightarrow> conn_inv (mid x)"
  shows "conn_inv (snd (Send env now mid p payload c))"
proof -
  have t: "conn_inv (snd (tick env now mid True c))" by (rule inv_tick [OF assms])
  have s: "conn_inv (snd (sendPayload env now d False (snd (tick env now mid True c))))" for d
    by (rule inv_sendPayload [OF t])
  have u: "conn_inv (snd (tick env now mid False (snd (sendPayload env now d False (snd (tick env now mid True c))))))" for d
    by (rule inv_tick [OF s assms(2)])
  show ?thesis unfolding Send_def using assms(1) t s u
    by (auto simp: split_beta split: option.splits)
qed

lemma inv_rotate:
  assumes "conn_inv c"
  shows "conn_inv (rotate s now c)"
    "conn_inv ((rotate s now c)\<lparr>cn_localIdx := i, cn_lastSent := Some t, cn_isInitiator := b\<rparr>)"
    "conn_inv ((rotate s now c)\<lparr>cn_hsState := None, cn_handshakeStarted := None,
       cn_handshakeAttemptStart := None, cn_lastHandshakeSent := None, cn_isInitiator := b\<rparr>)"
  using assms by (simp_all add: rotate_def conn_inv_def)

lemma inv_handleTransportMessage:
  assumes "conn_inv c" "\<And>x. conn_inv x \<Longrightarrow> conn_inv (mid x)"
  shows "conn_inv (snd (handleTransportMessage env now mid msg c))"
proof (cases "find_session (tm_ReceiverIndex msg) c")
  case (Inr bs)
  obtain b s where bs: "bs = (b, s)" by fastforce
  obtain r s' where d: "Session_Decrypt (ce_crypto env) now (tm_Ciphertext msg) (tm_Counter msg) s = (r, s')"
    by fastforce
  have p: "conn_inv (put_session b s' c)"
    using inv_put_session [OF assms(1) Inr [unfolded bs] Decrypt_dead [OF d]] .
  have t: "conn_inv (snd (tick env now mid False ((put_session b s' c)\<lparr>cn_lastReceived := Some now\<rparr>)))"
    by (rule inv_tick [OF inv_received [OF p] assms(2)])
  show ?thesis
    using Inr bs d p t inv_spawned [OF t] by (cases r) (simp_all add: handleTransportMessage_def Let_def)
qed (simp add: handleTransportMessage_def Let_def assms(1))

lemma inv_handleHandshakeResponse:
  assumes "conn_inv c" "\<And>x. conn_inv x \<Longrightarrow> conn_inv (mid x)"
  shows "conn_inv (snd (handleHandshakeResponse env now mid resp a c))"
proof (cases "cn_hsState c")
  case (Some ph)
  obtain ptr hs where ph: "ph = (ptr, hs)" by fastforce
  have h: "conn_inv (c\<lparr>cn_hsState := Some (ptr, hs')\<rparr>)" for hs'
    using assms(1) Some ph by (auto simp: conn_inv_def shut_def)
  have m: "conn_inv (mid (c\<lparr>cn_hsState := Some (ptr, hs')\<rparr>))" for hs' using assms(2) [OF h] .
  have t: "conn_inv (snd (tick env now mid False (update_addr a
     ((rotate s now (mid (c\<lparr>cn_hsState := Some (ptr, hs')\<rparr>)))\<lparr>cn_hsState := None,
        cn_handshakeStarted := None, cn_handshakeAttemptStart := None, cn_lastHandshakeSent := None,
        cn_isInitiator := True\<rparr>))))" for s hs'
    by (rule inv_tick [OF inv_update_addr [OF inv_rotate(3) [OF m]] assms(2)])
  show ?thesis
    unfolding handleHandshakeResponse_def Let_def Some ph
    using assms(1) inv_reset [OF assms(1)] m t
    by (simp split: sum.splits prod.splits)
qed (simp add: handleHandshakeResponse_def Let_def assms(1))

lemma inv_handleHandshakeInit:
  assumes "conn_inv c" "\<And>x. conn_inv x \<Longrightarrow> conn_inv (mid x)"
  shows "conn_inv (snd (handleHandshakeInit env now mid init a c))"
proof -
  have r: "conn_inv (c\<lparr>cn_random := x\<rparr>)" for x by (rule inv_random [OF assms(1)])
  have w: "conn_inv (snd (write_to env d m (c\<lparr>cn_random := x\<rparr>)))" for d m x by (rule inv_write_to [OF r])
  have t: "conn_inv (snd (tick env now mid False (update_addr a
     ((rotate s now (mid (snd (write_to env d m (c\<lparr>cn_random := x\<rparr>)))))\<lparr>cn_localIdx := i,
        cn_lastSent := Some now, cn_isInitiator := b\<rparr>))))" for s d m x i b
    by (rule inv_tick [OF inv_update_addr [OF inv_rotate(2) [OF assms(2) [OF w]]] assms(2)])
  show ?thesis
    unfolding handleHandshakeInit_def Let_def
    using assms(1) r w t
    by (cases a) (simp_all add: write_to_def split: sum.splits prod.splits option.splits)
qed

lemma inv_completeHandshake:
  assumes "conn_inv (c\<lparr>cn_hsState := None\<rparr>)" "cn_state c \<noteq> ConnStateClosed"
    "\<And>x. conn_inv x \<Longrightarrow> conn_inv (mid x)" "\<And>p hs. cn_hsState c = Some (p, hs) \<Longrightarrow> hs_finished hs"
    "cn_hsState c \<noteq> None"
  shows "conn_inv (snd (completeHandshake env now mid idx pk c))"
proof -
  obtain ptr hs where h: "cn_hsState c = Some (ptr, hs)" "hs_finished hs" using assms(4,5) by fastforce
  have f: "cn_lastSent c \<noteq> None" "cn_lastReceived c \<noteq> None" using assms(1) by (simp_all add: conn_inv_def)
  have r: "conn_inv (resetHandshakeState c)" "conn_inv (resetHandshakeState (c\<lparr>cn_remotePK := k\<rparr>))" for k
    using f by (simp_all add: resetHandshakeState_def conn_inv_def)
  have e: "conn_inv (establish s now d)" for d s by (simp add: establish_def conn_inv_def)
  have t: "conn_inv (snd (tick env now mid False
      (if cn_pendingPackets (establish s now d) \<noteq> [] then flushPendingPackets env now (establish s now d)
       else establish s now d)))" for d s
    by (rule inv_tick [OF _ assms(3)]) (simp add: e inv_flush)
  show ?thesis
    unfolding completeHandshake_def h option.case prod.case
    using h(2) r t by (cases pk) (simp_all add: Let_def split: sum.splits prod.splits del: if_split)
qed

lemma inv_accept:
  assumes "conn_inv c" "\<And>x. conn_inv x \<Longrightarrow> conn_inv (mid x)"
  shows "conn_inv (snd (accept env now mid msg c))"
proof (cases "cn_state c = ConnStateNew")
  case True
  let ?c = "c\<lparr>cn_state := ConnStateHandshaking, cn_handshakeStarted := Some now\<rparr>"
  have i: "conn_inv ?c" "conn_inv (?c\<lparr>cn_state := ConnStateNew\<rparr>)"
    using assms(1) by (simp_all add: conn_inv_def)
  show ?thesis
  proof (cases "NewHandshakeState (ce_crypto env) (ik_config False None ?c)")
    case (Inl e)
    then show ?thesis using True i(2) by (simp add: accept_def Let_def)
  next
    case (Inr hs)
    obtain r hs1 where rd: "ReadMessage (ce_crypto env) hs (join_message 48 (hi_Ephemeral msg) (hi_Static msg)) = (r, hs1)"
      by fastforce
    show ?thesis
    proof (cases r)
      case (Inl e)
      have "conn_inv (resetHandshakeState (set_hsState hs ?c))"
        using assms(1) by (simp add: resetHandshakeState_def set_hsState_def conn_inv_def)
      then show ?thesis using True Inr rd Inl
        by (simp add: accept_def Let_def failHandshake_def)
    next
      case (Inr p)
      obtain r2 hs2 random where wr: "WriteMessage (ce_crypto env) hs1 [] (cn_random c) = (r2, hs2, random)"
        by (metis prod_cases3)
      show ?thesis
      proof (cases r2)
        case (Inl e)
        have "conn_inv (resetHandshakeState ((set_hsState hs ?c)\<lparr>cn_random := random\<rparr>))"
          using assms(1) by (simp add: resetHandshakeState_def set_hsState_def conn_inv_def)
        then show ?thesis using True \<open>NewHandshakeState _ _ = _\<close> rd wr Inr Inl
          by (simp add: accept_def Let_def failHandshake_def set_hsState_def)
      next
        case r2: (Inr msg2)
        let ?d = "(set_hsState hs ?c)\<lparr>cn_random := random, cn_hsState := Some (cn_hsCount c, hs2)\<rparr>"
        have fin: "hs_finished hs2"
          using responder_finished [OF \<open>NewHandshakeState _ _ = _\<close> _ rd [unfolded Inr] wr [unfolded r2]]
          by (simp add: ik_config_def PatternIK_def)
        have "conn_inv (snd (completeHandshake env now mid (hi_SenderIndex msg) (Some (hs_remoteStatic hs1)) ?d))"
        proof (rule inv_completeHandshake [OF _ _ assms(2)])
          show "conn_inv (?d\<lparr>cn_hsState := None\<rparr>)"
            using assms(1) by (simp add: set_hsState_def conn_inv_def)
        qed (simp_all add: set_hsState_def fin)
        then show ?thesis using True \<open>NewHandshakeState _ _ = _\<close> rd wr Inr r2
          by (simp add: accept_def Let_def set_hsState_def split: prod.splits option.splits) fastforce
      qed
    qed
  qed
qed (simp add: accept_def assms(1))

lemma inv_Recv_packet:
  assumes "conn_inv c" "\<And>x. conn_inv x \<Longrightarrow> conn_inv (mid x)"
  shows "conn_inv (snd (Recv_packet env now mid input c))"
  using assms(1) inv_handleTransportMessage [OF assms, where env = env and now = now]
    inv_handleHandshakeResponse [OF assms, where env = env and now = now]
    inv_handleHandshakeInit [OF assms, where env = env and now = now]
  by (simp add: Recv_packet_def split: sum.splits prod.splits)

lemma inv_Recv_inbound:
  assumes "conn_inv c" "\<And>x. conn_inv x \<Longrightarrow> conn_inv (mid x)" "Recv_inbound env now mid i c = Some (r, c')"
  shows "conn_inv c'"
proof (cases "ib_packets i")
  case (Cons mf rest)
  obtain msg a where mf: "mf = (msg, a)" by fastforce
  let ?d = "update_addr a (c\<lparr>cn_inbound := Some (i\<lparr>ib_packets := rest\<rparr>)\<rparr>)"
  have "conn_inv ?d" by (rule inv_update_addr [OF inv_inbound [OF assms(1)]])
  then have "conn_inv (snd (handleTransportMessage env now mid msg ?d))"
    by (rule inv_handleTransportMessage [OF _ assms(2)])
  moreover have "handleTransportMessage env now mid msg ?d = (r, c')"
    using assms(3) Cons mf by (simp add: Recv_inbound_def Let_def)
  ultimately show ?thesis by simp
qed (use assms in \<open>simp add: Recv_inbound_def split: if_splits\<close>)

lemma inv_Close [conn_keeps]:
  assumes "conn_inv c"
  shows "conn_inv (Conn_Close c)" "cn_state (Conn_Close c) = ConnStateClosed" "shut (Conn_Close c)"
  using assms
  by (auto simp: Conn_Close_def conn_inv_def shut_def Timer_Close_def dead_def Expire_def
      session_state_defs)

lemma inv_SetSession:
  assumes "conn_inv c" "\<And>x. conn_inv x \<Longrightarrow> conn_inv (mid x)"
  shows "conn_inv (SetSession env now mid s c)"
proof (cases s)
  case None
  then show ?thesis using assms(1) by (auto simp: SetSession_def conn_inv_def shut_def dead_def)
next
  case (Some x)
  have "conn_inv (c\<lparr>cn_current := Some x, cn_state := ConnStateEstablished,
               cn_localIdx := ses_localIndex x, cn_sessionCreated := Some now,
               cn_lastSent := Some now, cn_lastReceived := Some now, cn_rekeyTriggered := False\<rparr>)"
    using assms(1) by (simp add: conn_inv_def)
  from inv_tick [OF this assms(2)] Some show ?thesis by (simp add: SetSession_def)
qed

lemma inv_run_rekey:
  assumes "conn_inv c" "\<And>x. conn_inv x \<Longrightarrow> conn_inv (mid x)"
  shows "conn_inv (run_rekey env now mid c)"
  using assms inv_initiateRekey [OF inv_spawned [OF assms(1)] assms(2) assms(2)]
  by (simp add: run_rekey_def)

lemma inv_deliverPacket: "conn_inv c \<Longrightarrow> conn_inv (snd (deliverPacket m a c))"
  by (auto simp: deliverPacket_def Let_def inv_inbound split: option.splits)

lemma inv_newConn:
  assumes "newConnWithCipherMode now random k t a pk m = Inr c"
  shows "conn_inv c"
  using assms by (auto simp: newConnWithCipherMode_def conn_inv_def split: option.splits if_splits sum.splits)

end
