(* ===== verification/CoreConnTick.thy ===== *)
theory CoreConnTick
  imports CoreConn
begin

text \<open>
  The timer of a connection: a tick that succeeds puts the deadline early enough that no
  time-driven action is slept through. \<open>later t d\<close> says that a timer set to \<open>d\<close> has not fired at \<open>t\<close>.
\<close>

definition later :: "int \<Rightarrow> gotime \<Rightarrow> bool" where
  "later t d \<longleftrightarrow> (\<forall>x. d = Some x \<longrightarrow> t < x)"

lemma later_simps [simp]: "later t None" "later t (Some x) \<longleftrightarrow> t < x"
  by (auto simp: later_def)

lemma later_addDeadline [simp]: "later t (addDeadline a b) \<longleftrightarrow> later t a \<and> later t b"
  by (auto simp: addDeadline_def split: option.splits)

lemma later_addAfter [simp]:
  "later t (addAfter a d b) \<longleftrightarrow> (\<forall>x. a = Some x \<longrightarrow> t \<le> x + d) \<and> later t b"
  by (auto simp: addAfter_def after_time_def)

lemma later_scheduleHandshake:
  "later t (scheduleHandshake a s h b) \<longleftrightarrow>
     (\<forall>x. a = Some x \<longrightarrow> t \<le> x + RekeyAttemptTime) \<and> (h \<longrightarrow> (\<forall>x. s = Some x \<longrightarrow> t \<le> x + RekeyTimeout))
     \<and> later t b"
  by (auto simp: scheduleHandshake_def Let_def)

lemma later_scheduleEstablished:
  "later t (scheduleEstablished s r k ini done b) \<longleftrightarrow>
     (\<forall>x. r = Some x \<longrightarrow> t \<le> x + SessionCleanupTime
        \<and> (ini \<longrightarrow> t \<le> x + (KeepaliveTimeout + RekeyTimeout))
        \<and> (\<forall>y. s = Some y \<and> y + 1 < x \<longrightarrow> t \<le> y + KeepaliveTimeout))
     \<and> (ini \<and> \<not> done \<longrightarrow> (\<forall>x. k = Some x \<longrightarrow> t \<le> x + RekeyAfterTime))
     \<and> later t b"
  by (cases s; cases r) (auto simp: scheduleEstablished_def Let_def after_time_def)

section \<open>What a tick leaves behind\<close>

lemma initiateRekey_None:
  assumes "initiateRekey env now id id c = (None, c')" "cn_hsState c = None"
  shows "\<exists>hs idx random w. c' = (set_hsState hs (c\<lparr>cn_random := random, cn_wire := w\<rparr>))\<lparr>cn_localIdx := idx,
       cn_handshakeStarted := Some now, cn_handshakeAttemptStart := Some now,
       cn_lastHandshakeSent := Some now, cn_isInitiator := True, cn_rekeyTriggered := True\<rparr>"
  using assms
  by (auto simp: initiateRekey_def write_to_def Let_def set_hsState_def
      split: if_splits sum.splits prod.splits option.splits)

lemma retransmitHandshake_None:
  assumes "retransmitHandshake env now id id c = (None, c')" "cn_hsState c \<noteq> None"
  shows "\<exists>hs random w. c' = (set_hsState hs (c\<lparr>cn_random := random, cn_wire := w\<rparr>))\<lparr>cn_lastHandshakeSent := Some now\<rparr>"
  using assms
  by (auto simp: retransmitHandshake_def write_to_def Let_def set_hsState_def
      split: if_splits sum.splits prod.splits option.splits)

lemma Encrypt_RecvMaxNonce: "RecvMaxNonce (snd (Session_Encrypt C now p s)) = RecvMaxNonce s"
  by (cases "Session_Encrypt C now p s") (auto simp: RecvMaxNonce_def elim: Encrypt_cases)

lemma SendKeepalive_None:
  assumes "SendKeepalive env now c = (None, c')"
  shows "\<exists>s s' w. cn_current c = Some s \<and> RecvMaxNonce s' = RecvMaxNonce s
     \<and> c' = c\<lparr>cn_current := Some s', cn_wire := w, cn_lastSent := Some now\<rparr>"
proof -
  from assms obtain s where s: "cn_current c = Some s"
    by (auto simp: SendKeepalive_def sendPayload_def split: if_splits)
  obtain res s' where e: "Session_Encrypt (ce_crypto env) now [] s = (res, s')" by fastforce
  have "RecvMaxNonce s' = RecvMaxNonce s" using Encrypt_RecvMaxNonce [of "ce_crypto env" now "[]" s] e by simp
  with assms s e show ?thesis
    by (auto simp: SendKeepalive_def sendPayload_def write_to_def Let_def
        split: if_splits sum.splits prod.splits option.splits)
qed

text \<open>A tick changes nothing and reports at most the timeout of the peer.\<close>

definition idle_tick :: "conn_env \<Rightarrow> int \<Rightarrow> Conn \<Rightarrow> bool" where
  "idle_tick env t c \<longleftrightarrow>
     (case doTick env t id False c of (e, _, c') \<Rightarrow> c' = c \<and> (e = None \<or> e = Some ErrConnTimeout))"

definition nonces_low :: "Conn \<Rightarrow> bool" where
  "nonces_low c \<longleftrightarrow> (case cn_current c of None \<Rightarrow> True
     | Some s \<Rightarrow> ses_sendNonce s \<le> RekeyAfterMessages \<and> RecvMaxNonce s \<le> RejectAfterMessages)"

lemma message_limits: "RekeyAfterMessages < RejectAfterMessages"
  by (simp add: RekeyAfterMessages_def RejectAfterMessages_def)

lemma nonces_lowD:
  assumes "nonces_low c" "cn_current c = Some s"
  shows "\<not> RekeyAfterMessages < ses_sendNonce s" "\<not> RejectAfterMessages < ses_sendNonce s"
    "\<not> RejectAfterMessages < RecvMaxNonce s"
  using assms message_limits by (auto simp: nonces_low_def)

lemma idle_pending:
  assumes "cn_state c = ConnStateEstablished" "cn_hsState c \<noteq> None" "nonces_low c"
    "\<forall>x. cn_handshakeAttemptStart c = Some x \<longrightarrow> t \<le> x + RekeyAttemptTime"
    "\<forall>x. cn_lastHandshakeSent c = Some x \<longrightarrow> t \<le> x + RekeyTimeout"
    "\<forall>x. cn_lastReceived c = Some x \<longrightarrow> t \<le> x + SessionCleanupTime"
    "cn_lastReceived c \<noteq> None"
  shows "idle_tick env t c"
  using assms nonces_lowD [OF assms(3)]
  by (auto simp: idle_tick_def doTick_def tick_Established_def Let_def split: option.splits)

lemma idle_quiet:
  assumes "cn_state c = ConnStateEstablished" "cn_hsState c = None" "nonces_low c"
    "later t (scheduleEstablished (cn_lastSent c) (cn_lastReceived c) (cn_sessionCreated c)
       (cn_isInitiator c) (cn_rekeyTriggered c) None)"
    "cn_lastSent c \<noteq> None" "cn_lastReceived c \<noteq> None"
  shows "idle_tick env t c"
proof -
  obtain s r where sr: "cn_lastSent c = Some s" "cn_lastReceived c = Some r" using assms(5,6) by blast
  have l: "t \<le> r + SessionCleanupTime" "cn_isInitiator c \<Longrightarrow> t \<le> r + (KeepaliveTimeout + RekeyTimeout)"
    "s + 1 < r \<Longrightarrow> t \<le> s + KeepaliveTimeout"
    "cn_isInitiator c \<Longrightarrow> \<not> cn_rekeyTriggered c \<Longrightarrow> \<forall>x. cn_sessionCreated c = Some x \<longrightarrow> t \<le> x + RekeyAfterTime"
    using assms(4) unfolding later_scheduleEstablished sr by auto
  have n: "\<not> needs_rekey t c" if "cn_isInitiator c" "\<not> cn_rekeyTriggered c"
    using l(4) [OF that] nonces_lowD(1) [OF assms(3)]
    by (auto simp: needs_rekey_def split: option.splits)
  have "\<not> (KeepaliveTimeout < t - s \<and> t - r < KeepaliveTimeout)"
    using l(3) by (cases "s + 1 < r") auto
  then show ?thesis
    using assms(1,2) l n nonces_lowD [OF assms(3)] sr
    by (auto simp: idle_tick_def doTick_def tick_Established_def Let_def split: option.splits)
qed

lemma tick_None:
  assumes "tick env now mid skip c = (None, c')"
  obtains d c1 where "doTick env now mid skip c = (None, d, c1)"
    "c' = c1\<lparr>cn_timer := snd (Timer_Reset d (cn_timer c1))\<rparr>"
  using assms by (auto simp: tick_def split: prod.splits option.splits)


lemma Reset_later:
  assumes "\<not> tm_closed tm" "later t (Timer_currentDeadline (snd (Timer_Reset d tm)))"
  shows "later t d"
  using assms by (cases d) (auto simp: Timer_Reset_def Timer_currentDeadline_def split: if_splits)

lemma idle_no_session:
  assumes "cn_state c = ConnStateNew" "cn_current c = None" "cn_previous c = None"
  shows "idle_tick env t c"
  using assms by (simp add: idle_tick_def doTick_def tick_New_def)

lemma idle_handshaking:
  assumes "cn_state c = ConnStateHandshaking"
    "\<forall>x. cn_handshakeAttemptStart c = Some x \<longrightarrow> t \<le> x + RekeyAttemptTime"
    "cn_hsState c \<noteq> None \<Longrightarrow> \<forall>x. cn_lastHandshakeSent c = Some x \<longrightarrow> t \<le> x + RekeyTimeout"
  shows "idle_tick env t c"
  using assms by (auto simp: idle_tick_def doTick_def tick_Handshaking_def Let_def split: option.splits)

lemma cleanup_idle:
  assumes "c' = (cleanupSessions c)\<lparr>cn_timer := tm\<rparr>" "cn_state c \<in> {ConnStateNew, ConnStateEstablished}"
  shows "idle_tick env t c'"
  using assms by (intro idle_no_session) (auto simp: cleanupSessions_def)


text \<open>The ways in which a tick of an established connection succeeds.\<close>

definition alive :: "int \<Rightarrow> Conn \<Rightarrow> bool" where
  "alive now c \<longleftrightarrow> (\<exists>r. cn_lastReceived c = Some r \<and> now - r \<le> RejectAfterTime)
     \<and> (\<forall>s. cn_current c = Some s \<longrightarrow> RecvMaxNonce s \<le> RejectAfterMessages)"

lemma schedule_cases:
  "retransmit_and_schedule env now mid a c = (None, d, c1) \<longleftrightarrow>
     retransmitHandshake env now mid mid c = (None, c1) \<and> d = scheduleHandshake a (Some now) True None"
  "rekey_and_schedule env now mid c = (None, d, c1) \<longleftrightarrow>
     initiateRekey env now mid mid c = (None, c1) \<and> d = scheduleHandshake (Some now) (Some now) True None"
  by (auto simp: retransmit_and_schedule_def rekey_and_schedule_def split: prod.splits option.splits)

lemma tick_Established_None:
  assumes "tick_Established env now mid skip c = (None, d, c1)"
  obtains (clean) "c1 = cleanupSessions c"
  | (resend) "alive now c" "cn_hsState c \<noteq> None" "retransmitHandshake env now mid mid c = (None, c1)"
      "d = scheduleHandshake (cn_handshakeAttemptStart c) (Some now) True None"
  | (waiting) "alive now c" "cn_hsState c \<noteq> None" "c1 = c"
      "d = scheduleHandshake (cn_handshakeAttemptStart c) (cn_lastHandshakeSent c) True None"
  | (rekey) "alive now c" "cn_hsState c = None" "initiateRekey env now mid mid c = (None, c1)"
      "d = scheduleHandshake (Some now) (Some now) True None"
  | (keepalive) "alive now c" "cn_hsState c = None" "SendKeepalive env now c = (None, c1)"
      "d = scheduleEstablished (Some now) (cn_lastReceived c) (cn_sessionCreated c)
             (cn_isInitiator c) (cn_rekeyTriggered c) None"
  | (quiet) "alive now c" "cn_hsState c = None" "c1 = c"
      "d = scheduleEstablished (cn_lastSent c) (cn_lastReceived c) (cn_sessionCreated c)
             (cn_isInitiator c) (cn_rekeyTriggered c) None"
proof -
  let ?c = "(cn_current c \<noteq> None \<or> cn_previous c \<noteq> None) \<and> SessionCleanupTime < since now (cn_lastReceived c)"
  let ?r = "RejectAfterTime < since now (cn_lastReceived c)"
  let ?x = "case cn_current c of None \<Rightarrow> False
         | Some s \<Rightarrow> RejectAfterMessages < ses_sendNonce s \<or> RejectAfterMessages < RecvMaxNonce s"
  consider (c) ?c | (r) "\<not> ?c" "?r \<or> ?x" | (ok) "\<not> ?c" "\<not> ?r" "\<not> ?x" by blast
  then show thesis
  proof cases
    case c
    then show thesis using assms clean by (simp add: tick_Established_def Let_def)
  next
    case r
    then show thesis using assms by (auto simp: tick_Established_def Let_def split: if_splits)
  next
    case ok
    have "\<exists>r. cn_lastReceived c = Some r \<and> now - r \<le> RejectAfterTime"
      using ok(2) by (cases "cn_lastReceived c") (auto simp: time_defs)
    moreover have "\<forall>s. cn_current c = Some s \<longrightarrow> RecvMaxNonce s \<le> RejectAfterMessages"
      using ok(3) by (auto simp: not_less)
    ultimately have a: "alive now c" by (simp add: alive_def)
    note eq = assms [unfolded tick_Established_def Let_def if_not_P [OF ok(1)] if_not_P [OF ok(2)] if_not_P [OF ok(3)]]
    show thesis
    proof (cases "cn_hsState c = None")
      case True
      then have n: "\<not> cn_hsState c \<noteq> None" by simp
      show thesis using eq [unfolded if_not_P [OF n]] a True rekey keepalive quiet
        by (auto simp: schedule_cases split: if_splits prod.splits option.splits)
    next
      case False
      show thesis using eq [unfolded if_P [OF False]] a False resend waiting
        by (auto simp add: schedule_cases split: if_splits)
    qed
  qed
qed

lemma nonces_low_cong: "cn_current c' = cn_current c \<Longrightarrow> nonces_low c' = nonces_low c"
  by (simp add: nonces_low_def)

lemma wakes_Established:
  assumes "tick_Established env now id skip c = (None, d, c1)" "c' = c1\<lparr>cn_timer := tm\<rparr>"
    "cn_state c = ConnStateEstablished" "cn_lastSent c \<noteq> None"
    "cn_hsState c \<noteq> None \<Longrightarrow> \<exists>x \<le> now. cn_lastHandshakeSent c = Some x"
    "\<forall>s. cn_current c' = Some s \<longrightarrow> ses_sendNonce s \<le> RekeyAfterMessages"
    "now \<le> t" "later t d"
  shows "idle_tick env t c'"
  using assms(1)
proof (cases rule: tick_Established_None)
  case clean
  then show ?thesis using assms(2,3) by (intro cleanup_idle) auto
next
  case resend
  from retransmitHandshake_None [OF resend(3,2)] obtain hs random w where
    c1: "c1 = (set_hsState hs (c\<lparr>cn_random := random, cn_wire := w\<rparr>))\<lparr>cn_lastHandshakeSent := Some now\<rparr>" by auto
  show ?thesis using assms(2,3,6,8) resend(1)
    by (intro idle_pending)
      (auto simp: c1 resend(4) set_hsState_def nonces_low_def alive_def later_scheduleHandshake time_defs
        split: option.splits)
next
  case waiting
  obtain x where x: "x \<le> now" "cn_lastHandshakeSent c = Some x" using assms(5) waiting(2) by blast
  show ?thesis using assms(2,3,6,8) waiting x
    by (intro idle_pending)
      (auto simp: nonces_low_def alive_def later_scheduleHandshake time_defs split: option.splits)
next
  case rekey
  from initiateRekey_None [OF rekey(3,2)] obtain hs idx random w where
    c1: "c1 = (set_hsState hs (c\<lparr>cn_random := random, cn_wire := w\<rparr>))\<lparr>cn_localIdx := idx,
       cn_handshakeStarted := Some now, cn_handshakeAttemptStart := Some now,
       cn_lastHandshakeSent := Some now, cn_isInitiator := True, cn_rekeyTriggered := True\<rparr>" by blast
  show ?thesis using assms(2,3,6,8) rekey(1)
    by (intro idle_pending)
      (auto simp: c1 rekey(4) set_hsState_def nonces_low_def alive_def later_scheduleHandshake time_defs
        split: option.splits)
next
  case keepalive
  from SendKeepalive_None [OF keepalive(3)] obtain s s' w where
    s: "cn_current c = Some s" "RecvMaxNonce s' = RecvMaxNonce s"
    "c1 = c\<lparr>cn_current := Some s', cn_wire := w, cn_lastSent := Some now\<rparr>" by blast
  show ?thesis using assms(2,3,6,8) keepalive s
    by (intro idle_quiet) (auto simp: nonces_low_def alive_def)
next
  case quiet
  show ?thesis using assms(2,3,4,6,8) quiet
    by (intro idle_quiet) (auto simp: nonces_low_def alive_def split: option.splits)
qed

lemma wakes_doTick:
  assumes "doTick env now id skip c = (None, d, c1)" "c' = c1\<lparr>cn_timer := tm\<rparr>"
    "cn_lastSent c \<noteq> None" "cn_hsState c \<noteq> None \<Longrightarrow> \<exists>x \<le> now. cn_lastHandshakeSent c = Some x"
    "\<forall>s. cn_current c' = Some s \<longrightarrow> ses_sendNonce s \<le> RekeyAfterMessages" "now \<le> t" "later t d"
  shows "idle_tick env t c'"
proof (cases "cn_state c")
  case ConnStateNew
  then have "tick_New now c = (None, d, c1)" using assms(1) by (simp add: doTick_def)
  then show ?thesis using assms(2,7) ConnStateNew
  proof (cases "c1 = cleanupSessions c")
    case False
    with ConnStateNew \<open>tick_New now c = _\<close> assms(2,7) show ?thesis
      by (cases "cn_lastReceived c")
        (auto simp: tick_New_def idle_tick_def doTick_def time_defs split: if_splits)
  qed (auto intro!: cleanup_idle)
next
  case ConnStateHandshaking
  then have h: "tick_Handshaking env now id c = (None, d, c1)" using assms(1) by (simp add: doTick_def)
  show ?thesis
  proof (cases "cn_hsState c \<noteq> None \<and> cn_lastHandshakeSent c \<noteq> None
      \<and> RekeyTimeout < since now (cn_lastHandshakeSent c)")
    case False
    then have "c1 = c" "d = scheduleHandshake (cn_handshakeAttemptStart c) (cn_lastHandshakeSent c) (cn_hsState c \<noteq> None) None"
      using h by (auto simp: tick_Handshaking_def Let_def split: if_splits)
    then show ?thesis using assms(2,7) ConnStateHandshaking
      by (intro idle_handshaking) (auto simp: later_scheduleHandshake)
  next
    case True
    then have r: "retransmitHandshake env now id id c = (None, c1)" "cn_hsState c \<noteq> None"
      "d = scheduleHandshake (cn_handshakeAttemptStart c) (Some now) True None"
      using h by (auto simp: tick_Handshaking_def Let_def schedule_cases split: if_splits)
    from retransmitHandshake_None [OF r(1,2)] obtain hs random w where
      c1: "c1 = (set_hsState hs (c\<lparr>cn_random := random, cn_wire := w\<rparr>))\<lparr>cn_lastHandshakeSent := Some now\<rparr>" by auto
    show ?thesis using assms(2,7) ConnStateHandshaking
      by (intro idle_handshaking) (auto simp: c1 r(3) set_hsState_def later_scheduleHandshake)
  qed
next
  case ConnStateEstablished
  then show ?thesis using assms
    by (intro wakes_Established [where c = c and now = now]) (auto simp: doTick_def)
qed (use assms(1) in \<open>simp add: doTick_def\<close>)

section \<open>The timer never sleeps through an action\<close>


text \<open>An established connection for the witnesses, at the initiator.\<close>

definition toy_env :: conn_env where
  "toy_env = \<lparr>ce_crypto = toy_crypto, ce_write = (\<lambda>_ _ _. None)\<rparr>"

definition toy_conn :: Conn where
  "toy_conn = \<lparr>cn_timer = NewTimer, cn_localKey = toy_key 1, cn_remotePK = kp_Public (toy_key 2),
     cn_remoteAddr = Some ''peer'', cn_cipherMode = CipherModePlaintext,
     cn_state = ConnStateEstablished, cn_localIdx = 7, cn_current = Some toy_session,
     cn_previous = None, cn_hsState = None, cn_handshakeStarted = None,
     cn_handshakeAttemptStart = None, cn_lastHandshakeSent = None, cn_isInitiator = True,
     cn_createdAt = Some 0, cn_sessionCreated = Some 0, cn_lastSent = Some 0,
     cn_lastReceived = Some (5 * second), cn_pendingPackets = [], cn_rekeyTriggered = False,
     cn_inbound = None, cn_hsCount = 0, cn_random = replicate 100 7, cn_wire = [], cn_spawned = 0\<rparr>"

lemma toy_tick:
  "fst (tick toy_env (11 * second) id False toy_conn) = None"
  "cn_timer (snd (tick toy_env (11 * second) id False toy_conn))
     = \<lparr>tm_deadline = Some (20 * second + 1), tm_armed = True, tm_closed = False\<rparr>"
  "cn_current (snd (tick toy_env (11 * second) id False toy_conn)) = Some s \<Longrightarrow> ses_sendNonce s = 1"
  by (auto simp: tick_def doTick_def toy_conn_def tick_Established_def Let_def RecvMaxNonce_def
      ReplayFilter_MaxNonce_def toy_session_def NewReplayFilter_def needs_rekey_def SendKeepalive_def
      sendPayload_def NormalizeCipherMode_def Session_Encrypt_def sealWithAEAD_def scheduleEstablished_def
      addAfter_def addDeadline_def after_time_def write_to_def toy_env_def Timer_Reset_def NewTimer_def
      toy_crypto_def mode_defs time_defs session_state_defs RekeyAfterMessages_def
      RejectAfterMessages_def MaxNonce_def)


end
