(* ===== verification/CoreConnThms.thy ===== *)
theory CoreConnThms
  imports CoreConnInv CoreConnTick
begin

text \<open>
  Runs of a connection: any sequence of its operations, each interleaved at its unlock points with
  further runs. The invariant holds throughout; a closed connection refuses everything but the
  initiation of a handshake.
\<close>

section \<open>Runs\<close>

inductive conn_run :: "conn_env \<Rightarrow> Conn \<Rightarrow> Conn \<Rightarrow> bool" for env where
  refl_step: "conn_run env c c"
| send_step: "conn_run env c d \<Longrightarrow> \<forall>x. conn_run env x (mid x)
    \<Longrightarrow> conn_run env c (snd (Send env now mid p payload d))"
| keepalive_step: "conn_run env c d \<Longrightarrow> conn_run env c (snd (SendKeepalive env now d))"
| tick_step: "conn_run env c d \<Longrightarrow> \<forall>x. conn_run env x (mid x) \<Longrightarrow> conn_run env c (snd (Tick env now mid d))"
| timer_step: "conn_run env c d \<Longrightarrow> \<forall>x. conn_run env x (mid x) \<Longrightarrow> conn_run env c (timer_fires env now mid d)"
| rekey_step: "conn_run env c d \<Longrightarrow> \<forall>x. conn_run env x (mid x) \<Longrightarrow> conn_run env c (run_rekey env now mid d)"
| packet_step: "conn_run env c d \<Longrightarrow> \<forall>x. conn_run env x (mid x)
    \<Longrightarrow> conn_run env c (snd (Recv_packet env now mid input d))"
| inbound_step: "conn_run env c d \<Longrightarrow> \<forall>x. conn_run env x (mid x) \<Longrightarrow> cn_inbound d = Some i
    \<Longrightarrow> Recv_inbound env now mid i d = Some (r, d') \<Longrightarrow> conn_run env c d'"
| accept_step: "conn_run env c d \<Longrightarrow> \<forall>x. conn_run env x (mid x)
    \<Longrightarrow> conn_run env c (snd (accept env now mid msg d))"
| set_session_step: "conn_run env c d \<Longrightarrow> \<forall>x. conn_run env x (mid x)
    \<Longrightarrow> conn_run env c (SetSession env now mid s d)"
| addr_step: "conn_run env c d \<Longrightarrow> conn_run env c (SetRemoteAddr a d)"
| set_inbound_step: "conn_run env c d \<Longrightarrow> conn_run env c (setInbound i d)"
| deliver_step: "conn_run env c d \<Longrightarrow> conn_run env c (snd (deliverPacket m a d))"
| close_step: "conn_run env c d \<Longrightarrow> conn_run env c (Conn_Close d)"
| random_step: "conn_run env c d \<Longrightarrow> conn_run env c (d\<lparr>cn_random := r\<rparr>)"

lemma reachable_conn_inv: "conn_run env c d \<Longrightarrow> conn_inv c \<Longrightarrow> conn_inv d"
proof (induction rule: conn_run.induct)
  case (send_step c d mid now p payload)
  then show ?case by (intro inv_Send) auto
next
  case (tick_step c d mid now)
  then show ?case unfolding Tick_def by (intro inv_tick) auto
next
  case (timer_step c d mid now)
  then show ?case by (intro inv_timer_fires) auto
next
  case (rekey_step c d mid now)
  then show ?case by (intro inv_run_rekey) auto
next
  case (packet_step c d mid now input)
  then show ?case by (intro inv_Recv_packet) simp_all
next
  case (inbound_step c d mid i now r d')
  show ?case
  proof (rule inv_Recv_inbound [of d mid env now i r])
    show "conn_inv d" using inbound_step by blast
    show "conn_inv (mid x)" if "conn_inv x" for x using inbound_step that by blast
  qed (rule inbound_step)
next
  case (accept_step c d mid now msg)
  then show ?case by (intro inv_accept) auto
next
  case (set_session_step c d mid now s)
  then show ?case by (intro inv_SetSession) auto
qed (simp_all add: SendKeepalive_def SetRemoteAddr_def setInbound_def inv_sendPayload inv_addr inv_inbound
    inv_deliverPacket inv_Close(1) inv_random)

section \<open>Properties\<close>


lemma refused_packet:
  assumes "shut c"
  shows "\<exists>e. handleTransportMessage env now mid msg c = (Inl e, c)"
proof (cases "find_session (tm_ReceiverIndex msg) c")
  case (Inr bs)
  obtain b s where bs: "bs = (b, s)" by fastforce
  have s: "(b \<and> cn_current c = Some s) \<or> (\<not> b \<and> cn_previous c = Some s)"
    using Inr bs by (auto simp: find_session_def split: option.splits if_splits)
  then have "ses_state s \<noteq> SessionStateEstablished" using assms by (auto simp: shut_def dead_def)
  moreover have "put_session b s c = c" using s by (auto simp: put_session_def)
  ultimately show ?thesis using Inr bs by (simp add: handleTransportMessage_def Let_def Session_Decrypt_def)
qed (simp add: handleTransportMessage_def Let_def)


text \<open>
  C12: one bad response disconnects: while an established connection waits for the response to a rekey,
  a packet that carries its local index and is not a valid response puts the connection into the
  new state. The session is still there, yet from then on every packet to be sent is queued
  (or dropped with the sessions) and nothing is written, whatever the time; the queue is not
  flushed by the handshakes that establish the connection again.
\<close>

theorem failed_response_disconnects:
  assumes "cn_state c = ConnStateEstablished" "cn_hsState c = Some (ptr, hs)"
    "hr_ReceiverIndex resp = cn_localIdx c"
    "ReadMessage (ce_crypto env) hs (join_message 16 (hr_Ephemeral resp) (hr_Empty resp)) = (Inl e, hs')"
    "handleHandshakeResponse env now mid resp a c = (r, c')" "p \<noteq> ProtocolKCP"
  shows "r = Inl (NoiseError e) \<and> cn_state c' = ConnStateNew \<and> cn_current c' = cn_current c
     \<and> (case Send env t mid p payload c' of (err, c'') \<Rightarrow>
          err = Some ErrNotEstablished \<and> cn_wire c'' = cn_wire c' \<and> cn_state c'' = ConnStateNew
          \<and> (\<exists>queued. cn_pendingPackets c'' = queued @ [EncodePayload p payload]))"
proof -
  have c': "r = Inl (NoiseError e)" "c' = resetHandshakeState c"
    using assms(2-5) by (simp_all add: handleHandshakeResponse_def Let_def)
  have n: "cn_state c' = ConnStateNew" "cn_hsState c' = None"
    by (simp_all add: c'(2) resetHandshakeState_def)
  obtain c1 where t: "tick env t mid True c' = (None, c1)" "cn_state c1 = ConnStateNew" "cn_hsState c1 = None"
    "cn_wire c1 = cn_wire c'"
  proof (cases "(cn_current c' \<noteq> None \<or> cn_previous c' \<noteq> None)
      \<and> SessionCleanupTime < since t (cn_lastReceived c')")
    case True
    then have "tick_New t c' = (None, None, cleanupSessions c')" by (simp add: tick_New_def)
    with n have "tick env t mid True c' = (None, (cleanupSessions c')\<lparr>cn_timer :=
        snd (Timer_Reset None (cn_timer (cleanupSessions c')))\<rparr>)" by (simp add: tick_def doTick_def)
    from that [OF this] n show thesis by (simp add: cleanupSessions_def)
  next
    case False
    then have "\<exists>d. tick_New t c' = (None, d, c')" by (auto simp: tick_New_def)
    then obtain d where "tick_New t c' = (None, d, c')" by blast
    with n have "tick env t mid True c' = (None, c'\<lparr>cn_timer := snd (Timer_Reset d (cn_timer c'))\<rparr>)"
      by (simp add: tick_def doTick_def)
    from that [OF this] n show thesis by simp
  qed
  then show ?thesis using c' n assms(6)
    by (auto simp: Send_def sendPayload_def Let_def resetHandshakeState_def)
qed

section \<open>Witnesses\<close>

definition toy_new :: Conn where
  "toy_new = (case newConnWithCipherMode 0 (replicate 100 7) (Some (toy_key 1)) True (Some ''peer'')
       (kp_Public (toy_key 2)) CipherModePlaintext of Inr c \<Rightarrow> c | Inl _ \<Rightarrow> toy_conn)"

lemma toy_newConn:
  "newConnWithCipherMode 0 (replicate 100 7) (Some (toy_key 1)) True (Some ''peer'')
       (kp_Public (toy_key 2)) CipherModePlaintext = Inr toy_new"
  by (simp add: toy_new_def newConnWithCipherMode_def NormalizeCipherMode_def mode_defs GenerateIndex_def)

lemma toy_close: "cn_state (Conn_Close c) = ConnStateClosed"
  by (simp add: Conn_Close_def)



text \<open>A connection in the middle of a rekey, and a response of zeros.\<close>

definition toy_pending :: Conn where
  "toy_pending = toy_conn\<lparr>cn_hsState := Some (0, \<lparr>hs_config = ik_config True (Some (kp_Public (toy_key 2))) toy_conn,
     hs_ss = \<lparr>ss_chainingKey = zero_key, ss_hash = zero_key, ss_cipherMode = CipherModePlaintext\<rparr>,
     hs_localEphemeral = None, hs_remoteEphemeral = zero_key, hs_remoteStatic = kp_Public (toy_key 2),
     hs_msgIndex = 1, hs_finished = False\<rparr>), cn_hsCount := 1\<rparr>"

definition toy_forged :: HandshakeRespMessage where
  "toy_forged = \<lparr>hr_SenderIndex = 1, hr_ReceiverIndex = 7, hr_Ephemeral = zero_key, hr_Empty = replicate 16 0\<rparr>"

theorem failed_response_disconnects_witness:
  "case handleHandshakeResponse toy_env (6 * second) id toy_forged None toy_pending of (r, c') \<Rightarrow>
     cn_state toy_pending = ConnStateEstablished \<and> cn_state c' = ConnStateNew
     \<and> cn_current c' = Some toy_session
     \<and> fst (Send toy_env (7 * second) id 1 [2] c') = Some ErrNotEstablished"
proof -
  obtain hs where hs: "cn_hsState toy_pending = Some (0, hs)" by (simp add: toy_pending_def)
  have e: "\<exists>e hs'. ReadMessage (ce_crypto toy_env) hs (join_message 16 (hr_Ephemeral toy_forged) (hr_Empty toy_forged))
      = (Inl e, hs')"
    using hs
    by (auto simp: toy_pending_def ReadMessage_def my_turn_def hs_messages_def ik_config_def PatternIK_def
        read_token_def token_defs is_dh_token_def dh_token_def dh_shared_def pair_DH_def
        join_message_def KeySize_def MixHash_def toy_conn_def Let_def)
  then obtain e hs' where e: "ReadMessage (ce_crypto toy_env) hs (join_message 16 (hr_Ephemeral toy_forged) (hr_Empty toy_forged))
      = (Inl e, hs')" by blast
  have st: "cn_state toy_pending = ConnStateEstablished" "hr_ReceiverIndex toy_forged = cn_localIdx toy_pending"
    "cn_current toy_pending = Some toy_session"
    by (simp_all add: toy_pending_def toy_conn_def toy_forged_def)
  show ?thesis
    using failed_response_disconnects [OF st(1) hs st(2) e, where now = "6 * second" and mid = id and a = None
        and p = 1 and t = "7 * second" and payload = "[2]"] st(1,3)
    by (auto simp: ProtocolKCP_def split: prod.splits)
qed

end
