(* ===== verification/NoiseWire.thy ===== *)
theory NoiseWire
  imports NoiseFrame NoiseExchange
begin

text \<open>
  The form of a handshake message that begins with an ephemeral key: its length is fixed by the
  tokens, and its first 32 bytes are the ephemeral key the writer reports as \<^verbatim>\<open>LocalEphemeral\<close>. This
  is what lets the wire formats cut a noise message in two and put it together again.
\<close>

definition token_size :: "string \<Rightarrow> nat" where
  "token_size t = (if t = tokenE then 32 else if t = tokenS then 48 else 0)"

text \<open>What a writer needs for its sizes to be known.\<close>

definition writable :: "crypto \<Rightarrow> HandshakeState \<Rightarrow> bool" where
  "writable C hs \<longleftrightarrow> mode_ok (ss_cipherMode (hs_ss hs))
     \<and> (\<forall>kp. cfg_LocalStatic (hs_config hs) = Some kp \<longrightarrow> length (kp_Public kp) = 32)"

lemma EncryptAndHash_size:
  assumes "crypto_laws C" "mode_ok (ss_cipherMode ss)" "length key = 32"
    "EncryptAndHash C key p ss = Inr (c, ss')"
  shows "length c = length p + 16 \<and> ss_cipherMode ss' = ss_cipherMode ss"
  using assms Encrypt_Decrypt_AndHash [OF assms(1) _ assms(3)]
  by (auto elim!: mode_okE) (metis Inr_inject Pair_inject MixHash_mode)+

lemma dh_token_writable: "writable C hs \<Longrightarrow> writable C (snd (dh_token C hs t))"
  by (auto simp: dh_token_def writable_def split: sum.splits)

lemma dh_token_ephemeral: "hs_localEphemeral (snd (dh_token C hs t)) = hs_localEphemeral hs"
  by (auto simp: dh_token_def split: sum.splits)

lemma write_token_size:
  assumes laws: "crypto_laws C" and w: "writable C hs"
    and ok: "write_token C t (hs, msg, random) = (None, (hs', msg', random'))"
  shows "writable C hs' \<and> length msg' = length msg + token_size t \<and> take (length msg) msg' = msg
     \<and> (if t = tokenE then drop (length msg) msg' = LocalEphemeral hs'
        else hs_localEphemeral hs' = hs_localEphemeral hs)"
proof -
  consider (E) "t = tokenE" | (S) "t = tokenS" "t \<noteq> tokenE" | (D) "t \<noteq> tokenE" "t \<noteq> tokenS" by blast
  then show ?thesis
  proof cases
    case E
    have "KeySize \<le> length random"
      using ok E by (auto simp: write_token_def GenerateKeyPairFrom_def not_less split: if_splits sum.splits)
    then obtain kp where kp: "GenerateKeyPairFrom C random = Inr (kp, drop 32 random)" "honest C kp"
      using GenerateKeyPairFrom_ok [OF laws, of random] by (auto simp: KeySize_def)
    have "length (kp_Public kp) = 32" using honest_length [OF laws kp(2)] .
    then show ?thesis using ok E kp(1) w
      by (auto simp: write_token_def writable_def token_size_def LocalEphemeral_def Let_def split: if_splits)
  next
    case S
    obtain k ss where mk: "MixKey C [] (hs_ss hs) = (k, ss)" by fastforce
    have k: "length k = 32" using length_MixKey [OF laws, of "[]" "hs_ss hs"] mk by simp
    have ss: "ss_cipherMode ss = ss_cipherMode (hs_ss hs)" using MixKey_mode [of C "[]" "hs_ss hs"] mk by simp
    then have m: "mode_ok (ss_cipherMode ss)" using w by (simp add: writable_def)
    obtain kp c ss' where kp: "cfg_LocalStatic (hs_config hs) = Some kp"
      "EncryptAndHash C k (kp_Public kp) ss = Inr (c, ss')" "hs' = hs\<lparr>hs_ss := ss'\<rparr>" "msg' = msg @ c"
      using ok S mk by (auto simp: write_token_def Let_def tokenE_def tokenS_def split: option.splits sum.splits)
    from EncryptAndHash_size [OF laws m k kp(2)] show ?thesis using w kp S ss
      by (simp add: writable_def token_size_def)
  next
    case D
    then show ?thesis using ok w dh_token_writable [OF w, of t] dh_token_ephemeral [of C hs t]
      by (auto simp: write_token_def token_size_def split: if_splits prod.splits)
  qed
qed

lemma write_tokens_size:
  assumes laws: "crypto_laws C" and "writable C hs"
    and "write_tokens C ts (hs, msg, random) = (None, (hs', msg', random'))"
  shows "writable C hs' \<and> length msg' = length msg + sum_list (map token_size ts)
     \<and> take (length msg) msg' = msg
     \<and> (tokenE \<notin> set ts \<longrightarrow> hs_localEphemeral hs' = hs_localEphemeral hs)"
  using assms(2,3)
proof (induction ts arbitrary: hs msg random)
  case (Cons t ts)
  obtain e hs1 m1 r1 where w: "write_token C t (hs, msg, random) = (e, hs1, m1, r1)" by (metis prod_cases4)
  then have e: "e = None" using Cons.prems(2) by (auto split: option.splits)
  note s = write_token_size [OF laws Cons.prems(1) w [unfolded e]]
  then have w1: "writable C hs1" by simp
  have "write_tokens C ts (hs1, m1, r1) = (None, (hs', msg', random'))"
    using Cons.prems(2) w e by simp
  note ih = Cons.IH [OF w1 this]
  have "take (length msg) msg' = take (length msg) (take (length m1) msg')"
    using s by (simp add: min_def)
  then have "take (length msg) msg' = msg" using ih s by metis
  then show ?case using ih s by auto
qed simp

lemma next_message_same [simp]:
  "LocalEphemeral (next_message hs) = LocalEphemeral hs" "writable C (next_message hs) = writable C hs"
  by (simp_all add: next_message_def LocalEphemeral_def writable_def Let_def)

lemma LocalEphemeral_ss [simp]: "LocalEphemeral (hs\<lparr>hs_ss := x\<rparr>) = LocalEphemeral hs"
  by (simp add: LocalEphemeral_def)

lemma writable_ss:
  "writable C hs \<Longrightarrow> ss_cipherMode x = ss_cipherMode (hs_ss hs) \<Longrightarrow> writable C (hs\<lparr>hs_ss := x\<rparr>)"
  by (simp add: writable_def)

lemma WriteMessage_shape:
  assumes laws: "crypto_laws C" and w: "writable C hs"
    and ok: "WriteMessage C hs [] random = (Inr msg, hs', random')"
    and ts: "hs_messages hs ! hs_msgIndex hs = tokenE # ts" "tokenE \<notin> set ts"
  shows "length msg = 32 + sum_list (map token_size ts)
           + (if hs_msgIndex hs = length (hs_messages hs) - 1 then 16 else 0)"
    "take 32 msg = LocalEphemeral hs'" "writable C hs'"
proof -
  obtain e1 hs1 m1 r1 where w1: "write_token C tokenE (hs, [], random) = (e1, hs1, m1, r1)" by (metis prod_cases4)
  obtain e2 hs2 m2 r2 where w2: "write_tokens C ts (hs1, m1, r1) = (e2, hs2, m2, r2)" by (metis prod_cases4)
  have e: "e1 = None" "e2 = None"
    using ok ts w1 w2 by (auto simp: WriteMessage_def split: if_splits option.splits)
  note s1 = write_token_size [OF laws w w1 [unfolded e]]
  then have wr1: "writable C hs1" by simp
  note s2 = write_tokens_size [OF laws wr1 w2 [unfolded e]]
  have m1: "m1 = LocalEphemeral hs1" "length m1 = 32" using s1 by (auto simp: token_size_def)
  have eph: "LocalEphemeral hs2 = LocalEphemeral hs1" using s2 ts(2) by (simp add: LocalEphemeral_def)
  have fr: "same_frame hs hs2"
    using write_token_frame [of "(hs, [], random)" C tokenE] write_tokens_frame [of "(hs1, m1, r1)" C ts]
    by (auto simp: w1 w2 intro: same_frame_trans)
  have t: "write_tokens C (hs_messages hs ! hs_msgIndex hs) (hs, [], random) = (None, hs2, m2, r2)"
    using ts w1 w2 e by simp
  have pre: "take 32 m2 = LocalEphemeral hs2" "length m2 = 32 + sum_list (map token_size ts)" "32 \<le> length m2"
    using s2 m1 eph by auto
  obtain k ss where mk: "MixKey C [] (hs_ss hs2) = (k, ss)" by fastforce
  have k: "length k = 32" using length_MixKey [OF laws, of "[]" "hs_ss hs2"] mk by simp
  have ss: "ss_cipherMode ss = ss_cipherMode (hs_ss hs2)" using MixKey_mode [of C "[]" "hs_ss hs2"] mk by simp
  have m: "mode_ok (ss_cipherMode ss)" using s2 ss by (simp add: writable_def)
  have idx: "hs_msgIndex hs2 = hs_msgIndex hs" "hs_messages hs2 = hs_messages hs"
    using fr by (auto simp: same_frame_def hs_messages_def)
  have cond: "\<not> hs_finished hs" "my_turn hs" "\<not> length (hs_messages hs) \<le> hs_msgIndex hs"
    using ok by (auto simp: WriteMessage_def split: if_splits)
  have "length msg = 32 + sum_list (map token_size ts)
           + (if hs_msgIndex hs = length (hs_messages hs) - 1 then 16 else 0)
     \<and> take 32 msg = LocalEphemeral hs' \<and> writable C hs'"
  proof (cases "hs_msgIndex hs = length (hs_messages hs) - 1")
    case False
    then have "msg = m2" "hs' = next_message hs2" using ok cond t idx by (simp_all add: WriteMessage_def)
    then show ?thesis using False pre s2 by simp
  next
    case True
    obtain enc ss' where c: "EncryptAndHash C k [] ss = Inr (enc, ss')" "msg = m2 @ enc"
      "hs' = next_message (hs2\<lparr>hs_ss := ss'\<rparr>)"
      using ok cond t idx True mk by (auto simp: WriteMessage_def split: sum.splits)
    from EncryptAndHash_size [OF laws m k c(1)] show ?thesis
      using True c(2,3) pre s2 ss by (simp add: writable_ss)
  qed
  then show "length msg = 32 + sum_list (map token_size ts)
           + (if hs_msgIndex hs = length (hs_messages hs) - 1 then 16 else 0)"
    "take 32 msg = LocalEphemeral hs'" "writable C hs'" by auto
qed

end
