(* ===== verification/NoiseIK.thy ===== *)
theory NoiseIK
  imports SecureChannel NoiseWire
begin

text \<open>
  The IK handshake of two matching configurations, message by message: what both sides hold after
  each of the two messages, and the sizes the wire formats rely on.
\<close>

lemma IK_messages:
  "pat_MessagePatterns PatternIK = [[tokenE, tokenES, tokenS, tokenSS], [tokenE, tokenEE, tokenSE]]"
  by (simp add: PatternIK_def)

lemma ik_exchange:
  assumes laws: "crypto_laws C" and m: "matching C ci cr" and ik: "cfg_Pattern ci = PatternIK"
    and kp: "cfg_LocalStatic ci = Some kp" and "32 \<le> length ri" "32 \<le> length rr"
  obtains hi msg1 hi1 hr hr1 msg2 hr2 hi2 a b where
    "NewHandshakeState C ci = Inr hi"
    "WriteMessage C hi [] ri = (Inr msg1, hi1, drop 32 ri)"
    "length msg1 = 80" "take 32 msg1 = LocalEphemeral hi1"
    "NewHandshakeState C cr = Inr hr"
    "ReadMessage C hr msg1 = (Inr [], hr1)" "hs_remoteStatic hr1 = kp_Public kp"
    "WriteMessage C hr1 [] rr = (Inr msg2, hr2, drop 32 rr)"
    "length msg2 = 48" "take 32 msg2 = LocalEphemeral hr2"
    "ReadMessage C hi1 msg2 = (Inr [], hi2)"
    "HandshakeState_Split C hi2 = Inr (a, b)" "HandshakeState_Split C hr2 = Inr (b, a)"
    "length (cs_key a) = 32" "length (cs_key b) = 32"
proof -
  let ?ms = "pat_MessagePatterns PatternIK"
  obtain hi hr where h: "NewHandshakeState C ci = Inr hi"
    "NewHandshakeState C cr = Inr hr" "ready C (premsg_known PatternIK) ?ms hi hr"
    "cfg_LocalStatic (hs_config hi) = Some kp" "cfg_Initiator (hs_config hi)"
    "\<not> cfg_Initiator (hs_config hr)"
    using fresh_ready [OF laws m] patterns_ok(1) ik kp by auto
  obtain msg1 hi1 hr1 where m1: "WriteMessage C hi [] ri = (Inr msg1, hi1, drop 32 ri)"
    "ReadMessage C hr msg1 = (Inr [], hr1)" "hs_config hi1 = hs_config hi" "hs_config hr1 = hs_config hr"
    and r1: "ready C (learn_all True [tokenE, tokenES, tokenS, tokenSS] (premsg_known PatternIK))
      [[tokenE, tokenEE, tokenSE]] hr1 hi1"
    using ready_step [OF laws h(3) [unfolded IK_messages], of ri "[]"] assms(5) h(5)
    by (auto simp: token_defs)
  obtain msg2 hr2 hi2 where m2: "WriteMessage C hr1 [] rr = (Inr msg2, hr2, drop 32 rr)"
    "ReadMessage C hi1 msg2 = (Inr [], hi2)"
    and r2: "\<exists>known. ready C known [] hi2 hr2"
    using ready_step [OF laws r1, of rr "[]"] assms(6) by (auto simp: token_defs)
  have w: "writable C hi" "writable C hr1"
    using h(3) r1 honest_length [OF laws] by (auto simp: writable_def ready_def in_step_def fits_defs)
  have ms: "hs_messages hi = ?ms" "hs_msgIndex hi = 0" "hs_messages hr1 = ?ms" "hs_msgIndex hr1 = 1"
    using NewHandshakeState_fresh [OF h(1)] NewHandshakeState_fresh [OF h(2)] ReadMessage_advanced [OF m1(2)]
    ik m by (auto simp: hs_messages_def matching_def advanced_def)
  have l1: "length msg1 = 80" "take 32 msg1 = LocalEphemeral hi1"
    using WriteMessage_shape [OF laws w(1) m1(1), of "[tokenES, tokenS, tokenSS]"] ms
    by (auto simp: IK_messages token_size_def token_defs)
  have l2: "length msg2 = 48" "take 32 msg2 = LocalEphemeral hr2"
    using WriteMessage_shape [OF laws w(2) m2(1), of "[tokenEE, tokenSE]"] ms
    by (auto simp: IK_messages token_size_def token_defs)
  have "in_step C (learn_all True [tokenE, tokenES, tokenS, tokenSS] (premsg_known PatternIK)) hr1 hi1"
    using r1 by (simp add: ready_def)
  then have rs: "hs_remoteStatic hr1 = kp_Public kp"
    using h(4,5) m1(3) by (auto simp: in_step_def knows_def learn_def)
  obtain known where k: "in_step C known hi2 hr2" "hs_finished hi2" "hs_finished hr2"
    using r2 by (auto simp: ready_def in_step_def)
  obtain x y where xy: "HandshakeState_Split C hi2 = Inr (x, y)" "HandshakeState_Split C hr2 = Inr (y, x)"
    using split_in_step [OF laws k] by blast
  show thesis
    by (rule that [OF h(1) m1(1) l1 h(2) m1(2) rs m2(1) l2 m2(2) xy])
      (use split_keys [OF laws k(1) xy(1)] in auto)
qed

end
