(* ===== verification/CoreRekey.thy ===== *)
theory CoreRekey
  imports CoreConnTick NoiseIK
begin

text \<open>
  A rekey between two connections, over the wire formats: the initiation one of them sends, the
  response of the other, and the two sessions that result.
\<close>

section \<open>The handshake of two matching connections\<close>

definition peer_conns :: "crypto \<Rightarrow> Conn \<Rightarrow> Conn \<Rightarrow> bool" where
  "peer_conns C ci cr \<longleftrightarrow> honest C (cn_localKey ci) \<and> honest C (cn_localKey cr)
     \<and> cn_remotePK ci = kp_Public (cn_localKey cr) \<and> cn_remotePK cr = kp_Public (cn_localKey ci)
     \<and> cn_cipherMode ci = cn_cipherMode cr \<and> mode_ok (cn_cipherMode ci)"

lemma ik_matching:
  assumes "peer_conns C ci cr"
  shows "matching C (ik_config True (Some (cn_remotePK ci)) ci) (ik_config False None cr)"
  using assms
  by (auto simp: matching_def ik_config_def peer_conns_def validateConfig_def honest_config_def
      peer_known_def PatternIK_def Let_def)

lemma ik_exchange_conns:
  assumes laws: "crypto_laws C" and p: "peer_conns C ci cr" and "32 \<le> length ri" "32 \<le> length rr"
  obtains hi msg1 hi1 hr hr1 msg2 hr2 hi2 a b where
    "NewHandshakeState C (ik_config True (Some (cn_remotePK ci)) ci) = Inr hi"
    "WriteMessage C hi [] ri = (Inr msg1, hi1, drop 32 ri)"
    "length msg1 = 80" "take 32 msg1 = LocalEphemeral hi1"
    "NewHandshakeState C (ik_config False None cr) = Inr hr"
    "ReadMessage C hr msg1 = (Inr [], hr1)" "hs_remoteStatic hr1 = kp_Public (cn_localKey ci)"
    "WriteMessage C hr1 [] rr = (Inr msg2, hr2, drop 32 rr)"
    "length msg2 = 48" "take 32 msg2 = LocalEphemeral hr2"
    "ReadMessage C hi1 msg2 = (Inr [], hi2)"
    "HandshakeState_Split C hi2 = Inr (a, b)" "HandshakeState_Split C hr2 = Inr (b, a)"
    "length (cs_key a) = 32" "length (cs_key b) = 32"
proof -
  have cfg: "cfg_Pattern (ik_config True (Some (cn_remotePK ci)) ci) = PatternIK"
    "cfg_LocalStatic (ik_config True (Some (cn_remotePK ci)) ci) = Some (cn_localKey ci)"
    by (simp_all add: ik_config_def)
  show thesis by (rule ik_exchange [OF laws ik_matching [OF p] cfg assms(3,4)]) (rule that)
qed

section \<open>The wire formats lose nothing\<close>

lemma join_split: "length msg = 32 + n \<Longrightarrow> join_message n (take 32 msg) (drop 32 msg) = msg"
proof -
  assume l: "length msg = 32 + n"
  have "copy_at (replicate (32 + n) 0) 0 32 (take 32 msg) = take 32 msg @ replicate n 0"
    using copy_at_block [of "[]" 0 "replicate 32 (0 :: u8)" 32 "replicate n 0" "take 32 msg"] l
    by (simp add: replicate_add go_copy_same_length)
  moreover have "copy_at (take 32 msg @ replicate n 0) 32 (32 + n) (drop 32 msg) = msg"
    using copy_at_block [of "take 32 msg" 32 "replicate n (0 :: u8)" "32 + n" "[]" "drop 32 msg"] l
    by (simp add: go_copy_same_length)
  ultimately show ?thesis by (simp add: join_message_def KeySize_def)
qed

lemma init_over_wire:
  assumes "length msg = 80" "take 32 msg = e"
  obtains m where "ParseHandshakeInit (BuildHandshakeInit idx e (drop KeySize msg)) = Inr m"
    "GetMessageType (BuildHandshakeInit idx e (drop KeySize msg)) = Inr MessageTypeHandshakeInit"
    "hi_SenderIndex m = idx" "join_message 48 (hi_Ephemeral m) (hi_Static m) = msg"
proof -
  let ?m = "\<lparr>hi_SenderIndex = idx, hi_Ephemeral = e, hi_Static = drop 32 msg\<rparr>"
  have p: "ParseHandshakeInit (BuildHandshakeInit idx e (drop KeySize msg)) = Inr ?m"
    using assms by (auto simp: HandshakeInit_codec KeySize_def intro!: exI [of _ "[]"])
  show thesis
    by (rule that [OF p message_kinds_disjoint(2) [OF p]]) (use assms join_split [of msg 48] in auto)
qed

lemma resp_over_wire:
  assumes "length msg = 48" "take 32 msg = e"
  obtains m where "ParseHandshakeResp (BuildHandshakeResp idx ridx e (drop KeySize msg)) = Inr m"
    "GetMessageType (BuildHandshakeResp idx ridx e (drop KeySize msg)) = Inr MessageTypeHandshakeResp"
    "hr_SenderIndex m = idx" "hr_ReceiverIndex m = ridx"
    "join_message 16 (hr_Ephemeral m) (hr_Empty m) = msg"
proof -
  let ?m = "\<lparr>hr_SenderIndex = idx, hr_ReceiverIndex = ridx, hr_Ephemeral = e, hr_Empty = drop 32 msg\<rparr>"
  have p: "ParseHandshakeResp (BuildHandshakeResp idx ridx e (drop KeySize msg)) = Inr ?m"
    using assms by (auto simp: HandshakeResp_codec KeySize_def intro!: exI [of _ "[]"])
  show thesis
    by (rule that [OF p message_kinds_disjoint(3) [OF p]]) (use assms join_split [of msg 16] in auto)
qed

section \<open>Linked sessions\<close>

text \<open>What \<open>a\<close> sends \<open>b\<close> receives; \<open>a\<close> may have sent one keepalive that is still on its way.\<close>

definition linked :: "crypto \<Rightarrow> Session \<Rightarrow> Session \<Rightarrow> bool" where
  "linked C a b \<longleftrightarrow> channel C a b \<and> ses_state a = SessionStateEstablished \<and> receiving C b []
     \<and> unat (ses_sendNonce a) \<le> 1 \<and> ses_remoteIndex a = ses_localIndex b"

lemma linked_delivers:
  assumes "crypto_laws C" "linked C a b" "length ps < 2048" "set is \<subseteq> {..<length ps}"
  shows "\<exists>packets. send_all C ps a = Inr packets
     \<and> receive_all C (map ((!) packets) is) b = expected ps [] is"
proof -
  let ?k = "unat (ses_sendNonce a)"
  have l: "channel C a b" "ses_state a = SessionStateEstablished" "?k \<le> 1" "receiving C b []"
    using assms(2) by (simp_all add: linked_def)
  have n: "ses_sendNonce a = of_nat ?k" by simp
  from send_all_ok [OF assms(1) l(1,2), of ps 2048] l(3) assms(3)
  obtain packets where p: "send_all C ps a = Inr packets" "length packets = length ps"
    "\<forall>i<length ps. packet_of C b (packets ! i) (of_nat (?k + i)) (ps ! i)"
    by (auto simp: of_nat_add)
  obtain c where c: "sealWithAEAD C (ses_cipherMode a) (ses_sendAEAD a) 0 [] [] = Inr c" "16 \<le> length c"
    "openWithAEAD C (ses_cipherMode b) (ses_recvAEAD b) 0 c [] = Inr []"
    using channel_seal [OF assms(1) l(1)] by blast
  define pre where "pre = replicate ?k (BuildTransportMessage 0 0 c)"
  define ps' where "ps' = replicate ?k [] @ ps"
  have "\<forall>i<length ps'. packet_of C b ((pre @ packets) ! i) (of_nat i) (ps' ! i)"
  proof (intro allI impI)
    fix i assume i: "i < length ps'"
    show "packet_of C b ((pre @ packets) ! i) (of_nat i) (ps' ! i)"
    proof (cases "i < ?k")
      case True
      then have "i = 0" using l(3) by simp
      then show ?thesis using True c by (auto simp: pre_def ps'_def nth_append packet_of_def)
    next
      case False
      then show ?thesis using i p(3) [rule_format, of "i - ?k"]
        by (simp add: pre_def ps'_def nth_append)
    qed
  qed
  moreover have "length ps' \<le> 2048" "set (map ((+) ?k) is) \<subseteq> {..<length ps'}"
    using assms(3,4) l(3) by (auto simp: ps'_def)
  ultimately have "receive_all C (map ((!) (pre @ packets)) (map ((+) ?k) is)) b = expected ps' [] (map ((+) ?k) is)"
    using receive_all_expected [OF l(4)] by blast
  moreover have "map ((!) (pre @ packets)) (map ((+) ?k) is) = map ((!) packets) is"
    by (simp add: pre_def nth_append)
  moreover have "expected ps' (map ((+) ?k) seen) (map ((+) ?k) is) = expected ps seen is" for seen
  proof (induction "is" arbitrary: seen)
    case (Cons j js)
    have "(?k + j \<in> set (map ((+) ?k) seen)) = (j \<in> set seen)" by auto
    with Cons.IH [of "j # seen"] show ?case by (simp add: ps'_def nth_append)
  qed simp
  from this [of "[]"] have "expected ps' [] (map ((+) ?k) is) = expected ps [] is" by simp
  ultimately have "receive_all C (map ((!) packets) is) b = expected ps [] is" by (simp only:)
  with p(1) show ?thesis by blast
qed

lemma linked_keepalive:
  assumes "linked C a b" "ses_sendNonce a = 0" "a' = a \<or> a' = snd (Session_Encrypt C now [] a)"
  shows "linked C a' b"
proof -
  obtain r a2 where e: "Session_Encrypt C now [] a = (r, a2)" by fastforce
  from e have "a2 = a \<or> ses_sendNonce a2 = 1 \<and> ses_state a2 = ses_state a \<and> ses_cipherMode a2 = ses_cipherMode a
    \<and> ses_sendAEAD a2 = ses_sendAEAD a \<and> ses_remoteIndex a2 = ses_remoteIndex a"
    by (cases rule: Encrypt_cases) (auto simp: assms(2))
  then show ?thesis using assms e by (auto simp: linked_def channel_def)
qed

lemma linked_keepalive_receiver:
  assumes "linked C a b" "b' = b \<or> b' = snd (Session_Encrypt C now [] b)"
  shows "linked C a b'"
proof -
  obtain r b2 where e: "Session_Encrypt C now [] b = (r, b2)" by fastforce
  from e have "ses_state b2 = ses_state b \<and> ses_cipherMode b2 = ses_cipherMode b
    \<and> ses_recvAEAD b2 = ses_recvAEAD b \<and> ses_recvNonce b2 = ses_recvNonce b
    \<and> ses_localIndex b2 = ses_localIndex b"
    by (cases rule: Encrypt_cases) auto
  then show ?thesis using assms e by (auto simp: linked_def channel_def receiving_def)
qed

lemma NewSession_indices:
  "NewSession cfg now = Inr s \<Longrightarrow> ses_localIndex s = sc_LocalIndex cfg \<and> ses_remoteIndex s = sc_RemoteIndex cfg"
  by (auto simp: NewSession_def Let_def split: sum.splits if_splits)

lemma split_linked:
  assumes "HandshakeState_Split C i = Inr (a, b)" "HandshakeState_Split C r = Inr (b, a)"
    "length (cs_key a) = 32" "length (cs_key b) = 32" "mode_ok mode"
  obtains si sr where "split_session C li ri pk mode now i = Inr si"
    "split_session C ri li pk' mode now' r = Inr sr" "linked C si sr" "linked C sr si"
    "ses_sendNonce si = 0" "ses_sendNonce sr = 0" "RecvMaxNonce si = 0" "RecvMaxNonce sr = 0"
    "ses_localIndex si = li" "ses_localIndex sr = ri"
proof -
  obtain m where m: "NormalizeCipherMode mode = Inr m" using assms(5) by (auto simp: mode_ok_def)
  obtain si where si: "split_session C li ri pk mode now i = Inr si"
    "NewSession \<lparr>sc_LocalIndex = li, sc_RemoteIndex = ri, sc_SendKey = cs_key a, sc_RecvKey = cs_key b,
       sc_RemotePK = pk, sc_CipherMode = mode\<rparr> now = Inr si"
    using split_session_ok [OF assms(1,3,4) m] by blast
  obtain sr where sr: "split_session C ri li pk' mode now' r = Inr sr"
    "NewSession \<lparr>sc_LocalIndex = ri, sc_RemoteIndex = li, sc_SendKey = cs_key b, sc_RecvKey = cs_key a,
       sc_RemotePK = pk', sc_CipherMode = mode\<rparr> now' = Inr sr"
    using split_session_ok [OF assms(2,4,3) m] by blast
  note fi = NewSession_fields(1-3) [OF si(2)] and fr = NewSession_fields(1-3) [OF sr(2)]
  have "linked C si sr" "linked C sr si"
    using NewSession_channel [OF si(2) sr(2)] NewSession_channel [OF sr(2) si(2)]
      NewSession_receiving [OF si(2)] NewSession_receiving [OF sr(2)] fi fr
      NewSession_indices [OF si(2)] NewSession_indices [OF sr(2)]
    by (simp_all add: linked_def)
  then show thesis
    using that [OF si(1) sr(1)] fi fr NewSession_indices [OF si(2)] NewSession_indices [OF sr(2)]
    by (simp add: RecvMaxNonce_def ReplayFilter_MaxNonce_def NewReplayFilter_def)
qed

section \<open>A tick right after a handshake\<close>

definition kept_session :: "crypto \<Rightarrow> int \<Rightarrow> Session \<Rightarrow> Session \<Rightarrow> bool" where
  "kept_session C now s s' \<longleftrightarrow> s' = s \<or> s' = snd (Session_Encrypt C now [] s)"

definition settled :: "crypto \<Rightarrow> int \<Rightarrow> Conn \<Rightarrow> Conn \<Rightarrow> bool" where
  "settled C now c c' \<longleftrightarrow> cn_state c' = cn_state c \<and> cn_previous c' = cn_previous c
     \<and> cn_pendingPackets c' = cn_pendingPackets c
     \<and> (\<exists>w. cn_wire c' = cn_wire c @ w)
     \<and> (\<forall>s. cn_current c = Some s \<longrightarrow> (\<exists>s'. cn_current c' = Some s' \<and> kept_session C now s s'))"

lemma settled_refl [simp]: "settled C now c c" "settled C now c (c\<lparr>cn_timer := t\<rparr>)"
  by (auto simp: settled_def kept_session_def)

lemma retransmit_settled: "settled (ce_crypto env) now c (snd (retransmitHandshake env now' id id c))"
  by (auto simp: retransmitHandshake_def settled_def kept_session_def set_hsState_def write_to_def Let_def
      split: sum.splits prod.splits option.splits)

lemma keepalive_settled: "settled (ce_crypto env) now c (snd (SendKeepalive env now c))"
proof (cases "cn_state c = ConnStateEstablished \<and> cn_current c \<noteq> None")
  case True
  then obtain s where s: "cn_state c = ConnStateEstablished" "cn_current c = Some s" by blast
  obtain r s' where e: "Session_Encrypt (ce_crypto env) now [] s = (r, s')" by fastforce
  show ?thesis
    by (cases r) (auto simp: SendKeepalive_def sendPayload_def write_to_def Let_def s e settled_def
        kept_session_def split: option.splits)
qed (auto simp: SendKeepalive_def sendPayload_def settled_def kept_session_def)

lemma tick_settled:
  assumes "cn_state c = ConnStateEstablished" "cn_lastReceived c = Some now" "cn_current c = Some s"
    "ses_sendNonce s = 0" "RecvMaxNonce s = 0" "cn_sessionCreated c = Some now"
  shows "settled (ce_crypto env) now c (snd (tick env now id False c))"
proof -
  have nr: "\<not> needs_rekey now c"
    using assms by (simp add: needs_rekey_def time_defs)
  have ra: "settled (ce_crypto env) now c (snd (snd (retransmit_and_schedule env now id a c)))" for a
    using retransmit_settled [of env now c now]
    by (auto simp: retransmit_and_schedule_def split: prod.splits option.splits)
  have ka: "settled (ce_crypto env) now c (snd (snd (case SendKeepalive env now c of
                   (Some e, c) \<Rightarrow> (Some e, d, c) | (None, c) \<Rightarrow> (None, d', c))))" for d d'
    using keepalive_settled [of env now c] by (auto split: prod.splits option.splits)
  have "settled (ce_crypto env) now c (snd (snd (tick_Established env now id False c)))"
    unfolding tick_Established_def Let_def
    using assms nr by (simp add: time_defs RejectAfterMessages_def ra ka)
  then obtain e d c1 where d: "doTick env now id False c = (e, d, c1)" "settled (ce_crypto env) now c c1"
    using assms(1) by (metis ConnState.simps(15) doTick_def prod_cases3 snd_conv)
  then show ?thesis
    by (auto simp: tick_def settled_def split: option.splits)
qed
section \<open>The three steps of a rekey\<close>

lemma initiateRekey_sends:
  assumes "cn_state c \<noteq> ConnStateClosed" "cn_hsState c = None" "4 \<le> length (cn_random c)"
    "NewHandshakeState (ce_crypto env) (ik_config True (Some (cn_remotePK c)) c) = Inr hs"
    "WriteMessage (ce_crypto env) hs [] (drop 4 (cn_random c)) = (Inr msg, hs', random)"
    "\<And>d m n. ce_write env d m n = None"
  obtains idx where "initiateRekey env now id id c = (None, (set_hsState hs' (c\<lparr>cn_random := random,
       cn_wire := cn_wire c @ [(cn_remoteAddr c, BuildHandshakeInit idx (LocalEphemeral hs') (drop KeySize msg))]\<rparr>))
       \<lparr>cn_localIdx := idx, cn_handshakeStarted := Some now, cn_handshakeAttemptStart := Some now,
        cn_lastHandshakeSent := Some now, cn_isInitiator := True, cn_rekeyTriggered := True\<rparr>)"
proof -
  obtain idx where "GenerateIndex (cn_random c) = Inr (idx, drop 4 (cn_random c))"
    using assms(3) by (simp add: GenerateIndex_def)
  then show thesis using assms
    by (intro that [of idx]) (simp add: initiateRekey_def start_handshake_def write_to_def Let_def)
qed

lemma handleHandshakeInit_answers:
  assumes "4 \<le> length random" "NewHandshakeState (ce_crypto env) (ik_config False None c) = Inr hs"
    "ReadMessage (ce_crypto env) hs (join_message 48 (hi_Ephemeral m) (hi_Static m)) = (Inr [], hs1)"
    "hs_remoteStatic hs1 = cn_remotePK c"
    "WriteMessage (ce_crypto env) hs1 [] (cn_random c) = (Inr msg2, hs2, random)"
    "\<And>idx. \<exists>s. split_session (ce_crypto env) idx (hi_SenderIndex m) (cn_remotePK c) (cn_cipherMode c) now hs2 = Inr s"
    "\<And>d m n. ce_write env d m n = None"
  obtains idx s d where
    "split_session (ce_crypto env) idx (hi_SenderIndex m) (cn_remotePK c) (cn_cipherMode c) now hs2 = Inr s"
    "handleHandshakeInit env now id m a c = (Inr (0, []), snd (tick env now id False (update_addr a
       ((rotate s now (c\<lparr>cn_random := drop 4 random, cn_wire := cn_wire c @ [(d,
          BuildHandshakeResp idx (hi_SenderIndex m) (LocalEphemeral hs2) (drop KeySize msg2))]\<rparr>))
        \<lparr>cn_localIdx := idx, cn_lastSent := Some now, cn_isInitiator := False\<rparr>))))"
proof -
  obtain idx where i: "GenerateIndex random = Inr (idx, drop 4 random)"
    using assms(1) by (simp add: GenerateIndex_def)
  obtain s where s: "split_session (ce_crypto env) idx (hi_SenderIndex m) (cn_remotePK c) (cn_cipherMode c) now hs2 = Inr s"
    using assms(6) by blast
  show thesis
    using assms(2-5,7) i
    by (intro that [OF s, of "if a \<noteq> None then a else cn_remoteAddr c"])
      (simp add: handleHandshakeInit_def write_to_def Let_def s)
qed

lemma handleHandshakeResponse_completes:
  assumes "cn_hsState c = Some (ptr, hs)" "hr_ReceiverIndex m = cn_localIdx c"
    "ReadMessage (ce_crypto env) hs (join_message 16 (hr_Ephemeral m) (hr_Empty m)) = (Inr [], hs1)"
    "split_session (ce_crypto env) (cn_localIdx c) (hr_SenderIndex m) (cn_remotePK c) (cn_cipherMode c) now hs1 = Inr s"
  shows "handleHandshakeResponse env now id m a c = (Inr (0, []), snd (tick env now id False (update_addr a
     ((rotate s now (c\<lparr>cn_hsState := Some (ptr, hs1)\<rparr>))\<lparr>cn_hsState := None, cn_handshakeStarted := None,
        cn_handshakeAttemptStart := None, cn_lastHandshakeSent := None, cn_isInitiator := True\<rparr>))))"
  using assms by (simp add: handleHandshakeResponse_def Let_def)

lemma update_addr_fields [simp]:
  "cn_state (update_addr a c) = cn_state c" "cn_lastReceived (update_addr a c) = cn_lastReceived c"
  "cn_current (update_addr a c) = cn_current c" "cn_previous (update_addr a c) = cn_previous c"
  "cn_sessionCreated (update_addr a c) = cn_sessionCreated c" "cn_wire (update_addr a c) = cn_wire c"
  "cn_pendingPackets (update_addr a c) = cn_pendingPackets c"
  by (simp_all add: update_addr_def)

lemma rotated_settles:
  assumes "ses_sendNonce s = 0" "RecvMaxNonce s = 0"
    "cn_state c = ConnStateEstablished" "cn_lastReceived c = Some now" "cn_current c = Some s"
    "cn_sessionCreated c = Some now"
  obtains s' w where "kept_session (ce_crypto env) now s s'"
    "cn_current (snd (tick env now id False c)) = Some s'"
    "cn_state (snd (tick env now id False c)) = ConnStateEstablished"
    "cn_previous (snd (tick env now id False c)) = cn_previous c"
    "cn_wire (snd (tick env now id False c)) = cn_wire c @ w"
  using tick_settled [OF assms(3-5,1,2,6)] assms(3,5) that by (auto simp: settled_def)

lemma kept_linked:
  assumes "linked C a b" "linked C b a" "ses_sendNonce a = 0" "ses_sendNonce b = 0"
    "kept_session C t a a'" "kept_session C t' b b'"
  shows "linked C a' b' \<and> linked C b' a'"
  using assms linked_keepalive linked_keepalive_receiver unfolding kept_session_def by metis

section \<open>The property\<close>

text \<open>The peer of \<open>toy_conn\<close>, already closed.\<close>

definition toy_peer :: Conn where
  "toy_peer = Conn_Close (toy_conn\<lparr>cn_localKey := toy_key 2, cn_remotePK := kp_Public (toy_key 1),
     cn_isInitiator := False\<rparr>)"

lemma toy_peers: "peer_conns toy_crypto toy_conn toy_peer"
  by (simp add: peer_conns_def toy_conn_def toy_peer_def Conn_Close_def toy_key_honest mode_ok_def
      NormalizeCipherMode_def mode_defs)


end
