(* ===== verification/KcpConn.thy ===== *)
theory KcpConn
  imports GizPrelude
begin

text \<open>
  KCP connections, \<^verbatim>\<open>pkgs/giznet/internal/kcp/conn.go\<close>: the virtual packet connection that feeds a
  \<^verbatim>\<open>kcp-go\<close> session, and the connection around both. The session itself is third-party code; an
  operation that calls it takes the result of that call as an argument. Deadlines and the clock
  are times in nanoseconds, \<open>None\<close> being the zero time. A \<^verbatim>\<open>select\<close> may pick any ready case, so
  an operation that selects returns the list of its possible outcomes, and the empty list means
  that it blocks.
\<close>

section \<open>Errors\<close>

datatype kcp_error =
    ErrConnClosed
  | ErrConnClosedLocal
  | ErrConnClosedByPeer
  | ErrConnTimeout
  | ErrClosedPipe
  | TimeoutError
  | ErrEOF
  | ErrStreamClosedGraceful
  | ErrStreamAborted
  | ErrStreamInvalid
  | ErrStreamIDExhausted
  | ErrServiceMuxClosed
  | ErrAcceptQueueClosed
  | ErrInboundQueueFull
  | ErrInvalidServiceFrame
  | ErrKCPMustUseStream
  | ErrNoSession
  | OtherError string

section \<open>The virtual packet connection\<close>

record VirtualPacketConn =
  vp_inputCh :: "bytes list"
  vp_closed :: bool
  vp_readDeadline :: "int option"
  vp_writeDeadline :: "int option"
  vp_wakes :: nat

definition inputCap :: nat where "inputCap = 4096"

definition newVirtualPacketConn :: VirtualPacketConn where
  "newVirtualPacketConn = \<lparr>vp_inputCh = [], vp_closed = False, vp_readDeadline = None,
     vp_writeDeadline = None, vp_wakes = 0\<rparr>"

definition vpc_Input ::
  "bytes \<Rightarrow> VirtualPacketConn \<Rightarrow> (kcp_error option \<times> VirtualPacketConn) list" where
  "vpc_Input data c =
     (if vp_closed c then [(Some ErrClosedPipe, c)]
      else if length (vp_inputCh c) < inputCap
        then [(None, c\<lparr>vp_inputCh := vp_inputCh c @ [data]\<rparr>)]
      else [])"

text \<open>A deadline has passed when \<^verbatim>\<open>time.Until\<close> is not positive.\<close>

definition deadline_fires :: "int \<Rightarrow> int option \<Rightarrow> bool" where
  "deadline_fires now deadline = (case deadline of None \<Rightarrow> False | Some t \<Rightarrow> t \<le> now)"

definition vpc_ReadFrom ::
  "int \<Rightarrow> bytes \<Rightarrow> VirtualPacketConn \<Rightarrow> ((kcp_error + nat \<times> bytes) \<times> VirtualPacketConn) list" where
  "vpc_ReadFrom now buf c =
     (if vp_closed c then [(Inl ErrClosedPipe, c)]
      else (case vp_inputCh c of
              [] \<Rightarrow> []
            | data # rest \<Rightarrow>
                [(Inr (copied buf data, go_copy buf data), c\<lparr>vp_inputCh := rest\<rparr>)])
           @ (if deadline_fires now (vp_readDeadline c) then [(Inl TimeoutError, c)] else []))"

text \<open>\<^verbatim>\<open>WriteTo\<close> returns the number of bytes and the packet given to \<^verbatim>\<open>output\<close>.\<close>

definition vpc_WriteTo :: "bytes \<Rightarrow> VirtualPacketConn \<Rightarrow> (kcp_error + nat) \<times> bytes list" where
  "vpc_WriteTo buf c = (if vp_closed c then (Inl ErrClosedPipe, []) else (Inr (length buf), [buf]))"

definition resetWakeDeadline :: "VirtualPacketConn \<Rightarrow> VirtualPacketConn" where
  "resetWakeDeadline c = c\<lparr>vp_wakes := vp_wakes c + 1\<rparr>"

definition vpc_Close :: "VirtualPacketConn \<Rightarrow> VirtualPacketConn" where
  "vpc_Close c = (if vp_closed c then c else resetWakeDeadline (c\<lparr>vp_closed := True\<rparr>))"

definition vpc_SetDeadline :: "int option \<Rightarrow> VirtualPacketConn \<Rightarrow> VirtualPacketConn" where
  "vpc_SetDeadline t c = resetWakeDeadline (c\<lparr>vp_readDeadline := t, vp_writeDeadline := t\<rparr>)"

definition vpc_SetReadDeadline :: "int option \<Rightarrow> VirtualPacketConn \<Rightarrow> VirtualPacketConn" where
  "vpc_SetReadDeadline t c = resetWakeDeadline (c\<lparr>vp_readDeadline := t\<rparr>)"

definition vpc_SetWriteDeadline :: "int option \<Rightarrow> VirtualPacketConn \<Rightarrow> VirtualPacketConn" where
  "vpc_SetWriteDeadline t c = resetWakeDeadline (c\<lparr>vp_writeDeadline := t\<rparr>)"

definition past :: "int \<Rightarrow> int option \<Rightarrow> bool" where
  "past now deadline = (case deadline of None \<Rightarrow> False | Some t \<Rightarrow> t < now)"

definition vpc_writeDeadlineExpired :: "int \<Rightarrow> VirtualPacketConn \<Rightarrow> bool" where
  "vpc_writeDeadlineExpired now c = past now (vp_writeDeadline c)"

section \<open>The connection\<close>

record KCPConn =
  kc_conv :: u32
  kc_pc :: VirtualPacketConn
  kc_sessionClosed :: bool
  kc_closed :: bool
  kc_idleTimer :: "int option"
  kc_writeDeadline :: "int option"
  kc_closeErr :: "kcp_error option"

definition idleTimeoutPure :: int where "idleTimeoutPure = 5 * 60 * 1000000000"

definition NewKCPConn :: "int \<Rightarrow> u32 \<Rightarrow> KCPConn" where
  "NewKCPConn now conv = \<lparr>kc_conv = conv, kc_pc = newVirtualPacketConn, kc_sessionClosed = False,
     kc_closed = False, kc_idleTimer = Some (now + idleTimeoutPure), kc_writeDeadline = None, kc_closeErr = None\<rparr>"

definition getCloseErr :: "KCPConn \<Rightarrow> kcp_error" where
  "getCloseErr c = (case kc_closeErr c of Some e \<Rightarrow> e | None \<Rightarrow> ErrConnClosed)"

definition setCloseErr :: "kcp_error option \<Rightarrow> KCPConn \<Rightarrow> KCPConn" where
  "setCloseErr err c =
     (let err = (case err of None \<Rightarrow> ErrConnClosed | Some e \<Rightarrow> e)
      in if kc_closeErr c = None then c\<lparr>kc_closeErr := Some err\<rparr> else c)"

definition mapErr :: "kcp_error \<Rightarrow> KCPConn \<Rightarrow> kcp_error" where
  "mapErr err c =
     (if err = ErrClosedPipe \<or> kc_closed c then getCloseErr c
      else if err = TimeoutError then ErrConnTimeout
      else err)"

text \<open>
  The idle timer is the time at which it fires, \<open>None\<close> once it is stopped. The body of \<^verbatim>\<open>closeSignal\<close> runs once; \<^verbatim>\<open>closed\<close> is set in it and
  nowhere else, so it stands for \<^verbatim>\<open>closeOnce\<close>.
\<close>

definition conn_touch :: "int \<Rightarrow> KCPConn \<Rightarrow> KCPConn" where
  "conn_touch now c =
     (if kc_idleTimer c \<noteq> None then c\<lparr>kc_idleTimer := Some (now + idleTimeoutPure)\<rparr> else c)"

definition stopIdleTimer :: "KCPConn \<Rightarrow> KCPConn" where
  "stopIdleTimer c = c\<lparr>kc_idleTimer := None\<rparr>"

definition closeSignal :: "kcp_error option \<Rightarrow> KCPConn \<Rightarrow> KCPConn" where
  "closeSignal reason c =
     (if kc_closed c then c
      else let c = setCloseErr reason c;
               c = c\<lparr>kc_closed := True\<rparr>;
               c = stopIdleTimer c;
               c = c\<lparr>kc_sessionClosed := True\<rparr>
           in c\<lparr>kc_pc := vpc_Close (kc_pc c)\<rparr>)"

definition conn_Close :: "KCPConn \<Rightarrow> KCPConn" where
  "conn_Close c = closeSignal (Some ErrConnClosedLocal) c"

definition conn_idle_fires :: "int \<Rightarrow> KCPConn \<Rightarrow> KCPConn" where
  "conn_idle_fires now c =
     (if deadline_fires now (kc_idleTimer c) then closeSignal (Some ErrConnTimeout) c else c)"

definition conn_Input :: "int \<Rightarrow> bytes \<Rightarrow> KCPConn \<Rightarrow> (kcp_error option \<times> KCPConn) list" where
  "conn_Input now data c =
     (if kc_closed c then [(Some (getCloseErr c), c)]
      else map (\<lambda>(err, pc).
             (case err of
                Some e \<Rightarrow> (Some (mapErr e (c\<lparr>kc_pc := pc\<rparr>)), c\<lparr>kc_pc := pc\<rparr>)
              | None \<Rightarrow> (None, conn_touch now (c\<lparr>kc_pc := pc\<rparr>))))
           (vpc_Input data (kc_pc c)))"

text \<open>The result of the session's \<^verbatim>\<open>Read\<close> or \<^verbatim>\<open>Write\<close>: the count and the error, if any.\<close>

definition conn_Read ::
  "int \<Rightarrow> nat \<times> kcp_error option \<Rightarrow> KCPConn \<Rightarrow> (nat \<times> kcp_error option) \<times> KCPConn" where
  "conn_Read now session_result c =
     (if kc_closed c then ((0, Some (getCloseErr c)), c)
      else (case session_result of
              (n, Some err) \<Rightarrow> ((n, Some (mapErr err c)), c)
            | (n, None) \<Rightarrow> ((n, None), if 0 < n then conn_touch now c else c)))"

definition conn_Write ::
  "int \<Rightarrow> nat \<times> kcp_error option \<Rightarrow> KCPConn \<Rightarrow> (nat \<times> kcp_error option) \<times> KCPConn" where
  "conn_Write now session_result c =
     (if kc_closed c then ((0, Some (getCloseErr c)), c)
      else if past now (kc_writeDeadline c) then ((0, Some ErrConnTimeout), c)
      else (case session_result of
              (n, Some err) \<Rightarrow> ((n, Some (mapErr err c)), c)
            | (n, None) \<Rightarrow> ((n, None), if 0 < n then conn_touch now c else c)))"

definition conn_Drain :: "int \<Rightarrow> int option \<Rightarrow> KCPConn \<Rightarrow> kcp_error option" where
  "conn_Drain now deadline c =
     (if kc_closed c then Some (getCloseErr c)
      else if past now deadline then Some ErrConnTimeout
      else None)"

definition conn_SetWriteDeadline :: "int option \<Rightarrow> KCPConn \<Rightarrow> KCPConn" where
  "conn_SetWriteDeadline t c = c\<lparr>kc_writeDeadline := t\<rparr>"

section \<open>Lemmas\<close>

text \<open>The first reason sticks.\<close>

lemma closeSignal_closed [simp]: "kc_closed (closeSignal r c)"
  by (simp add: closeSignal_def Let_def stopIdleTimer_def)

lemma closeSignal_idem [simp]: "kc_closed c \<Longrightarrow> closeSignal r c = c"
  by (simp add: closeSignal_def)

lemma closeSignal_err:
  "\<not> kc_closed c \<Longrightarrow> kc_closeErr c = None \<Longrightarrow> getCloseErr (closeSignal (Some e) c) = e"
  by (simp add: closeSignal_def setCloseErr_def getCloseErr_def Let_def stopIdleTimer_def)

text \<open>What a connection looks like at any time.\<close>

definition conn_inv :: "KCPConn \<Rightarrow> bool" where
  "conn_inv c \<longleftrightarrow> (kc_closed c \<longleftrightarrow> kc_closeErr c \<noteq> None) \<and> (kc_closed c \<longleftrightarrow> vp_closed (kc_pc c))
     \<and> (kc_closed c \<longleftrightarrow> kc_sessionClosed c) \<and> (kc_closed c \<longleftrightarrow> kc_idleTimer c = None)
     \<and> length (vp_inputCh (kc_pc c)) \<le> inputCap"

lemma conn_inv_New: "conn_inv (NewKCPConn now conv)"
  by (simp add: conn_inv_def NewKCPConn_def newVirtualPacketConn_def)

lemma conn_inv_closeSignal: "conn_inv c \<Longrightarrow> conn_inv (closeSignal r c)"
  by (auto simp: conn_inv_def closeSignal_def setCloseErr_def Let_def stopIdleTimer_def vpc_Close_def
      resetWakeDeadline_def)

lemma conn_inv_Input: "conn_inv c \<Longrightarrow> (e, c') \<in> set (conn_Input now d c) \<Longrightarrow> conn_inv c'"
  by (auto simp: conn_inv_def conn_Input_def vpc_Input_def conn_touch_def split: if_splits)

lemma conn_Input_open:
  assumes "conn_inv c" "\<not> kc_closed c" "(e, c') \<in> set (conn_Input now d c)"
  shows "e = None \<and> \<not> kc_closed c'"
  using assms by (auto simp: conn_inv_def conn_Input_def vpc_Input_def conn_touch_def split: if_splits)

lemma conn_Input_closed:
  "kc_closed c \<Longrightarrow> conn_Input now d c = [(Some (getCloseErr c), c)]"
  by (simp add: conn_Input_def)

section \<open>Property\<close>

text \<open>A life of a connection: any sequence of the operations that change it.\<close>

datatype conn_op =
    CClose "kcp_error option"
  | CIdle int
  | CInput int bytes
  | CRead int "nat \<times> kcp_error option"
  | CWrite int "nat \<times> kcp_error option"
  | CDeadline "int option"

fun conn_step :: "conn_op \<Rightarrow> KCPConn \<Rightarrow> KCPConn" where
  "conn_step (CClose r) c = closeSignal r c"
| "conn_step (CIdle now) c = conn_idle_fires now c"
| "conn_step (CRead now sr) c = snd (conn_Read now sr c)"
| "conn_step (CWrite now sw) c = snd (conn_Write now sw c)"
| "conn_step (CInput now d) c = (case conn_Input now d c of [] \<Rightarrow> c | (e, c') # _ \<Rightarrow> c')"
| "conn_step (CDeadline t) c = conn_SetWriteDeadline t c"

lemma conn_inv_touch: "conn_inv c \<Longrightarrow> conn_inv (conn_touch now c)"
  by (auto simp: conn_inv_def conn_touch_def)

lemma conn_step_inv: "conn_inv c \<Longrightarrow> conn_inv (conn_step op c)"
proof (cases op)
  case (CInput now d)
  assume "conn_inv c"
  then show ?thesis using CInput conn_inv_Input [of c _ _ now d]
    by (cases "conn_Input now d c") (auto split: prod.split)
next
  case (CDeadline t)
  assume "conn_inv c"
  then show ?thesis unfolding CDeadline by (auto simp: conn_SetWriteDeadline_def conn_inv_def)
next
  case (CRead now sr)
  assume "conn_inv c"
  then show ?thesis by (auto simp: CRead conn_Read_def conn_inv_touch split: prod.split option.split)
next
  case (CWrite now sw)
  assume "conn_inv c"
  then show ?thesis by (auto simp: CWrite conn_Write_def conn_inv_touch split: prod.split option.split)
qed (simp_all add: conn_inv_closeSignal conn_idle_fires_def)

lemma conn_step_closed:
  "kc_closed c \<Longrightarrow> kc_closed (conn_step op c) \<and> kc_closeErr (conn_step op c) = kc_closeErr c"
  by (cases op) (auto simp: conn_idle_fires_def conn_Input_def conn_SetWriteDeadline_def conn_Read_def
      conn_Write_def)

lemma conn_run_closed:
  "kc_closed c \<Longrightarrow> kc_closed (fold conn_step ops c) \<and> kc_closeErr (fold conn_step ops c) = kc_closeErr c"
  using conn_step_closed by (induction ops arbitrary: c) auto

lemma conn_run_inv: "conn_inv c \<Longrightarrow> conn_inv (fold conn_step ops c)"
  using conn_step_inv by (induction ops arbitrary: c) auto

text \<open>
  A connection reports the reason of its first close for ever: whatever happened before and
  happens after, reads, writes and inputs all fail with that reason.
\<close>

theorem conn_first_reason_sticks:
  assumes "\<not> kc_closed (fold conn_step before (NewKCPConn t0 conv))"
    "c = fold conn_step after (conn_step (CClose (Some e)) (fold conn_step before (NewKCPConn t0 conv)))"
  shows "conn_Read now sr c = ((0, Some e), c) \<and> conn_Write now sw c = ((0, Some e), c)
     \<and> conn_Input now d c = [(Some e, c)] \<and> conn_Drain now deadline c = Some e"
proof -
  let ?c0 = "fold conn_step before (NewKCPConn t0 conv)"
  have "conn_inv ?c0" by (rule conn_run_inv [OF conn_inv_New])
  then have "kc_closeErr ?c0 = None" using assms(1) by (simp add: conn_inv_def)
  from closeSignal_err [OF assms(1) this] have "getCloseErr (closeSignal (Some e) ?c0) = e" .
  moreover have "kc_closed c \<and> kc_closeErr c = kc_closeErr (closeSignal (Some e) ?c0)"
    unfolding assms(2) conn_step.simps(1) by (rule conn_run_closed) simp
  ultimately have "kc_closed c" "getCloseErr c = e" by (simp_all add: getCloseErr_def)
  then show ?thesis by (simp add: conn_Read_def conn_Write_def conn_Input_def conn_Drain_def)
qed

theorem conn_first_reason_sticks_witness:
  "\<exists>c. c = fold conn_step [CClose (Some ErrConnTimeout), CIdle 5, CInput 6 [1]]
       (conn_step (CClose (Some ErrStreamAborted)) (fold conn_step [CInput 3 [1, 2]] (NewKCPConn 0 7)))
     \<and> conn_Read 8 (3, None) c = ((0, Some ErrStreamAborted), c)"
proof -
  have "\<not> kc_closed (fold conn_step [CInput 3 [1, 2]] (NewKCPConn 0 7))"
    by (simp add: conn_Input_def vpc_Input_def NewKCPConn_def newVirtualPacketConn_def inputCap_def
        conn_touch_def)
  note c = conn_first_reason_sticks [OF this refl, THEN conjunct1]
  show ?thesis by (rule exI, rule conjI, rule refl, rule c)
qed

end
