(* ===== verification/IdCycle.thy ===== *)
theory IdCycle
  imports GizPrelude
begin

text \<open>
  Identifier allocators. The session manager and the stream multiplexer both hand out
  identifiers by walking a cycle of fixed-width numbers from the last one used, until they find
  a free one or are back where they started. This theory holds the contract of such a walk and
  proves once what both rely on: it ends, it finds a free identifier whenever there is one, and
  it reports exhaustion only when every identifier is taken.
\<close>

locale id_cycle =
  fixes bump :: "'i \<Rightarrow> 'i" and pos :: "'i \<Rightarrow> nat" and period :: nat and valid :: "'i \<Rightarrow> bool"
  assumes pos_less: "valid i \<Longrightarrow> pos i < period"
    and bump_valid: "valid i \<Longrightarrow> valid (bump i)"
    and pos_bump: "valid i \<Longrightarrow> pos (bump i) = (pos i + 1) mod period"
    and pos_inj: "valid i \<Longrightarrow> valid j \<Longrightarrow> pos i = pos j \<Longrightarrow> i = j"
begin

lemma bumps_valid: "valid i \<Longrightarrow> valid ((bump ^^ k) i)"
  by (induction k) (simp_all add: bump_valid)

lemma pos_bumps: "valid i \<Longrightarrow> pos ((bump ^^ k) i) = (pos i + k) mod period"
proof (induction k)
  case 0
  then show ?case using pos_less by simp
next
  case (Suc k)
  then show ?case using pos_bump [OF bumps_valid [OF Suc.prems]] by (simp add: mod_Suc_eq)
qed

lemma reached:
  assumes "valid i" "valid j"
  shows "\<exists>k < period. (bump ^^ k) i = j"
proof -
  let ?k = "(period - pos i + pos j) mod period"
  have i: "pos i < period" and j: "pos j < period" using pos_less assms by blast+
  have "pos ((bump ^^ ?k) i) = (pos i + (period - pos i + pos j)) mod period"
    by (simp add: pos_bumps [OF assms(1)] mod_add_right_eq)
  also have "\<dots> = pos j" using i j by simp
  finally have "(bump ^^ ?k) i = j" using pos_inj bumps_valid assms by blast
  moreover have "?k < period" using i by simp
  ultimately show ?thesis by blast
qed

lemma first_return:
  assumes "valid i" "0 < k" "(bump ^^ k) i = i"
  shows "period \<le> k"
proof (rule ccontr)
  assume lt: "\<not> period \<le> k"
  have "(pos i + k) mod period = pos i" using pos_bumps [OF assms(1), of k] assms(3) by simp
  then show False
    using pos_less [OF assms(1)] lt assms(2) by (auto simp: mod_if split: if_splits)
qed

lemma full_turn: "valid i \<Longrightarrow> (bump ^^ period) i = i"
  by (rule pos_inj) (simp_all add: bumps_valid pos_bumps pos_less)

text \<open>
  A search loop is any \<open>L\<close> with the unfolding equation of the code's loops. \<open>walk\<close> says what
  it returns from its \<open>k\<close>-th iteration on.
\<close>

lemma walk:
  assumes L: "\<And>i. L i = (if \<not> used i then found i else if bump i = start then none else L (bump i))"
    and start: "valid start" and "k < period"
    and "\<And>j. j < k \<Longrightarrow> used ((bump ^^ j) start)"
  shows "(\<exists>i. valid i \<and> \<not> used i \<and> L ((bump ^^ k) start) = found i)
     \<or> (\<forall>i. valid i \<longrightarrow> used i) \<and> L ((bump ^^ k) start) = none"
  using assms(3,4)
proof (induction "period - k" arbitrary: k)
  case (Suc d)
  let ?i = "(bump ^^ k) start"
  show ?case
  proof (cases "used ?i")
    case False
    then show ?thesis using L [of ?i] bumps_valid [OF start] by auto
  next
    case True
    then have used: "j < Suc k \<Longrightarrow> used ((bump ^^ j) start)" for j
      using Suc.prems(2) [of j] by (cases "j = k") simp_all
    show ?thesis
    proof (cases "Suc k = period")
      case True
      then have "bump ?i = start" using full_turn [OF start] by auto
      moreover have "used i" if "valid i" for i
        using reached [OF start that] used True by auto
      ultimately show ?thesis using L [of ?i] True used [of k] by simp
    next
      case False
      then have k: "Suc k < period" using Suc.prems(1) by simp
      have "(bump ^^ Suc k) start \<noteq> start" using first_return [OF start, of "Suc k"] k by auto
      then have "L ?i = L ((bump ^^ Suc k) start)" using L [of ?i] True by simp
      then show ?thesis using Suc.hyps(1) [of "Suc k"] Suc.hyps(2) k used by simp
    qed
  qed
qed simp

lemma search:
  assumes "\<And>i. L i = (if \<not> used i then found i else if bump i = start then none else L (bump i))"
    and "valid start"
  shows "(\<exists>i. valid i \<and> \<not> used i \<and> L start = found i)
     \<or> (\<forall>i. valid i \<longrightarrow> used i) \<and> L start = none"
proof -
  have "0 < period" using pos_less [OF assms(2)] by simp
  from walk [of L used found start none 0, OF assms(1) assms(2) this] show ?thesis by simp
qed

end

end
