(* ===== verification/KcpMux.thy ===== *)
theory KcpMux
  imports KcpConn IdCycle
begin

text \<open>
  The stream multiplexer, \<^verbatim>\<open>pkgs/giznet/internal/kcp/kcp_mux.go\<close>. Connections and close-ack
  channels are shared by pointer: they live in lists of the state and a pointer is a position.
  A method runs as one step; what it starts with \<^verbatim>\<open>go\<close> is kept in \<open>mx_spawned\<close> until it runs.
  The \<^verbatim>\<open>output\<close> callback is a parameter that may fail or not depending on how many frames it was
  given before; the frames and the reported errors are logged. \<^verbatim>\<open>gokcp.IKCP_OVERHEAD\<close> belongs to the
  \<^verbatim>\<open>kcp-go\<close> package and is a parameter too.
\<close>

section \<open>State\<close>

definition kcpMuxFrameOpen :: u8 where "kcpMuxFrameOpen = 0"
definition kcpMuxFrameData :: u8 where "kcpMuxFrameData = 1"
definition kcpMuxFrameClose :: u8 where "kcpMuxFrameClose = 2"
definition kcpMuxFrameCloseAck :: u8 where "kcpMuxFrameCloseAck = 3"

definition streamCloseReasonClose :: u8 where "streamCloseReasonClose = 0"
definition streamCloseReasonAbort :: u8 where "streamCloseReasonAbort = 1"
definition streamCloseReasonInvalid :: u8 where "streamCloseReasonInvalid = 2"

lemmas frame_defs = kcpMuxFrameOpen_def kcpMuxFrameData_def kcpMuxFrameClose_def kcpMuxFrameCloseAck_def
lemma frame_distinct [simp]:
  "kcpMuxFrameOpen \<noteq> kcpMuxFrameData" "kcpMuxFrameData \<noteq> kcpMuxFrameOpen"
  "kcpMuxFrameOpen \<noteq> kcpMuxFrameClose" "kcpMuxFrameClose \<noteq> kcpMuxFrameOpen"
  "kcpMuxFrameOpen \<noteq> kcpMuxFrameCloseAck" "kcpMuxFrameCloseAck \<noteq> kcpMuxFrameOpen"
  "kcpMuxFrameData \<noteq> kcpMuxFrameClose" "kcpMuxFrameClose \<noteq> kcpMuxFrameData"
  "kcpMuxFrameData \<noteq> kcpMuxFrameCloseAck" "kcpMuxFrameCloseAck \<noteq> kcpMuxFrameData"
  "kcpMuxFrameClose \<noteq> kcpMuxFrameCloseAck" "kcpMuxFrameCloseAck \<noteq> kcpMuxFrameClose"
  by (simp_all add: frame_defs)

lemmas reason_defs =
  streamCloseReasonClose_def streamCloseReasonAbort_def streamCloseReasonInvalid_def

record mux_env =
  env_output :: "(u64 \<Rightarrow> bytes \<Rightarrow> nat \<Rightarrow> kcp_error option) option"
  env_reportErr :: bool
  env_overhead :: nat

record KcpMuxConfig =
  mc_CloseAckTimeout :: int
  mc_IdleStreamTimeout :: int
  mc_AcceptBacklog :: int
  mc_MaxActiveStreams :: int

record StreamEntry =
  se_streamID :: u64
  se_conn :: nat
  se_active :: bool
  se_queued :: bool
  se_localClose :: bool
  se_closeAckCh :: "nat option"
  se_closeAckSet :: bool
  se_idleTimer :: "int option"

datatype mux_event = Frame u64 bytes | Report u64 kcp_error

record KcpMux =
  mx_serviceID :: u64
  mx_isClient :: bool
  mx_config :: KcpMuxConfig
  mx_streams :: "(u64, StreamEntry) gomap"
  mx_nextLocalStreamID :: u64
  mx_activeStreams :: int
  mx_acceptCh :: "u64 list"
  mx_acceptStopClosed :: bool
  mx_acceptingRemote :: bool
  mx_closeChClosed :: bool
  mx_closing :: bool
  mx_closed :: bool
  mx_closeOnce :: bool
  mx_conns :: "KCPConn list"
  mx_ackChs :: "bool list"
  mx_spawned :: "(u64 \<times> u8) list"
  mx_log :: "mux_event list"

definition defaultKcpMuxConfig :: "KcpMuxConfig \<Rightarrow> KcpMuxConfig" where
  "defaultKcpMuxConfig cfg =
     (let cfg = (if mc_CloseAckTimeout cfg \<le> 0 then cfg\<lparr>mc_CloseAckTimeout := 15 * second\<rparr> else cfg);
          cfg = (if mc_IdleStreamTimeout cfg \<le> 0
                 then cfg\<lparr>mc_IdleStreamTimeout := 5 * 60 * second\<rparr> else cfg);
          cfg = (if mc_AcceptBacklog cfg \<le> 0 then cfg\<lparr>mc_AcceptBacklog := 32\<rparr> else cfg)
      in if mc_MaxActiveStreams cfg \<le> 0 then cfg\<lparr>mc_MaxActiveStreams := 32\<rparr> else cfg)"

definition initialLocalStreamID :: "bool \<Rightarrow> u64" where
  "initialLocalStreamID isClient = (if isClient then 1 else 0)"

definition NewKcpMux :: "u64 \<Rightarrow> bool \<Rightarrow> KcpMuxConfig \<Rightarrow> KcpMux" where
  "NewKcpMux serviceID isClient cfg =
     \<lparr>mx_serviceID = serviceID, mx_isClient = isClient, mx_config = defaultKcpMuxConfig cfg,
      mx_streams = [], mx_nextLocalStreamID = initialLocalStreamID isClient, mx_activeStreams = 0,
      mx_acceptCh = [], mx_acceptStopClosed = False, mx_acceptingRemote = True,
      mx_closeChClosed = False, mx_closing = False, mx_closed = False, mx_closeOnce = False,
      mx_conns = [], mx_ackChs = [], mx_spawned = [], mx_log = []\<rparr>"

section \<open>Frames\<close>

definition emit :: "mux_event \<Rightarrow> KcpMux \<Rightarrow> KcpMux" where
  "emit ev m = m\<lparr>mx_log := mx_log m @ [ev]\<rparr>"

definition reportOutput :: "mux_env \<Rightarrow> kcp_error option \<Rightarrow> KcpMux \<Rightarrow> KcpMux" where
  "reportOutput env err m =
     (case err of
        None \<Rightarrow> m
      | Some e \<Rightarrow> if env_reportErr env then emit (Report (mx_serviceID m) e) m else m)"

definition mux_frame :: "u64 \<Rightarrow> u8 \<Rightarrow> bytes \<Rightarrow> bytes" where
  "mux_frame streamID frameType payload =
     (let frame = [frameType];
          frame = (if frameType \<noteq> kcpMuxFrameData then frame @ put_u32 (ucast streamID) else frame)
      in frame @ payload)"

definition sendFrame ::
  "mux_env \<Rightarrow> u64 \<Rightarrow> u8 \<Rightarrow> bytes \<Rightarrow> KcpMux \<Rightarrow> kcp_error option \<times> KcpMux" where
  "sendFrame env streamID frameType payload m =
     (let frame = mux_frame streamID frameType payload in
      case env_output env of
        None \<Rightarrow> (None, m)
      | Some output \<Rightarrow>
          (case output (mx_serviceID m) frame (length (mx_log m)) of
             None \<Rightarrow> (None, emit (Frame (mx_serviceID m) frame) m)
           | Some err \<Rightarrow>
               (Some err, reportOutput env (Some err) (emit (Frame (mx_serviceID m) frame) m))))"

definition sendClose :: "mux_env \<Rightarrow> u64 \<Rightarrow> u8 \<Rightarrow> KcpMux \<Rightarrow> KcpMux" where
  "sendClose env streamID reason m = snd (sendFrame env streamID kcpMuxFrameClose [reason] m)"

definition sendCloseAck :: "mux_env \<Rightarrow> u64 \<Rightarrow> KcpMux \<Rightarrow> KcpMux" where
  "sendCloseAck env streamID m = snd (sendFrame env streamID kcpMuxFrameCloseAck [] m)"

text \<open>A goroutine started with \<^verbatim>\<open>go m.sendClose(...)\<close>, and its run.\<close>

definition spawn_sendClose :: "u64 \<Rightarrow> u8 \<Rightarrow> KcpMux \<Rightarrow> KcpMux" where
  "spawn_sendClose streamID reason m = m\<lparr>mx_spawned := mx_spawned m @ [(streamID, reason)]\<rparr>"

definition run_spawned :: "mux_env \<Rightarrow> nat \<Rightarrow> KcpMux \<Rightarrow> KcpMux" where
  "run_spawned env i m =
     (if i < length (mx_spawned m) then
        (case mx_spawned m ! i of (streamID, reason) \<Rightarrow>
           sendClose env streamID reason
             (m\<lparr>mx_spawned := take i (mx_spawned m) @ drop (i + 1) (mx_spawned m)\<rparr>))
      else m)"

definition decodeKCPConv :: "nat \<Rightarrow> bytes \<Rightarrow> kcp_error + u64" where
  "decodeKCPConv overhead data =
     (if length data < overhead then Inl ErrInvalidServiceFrame else Inr (ucast (get_u32 data)))"

definition decodeMuxFrame :: "nat \<Rightarrow> bytes \<Rightarrow> kcp_error + (u64 \<times> u8 \<times> bytes)" where
  "decodeMuxFrame overhead data =
     (if data = [] then Inl ErrInvalidServiceFrame
      else let frameType = data ! 0 in
        if frameType = kcpMuxFrameData then
          (case decodeKCPConv overhead (drop 1 data) of
             Inl e \<Rightarrow> Inl e
           | Inr streamID \<Rightarrow> Inr (streamID, frameType, drop 1 data))
        else if length data < 5 then Inl ErrInvalidServiceFrame
        else Inr (ucast (get_u32 (drop 1 data)), frameType, drop 5 data))"

definition isRemoteStreamID :: "u64 \<Rightarrow> KcpMux \<Rightarrow> bool" where
  "isRemoteStreamID streamID m =
     (if 2 ^ 32 - 1 < unat streamID then False
      else if mx_isClient m then unat streamID mod 2 = 0
      else unat streamID mod 2 = 1)"

section \<open>Streams\<close>

definition getEntry :: "u64 \<Rightarrow> KcpMux \<Rightarrow> StreamEntry option" where
  "getEntry streamID m = map_get (mx_streams m) streamID"

definition put_entry :: "StreamEntry \<Rightarrow> KcpMux \<Rightarrow> KcpMux" where
  "put_entry entry m = m\<lparr>mx_streams := map_put (se_streamID entry) entry (mx_streams m)\<rparr>"

definition resetIdleTimer :: "int \<Rightarrow> KcpMux \<Rightarrow> StreamEntry \<Rightarrow> StreamEntry" where
  "resetIdleTimer now m entry =
     (if mc_IdleStreamTimeout (mx_config m) \<le> 0 then entry
      else entry\<lparr>se_idleTimer := Some (now + mc_IdleStreamTimeout (mx_config m))\<rparr>)"

definition touchStream :: "int \<Rightarrow> u64 \<Rightarrow> KcpMux \<Rightarrow> KcpMux" where
  "touchStream now streamID m =
     (case getEntry streamID m of
        None \<Rightarrow> m
      | Some entry \<Rightarrow> put_entry (resetIdleTimer now m entry) m)"

definition newStreamEntry :: "int \<Rightarrow> u64 \<Rightarrow> KcpMux \<Rightarrow> StreamEntry \<times> KcpMux" where
  "newStreamEntry now streamID m =
     (\<lparr>se_streamID = streamID, se_conn = length (mx_conns m), se_active = False, se_queued = False,
       se_localClose = False, se_closeAckCh = None, se_closeAckSet = False, se_idleTimer = None\<rparr>,
      m\<lparr>mx_conns := mx_conns m @ [NewKCPConn now (ucast streamID)]\<rparr>)"

text \<open>The callback given to the connection: what it does with a packet of the stream.\<close>

definition stream_output :: "mux_env \<Rightarrow> int \<Rightarrow> u64 \<Rightarrow> bytes \<Rightarrow> KcpMux \<Rightarrow> KcpMux" where
  "stream_output env now streamID data m =
     (case sendFrame env streamID kcpMuxFrameData data (touchStream now streamID m) of
        (None, m) \<Rightarrow> m
      | (Some err, m) \<Rightarrow> reportOutput env (Some err) m)"

definition update_conn :: "nat \<Rightarrow> (KCPConn \<Rightarrow> KCPConn) \<Rightarrow> KcpMux \<Rightarrow> KcpMux" where
  "update_conn r f m = m\<lparr>mx_conns := (mx_conns m)[r := f (mx_conns m ! r)]\<rparr>"

definition close_ack_channel :: "StreamEntry \<Rightarrow> KcpMux \<Rightarrow> KcpMux" where
  "close_ack_channel entry m =
     (case se_closeAckCh entry of
        Some ch \<Rightarrow> if \<not> se_closeAckSet entry then m\<lparr>mx_ackChs := (mx_ackChs m)[ch := True]\<rparr> else m
      | None \<Rightarrow> m)"

definition removeStream :: "u64 \<Rightarrow> kcp_error \<Rightarrow> KcpMux \<Rightarrow> KcpMux" where
  "removeStream streamID closeErr m =
     (case getEntry streamID m of
        None \<Rightarrow> m
      | Some entry \<Rightarrow>
          let m = m\<lparr>mx_streams := map_del streamID (mx_streams m)\<rparr>;
              m = (if se_active entry \<and> 0 < mx_activeStreams m
                   then m\<lparr>mx_activeStreams := mx_activeStreams m - 1\<rparr> else m);
              m = close_ack_channel entry m
          in update_conn (se_conn entry) (closeSignal (Some closeErr)) m)"

partial_function (option) allocate_stream_loop ::
  "u32 \<Rightarrow> (u64, StreamEntry) gomap \<Rightarrow> u32 \<Rightarrow> (kcp_error + u32) option" where
  "allocate_stream_loop start streams current =
     (if map_get streams (ucast current) = None then Some (Inr current)
      else if current + 2 = start then Some (Inl ErrStreamIDExhausted)
      else allocate_stream_loop start streams (current + 2))"

definition allocateLocalStreamID :: "KcpMux \<Rightarrow> ((kcp_error + u64) \<times> KcpMux) option" where
  "allocateLocalStreamID m =
     (let start = ucast (mx_nextLocalStreamID m) in
      case allocate_stream_loop start (mx_streams m) start of
        None \<Rightarrow> None
      | Some (Inl e) \<Rightarrow> Some (Inl e, m)
      | Some (Inr current) \<Rightarrow>
          Some (Inr (ucast current), m\<lparr>mx_nextLocalStreamID := ucast (current + 2)\<rparr>))"

text \<open>A \<^verbatim>\<open>kcpStream\<close>: the identifier and the connection.\<close>

type_synonym stream = "u64 \<times> nat"

definition wrapStream :: "StreamEntry \<Rightarrow> stream" where
  "wrapStream entry = (se_streamID entry, se_conn entry)"

definition Open :: "mux_env \<Rightarrow> int \<Rightarrow> KcpMux \<Rightarrow> ((kcp_error + stream) \<times> KcpMux) option" where
  "Open env now m =
     (if mx_closed m \<or> mx_closing m then Some (Inl ErrServiceMuxClosed, m)
      else case allocateLocalStreamID m of
        None \<Rightarrow> None
      | Some (Inl e, m) \<Rightarrow> Some (Inl e, m)
      | Some (Inr streamID, m) \<Rightarrow>
          (case newStreamEntry now streamID m of (entry, m) \<Rightarrow>
           let entry = resetIdleTimer now m (entry\<lparr>se_active := True\<rparr>);
               m = put_entry entry m;
               m = m\<lparr>mx_activeStreams := mx_activeStreams m + 1\<rparr>
           in case sendFrame env streamID kcpMuxFrameOpen [] m of
                (Some err, m) \<Rightarrow> Some (Inl err, removeStream streamID ErrConnClosedLocal m)
              | (None, m) \<Rightarrow> Some (Inr (wrapStream entry), m)))"

section \<open>Input\<close>

definition handleOpen :: "int \<Rightarrow> u64 \<Rightarrow> KcpMux \<Rightarrow> KcpMux" where
  "handleOpen now streamID m =
     (if mx_closed m \<or> mx_closing m \<or> \<not> mx_acceptingRemote m
        then spawn_sendClose streamID streamCloseReasonAbort m
      else if getEntry streamID m \<noteq> None then m
      else if mc_MaxActiveStreams (mx_config m) \<le> mx_activeStreams m
        then spawn_sendClose streamID streamCloseReasonAbort m
      else if mc_AcceptBacklog (mx_config m) \<le> int (length (mx_acceptCh m))
        then spawn_sendClose streamID streamCloseReasonAbort m
      else
        (case newStreamEntry now streamID m of (entry, m) \<Rightarrow>
           put_entry (resetIdleTimer now m (entry\<lparr>se_queued := True\<rparr>))
             (m\<lparr>mx_acceptCh := mx_acceptCh m @ [streamID]\<rparr>)))"

definition handleRemoteClose :: "StreamEntry \<Rightarrow> u8 \<Rightarrow> KcpMux \<Rightarrow> KcpMux" where
  "handleRemoteClose entry reason m =
     removeStream (se_streamID entry)
       (if reason = streamCloseReasonClose then ErrStreamClosedGraceful
        else if reason = streamCloseReasonAbort then ErrStreamAborted
        else ErrStreamInvalid) m"

definition handleCloseAck :: "u64 \<Rightarrow> KcpMux \<Rightarrow> KcpMux" where
  "handleCloseAck streamID m =
     (case getEntry streamID m of
        None \<Rightarrow> m
      | Some entry \<Rightarrow>
          let shouldCleanup = se_localClose entry;
              m = (if se_closeAckCh entry \<noteq> None \<and> \<not> se_closeAckSet entry
                   then put_entry (entry\<lparr>se_closeAckSet := True\<rparr>) (close_ack_channel entry m) else m)
          in if shouldCleanup then removeStream (se_streamID entry) ErrConnClosedLocal m else m)"

definition Input :: "mux_env \<Rightarrow> int \<Rightarrow> bytes \<Rightarrow> KcpMux \<Rightarrow> (kcp_error option \<times> KcpMux) list" where
  "Input env now data m =
     (if mx_closed m \<or> mx_closing m then [(Some ErrServiceMuxClosed, m)]
      else case decodeMuxFrame (env_overhead env) data of
        Inl e \<Rightarrow> [(Some e, m)]
      | Inr (streamID, frameType, payload) \<Rightarrow>
        let exists = getEntry streamID m \<noteq> None;
            invalid = (\<not> exists \<and> \<not> isRemoteStreamID streamID m);
            refuse = (\<lambda>exists m.
              let m = (if exists then removeStream streamID ErrStreamInvalid m else m)
              in [(None, sendClose env streamID streamCloseReasonInvalid m)])
        in
        if frameType = kcpMuxFrameCloseAck then
          [(None, handleCloseAck streamID (touchStream now streamID m))]
        else if frameType = kcpMuxFrameClose then
          let reason = (if length payload = 1 then payload ! 0 else streamCloseReasonInvalid);
              m = touchStream now streamID m;
              m = (case getEntry streamID m of
                     None \<Rightarrow> m | Some entry \<Rightarrow> handleRemoteClose entry reason m)
          in [(None, sendCloseAck env streamID m)]
        else if frameType = kcpMuxFrameOpen then
          let invalid = (invalid \<or> payload \<noteq> []) in
          if \<not> invalid \<and> exists then [(None, touchStream now streamID m)]
          else if invalid then refuse exists m
          else [(None, handleOpen now streamID m)]
        else
          let invalid = (invalid \<or> frameType \<noteq> kcpMuxFrameData);
              m = (if \<not> exists \<and> \<not> invalid then handleOpen now streamID m else m)
          in
          if invalid then refuse exists m
          else (case getEntry streamID m of
            None \<Rightarrow> [(None, sendClose env streamID streamCloseReasonInvalid m)]
          | Some entry \<Rightarrow>
              map (\<lambda>(err, conn).
                 let m = update_conn (se_conn entry) (\<lambda>_. conn) m in
                 (case err of
                    Some e \<Rightarrow> (None, sendClose env streamID streamCloseReasonInvalid
                                       (removeStream streamID e m))
                  | None \<Rightarrow> (None, touchStream now streamID m)))
                (conn_Input now payload (mx_conns m ! se_conn entry))))"

section \<open>Accepting\<close>

definition acceptQueued ::
  "int \<Rightarrow> u64 \<Rightarrow> KcpMux \<Rightarrow> (kcp_error + stream option) \<times> KcpMux" where
  "acceptQueued now streamID m =
     (if mx_closed m \<or> mx_closing m then (Inl ErrServiceMuxClosed, m)
      else if \<not> mx_acceptingRemote m then (Inl ErrAcceptQueueClosed, m)
      else case getEntry streamID m of
        None \<Rightarrow> (Inr None, m)
      | Some entry \<Rightarrow>
          if \<not> se_queued entry then (Inr None, m)
          else
            let entry = entry\<lparr>se_queued := False, se_active := True\<rparr>;
                m = m\<lparr>mx_activeStreams := mx_activeStreams m + 1\<rparr>;
                entry = resetIdleTimer now m entry
            in (Inr (Some (wrapStream entry)), put_entry entry m))"

text \<open>
  \<^verbatim>\<open>Accept\<close> loops over a \<^verbatim>\<open>select\<close>; the list says which ready case each round takes. \<open>None\<close>
  means that the call is still waiting when the list ends.
\<close>

datatype accept_choice = FromQueue | FromStop | FromClose

fun Accept ::
  "int \<Rightarrow> accept_choice list \<Rightarrow> KcpMux \<Rightarrow> (kcp_error + stream) option \<times> KcpMux" where
  "Accept now [] m = (None, m)"
| "Accept now (FromQueue # choices) m =
     (case mx_acceptCh m of
        [] \<Rightarrow> Accept now choices m
      | streamID # rest \<Rightarrow>
          (case acceptQueued now streamID (m\<lparr>mx_acceptCh := rest\<rparr>) of
             (Inl e, m) \<Rightarrow> (Some (Inl e), m)
           | (Inr (Some s), m) \<Rightarrow> (Some (Inr s), m)
           | (Inr None, m) \<Rightarrow> Accept now choices m))"
| "Accept now (FromStop # choices) m =
     (if \<not> mx_acceptStopClosed m then Accept now choices m
      else if mx_closing m \<or> mx_closed m then (Some (Inl ErrServiceMuxClosed), m)
      else (Some (Inl ErrAcceptQueueClosed), m))"
| "Accept now (FromClose # choices) m =
     (if \<not> mx_closeChClosed m then Accept now choices m
      else (Some (Inl ErrServiceMuxClosed), m))"

definition StopAccepting :: "mux_env \<Rightarrow> KcpMux \<Rightarrow> KcpMux" where
  "StopAccepting env m =
     (if mx_closed m \<or> mx_closing m \<or> \<not> mx_acceptingRemote m then m
      else
        let m = m\<lparr>mx_acceptingRemote := False\<rparr>;
            queued = map fst (filter (\<lambda>(_, entry). se_queued entry \<and> \<not> se_active entry) (mx_streams m));
            m = fold (\<lambda>streamID. removeStream streamID ErrStreamAborted) queued m;
            m = m\<lparr>mx_acceptStopClosed := True\<rparr>
        in fold (\<lambda>streamID. sendClose env streamID streamCloseReasonAbort) queued m)"

section \<open>Closing\<close>

datatype close_result = CloseReturned "kcp_error option" | CloseWaits "nat option"

text \<open>
  \<^verbatim>\<open>closeStream\<close> up to \<^verbatim>\<open>waitForCloseAck\<close>. It starts at \<open>now\<close> and \<^verbatim>\<open>Drain\<close> looks at the clock at
  \<open>later\<close>.
\<close>

definition closeStream ::
  "mux_env \<Rightarrow> int \<Rightarrow> int \<Rightarrow> u64 \<Rightarrow> KcpMux \<Rightarrow> close_result \<times> KcpMux" where
  "closeStream env now later streamID m =
     (if mx_closed m then (CloseReturned None, m)
      else case getEntry streamID m of
        None \<Rightarrow> (CloseReturned None, m)
      | Some entry \<Rightarrow>
          if se_localClose entry then (CloseWaits (se_closeAckCh entry), m)
          else
            let ch = length (mx_ackChs m);
                m = m\<lparr>mx_ackChs := mx_ackChs m @ [False]\<rparr>;
                entry = resetIdleTimer now m (entry\<lparr>se_localClose := True, se_closeAckCh := Some ch\<rparr>);
                m = put_entry entry m
            in case conn_Drain later (Some (now + mc_CloseAckTimeout (mx_config m)))
                      (mx_conns m ! se_conn entry) of
                 Some err \<Rightarrow>
                   (CloseReturned (Some err),
                    sendClose env streamID streamCloseReasonAbort
                      (update_conn (se_conn entry) (closeSignal (Some err)) m))
               | None \<Rightarrow>
                   (CloseWaits (Some ch),
                    sendClose env streamID streamCloseReasonClose
                      (update_conn (se_conn entry) (closeSignal (Some ErrConnClosedLocal)) m)))"

text \<open>The cases of the \<^verbatim>\<open>select\<close> of \<^verbatim>\<open>waitForCloseAck\<close>: the states in which the call may return.\<close>

definition waitForCloseAck :: "u64 \<Rightarrow> nat option \<Rightarrow> bool \<Rightarrow> KcpMux \<Rightarrow> KcpMux list" where
  "waitForCloseAck streamID ch timeout m =
     (case ch of
        None \<Rightarrow> [m]
      | Some ch \<Rightarrow>
          (if mx_ackChs m ! ch then [m] else [])
          @ (if timeout then [removeStream streamID ErrConnClosedLocal m] else [])
          @ (if mx_closeChClosed m then [m] else []))"

text \<open>
  In \<^verbatim>\<open>Close\<close> the wait of every \<^verbatim>\<open>closeStream\<close> returns at once, because \<^verbatim>\<open>closeCh\<close> is closed.
\<close>

definition Close :: "mux_env \<Rightarrow> int \<Rightarrow> int \<Rightarrow> KcpMux \<Rightarrow> KcpMux" where
  "Close env now later m =
     (if mx_closeOnce m then m
      else
        let m = m\<lparr>mx_closeOnce := True\<rparr> in
        if mx_closed m \<or> mx_closing m then m
        else
          let m = m\<lparr>mx_acceptingRemote := False, mx_acceptStopClosed := True, mx_closing := True,
                    mx_closeChClosed := True\<rparr>;
              streamIDs = map fst (mx_streams m);
              m = fold (\<lambda>streamID m. snd (closeStream env now later streamID m)) streamIDs m;
              m = fold (\<lambda>streamID. removeStream streamID ErrConnClosedLocal) (map fst (mx_streams m)) m
          in m\<lparr>mx_closed := True\<rparr>)"

definition NumStreams :: "KcpMux \<Rightarrow> nat" where
  "NumStreams m = length (mx_streams m)"

text \<open>The idle timer of a stream fires.\<close>

definition idle_fires :: "int \<Rightarrow> u64 \<Rightarrow> KcpMux \<Rightarrow> KcpMux" where
  "idle_fires now streamID m =
     (case getEntry streamID m of
        None \<Rightarrow> m
      | Some entry \<Rightarrow>
          if deadline_fires now (se_idleTimer entry) then removeStream streamID ErrConnTimeout m else m)"

text \<open>Reading and writing through a \<^verbatim>\<open>kcpStream\<close>.\<close>

definition stream_Read ::
  "int \<Rightarrow> nat \<times> kcp_error option \<Rightarrow> stream \<Rightarrow> KcpMux \<Rightarrow> (nat \<times> kcp_error option) \<times> KcpMux" where
  "stream_Read now session_result s m =
     (case conn_Read now session_result (mx_conns m ! snd s) of ((n, err), conn) \<Rightarrow>
        ((n, if err = Some ErrStreamClosedGraceful then Some ErrEOF else err),
         update_conn (snd s) (\<lambda>_. conn) m))"

definition stream_Write ::
  "int \<Rightarrow> nat \<times> kcp_error option \<Rightarrow> stream \<Rightarrow> KcpMux \<Rightarrow> (nat \<times> kcp_error option) \<times> KcpMux" where
  "stream_Write now session_result s m =
     (case conn_Write now session_result (mx_conns m ! snd s) of ((n, err), conn) \<Rightarrow>
        ((n, if err = Some ErrStreamClosedGraceful then Some ErrClosedPipe else err),
         update_conn (snd s) (\<lambda>_. conn) m))"

end
