(* ===== verification/KcpMuxInv.thy ===== *)
theory KcpMuxInv
  imports KcpMux
begin

text \<open>
  The invariant of the stream multiplexer, and that every step keeps it: the table of streams,
  the count of active streams, the accept queue, the close-ack channels and the connections
  always fit together, and no connection is left open without a stream that owns it.
\<close>

section \<open>The invariant\<close>

definition active_ids :: "KcpMux \<Rightarrow> u64 set" where
  "active_ids m = {streamID. \<exists>e. getEntry streamID m = Some e \<and> se_active e}"

definition entry_ok :: "KcpMux \<Rightarrow> u64 \<Rightarrow> StreamEntry \<Rightarrow> bool" where
  "entry_ok m streamID e \<longleftrightarrow>
     se_streamID e = streamID \<and> unat streamID < 2 ^ 32 \<and> se_conn e < length (mx_conns m)
     \<and> (se_queued e \<longleftrightarrow> \<not> se_active e)
     \<and> (se_queued e \<longrightarrow> mx_acceptingRemote m \<and> streamID \<in> set (mx_acceptCh m))
     \<and> (se_localClose e \<longleftrightarrow> se_closeAckCh e \<noteq> None) \<and> (se_closeAckSet e \<longrightarrow> se_closeAckCh e \<noteq> None)
     \<and> (\<forall>ch. se_closeAckCh e = Some ch \<longrightarrow>
            ch < length (mx_ackChs m) \<and> mx_ackChs m ! ch = se_closeAckSet e)
     \<and> kc_conv (mx_conns m ! se_conn e) = ucast streamID"

definition table_ok :: "KcpMux \<Rightarrow> bool" where
  "table_ok m \<longleftrightarrow> wf_map (mx_streams m)
     \<and> (\<forall>streamID e. getEntry streamID m = Some e \<longrightarrow> entry_ok m streamID e)
     \<and> mx_activeStreams m = int (card (active_ids m))"

definition no_leak :: "KcpMux \<Rightarrow> bool" where
  "no_leak m \<longleftrightarrow> (\<forall>r < length (mx_conns m). kc_closed (mx_conns m ! r)
     \<or> (\<exists>streamID e. getEntry streamID m = Some e \<and> se_conn e = r))"

text \<open>Different streams never share a close-ack channel.\<close>

definition acks_distinct :: "KcpMux \<Rightarrow> bool" where
  "acks_distinct m \<longleftrightarrow> (\<forall>i j e f ch. getEntry i m = Some e \<longrightarrow> getEntry j m = Some f \<longrightarrow>
     se_closeAckCh e = Some ch \<longrightarrow> se_closeAckCh f = Some ch \<longrightarrow> i = j)"

definition flags_ok :: "KcpMux \<Rightarrow> bool" where
  "flags_ok m \<longleftrightarrow>
     mx_closed m = mx_closing m \<and> mx_closeChClosed m = mx_closing m \<and> mx_closeOnce m = mx_closing m
     \<and> mx_acceptStopClosed m = (\<not> mx_acceptingRemote m)
     \<and> (mx_closing m \<longrightarrow> \<not> mx_acceptingRemote m \<and> mx_streams m = [])
     \<and> int (length (mx_acceptCh m)) \<le> mc_AcceptBacklog (mx_config m)
     \<and> 0 < mc_AcceptBacklog (mx_config m)
     \<and> (unat (mx_nextLocalStreamID m) < 2 ^ 32)
     \<and> (odd (unat (mx_nextLocalStreamID m)) \<longleftrightarrow> mx_isClient m)"

definition mux_inv :: "KcpMux \<Rightarrow> bool" where
  "mux_inv m \<longleftrightarrow> table_ok m \<and> no_leak m \<and> acks_distinct m \<and> flags_ok m"

text \<open>What holds also between the two halves of \<^verbatim>\<open>Close\<close> and \<^verbatim>\<open>StopAccepting\<close>.\<close>

definition core_inv :: "KcpMux \<Rightarrow> bool" where
  "core_inv m \<longleftrightarrow> table_ok m \<and> no_leak m \<and> acks_distinct m"

lemma mux_inv_core: "mux_inv m \<longleftrightarrow> core_inv m \<and> flags_ok m"
  by (simp add: mux_inv_def core_inv_def)

lemma acks_distinctI:
  "(\<And>i j e f ch. getEntry i m = Some e \<Longrightarrow> getEntry j m = Some f \<Longrightarrow> se_closeAckCh e = Some ch
     \<Longrightarrow> se_closeAckCh f = Some ch \<Longrightarrow> i \<noteq> j \<Longrightarrow> False) \<Longrightarrow> acks_distinct m"
  unfolding acks_distinct_def by blast

lemma acks_distinctD:
  "acks_distinct m \<Longrightarrow> getEntry i m = Some e \<Longrightarrow> getEntry j m = Some f \<Longrightarrow> se_closeAckCh e = Some ch
     \<Longrightarrow> se_closeAckCh f = Some ch \<Longrightarrow> i = j"
  unfolding acks_distinct_def by blast

lemma finite_active: "finite (active_ids m)"
proof (rule finite_subset)
  show "active_ids m \<subseteq> dom (map_get (mx_streams m))" by (auto simp: active_ids_def getEntry_def)
qed (simp add: finite_dom_map_of)

lemma getEntry_frame [simp]:
  "getEntry i (m\<lparr>mx_log := l\<rparr>) = getEntry i m"
  "getEntry i (m\<lparr>mx_spawned := sp\<rparr>) = getEntry i m"
  "getEntry i (m\<lparr>mx_nextLocalStreamID := n\<rparr>) = getEntry i m"
  "getEntry i (m\<lparr>mx_activeStreams := k\<rparr>) = getEntry i m"
  "getEntry i (m\<lparr>mx_acceptCh := q\<rparr>) = getEntry i m"
  "getEntry i (m\<lparr>mx_acceptingRemote := b\<rparr>) = getEntry i m"
  "getEntry i (m\<lparr>mx_acceptStopClosed := b\<rparr>) = getEntry i m"
  "getEntry i (m\<lparr>mx_closing := b\<rparr>) = getEntry i m"
  "getEntry i (m\<lparr>mx_closed := b\<rparr>) = getEntry i m"
  "getEntry i (m\<lparr>mx_closeOnce := b\<rparr>) = getEntry i m"
  "getEntry i (m\<lparr>mx_closeChClosed := b\<rparr>) = getEntry i m"
  "getEntry i (m\<lparr>mx_conns := cs\<rparr>) = getEntry i m"
  "getEntry i (m\<lparr>mx_ackChs := chs\<rparr>) = getEntry i m"
  by (simp_all add: getEntry_def)

lemma core_inv_frame [simp]:
  "core_inv (m\<lparr>mx_log := l\<rparr>) = core_inv m"
  "core_inv (m\<lparr>mx_spawned := sp\<rparr>) = core_inv m"
  "core_inv (m\<lparr>mx_nextLocalStreamID := n\<rparr>) = core_inv m"
  "core_inv (m\<lparr>mx_acceptStopClosed := b\<rparr>) = core_inv m"
  "core_inv (m\<lparr>mx_closing := b\<rparr>) = core_inv m"
  "core_inv (m\<lparr>mx_closed := b\<rparr>) = core_inv m"
  "core_inv (m\<lparr>mx_closeOnce := b\<rparr>) = core_inv m"
  "core_inv (m\<lparr>mx_closeChClosed := b\<rparr>) = core_inv m"
  by (simp_all add: core_inv_def table_ok_def no_leak_def acks_distinct_def entry_ok_def active_ids_def)

lemma flags_ok_frame [simp]:
  "flags_ok (m\<lparr>mx_log := l\<rparr>) = flags_ok m"
  "flags_ok (m\<lparr>mx_spawned := sp\<rparr>) = flags_ok m"
  "flags_ok (m\<lparr>mx_activeStreams := k\<rparr>) = flags_ok m"
  "flags_ok (m\<lparr>mx_conns := cs\<rparr>) = flags_ok m"
  "flags_ok (m\<lparr>mx_ackChs := chs\<rparr>) = flags_ok m"
  by (simp_all add: flags_ok_def)

lemma core_entry: "core_inv m \<Longrightarrow> getEntry i m = Some e \<Longrightarrow> entry_ok m i e"
  by (simp add: core_inv_def table_ok_def)

section \<open>Frames do not touch the table\<close>

definition same_table :: "KcpMux \<Rightarrow> KcpMux \<Rightarrow> bool" where
  "same_table m m' \<longleftrightarrow> (\<exists>l. m' = m\<lparr>mx_log := l\<rparr>)"

lemma same_table_refl [simp]: "same_table m m"
  unfolding same_table_def by (rule exI [of _ "mx_log m"]) simp

lemma same_table_emit: "same_table m m' \<Longrightarrow> same_table m (emit ev m')"
  by (auto simp: same_table_def emit_def)

lemma same_table_report: "same_table m m' \<Longrightarrow> same_table m (reportOutput env err m')"
  by (simp add: reportOutput_def same_table_emit split: option.split)

lemma sendFrame_table: "same_table m (snd (sendFrame env i ft p m))"
  by (simp add: sendFrame_def Let_def same_table_emit same_table_report split: option.split)

lemma sendClose_table: "same_table m (sendClose env i r m)"
  unfolding sendClose_def by (rule sendFrame_table)

lemma sendCloseAck_table: "same_table m (sendCloseAck env i m)"
  unfolding sendCloseAck_def by (rule sendFrame_table)

lemma same_table_inv: "same_table m m' \<Longrightarrow> core_inv m' = core_inv m \<and> flags_ok m' = flags_ok m"
  by (auto simp: same_table_def)

lemmas send_inv [simp] =
  same_table_inv [OF sendFrame_table, THEN conjunct1] same_table_inv [OF sendFrame_table, THEN conjunct2]
  same_table_inv [OF sendClose_table, THEN conjunct1] same_table_inv [OF sendClose_table, THEN conjunct2]
  same_table_inv [OF sendCloseAck_table, THEN conjunct1]
  same_table_inv [OF sendCloseAck_table, THEN conjunct2]

section \<open>Primitive changes\<close>

lemma getEntry_put [simp]:
  "getEntry i (put_entry e m) = (if i = se_streamID e then Some e else getEntry i m)"
  by (simp add: getEntry_def put_entry_def)

lemma put_entry_fields [simp]:
  "mx_conns (put_entry e m) = mx_conns m" "mx_ackChs (put_entry e m) = mx_ackChs m"
  "mx_acceptCh (put_entry e m) = mx_acceptCh m" "mx_activeStreams (put_entry e m) = mx_activeStreams m"
  "mx_acceptingRemote (put_entry e m) = mx_acceptingRemote m" "mx_config (put_entry e m) = mx_config m"
  by (simp_all add: put_entry_def)

lemma flags_ok_put: "flags_ok m \<Longrightarrow> \<not> mx_closing m \<Longrightarrow> flags_ok (put_entry e m)"
  by (simp add: flags_ok_def put_entry_def)

text \<open>
  A change of an entry that keeps its connection and its activity, and may change the close-ack
  channels as long as those of the other streams stay as they are.
\<close>

lemma core_inv_put_ack:
  assumes inv: "core_inv m" and e: "getEntry (se_streamID e') m = Some e"
    and same: "se_conn e' = se_conn e" "se_active e' = se_active e"
    and ok: "entry_ok (m\<lparr>mx_ackChs := chs\<rparr>) (se_streamID e') e'"
    and others: "\<And>j f ch. j \<noteq> se_streamID e' \<Longrightarrow> getEntry j m = Some f \<Longrightarrow> se_closeAckCh f = Some ch
      \<Longrightarrow> ch < length chs \<and> chs ! ch = mx_ackChs m ! ch"
    and ack: "\<And>j f ch. j \<noteq> se_streamID e' \<Longrightarrow> getEntry j m = Some f \<Longrightarrow> se_closeAckCh f = Some ch
      \<Longrightarrow> se_closeAckCh e' \<noteq> Some ch"
  shows "core_inv (put_entry e' (m\<lparr>mx_ackChs := chs\<rparr>))"
proof -
  let ?m = "put_entry e' (m\<lparr>mx_ackChs := chs\<rparr>)"
  have "active_ids ?m = active_ids m" using e same by (auto simp: active_ids_def)
  moreover have "entry_ok ?m i f" if g: "getEntry i ?m = Some f" for i f
  proof (cases "i = se_streamID e'")
    case True
    then show ?thesis using g ok by (simp add: entry_ok_def)
  next
    case False
    then have f: "getEntry i m = Some f" using g by simp
    then show ?thesis using core_entry [OF inv f] others [OF False f] by (auto simp: entry_ok_def)
  qed
  moreover have "wf_map (mx_streams ?m)" using inv by (simp add: core_inv_def table_ok_def put_entry_def)
  ultimately have "table_ok ?m" using inv unfolding core_inv_def table_ok_def by simp
  moreover have "no_leak ?m" unfolding no_leak_def
  proof (intro allI impI)
    fix r assume "r < length (mx_conns ?m)"
    then consider "kc_closed (mx_conns m ! r)" | i f where "getEntry i m = Some f" "se_conn f = r"
      using inv unfolding core_inv_def no_leak_def by auto
    then show "kc_closed (mx_conns ?m ! r) \<or> (\<exists>i f. getEntry i ?m = Some f \<and> se_conn f = r)"
    proof cases
      case 2
      then have "\<exists>g. getEntry i ?m = Some g \<and> se_conn g = r" using e same(1) by auto
      then show ?thesis by blast
    qed simp
  qed
  moreover have "acks_distinct ?m"
  proof (rule acks_distinctI)
    fix i j f g ch
    assume a: "getEntry i ?m = Some f" "getEntry j ?m = Some g" "se_closeAckCh f = Some ch"
      "se_closeAckCh g = Some ch" "i \<noteq> j"
    consider "i = se_streamID e'" | "j = se_streamID e'" | "i \<noteq> se_streamID e'" "j \<noteq> se_streamID e'"
      by blast
    then show False
    proof cases
      case 1
      then have "f = e'" "getEntry j m = Some g" "j \<noteq> se_streamID e'" using a by simp_all
      then show False using ack a(3,4) by blast
    next
      case 2
      then have "g = e'" "getEntry i m = Some f" "i \<noteq> se_streamID e'" using a by simp_all
      then show False using ack a(3,4) by blast
    next
      case 3
      then show False using acks_distinctD [of m i f j g ch] a inv by (simp add: core_inv_def)
    qed
  qed
  ultimately show ?thesis by (simp add: core_inv_def)
qed

lemma core_inv_put:
  assumes inv: "core_inv m" and e: "getEntry (se_streamID e') m = Some e"
    and same: "se_conn e' = se_conn e" "se_active e' = se_active e" "se_closeAckCh e' = se_closeAckCh e"
    and ok: "entry_ok m (se_streamID e') e'"
  shows "core_inv (put_entry e' m)"
proof -
  have "core_inv (put_entry e' (m\<lparr>mx_ackChs := mx_ackChs m\<rparr>))"
  proof (rule core_inv_put_ack [OF inv e same(1,2)])
    fix j f ch assume "j \<noteq> se_streamID e'" "getEntry j m = Some f" "se_closeAckCh f = Some ch"
    then show "ch < length (mx_ackChs m) \<and> mx_ackChs m ! ch = mx_ackChs m ! ch"
      and "se_closeAckCh e' \<noteq> Some ch"
      using core_entry [OF inv, of j f] acks_distinctD [of m _ e j f ch] e inv same(3)
      by (auto simp: entry_ok_def core_inv_def)
  qed (use ok in simp)
  then show ?thesis by simp
qed

text \<open>A change of a connection that keeps its conversation and does not reopen it.\<close>

lemma core_inv_update_conn:
  assumes inv: "core_inv m" and conv: "kc_conv (f (mx_conns m ! r)) = kc_conv (mx_conns m ! r)"
    and closed: "kc_closed (mx_conns m ! r) \<Longrightarrow> kc_closed (f (mx_conns m ! r))"
  shows "core_inv (update_conn r f m)"
proof -
  let ?m = "update_conn r f m"
  have nth: "q < length (mx_conns m) \<Longrightarrow> kc_conv (mx_conns ?m ! q) = kc_conv (mx_conns m ! q)"
    "q < length (mx_conns m) \<Longrightarrow> kc_closed (mx_conns m ! q) \<Longrightarrow> kc_closed (mx_conns ?m ! q)" for q
    using conv closed by (cases "q = r"; simp add: update_conn_def)+
  have get: "getEntry i ?m = getEntry i m" for i by (simp add: update_conn_def)
  have len: "length (mx_conns ?m) = length (mx_conns m)" by (simp add: update_conn_def)
  have ok: "entry_ok ?m i e" if "getEntry i m = Some e" for i e
    using core_entry [OF inv that] nth(1) unfolding entry_ok_def len by (auto simp: update_conn_def)
  have "active_ids ?m = active_ids m" by (simp add: active_ids_def get)
  then have "table_ok ?m" using inv ok by (simp add: core_inv_def table_ok_def get) (simp add: update_conn_def)
  moreover have "no_leak ?m" using inv nth(2) by (auto simp: core_inv_def no_leak_def get len)
  moreover have "acks_distinct ?m" using inv by (simp add: core_inv_def acks_distinct_def get)
  ultimately show ?thesis by (simp add: core_inv_def)
qed

lemma update_conn_flags [simp]: "flags_ok (update_conn r f m) = flags_ok m"
  by (simp add: update_conn_def)

lemma closeSignal_conv [simp]: "kc_conv (closeSignal r c) = kc_conv c"
  by (simp add: closeSignal_def setCloseErr_def stopIdleTimer_def Let_def)

text \<open>A new stream over a new connection.\<close>

lemma core_inv_new:
  assumes inv: "core_inv m" and fresh: "getEntry i m = None" and small: "unat i < 2 ^ 32"
    and e: "se_streamID e = i" "se_conn e = length (mx_conns m)" "se_closeAckCh e = None"
      "\<not> se_localClose e" "\<not> se_closeAckSet e" "se_queued e \<longleftrightarrow> \<not> se_active e"
    and q: "se_queued e \<Longrightarrow> mx_acceptingRemote m \<and> i \<in> set ch" "set (mx_acceptCh m) \<subseteq> set ch"
    and c: "kc_conv c = ucast i"
    and k: "k = mx_activeStreams m + (if se_active e then 1 else 0)"
  shows "core_inv (put_entry e (m\<lparr>mx_conns := mx_conns m @ [c], mx_acceptCh := ch, mx_activeStreams := k\<rparr>))"
    (is "core_inv ?m")
proof -
  have get: "getEntry j ?m = (if j = i then Some e else getEntry j m)" for j by (simp add: e(1))
  have "active_ids ?m = (if se_active e then insert i (active_ids m) else active_ids m)"
    using fresh e(1) by (auto simp: active_ids_def)
  moreover have "i \<notin> active_ids m" using fresh by (simp add: active_ids_def)
  ultimately have "mx_activeStreams ?m = int (card (active_ids ?m))"
    using inv finite_active [of m] by (simp add: core_inv_def table_ok_def k)
  moreover have "entry_ok ?m j f" if "getEntry j ?m = Some f" for j f
  proof (cases "j = i")
    case True
    then have "f = e" using that unfolding get by simp
    then show ?thesis using True e q(1) small c by (simp add: entry_ok_def nth_append)
  next
    case False
    then have "entry_ok m j f" using that core_entry [OF inv] unfolding get by simp
    then show ?thesis using q(2) by (auto simp: entry_ok_def nth_append)
  qed
  moreover have "wf_map (mx_streams ?m)" using inv by (simp add: core_inv_def table_ok_def put_entry_def)
  ultimately have "table_ok ?m" unfolding table_ok_def by blast
  moreover have "no_leak ?m" unfolding no_leak_def
  proof (intro allI impI)
    fix r assume r: "r < length (mx_conns ?m)"
    show "kc_closed (mx_conns ?m ! r) \<or> (\<exists>j f. getEntry j ?m = Some f \<and> se_conn f = r)"
    proof (cases "r = length (mx_conns m)")
      case True
      then show ?thesis using e(2) by (auto simp: get)
    next
      case False
      then have r': "r < length (mx_conns m)" using r by simp
      then consider "kc_closed (mx_conns m ! r)" | j f where "getEntry j m = Some f" "se_conn f = r"
        using inv unfolding core_inv_def no_leak_def by blast
      then show ?thesis
      proof cases
        case 1
        then show ?thesis using r' by (simp add: nth_append)
      next
        case 2
        then have "getEntry j ?m = Some f" unfolding get using fresh by auto
        then show ?thesis using 2(2) by blast
      qed
    qed
  qed
  moreover have "acks_distinct ?m"
    using inv e(1,3) acks_distinctD [of m]
    by (intro acks_distinctI) (auto simp: core_inv_def split: if_splits)
  ultimately show ?thesis by (simp add: core_inv_def)
qed

text \<open>Removing a stream closes its connection and its close-ack channel.\<close>

definition removed :: "u64 \<Rightarrow> StreamEntry \<Rightarrow> KcpMux \<Rightarrow> KcpMux" where
  "removed i e m = m\<lparr>mx_streams := map_del i (mx_streams m),
     mx_activeStreams := (if se_active e then mx_activeStreams m - 1 else mx_activeStreams m),
     mx_ackChs := (case se_closeAckCh e of
        Some ch \<Rightarrow> if \<not> se_closeAckSet e then (mx_ackChs m)[ch := True] else mx_ackChs m
      | None \<Rightarrow> mx_ackChs m)\<rparr>"

lemma active_pos:
  assumes "core_inv m" "getEntry i m = Some e" "se_active e"
  shows "0 < mx_activeStreams m"
proof -
  have "i \<in> active_ids m" using assms(2,3) by (simp add: active_ids_def)
  then have "0 < card (active_ids m)" using finite_active card_gt_0_iff by blast
  then show ?thesis using assms(1) by (simp add: core_inv_def table_ok_def)
qed

lemma removeStream_eq:
  assumes "core_inv m" "getEntry i m = Some e"
  shows "removeStream i err m = update_conn (se_conn e) (closeSignal (Some err)) (removed i e m)"
  using active_pos [OF assms] assms(2)
  by (auto simp: removeStream_def removed_def close_ack_channel_def update_conn_def
      split: option.split)

lemma getEntry_removed: "getEntry j (removed i e m) = (if j = i then None else getEntry j m)"
  by (simp add: getEntry_def removed_def)

lemma removed_table:
  assumes inv: "core_inv m" and e: "getEntry i m = Some e"
  shows "table_ok (removed i e m)" "acks_distinct (removed i e m)"
proof -
  let ?m = "removed i e m"
  have d: "acks_distinct m" using inv by (simp add: core_inv_def)
  show "acks_distinct ?m"
    using acks_distinctD [OF d] by (intro acks_distinctI) (auto simp: getEntry_removed split: if_splits)
  have "active_ids ?m = active_ids m - {i}"
    by (auto simp: active_ids_def getEntry_removed)
  moreover have "i \<in> active_ids m \<longleftrightarrow> se_active e" using e by (auto simp: active_ids_def)
  moreover have "0 < card (active_ids m)" if "se_active e"
    using active_pos [OF inv e that] inv by (simp add: core_inv_def table_ok_def)
  ultimately have "mx_activeStreams ?m = int (card (active_ids ?m))"
    using inv finite_active [of m] by (auto simp: core_inv_def table_ok_def removed_def)
  moreover have "entry_ok ?m j f" if "getEntry j ?m = Some f" for j f
  proof -
    have j: "j \<noteq> i" "getEntry j m = Some f" using that by (simp_all add: getEntry_removed split: if_splits)
    have f: "entry_ok m j f" using core_entry [OF inv j(2)] .
    have "se_closeAckCh f = Some ch \<Longrightarrow> se_closeAckCh e \<noteq> Some ch" for ch
      using acks_distinctD [OF d e j(2)] j(1) by blast
    then show ?thesis using f by (auto simp: entry_ok_def removed_def nth_list_update split: option.splits)
  qed
  moreover have "wf_map (mx_streams ?m)" using inv by (simp add: core_inv_def table_ok_def removed_def)
  ultimately show "table_ok ?m" unfolding table_ok_def by blast
qed

lemma core_inv_removeStream:
  assumes inv: "core_inv m"
  shows "core_inv (removeStream i err m)"
proof (cases "getEntry i m")
  case None
  then show ?thesis using inv by (simp add: removeStream_def)
next
  case (Some e)
  let ?m = "removed i e m" and ?c = "closeSignal (Some err)"
  let ?m' = "update_conn (se_conn e) ?c ?m"
  have conns: "mx_conns ?m = mx_conns m" by (simp add: removed_def)
  have get: "getEntry j ?m' = (if j = i then None else getEntry j m)" for j
    using getEntry_removed [of j i e m] by (simp add: update_conn_def)
  have tab: "table_ok ?m'"
  proof -
    have "wf_map (mx_streams ?m')" "mx_activeStreams ?m' = int (card (active_ids ?m'))"
      using removed_table(1) [OF inv Some] by (simp_all add: table_ok_def update_conn_def active_ids_def)
    moreover have "entry_ok ?m' j f" if "getEntry j ?m' = Some f" for j f
    proof -
      have "getEntry j ?m = Some f" using that by (simp add: update_conn_def)
      then have "entry_ok ?m j f" using removed_table(1) [OF inv Some] by (simp add: table_ok_def)
      moreover have "kc_conv (mx_conns ?m' ! q) = kc_conv (mx_conns ?m ! q)"
        if "q < length (mx_conns ?m)" for q
        using that by (cases "q = se_conn e") (simp_all add: update_conn_def)
      ultimately show ?thesis unfolding entry_ok_def by (auto simp: update_conn_def)
    qed
    ultimately show ?thesis unfolding table_ok_def by blast
  qed
  have leak: "no_leak ?m'" unfolding no_leak_def
  proof (intro allI impI)
    fix r assume "r < length (mx_conns ?m')"
    then have r: "r < length (mx_conns m)" by (simp add: update_conn_def conns)
    then consider "kc_closed (mx_conns m ! r)" | j f where "getEntry j m = Some f" "se_conn f = r"
      using inv unfolding core_inv_def no_leak_def by blast
    then show "kc_closed (mx_conns ?m' ! r) \<or> (\<exists>j f. getEntry j ?m' = Some f \<and> se_conn f = r)"
    proof cases
      case 1
      then show ?thesis using r by (cases "r = se_conn e") (simp_all add: update_conn_def conns)
    next
      case 2
      show ?thesis
      proof (cases "j = i")
        case True
        then have "se_conn e = r" using 2 Some by simp
        then show ?thesis using r by (simp add: update_conn_def conns)
      next
        case False
        then have "getEntry j ?m' = Some f" unfolding get using 2 by simp
        then show ?thesis using 2(2) by blast
      qed
    qed
  qed
  have "acks_distinct ?m'"
    using removed_table(2) [OF inv Some] by (simp add: acks_distinct_def update_conn_def)
  then show ?thesis using tab leak by (simp add: core_inv_def removeStream_eq [OF inv Some])
qed

lemma flags_ok_removeStream:
  assumes "core_inv m" "flags_ok m"
  shows "flags_ok (removeStream i err m)"
proof (cases "getEntry i m")
  case None
  then show ?thesis using assms by (simp add: removeStream_def)
next
  case (Some e)
  have "flags_ok (removed i e m)" using assms(2) by (auto simp: flags_ok_def removed_def)
  then show ?thesis by (simp add: removeStream_eq [OF assms(1) Some])
qed

lemma mux_inv_removeStream: "mux_inv m \<Longrightarrow> mux_inv (removeStream i err m)"
  by (simp add: mux_inv_core core_inv_removeStream flags_ok_removeStream)

lemma getEntry_removeStream:
  "core_inv m \<Longrightarrow> getEntry j (removeStream i err m) = (if j = i then None else getEntry j m)"
  by (cases "getEntry i m") (simp add: removeStream_def, simp add: removeStream_eq update_conn_def getEntry_removed)

end
