(* ===== verification/KcpMuxSteps.thy ===== *)
theory KcpMuxSteps
  imports KcpMuxInv
begin

text \<open>
  Every operation of the stream multiplexer keeps the invariant, hence it holds in every
  reachable state; and the properties that follow.
\<close>

section \<open>Stream identifiers\<close>

text \<open>
  The identifiers of one side are the 32-bit numbers of one parity, walked in steps of two.
\<close>

lemma unat_add_2: "unat (i + 2 :: u32) = (unat i + 2) mod 2 ^ 32"
  by (simp add: unat_word_ariths)

interpretation stream_ids: id_cycle "\<lambda>i :: u32. i + 2" "\<lambda>i. unat i div 2" "2 ^ 31"
    "\<lambda>i. odd (unat i) \<longleftrightarrow> client" for client :: bool
proof
  fix i j :: u32
  assume i: "odd (unat i) \<longleftrightarrow> client"
  have lt: "unat i < 2 ^ 32" using unsigned_less [of i] by simp
  show "unat i div 2 < 2 ^ 31" using lt by simp
  show "odd (unat (i + 2)) \<longleftrightarrow> client" using i by (simp add: unat_add_2 even_iff_mod_2_eq_zero mod_mod_cancel)
  have "(unat i + 2) mod (2 * 2 ^ 31) div 2 = (unat i + 2) div 2 mod 2 ^ 31"
    by (simp only: mod_mult2_eq)
  then show "unat (i + 2) div 2 = (unat i div 2 + 1) mod 2 ^ 31" by (simp add: unat_add_2)
  assume j: "odd (unat j) \<longleftrightarrow> client" and eq: "unat i div 2 = unat j div 2"
  have "unat i mod 2 = unat j mod 2" using i j by (auto simp: odd_iff_mod_2_eq_one even_iff_mod_2_eq_zero)
  with eq have "unat i = unat j" by (metis div_mult_mod_eq)
  then show "i = j" by (rule unsigned_word_eqI)
qed

lemma unat_widen: "unat (ucast (i :: u32) :: u64) = unat i"
proof -
  have "unat i < 2 ^ 64" using unsigned_less [of i] by (rule less_trans) simp
  then show ?thesis by (simp add: unsigned_ucast_eq take_bit_eq_mod)
qed

lemma unat_narrow: "unat (i :: u64) < 2 ^ 32 \<Longrightarrow> unat (ucast i :: u32) = unat i"
  by (simp add: unsigned_ucast_eq take_bit_eq_mod)

lemma allocate_spec:
  assumes "odd (unat (mx_nextLocalStreamID m)) \<longleftrightarrow> client" "unat (mx_nextLocalStreamID m) < 2 ^ 32"
  obtains (fresh) i n where "allocateLocalStreamID m = Some (Inr i, m\<lparr>mx_nextLocalStreamID := n\<rparr>)"
      "getEntry i m = None" "unat i < 2 ^ 32" "odd (unat i) \<longleftrightarrow> client"
      "unat n < 2 ^ 32" "odd (unat n) \<longleftrightarrow> client"
    | (exhausted) "allocateLocalStreamID m = Some (Inl ErrStreamIDExhausted, m)"
      "\<forall>i. unat i < 2 ^ 32 \<longrightarrow> (odd (unat i) \<longleftrightarrow> client) \<longrightarrow> getEntry i m \<noteq> None"
proof -
  let ?s = "ucast (mx_nextLocalStreamID m) :: u32"
  have s: "odd (unat ?s) \<longleftrightarrow> client"
    using assms by (simp add: unat_narrow)
  let ?used = "\<lambda>i :: u32. map_get (mx_streams m) (ucast i) \<noteq> None"
  have "allocate_stream_loop ?s (mx_streams m) i = (if \<not> ?used i then Some (Inr i)
      else if i + 2 = ?s then Some (Inl ErrStreamIDExhausted)
      else allocate_stream_loop ?s (mx_streams m) (i + 2))" for i
    using allocate_stream_loop.simps [of ?s "mx_streams m" i] by auto
  from stream_ids.search [of "allocate_stream_loop ?s (mx_streams m)" ?used, OF this s]
  show ?thesis
  proof (elim disjE exE conjE)
    fix i assume i: "odd (unat i) \<longleftrightarrow> client" "\<not> ?used i"
      "allocate_stream_loop ?s (mx_streams m) ?s = Some (Inr i)"
    have "odd (unat (i + 2)) \<longleftrightarrow> client" using i(1) stream_ids.bump_valid [of i client] by simp
    moreover have "unat i < 2 ^ 32" "unat (i + 2) < 2 ^ 32"
      using unsigned_less [of i] unsigned_less [of "i + 2"] by simp_all
    ultimately show ?thesis using fresh [of "ucast i" "ucast (i + 2)"] i
      by (simp add: allocateLocalStreamID_def getEntry_def unat_widen)
  next
    assume "\<forall>i. (odd (unat i) \<longleftrightarrow> client) \<longrightarrow> ?used i"
      and l: "allocate_stream_loop ?s (mx_streams m) ?s = Some (Inl ErrStreamIDExhausted)"
    then have all: "(odd (unat (i :: u32)) \<longleftrightarrow> client) \<Longrightarrow> getEntry (ucast i) m \<noteq> None" for i
      by (simp add: getEntry_def)
    have "getEntry i m \<noteq> None" if "unat i < 2 ^ 32" "odd (unat i) \<longleftrightarrow> client" for i :: u64
    proof -
      have "unat (ucast i :: u32) = unat i" using that(1) by (rule unat_narrow)
      moreover from this have "ucast (ucast i :: u32) = i"
        by (metis unat_widen unsigned_word_eqI)
      ultimately show ?thesis using all [of "ucast i"] that(2) by simp
    qed
    then show ?thesis using exhausted l by (simp add: allocateLocalStreamID_def)
  qed
qed

section \<open>Every operation keeps the invariant\<close>

lemma mux_invD:
  assumes "mux_inv m"
  shows "core_inv m" "flags_ok m"
  using assms by (simp_all add: mux_inv_core)

lemma mux_inv_open_flags:
  assumes "mux_inv m" "getEntry i m = Some e"
  shows "\<not> mx_closing m"
  using assms by (auto simp: mux_inv_core flags_ok_def getEntry_def)

lemma reset_fields [simp]:
  "se_streamID (resetIdleTimer now m e) = se_streamID e" "se_conn (resetIdleTimer now m e) = se_conn e"
  "se_active (resetIdleTimer now m e) = se_active e" "se_queued (resetIdleTimer now m e) = se_queued e"
  "se_localClose (resetIdleTimer now m e) = se_localClose e"
  "se_closeAckCh (resetIdleTimer now m e) = se_closeAckCh e"
  "se_closeAckSet (resetIdleTimer now m e) = se_closeAckSet e"
  by (simp_all add: resetIdleTimer_def)

lemma entry_ok_reset [simp]: "entry_ok m' i (resetIdleTimer now m e) = entry_ok m' i e"
  by (simp add: entry_ok_def)

lemma touch_core: "core_inv m \<Longrightarrow> core_inv (touchStream now i m)"
proof (cases "getEntry i m")
  case (Some e)
  assume inv: "core_inv m"
  have i: "entry_ok m i e" "se_streamID e = i" using core_entry [OF inv Some] by (auto simp: entry_ok_def)
  have "core_inv (put_entry (resetIdleTimer now m e) m)"
    by (rule core_inv_put [OF inv, of _ e]) (use Some i in simp_all)
  then show ?thesis by (simp add: touchStream_def Some)
qed (simp add: touchStream_def)

lemma mux_inv_touch: "mux_inv m \<Longrightarrow> mux_inv (touchStream now i m)"
proof (cases "getEntry i m")
  case (Some e)
  assume inv: "mux_inv m"
  have "flags_ok (put_entry (resetIdleTimer now m e) m)"
    using flags_ok_put mux_inv_open_flags [OF inv Some] mux_invD(2) [OF inv] by blast
  then show ?thesis using touch_core [OF mux_invD(1) [OF inv], of now i]
    by (simp add: mux_inv_core touchStream_def Some)
qed (simp add: touchStream_def)

lemma getEntry_touch:
  "core_inv m \<Longrightarrow> getEntry j (touchStream now i m) =
     (if j = i then map_option (resetIdleTimer now m) (getEntry i m) else getEntry j m)"
  using core_entry [of m i] by (auto simp: touchStream_def entry_ok_def split: option.split)

lemma mux_inv_spawn [simp]: "mux_inv (spawn_sendClose i r m) = mux_inv m"
  by (simp add: mux_inv_core spawn_sendClose_def)

lemma mux_inv_send [simp]:
  "mux_inv (sendClose env i r m) = mux_inv m" "mux_inv (sendCloseAck env i m) = mux_inv m"
  "mux_inv (snd (sendFrame env i ft p m)) = mux_inv m"
  by (simp_all add: mux_inv_core)

lemma NewKCPConn_conv [simp]: "kc_conv (NewKCPConn now conv) = conv"
  by (simp add: NewKCPConn_def)

lemma mux_inv_handleOpen:
  assumes inv: "mux_inv m" and small: "unat i < 2 ^ 32"
  shows "mux_inv (handleOpen now i m)"
proof (cases "\<not> mx_closing m \<and> mx_acceptingRemote m \<and> getEntry i m = None
    \<and> mx_activeStreams m < mc_MaxActiveStreams (mx_config m)
    \<and> int (length (mx_acceptCh m)) < mc_AcceptBacklog (mx_config m)")
  case True
  note core = mux_invD(1) [OF inv] and flags = mux_invD(2) [OF inv]
  define e where "e = resetIdleTimer now (m\<lparr>mx_conns := mx_conns m @ [NewKCPConn now (ucast i)]\<rparr>)
    \<lparr>se_streamID = i, se_conn = length (mx_conns m), se_active = False, se_queued = True,
     se_localClose = False, se_closeAckCh = None, se_closeAckSet = False, se_idleTimer = None\<rparr>"
  have e: "se_streamID e = i" "se_conn e = length (mx_conns m)" "\<not> se_active e" "se_queued e"
    "se_closeAckCh e = None" "\<not> se_localClose e" "\<not> se_closeAckSet e" by (simp_all add: e_def)
  have closed: "\<not> mx_closed m" using flags True by (simp add: flags_ok_def)
  let ?n = "m\<lparr>mx_conns := mx_conns m @ [NewKCPConn now (ucast i)],
     mx_acceptCh := mx_acceptCh m @ [i], mx_activeStreams := mx_activeStreams m\<rparr>"
  have eq: "handleOpen now i m = put_entry e ?n"
    using True closed by (simp add: handleOpen_def newStreamEntry_def e_def resetIdleTimer_def)
  have "core_inv (put_entry e ?n)"
    using True e small by (intro core_inv_new [OF core]) auto
  moreover have "flags_ok (put_entry e ?n)"
    using flags True by (intro flags_ok_put) (auto simp: flags_ok_def)
  ultimately show ?thesis by (simp add: eq mux_inv_core)
next
  case False
  then show ?thesis using inv mux_invD(2) [OF inv]
    by (auto simp: handleOpen_def flags_ok_def)
qed

text \<open>What \<^verbatim>\<open>Open\<close> does on a multiplexer that is not closed.\<close>

lemma Open_shape:
  assumes inv: "mux_inv m" and opened: "\<not> mx_closing m"
  obtains (fresh) i e m2 where "mux_inv m2" "getEntry i m = None" "unat i < 2 ^ 32"
      "odd (unat i) \<longleftrightarrow> mx_isClient m"
      "\<And>j. getEntry j m2 = (if j = i then Some e else getEntry j m)"
      "se_streamID e = i" "se_conn e = length (mx_conns m)" "se_active e"
      "mx_conns m2 = mx_conns m @ [NewKCPConn now (ucast i)]"
      "mx_serviceID m2 = mx_serviceID m \<and> mx_log m2 = mx_log m"
      "Open env now m = (case sendFrame env i kcpMuxFrameOpen [] m2 of
          (Some err, m3) \<Rightarrow> Some (Inl err, removeStream i ErrConnClosedLocal m3)
        | (None, m3) \<Rightarrow> Some (Inr (i, length (mx_conns m)), m3))"
    | (exhausted) "Open env now m = Some (Inl ErrStreamIDExhausted, m)"
      "\<forall>i. unat i < 2 ^ 32 \<longrightarrow> (odd (unat i) \<longleftrightarrow> mx_isClient m) \<longrightarrow> getEntry i m \<noteq> None"
proof -
  note core = mux_invD(1) [OF inv] and flags = mux_invD(2) [OF inv]
  have closed: "\<not> mx_closed m" using flags opened by (simp add: flags_ok_def)
  have "odd (unat (mx_nextLocalStreamID m)) \<longleftrightarrow> mx_isClient m" "unat (mx_nextLocalStreamID m) < 2 ^ 32"
    using flags by (simp_all add: flags_ok_def)
  then show ?thesis
  proof (cases rule: allocate_spec)
    case (fresh i n)
    define m1 where "m1 = m\<lparr>mx_nextLocalStreamID := n\<rparr>"
    define x where "x = m1\<lparr>mx_conns := mx_conns m1 @ [NewKCPConn now (ucast i)]\<rparr>"
    define e where "e = resetIdleTimer now x
      \<lparr>se_streamID = i, se_conn = length (mx_conns m1), se_active = True, se_queued = False,
       se_localClose = False, se_closeAckCh = None, se_closeAckSet = False, se_idleTimer = None\<rparr>"
    have e: "se_streamID e = i" "se_conn e = length (mx_conns m1)" "se_active e" "\<not> se_queued e"
      "se_closeAckCh e = None" "\<not> se_localClose e" "\<not> se_closeAckSet e" by (simp_all add: e_def)
    define m2 where "m2 = (put_entry e x)\<lparr>mx_activeStreams := mx_activeStreams x + 1\<rparr>"
    have m2: "m2 = put_entry e (m1\<lparr>mx_conns := mx_conns m1 @ [NewKCPConn now (ucast i)],
       mx_acceptCh := mx_acceptCh m1, mx_activeStreams := mx_activeStreams m1 + 1\<rparr>)"
      by (simp add: m2_def x_def put_entry_def)
    have core1: "core_inv m1" using core by (simp add: m1_def)
    have "core_inv m2" unfolding m2
      using e fresh(2,3) by (intro core_inv_new [OF core1]) (auto simp: m1_def)
    moreover have "flags_ok m2" unfolding m2
      using flags opened fresh(5,6) by (intro flags_ok_put) (auto simp: flags_ok_def m1_def)
    ultimately have inv2: "mux_inv m2" by (simp add: mux_inv_core)
    have new: "newStreamEntry now i m1 = (\<lparr>se_streamID = i, se_conn = length (mx_conns m1),
       se_active = False, se_queued = False, se_localClose = False, se_closeAckCh = None,
       se_closeAckSet = False, se_idleTimer = None\<rparr>, x)"
      by (simp add: newStreamEntry_def x_def)
    have "wrapStream e = (i, length (mx_conns m))" by (simp add: wrapStream_def e) (simp add: m1_def)
    then have "Open env now m = (case sendFrame env i kcpMuxFrameOpen [] m2 of
          (Some err, m3) \<Rightarrow> Some (Inl err, removeStream i ErrConnClosedLocal m3)
        | (None, m3) \<Rightarrow> Some (Inr (i, length (mx_conns m)), m3))"
      using opened closed
      by (simp add: Open_def fresh(1) m1_def [symmetric] new e_def [symmetric] m2_def [symmetric]
          split: prod.split option.split)
    then show ?thesis using that(1) [of m2 i e] inv2 fresh e
      by (simp add: m2) (simp add: m1_def put_entry_def)
  next
    case exhausted
    then show ?thesis using that(2) opened closed by (simp add: Open_def)
  qed
qed

lemma mux_inv_Open:
  assumes inv: "mux_inv m" and o: "Open env now m = Some (res, m')"
  shows "mux_inv m'"
proof (cases "mx_closing m")
  case True
  then show ?thesis using inv o by (auto simp: Open_def)
next
  case False
  with inv show ?thesis
  proof (cases rule: Open_shape [where env = env and now = now])
    case (fresh i e m2)
    obtain err m3 where s: "sendFrame env i kcpMuxFrameOpen [] m2 = (err, m3)" by fastforce
    have "mux_inv m3" using fresh(1) mux_inv_send(3) [of env i kcpMuxFrameOpen "[]" m2] by (simp add: s)
    then show ?thesis using o fresh(11) mux_inv_removeStream by (auto simp: s split: option.splits)
  next
    case exhausted
    then show ?thesis using o inv by simp
  qed
qed

text \<open>Accepting turns a queued stream into an active one.\<close>

lemma core_inv_accept:
  assumes inv: "core_inv m" and e: "getEntry i m = Some e" "se_queued e"
  shows "core_inv (put_entry (resetIdleTimer now m (e\<lparr>se_queued := False, se_active := True\<rparr>))
           (m\<lparr>mx_activeStreams := mx_activeStreams m + 1\<rparr>))"
proof -
  let ?e = "resetIdleTimer now m (e\<lparr>se_queued := False, se_active := True\<rparr>)"
  let ?m = "put_entry ?e (m\<lparr>mx_activeStreams := mx_activeStreams m + 1\<rparr>)"
  have ok: "entry_ok m i e" by (rule core_entry [OF inv e(1)])
  then have i: "se_streamID e = i" and na: "\<not> se_active e" using e(2) by (simp_all add: entry_ok_def)
  have get: "getEntry j ?m = (if j = i then Some ?e else getEntry j m)" for j by (simp add: i)
  have "active_ids ?m = insert i (active_ids m)" by (auto simp: active_ids_def i)
  moreover have "i \<notin> active_ids m" using e(1) na by (simp add: active_ids_def)
  ultimately have "mx_activeStreams ?m = int (card (active_ids ?m))"
    using inv finite_active [of m] by (simp add: core_inv_def table_ok_def)
  moreover have "entry_ok ?m j f" if "getEntry j ?m = Some f" for j f
    using that ok core_entry [OF inv, of j f] unfolding get by (auto simp: entry_ok_def split: if_splits)
  moreover have "wf_map (mx_streams ?m)" using inv by (simp add: core_inv_def table_ok_def put_entry_def)
  ultimately have "table_ok ?m" unfolding table_ok_def by blast
  moreover have "no_leak ?m" unfolding no_leak_def
  proof (intro allI impI)
    fix r assume "r < length (mx_conns ?m)"
    then consider "kc_closed (mx_conns m ! r)" | j f where "getEntry j m = Some f" "se_conn f = r"
      using inv unfolding core_inv_def no_leak_def by auto
    then show "kc_closed (mx_conns ?m ! r) \<or> (\<exists>j f. getEntry j ?m = Some f \<and> se_conn f = r)"
    proof cases
      case 2
      then have "\<exists>g. getEntry j ?m = Some g \<and> se_conn g = r" unfolding get using e(1) by auto
      then show ?thesis by blast
    qed simp
  qed
  moreover have "acks_distinct ?m"
    using inv e(1) i acks_distinctD [of m]
    by (intro acks_distinctI) (auto simp: core_inv_def split: if_splits)
  ultimately show ?thesis by (simp add: core_inv_def)
qed

text \<open>Taking an identifier from the queue may leave its stream queued only for an instant.\<close>

lemma core_inv_queue:
  assumes "core_inv m" "set (mx_acceptCh m) - {i} \<subseteq> set q"
    "getEntry i m = None \<or> (\<exists>e. getEntry i m = Some e \<and> \<not> se_queued e) \<or> i \<in> set q"
  shows "core_inv (m\<lparr>mx_acceptCh := q\<rparr>)"
proof -
  have "entry_ok (m\<lparr>mx_acceptCh := q\<rparr>) j e" if "getEntry j m = Some e" for j e
    using core_entry [OF assms(1) that] assms(2,3) that by (auto simp: entry_ok_def)
  then show ?thesis using assms(1)
    by (simp add: core_inv_def table_ok_def no_leak_def acks_distinct_def active_ids_def)
qed

lemma flags_ok_open: "flags_ok m \<Longrightarrow> mx_closed m = mx_closing m"
  by (simp add: flags_ok_def)

lemma accept_pop:
  assumes inv: "mux_inv m" and q: "mx_acceptCh m = i # rest"
  shows "mux_inv (snd (acceptQueued now i (m\<lparr>mx_acceptCh := rest\<rparr>)))"
proof -
  note core = mux_invD(1) [OF inv] and flags = mux_invD(2) [OF inv]
  have fl: "flags_ok (m\<lparr>mx_acceptCh := rest\<rparr>)" using flags q by (simp add: flags_ok_def)
  show ?thesis
  proof (cases "\<exists>e. getEntry i m = Some e \<and> se_queued e")
    case False
    then have "core_inv (m\<lparr>mx_acceptCh := rest\<rparr>)"
      using q by (intro core_inv_queue [OF core, where i = i]) auto
    then show ?thesis using fl False
      by (auto simp: acceptQueued_def mux_inv_core split: option.split)
  next
    case True
    then obtain e where e: "getEntry i m = Some e" "se_queued e" by blast
    have ok: "entry_ok m i e" by (rule core_entry [OF core e(1)])
    then have acc: "mx_acceptingRemote m" and i: "se_streamID e = i"
      using e(2) by (simp_all add: entry_ok_def)
    then have opened: "\<not> mx_closing m" "\<not> mx_closed m" using flags by (auto simp: flags_ok_def)
    let ?e = "resetIdleTimer now m (e\<lparr>se_queued := False, se_active := True\<rparr>)"
    let ?m = "put_entry ?e (m\<lparr>mx_activeStreams := mx_activeStreams m + 1\<rparr>)"
    have "core_inv (?m\<lparr>mx_acceptCh := rest\<rparr>)"
      using q i by (intro core_inv_queue [OF core_inv_accept [OF core e], where i = i]) auto
    moreover have "flags_ok (?m\<lparr>mx_acceptCh := rest\<rparr>)"
      using fl opened by (simp add: flags_ok_def put_entry_def)
    moreover have "snd (acceptQueued now i (m\<lparr>mx_acceptCh := rest\<rparr>)) = ?m\<lparr>mx_acceptCh := rest\<rparr>"
      using opened acc e by (simp add: acceptQueued_def put_entry_def resetIdleTimer_def Let_def)
    ultimately show ?thesis by (simp add: mux_inv_core)
  qed
qed

lemma mux_inv_Accept: "mux_inv m \<Longrightarrow> mux_inv (snd (Accept now choices m))"
proof (induction now choices m rule: Accept.induct)
  case (2 now choices m)
  show ?case
  proof (cases "mx_acceptCh m")
    case Nil
    then show ?thesis using 2 by simp
  next
    case (Cons i rest)
    have inv: "mux_inv (snd (acceptQueued now i (m\<lparr>mx_acceptCh := rest\<rparr>)))"
      by (rule accept_pop [OF 2(3) Cons])
    obtain res m' where r: "acceptQueued now i (m\<lparr>mx_acceptCh := rest\<rparr>) = (res, m')" by fastforce
    show ?thesis
      using inv 2(2) [OF Cons r [symmetric]] by (auto simp: Cons r split: sum.split option.split)
  qed
qed auto

lemma acks_others:
  assumes "core_inv m" "getEntry i m = Some e" "se_closeAckCh e = Some c"
    "j \<noteq> i" "getEntry j m = Some f" "se_closeAckCh f = Some ch"
  shows "ch \<noteq> c" "ch < length (mx_ackChs m)"
  using acks_distinctD [of m j f i e c] assms core_entry [OF assms(1,5)]
  by (auto simp: core_inv_def entry_ok_def)

lemma mux_inv_handleCloseAck:
  assumes inv: "mux_inv m"
  shows "mux_inv (handleCloseAck i m)"
proof (cases "getEntry i m")
  case None
  then show ?thesis using inv by (simp add: handleCloseAck_def)
next
  case (Some e)
  note core = mux_invD(1) [OF inv] and flags = mux_invD(2) [OF inv]
  have ok: "entry_ok m i e" by (rule core_entry [OF core Some])
  then have i: "se_streamID e = i" by (simp add: entry_ok_def)
  let ?m = "if se_closeAckCh e \<noteq> None \<and> \<not> se_closeAckSet e
     then put_entry (e\<lparr>se_closeAckSet := True\<rparr>) (close_ack_channel e m) else m"
  have "mux_inv ?m"
  proof (cases "se_closeAckCh e \<noteq> None \<and> \<not> se_closeAckSet e")
    case True
    then obtain c where c: "se_closeAckCh e = Some c" by blast
    let ?chs = "(mx_ackChs m)[c := True]"
    have "core_inv (put_entry (e\<lparr>se_closeAckSet := True\<rparr>) (m\<lparr>mx_ackChs := ?chs\<rparr>))"
    proof (rule core_inv_put_ack [OF core, of _ e])
      fix j f ch
      assume "j \<noteq> se_streamID (e\<lparr>se_closeAckSet := True\<rparr>)" "getEntry j m = Some f" "se_closeAckCh f = Some ch"
      then show "ch < length ?chs \<and> ?chs ! ch = mx_ackChs m ! ch"
        and "se_closeAckCh (e\<lparr>se_closeAckSet := True\<rparr>) \<noteq> Some ch"
        using acks_others [OF core Some c, of j f ch] c by (auto simp: i)
    qed (use Some i ok c in \<open>auto simp: entry_ok_def\<close>)
    moreover have "flags_ok (put_entry (e\<lparr>se_closeAckSet := True\<rparr>) (m\<lparr>mx_ackChs := ?chs\<rparr>))"
      using flags mux_inv_open_flags [OF inv Some] by (intro flags_ok_put) simp_all
    ultimately show ?thesis using True c by (simp add: mux_inv_core close_ack_channel_def)
  next
    case False
    then show ?thesis using inv by (simp only: if_False)
  qed
  then show ?thesis using mux_inv_removeStream unfolding handleCloseAck_def Some Let_def by simp
qed

lemma mux_inv_update_conn:
  "mux_inv m \<Longrightarrow> kc_conv (f (mx_conns m ! r)) = kc_conv (mx_conns m ! r) \<Longrightarrow>
   (kc_closed (mx_conns m ! r) \<Longrightarrow> kc_closed (f (mx_conns m ! r))) \<Longrightarrow> mux_inv (update_conn r f m)"
  by (simp add: mux_inv_core core_inv_update_conn)

lemma conn_Input_keeps:
  "(err, c') \<in> set (conn_Input now d c) \<Longrightarrow> kc_conv c' = kc_conv c \<and> kc_closed c' = kc_closed c"
  by (auto simp: conn_Input_def vpc_Input_def conn_touch_def split: if_splits)

lemma mux_inv_closeStream:
  assumes inv: "mux_inv m"
  shows "mux_inv (snd (closeStream env now later i m))"
proof (cases "getEntry i m")
  case None
  then show ?thesis using inv by (simp add: closeStream_def)
next
  case (Some e)
  note core = mux_invD(1) [OF inv] and flags = mux_invD(2) [OF inv]
  have ok: "entry_ok m i e" by (rule core_entry [OF core Some])
  then have i: "se_streamID e = i" by (simp add: entry_ok_def)
  let ?c = "length (mx_ackChs m)" and ?chs = "mx_ackChs m @ [False]"
  let ?x = "m\<lparr>mx_ackChs := ?chs\<rparr>"
  let ?e = "resetIdleTimer now ?x (e\<lparr>se_localClose := True, se_closeAckCh := Some ?c\<rparr>)"
  show ?thesis
  proof (cases "se_localClose e")
    case True
    then show ?thesis using inv by (simp add: closeStream_def Some)
  next
    case False
    have "core_inv (put_entry ?e ?x)"
    proof (rule core_inv_put_ack [OF core, of _ e])
      fix j f ch
      assume "j \<noteq> se_streamID ?e" "getEntry j m = Some f" "se_closeAckCh f = Some ch"
      then show "ch < length ?chs \<and> ?chs ! ch = mx_ackChs m ! ch" and "se_closeAckCh ?e \<noteq> Some ch"
        using core_entry [OF core, of j f] by (auto simp: entry_ok_def nth_append)
    qed (use Some i ok False in \<open>auto simp: entry_ok_def\<close>)
    moreover have "flags_ok (put_entry ?e ?x)"
      using flags mux_inv_open_flags [OF inv Some] by (intro flags_ok_put) simp_all
    ultimately have "mux_inv (put_entry ?e ?x)" by (simp add: mux_inv_core)
    then have "mux_inv (update_conn r (closeSignal s) (put_entry ?e ?x))" for r s
      by (rule mux_inv_update_conn) simp_all
    then show ?thesis using inv False
      unfolding closeStream_def Some Let_def by (simp split: option.split)
  qed
qed

text \<open>
  Stopping and closing change the flags first and then remove streams. The stream operations do
  not look at those flags, so the flags may as well be changed last.
\<close>

definition set_flags :: "bool \<Rightarrow> bool \<Rightarrow> KcpMux \<Rightarrow> KcpMux" where
  "set_flags stop closing m =
     m\<lparr>mx_acceptingRemote := False, mx_acceptStopClosed := stop, mx_closing := closing,
       mx_closeChClosed := closing, mx_closeOnce := closing\<rparr>"

lemma getEntry_set_flags [simp]: "getEntry i (set_flags s c m) = getEntry i m"
  by (simp add: set_flags_def)

lemma removeStream_flags: "removeStream i err (set_flags s c m) = set_flags s c (removeStream i err m)"
  unfolding removeStream_def getEntry_set_flags
  by (auto simp: set_flags_def Let_def close_ack_channel_def update_conn_def split: option.split)

lemma sendClose_flags: "sendClose env i r (set_flags s c m) = set_flags s c (sendClose env i r m)"
  by (simp add: sendClose_def sendFrame_def Let_def reportOutput_def emit_def set_flags_def split: option.split)

lemma put_entry_flags: "put_entry e (set_flags s c m) = set_flags s c (put_entry e m)"
  by (simp add: put_entry_def set_flags_def)

lemma update_conn_set_flags: "update_conn r f (set_flags s c m) = set_flags s c (update_conn r f m)"
  by (simp add: update_conn_def set_flags_def)

lemma ackChs_flags:
  "(set_flags s c m)\<lparr>mx_ackChs := a\<rparr> = set_flags s c (m\<lparr>mx_ackChs := a\<rparr>)"
  by (simp add: set_flags_def)

lemma set_flags_fields [simp]:
  "mx_ackChs (set_flags s c m) = mx_ackChs m" "mx_conns (set_flags s c m) = mx_conns m"
  "mx_config (set_flags s c m) = mx_config m" "mx_closed (set_flags s c m) = mx_closed m"
  "mx_streams (set_flags s c m) = mx_streams m"
  by (simp_all add: set_flags_def)

lemma resetIdleTimer_flags [simp]: "resetIdleTimer now (set_flags s c m) e = resetIdleTimer now m e"
  by (simp add: resetIdleTimer_def)

lemma closeStream_flags:
  "snd (closeStream env now later i (set_flags s c m)) = set_flags s c (snd (closeStream env now later i m))"
  by (simp add: closeStream_def Let_def ackChs_flags put_entry_flags update_conn_set_flags
      sendClose_flags split: option.split)

lemma fold_commute: "(\<And>x m. f x (g m) = g (f x m)) \<Longrightarrow> fold f xs (g m) = g (fold f xs m)"
  by (induction xs arbitrary: m) simp_all

lemma fold_inv: "(\<And>x m. P m \<Longrightarrow> P (f x m)) \<Longrightarrow> P m \<Longrightarrow> P (fold f xs m)"
  by (induction xs arbitrary: m) simp_all

lemma getEntry_fold_remove:
  "mux_inv m \<Longrightarrow> getEntry i (fold (\<lambda>i. removeStream i err) is m)
     = (if i \<in> set is then None else getEntry i m)"
proof (induction "is" arbitrary: m)
  case (Cons j js)
  have "mux_inv (removeStream j err m)" using Cons.prems by (rule mux_inv_removeStream)
  from Cons.IH [OF this] show ?case
    by (simp add: getEntry_removeStream [OF mux_invD(1) [OF Cons.prems]])
qed simp

lemma removeStream_static [simp]:
  "mx_acceptCh (removeStream i err m) = mx_acceptCh m"
  "mx_config (removeStream i err m) = mx_config m"
  "mx_isClient (removeStream i err m) = mx_isClient m"
  "mx_nextLocalStreamID (removeStream i err m) = mx_nextLocalStreamID m"
  "mx_closed (removeStream i err m) = mx_closed m"
  "mx_closing (removeStream i err m) = mx_closing m"
  "mx_acceptingRemote (removeStream i err m) = mx_acceptingRemote m"
  by (auto simp: removeStream_def Let_def close_ack_channel_def update_conn_def split: option.split)

lemma core_inv_no_queue:
  assumes "core_inv m" "\<And>i e. getEntry i m = Some e \<Longrightarrow> \<not> se_queued e"
  shows "core_inv (set_flags s c m)"
proof -
  have "entry_ok (set_flags s c m) i e" if "getEntry i m = Some e" for i e
    using core_entry [OF assms(1) that] assms(2) [OF that]
    by (simp add: entry_ok_def set_flags_def)
  then show ?thesis using assms(1)
    by (simp add: core_inv_def table_ok_def no_leak_def acks_distinct_def active_ids_def)
      (simp add: set_flags_def)
qed

lemma map_of_filter_keys:
  "wf_map m \<Longrightarrow> map_get m i = Some e \<Longrightarrow> i \<in> set (map fst (filter (\<lambda>(_, e). P e) m)) \<longleftrightarrow> P e"
  using wf_map_mem [of m i] by (auto simp: image_iff)

lemma mux_inv_StopAccepting:
  assumes inv: "mux_inv m"
  shows "mux_inv (StopAccepting env m)"
proof (cases "mx_closed m \<or> mx_closing m \<or> \<not> mx_acceptingRemote m")
  case True
  then show ?thesis using inv by (simp add: StopAccepting_def)
next
  case False
  note core = mux_invD(1) [OF inv] and flags = mux_invD(2) [OF inv]
  let ?q = "map fst (filter (\<lambda>(_, entry). se_queued entry \<and> \<not> se_active entry) (mx_streams m))"
  let ?rm = "fold (\<lambda>i. removeStream i ErrStreamAborted) ?q"
  let ?m = "?rm m"
  have inv': "mux_inv ?m" by (rule fold_inv [where P = mux_inv]) (simp_all add: mux_inv_removeStream inv)
  have noq: "\<not> se_queued e" if "getEntry i ?m = Some e" for i e
  proof -
    have i: "i \<notin> set ?q" "getEntry i m = Some e"
      using that unfolding getEntry_fold_remove [OF inv] by (simp_all split: if_splits)
    have "wf_map (mx_streams m)" using core by (simp add: core_inv_def table_ok_def)
    from map_of_filter_keys [OF this, of i e "\<lambda>e. se_queued e \<and> \<not> se_active e"] i core_entry [OF core i(2)]
    show ?thesis by (simp add: getEntry_def entry_ok_def)
  qed
  have start: "m\<lparr>mx_acceptingRemote := False\<rparr> = set_flags False False m"
    using False flags by (simp add: set_flags_def flags_ok_def)
  have static: "mx_acceptCh ?m = mx_acceptCh m \<and> mx_config ?m = mx_config m
      \<and> mx_closing ?m = mx_closing m \<and> mx_closed ?m = mx_closed m"
    by (rule fold_inv [of "\<lambda>x. mx_acceptCh x = mx_acceptCh m \<and> mx_config x = mx_config m
      \<and> mx_closing x = mx_closing m \<and> mx_closed x = mx_closed m"]) simp_all
  let ?s = "(set_flags False False ?m)\<lparr>mx_acceptStopClosed := True\<rparr>"
  have eq: "StopAccepting env m = fold (\<lambda>i. sendClose env i streamCloseReasonAbort) ?q ?s"
    using False fold_commute [of "\<lambda>i. removeStream i ErrStreamAborted" "set_flags False False" ?q m]
    by (simp add: StopAccepting_def start removeStream_flags Let_def)
  have "core_inv ?s" using core_inv_no_queue [OF mux_invD(1) [OF inv'] noq] by simp
  moreover have "flags_ok ?s"
    using mux_invD(2) [OF inv'] static False by (simp add: flags_ok_def set_flags_def)
  ultimately have "mux_inv ?s" by (simp add: mux_inv_core)
  then show ?thesis unfolding eq by (rule fold_inv [rotated]) simp
qed

lemma mux_inv_Close:
  assumes inv: "mux_inv m"
  shows "mux_inv (Close env now later m)"
    and "mx_closed (Close env now later m)" "mx_streams (Close env now later m) = []"
proof -
  note core = mux_invD(1) [OF inv] and flags = mux_invD(2) [OF inv]
  let ?c = "\<lambda>i m. snd (closeStream env now later i m)" and ?r = "\<lambda>i. removeStream i ErrConnClosedLocal"
  let ?a = "fold ?c (map fst (mx_streams m)) m"
  let ?b = "fold ?r (map fst (mx_streams ?a)) ?a"
  let ?f = "set_flags True True ?b"
  have "mux_inv (Close env now later m) \<and> mx_closed (Close env now later m)
      \<and> mx_streams (Close env now later m) = []"
  proof (cases "mx_closeOnce m")
    case True
    then show ?thesis using inv flags by (simp add: Close_def flags_ok_def)
  next
    case False
    then have opened: "\<not> mx_closing m" "\<not> mx_closed m" using flags by (simp_all add: flags_ok_def)
    have inva: "mux_inv ?a"
      by (rule fold_inv [where P = mux_inv]) (simp_all add: mux_inv_closeStream inv)
    have invb: "mux_inv ?b"
      by (rule fold_inv [where P = mux_inv]) (simp_all add: mux_inv_removeStream inva)
    have none: "getEntry i ?b = None" for i
    proof (cases "i \<in> set (map fst (mx_streams ?a))")
      case False
      then have "getEntry i ?a = None" by (simp add: getEntry_def map_of_eq_None_iff)
      then show ?thesis unfolding getEntry_fold_remove [OF inva] by simp
    qed (simp only: getEntry_fold_remove [OF inva] if_True)
    have "map_of (mx_streams ?b) = Map.empty" using none by (simp add: getEntry_def fun_eq_iff)
    then have empty: "mx_streams ?b = []" by (simp only: map_of_eq_empty_iff)
    have start: "m\<lparr>mx_closeOnce := True, mx_acceptingRemote := False, mx_acceptStopClosed := True,
        mx_closing := True, mx_closeChClosed := True\<rparr> = set_flags True True m"
      by (simp add: set_flags_def)
    have "fold ?r is (fold ?c js (set_flags True True m)) = set_flags True True (fold ?r is (fold ?c js m))"
      for "is" js
      by (simp add: fold_commute [of ?c "set_flags True True"] fold_commute [of ?r "set_flags True True"]
          closeStream_flags removeStream_flags)
    moreover have "mx_streams (fold ?c js (set_flags True True m)) = mx_streams (fold ?c js m)" for js
      by (simp add: fold_commute [of ?c "set_flags True True"] closeStream_flags)
    ultimately have eq: "Close env now later m = ?f\<lparr>mx_closed := True\<rparr>"
      using False opened by (simp add: Close_def Let_def start)
    have "core_inv ?f" using none by (intro core_inv_no_queue [OF mux_invD(1) [OF invb]]) simp
    moreover have "flags_ok (?f\<lparr>mx_closed := True\<rparr>)"
      using mux_invD(2) [OF invb] empty by (simp add: flags_ok_def set_flags_def)
    ultimately show ?thesis using empty by (simp add: eq mux_inv_core)
  qed
  then show "mux_inv (Close env now later m)" "mx_closed (Close env now later m)"
    "mx_streams (Close env now later m) = []" by blast+
qed

lemma mux_inv_wait: "mux_inv m \<Longrightarrow> m' \<in> set (waitForCloseAck i ch timeout m) \<Longrightarrow> mux_inv m'"
  using mux_inv_removeStream by (auto simp: waitForCloseAck_def split: option.splits if_splits)

lemma mux_inv_idle: "mux_inv m \<Longrightarrow> mux_inv (idle_fires now i m)"
  using mux_inv_removeStream by (simp add: idle_fires_def split: option.split)

lemma mux_inv_run_spawned: "mux_inv m \<Longrightarrow> mux_inv (run_spawned env i m)"
  by (auto simp: run_spawned_def mux_inv_core split: prod.split)

lemma mux_inv_report [simp]: "mux_inv (reportOutput env err m) = mux_inv m"
  by (simp add: reportOutput_def emit_def mux_inv_core split: option.split)

lemma mux_inv_stream_output:
  assumes "mux_inv m"
  shows "mux_inv (stream_output env now i d m)"
proof -
  obtain err m' where s: "sendFrame env i kcpMuxFrameData d (touchStream now i m) = (err, m')"
    by fastforce
  have "mux_inv m'"
    using mux_inv_send(3) [of env i kcpMuxFrameData d "touchStream now i m"] mux_inv_touch [OF assms]
    by (simp add: s)
  then show ?thesis by (simp add: stream_output_def s split: option.split)
qed

lemma conn_Read_keeps: "conn_Read now r c = (x, c') \<Longrightarrow> kc_conv c' = kc_conv c \<and> kc_closed c' = kc_closed c"
  by (auto simp: conn_Read_def conn_touch_def split: if_splits option.splits prod.splits)

lemma conn_Write_keeps: "conn_Write now r c = (x, c') \<Longrightarrow> kc_conv c' = kc_conv c \<and> kc_closed c' = kc_closed c"
  by (auto simp: conn_Write_def conn_touch_def split: if_splits option.splits prod.splits)

lemma mux_inv_stream_Read: "mux_inv m \<Longrightarrow> mux_inv (snd (stream_Read now r s m))"
  using conn_Read_keeps [of now r "mx_conns m ! snd s"]
  by (auto simp: stream_Read_def intro: mux_inv_update_conn split: prod.split)

lemma mux_inv_stream_Write: "mux_inv m \<Longrightarrow> mux_inv (snd (stream_Write now r s m))"
  using conn_Write_keeps [of now r "mx_conns m ! snd s"]
  by (auto simp: stream_Write_def intro: mux_inv_update_conn split: prod.split)

lemma unat_decoded: "decodeMuxFrame n d = Inr (i, ft, p) \<Longrightarrow> unat i < 2 ^ 32"
  using unsigned_less [of "get_u32 (drop 1 d)"]
  by (auto simp: decodeMuxFrame_def decodeKCPConv_def Let_def unat_widen split: if_splits sum.splits)

lemma mux_inv_Input:
  assumes inv: "mux_inv m" and r: "(err, m') \<in> set (Input env now d m)"
  shows "mux_inv m'"
proof (cases "mx_closed m \<or> mx_closing m")
  case True
  then show ?thesis using inv r by (simp add: Input_def)
next
  case opened: False
  show ?thesis
  proof (cases "decodeMuxFrame (env_overhead env) d")
    case (Inl e)
    then show ?thesis using opened inv r by (simp add: Input_def)
  next
    case (Inr x)
    obtain i ft p where x: "x = (i, ft, p)" by (cases x)
    have small: "unat i < 2 ^ 32" using unat_decoded Inr x by blast
    note rm = mux_inv_removeStream [OF inv] and to = mux_inv_touch [OF inv]
      and op = mux_inv_handleOpen [OF inv small]
    have up: "mux_inv (update_conn (se_conn e) (\<lambda>_. c) n)"
      if "mux_inv n" "(er, c) \<in> set (conn_Input now p (mx_conns n ! se_conn e))" for n e er c
      using conn_Input_keeps [OF that(2)] that(1) by (intro mux_inv_update_conn) simp_all
    show ?thesis
      using r opened mux_inv_handleCloseAck [OF to] to rm op inv
        mux_inv_removeStream [OF up [OF inv]] mux_inv_touch [OF up [OF inv]]
        mux_inv_removeStream [OF up [OF op]] mux_inv_touch [OF up [OF op]] mux_inv_removeStream [OF to]
      unfolding Input_def Inr x sum.case prod.case Let_def
      by (auto simp: handleRemoteClose_def split: if_splits option.splits)
  qed
qed

end
