(* ===== verification/KcpMuxProps.thy ===== *)
theory KcpMuxProps
  imports KcpMuxSteps
begin

text \<open>
  The stream multiplexer as a state machine, and the properties of its reachable states.
\<close>

section \<open>Steps\<close>

inductive mux_step :: "mux_env \<Rightarrow> KcpMux \<Rightarrow> KcpMux \<Rightarrow> bool" for env where
  open_step: "Open env now m = Some (res, m') \<Longrightarrow> mux_step env m m'"
| input_step: "(err, m') \<in> set (Input env now d m) \<Longrightarrow> mux_step env m m'"
| accept_step: "mux_step env m (snd (Accept now choices m))"
| stop_step: "mux_step env m (StopAccepting env m)"
| close_stream_step: "mux_step env m (snd (closeStream env now later i m))"
| wait_step: "m' \<in> set (waitForCloseAck i ch timeout m) \<Longrightarrow> mux_step env m m'"
| close_step: "mux_step env m (Close env now later m)"
| spawned_step: "mux_step env m (run_spawned env k m)"
| idle_step: "mux_step env m (idle_fires now i m)"
| output_step: "mux_step env m (stream_output env now i d m)"
| read_step: "mux_step env m (snd (stream_Read now r s m))"
| write_step: "mux_step env m (snd (stream_Write now r s m))"
| conn_step: "kc_conv (f (mx_conns m ! r)) = kc_conv (mx_conns m ! r) \<Longrightarrow>
    (kc_closed (mx_conns m ! r) \<Longrightarrow> kc_closed (f (mx_conns m ! r))) \<Longrightarrow>
    mux_step env m (update_conn r f m)"

inductive mux_reach :: "mux_env \<Rightarrow> KcpMux \<Rightarrow> bool" for env where
  new: "mux_reach env (NewKcpMux serviceID isClient cfg)"
| step: "mux_reach env m \<Longrightarrow> mux_step env m m' \<Longrightarrow> mux_reach env m'"

inductive_simps mux_step_simps: "mux_step env m m'"

lemma mux_inv_New: "mux_inv (NewKcpMux serviceID isClient cfg)"
proof -
  let ?m = "NewKcpMux serviceID isClient cfg"
  have none: "getEntry i ?m = None" for i by (simp add: NewKcpMux_def getEntry_def)
  have "0 < mc_AcceptBacklog (defaultKcpMuxConfig cfg)"
    by (simp add: defaultKcpMuxConfig_def Let_def)
  then have "flags_ok ?m"
    by (simp add: flags_ok_def NewKcpMux_def initialLocalStreamID_def)
  moreover have "core_inv ?m"
    by (simp add: core_inv_def table_ok_def no_leak_def acks_distinct_def active_ids_def none)
      (simp add: NewKcpMux_def)
  ultimately show ?thesis by (simp add: mux_inv_core)
qed

lemmas mux_inv_ops =
  mux_inv_Open mux_inv_Input mux_inv_Accept mux_inv_StopAccepting mux_inv_closeStream mux_inv_wait
  mux_inv_Close(1) mux_inv_run_spawned mux_inv_idle mux_inv_stream_output mux_inv_stream_Read
  mux_inv_stream_Write mux_inv_update_conn

lemma mux_step_inv: "mux_step env m m' \<Longrightarrow> mux_inv m \<Longrightarrow> mux_inv m'"
  by (erule mux_step.cases; hypsubst) (blast intro: mux_inv_ops)+

lemma mux_reach_inv: "mux_reach env m \<Longrightarrow> mux_inv m"
  by (induction rule: mux_reach.induct) (auto simp: mux_inv_New intro: mux_step_inv)

lemma card_active:
  assumes "wf_map (mx_streams m)"
  shows "card (active_ids m) = length (filter (\<lambda>(_, e). se_active e) (mx_streams m))"
proof -
  let ?f = "filter (\<lambda>(_, e). se_active e) (mx_streams m)"
  have "active_ids m = set (map fst ?f)"
    using wf_map_mem [OF assms] by (force simp: active_ids_def getEntry_def image_iff)
  moreover have "distinct (map fst ?f)" using assms by (simp add: wf_map_def distinct_map_filter)
  ultimately show ?thesis by (metis distinct_card length_map)
qed

section \<open>Properties\<close>

text \<open>
  C24: in every reachable state the counter of active streams is the number of active streams in
  the table, the accept queue is within its backlog, and every connection that is still open
  belongs to a stream of the table: no removal, whatever its cause, leaks a connection.
\<close>

theorem mux_bookkeeping:
  assumes "mux_reach env m"
  shows "mx_activeStreams m = int (length (filter (\<lambda>(_, e). se_active e) (mx_streams m)))
     \<and> int (length (mx_acceptCh m)) \<le> mc_AcceptBacklog (mx_config m)
     \<and> (\<forall>r < length (mx_conns m). kc_closed (mx_conns m ! r)
          \<or> r \<in> set (map (\<lambda>(_, e). se_conn e) (mx_streams m)))"
proof -
  have inv: "mux_inv m" by (rule mux_reach_inv [OF assms])
  have wf: "wf_map (mx_streams m)" using inv by (simp add: mux_inv_def table_ok_def)
  have "kc_closed (mx_conns m ! r) \<or> r \<in> set (map (\<lambda>(_, e). se_conn e) (mx_streams m))"
    if r: "r < length (mx_conns m)" for r
  proof -
    from r inv consider "kc_closed (mx_conns m ! r)" | i e where "getEntry i m = Some e" "se_conn e = r"
      unfolding mux_inv_def no_leak_def by blast
    then show ?thesis
    proof cases
      case (2 i e)
      then have "(i, e) \<in> set (mx_streams m)" by (simp add: wf_map_mem [OF wf] getEntry_def)
      then show ?thesis using 2(2) by force
    qed blast
  qed
  then show ?thesis using inv card_active [OF wf] by (simp add: mux_inv_def table_ok_def flags_ok_def)
qed

definition quiet_env :: mux_env where
  "quiet_env = \<lparr>env_output = Some (\<lambda>_ _ _. None), env_reportErr = False, env_overhead = 24\<rparr>"

definition toy_mux :: KcpMux where
  "toy_mux = snd (the (Open quiet_env 0 (NewKcpMux 7 True \<lparr>mc_CloseAckTimeout = 0, mc_IdleStreamTimeout = 0,
     mc_AcceptBacklog = 2, mc_MaxActiveStreams = 1\<rparr>)))"

lemma toy_mux_open: "\<exists>m. Open quiet_env 0 (NewKcpMux 7 True \<lparr>mc_CloseAckTimeout = 0,
    mc_IdleStreamTimeout = 0, mc_AcceptBacklog = 2, mc_MaxActiveStreams = 1\<rparr>) = Some (Inr (1, 0), m)
    \<and> map fst (mx_streams m) = [1] \<and> length (mx_conns m) = 1 \<and> mx_activeStreams m = 1"
  by (simp add: Open_def NewKcpMux_def initialLocalStreamID_def allocateLocalStreamID_def
      allocate_stream_loop.simps [of _ "[]"] defaultKcpMuxConfig_def newStreamEntry_def put_entry_def
      resetIdleTimer_def sendFrame_def quiet_env_def emit_def wrapStream_def Let_def)

lemma toy_mux_reach: "mux_reach quiet_env toy_mux"
proof -
  obtain m where "Open quiet_env 0 (NewKcpMux 7 True \<lparr>mc_CloseAckTimeout = 0,
    mc_IdleStreamTimeout = 0, mc_AcceptBacklog = 2, mc_MaxActiveStreams = 1\<rparr>) = Some (Inr (1, 0), m)"
    using toy_mux_open by blast
  moreover from this have "toy_mux = m" by (simp add: toy_mux_def)
  ultimately show ?thesis using mux_reach.step [OF mux_reach.new mux_step.open_step] by blast
qed

theorem mux_bookkeeping_witness:
  "mx_activeStreams toy_mux = int (length (filter (\<lambda>(_, e). se_active e) (mx_streams toy_mux)))"
  using mux_bookkeeping [OF toy_mux_reach] by blast

text \<open>
  After \<^verbatim>\<open>Close\<close> no stream is left, every connection is closed, and every later call fails
  with \<^verbatim>\<open>ErrServiceMuxClosed\<close>, from whatever reachable state it was called.
\<close>

theorem mux_closed_for_good:
  assumes "mux_reach env m" "m' = Close env now later m"
  shows "NumStreams m' = 0 \<and> (\<forall>c\<in>set (mx_conns m'). kc_closed c)
     \<and> Open env t m' = Some (Inl ErrServiceMuxClosed, m')
     \<and> Input env t d m' = [(Some ErrServiceMuxClosed, m')]
     \<and> Accept t (FromStop # choices) m' = (Some (Inl ErrServiceMuxClosed), m')
     \<and> Accept t (FromClose # choices) m' = (Some (Inl ErrServiceMuxClosed), m')"
proof -
  note c = mux_inv_Close [OF mux_reach_inv [OF assms(1)], of env now later]
  have fl: "flags_ok m'" "mx_closed m'" "mx_streams m' = []" and leak: "no_leak m'"
    using c by (simp_all add: assms(2) mux_inv_def)
  then have "mx_closing m'" "mx_acceptStopClosed m'" "mx_closeChClosed m'"
    by (auto simp: flags_ok_def)
  moreover have "kc_closed (mx_conns m' ! r)" if "r < length (mx_conns m')" for r
    using leak that fl(3) by (simp add: no_leak_def getEntry_def)
  then have "\<forall>c\<in>set (mx_conns m'). kc_closed c" by (metis in_set_conv_nth)
  ultimately show ?thesis using fl by (simp add: NumStreams_def Open_def Input_def)
qed

theorem mux_closed_for_good_witness:
  "NumStreams (Close quiet_env 1 2 toy_mux) = 0
   \<and> Open quiet_env 3 (Close quiet_env 1 2 toy_mux) = Some (Inl ErrServiceMuxClosed, Close quiet_env 1 2 toy_mux)"
  using mux_closed_for_good [OF toy_mux_reach refl] by blast

lemma decode_control:
  assumes "ft \<noteq> kcpMuxFrameData" "unat i < 2 ^ 32"
  shows "decodeMuxFrame n (mux_frame i ft p) = Inr (i, ft, p)"
proof -
  have "ucast (ucast i :: u32) = i" by (simp only: word_unat_eq_iff unat_widen unat_narrow [OF assms(2)])
  then show ?thesis using assms(1) by (simp add: decodeMuxFrame_def mux_frame_def Let_def)
qed

lemma decode_data:
  assumes "unat i < 2 ^ 32" "n \<le> length p" "p = put_u32 (ucast i) @ q"
  shows "decodeMuxFrame n (mux_frame i kcpMuxFrameData p) = Inr (i, kcpMuxFrameData, p)"
proof -
  have "ucast (ucast i :: u32) = i" by (simp only: word_unat_eq_iff unat_widen unat_narrow [OF assms(1)])
  then show ?thesis using assms(2,3)
    by (simp add: decodeMuxFrame_def mux_frame_def decodeKCPConv_def Let_def)
qed

text \<open>
  A frame decodes to the stream, the type and the payload it was made from: a control frame
  carries the identifier after its type, a data frame finds it in the KCP segment it carries,
  whose first four bytes are the conversation.
\<close>

theorem mux_frame_roundtrip:
  assumes "unat i < 2 ^ 32"
    "ft = kcpMuxFrameData \<Longrightarrow> n \<le> length p \<and> (\<exists>q. p = put_u32 (ucast i) @ q)"
  shows "decodeMuxFrame n (mux_frame i ft p) = Inr (i, ft, p)"
proof (cases "ft = kcpMuxFrameData")
  case True
  then obtain q where "n \<le> length p" "p = put_u32 (ucast i) @ q" using assms(2) by blast
  then show ?thesis using decode_data [OF assms(1)] True by blast
qed (rule decode_control [OF _ assms(1)])

theorem mux_frame_roundtrip_witness:
  "decodeMuxFrame 24 (mux_frame 5 kcpMuxFrameData (put_u32 5 @ replicate 20 1))
     = Inr (5, kcpMuxFrameData, put_u32 5 @ replicate 20 1)
   \<and> decodeMuxFrame 24 (mux_frame 9 kcpMuxFrameClose [1]) = Inr (9, kcpMuxFrameClose, [1])"
  by (intro conjI mux_frame_roundtrip) (simp_all add: frame_defs)

lemma getEntry_same_table: "same_table m m' \<Longrightarrow> getEntry i m' = getEntry i m"
  by (auto simp: same_table_def)

lemma same_table_fields:
  "same_table m m' \<Longrightarrow> mx_conns m' = mx_conns m \<and> mx_ackChs m' = mx_ackChs m \<and> mx_config m' = mx_config m
     \<and> mx_closing m' = mx_closing m \<and> mx_closed m' = mx_closed m"
  by (auto simp: same_table_def)

lemma sendFrame_ok:
  "sendFrame env i ft p m = (None, m') \<Longrightarrow> env_output env \<noteq> None \<Longrightarrow>
   mx_log m' = mx_log m @ [Frame (mx_serviceID m) (mux_frame i ft p)]"
  by (auto simp: sendFrame_def Let_def emit_def split: option.splits)



lemma open_sends:
  assumes c: "mux_reach env c" "Open env now c = Some (Inr (i, r), c')" "env_output env \<noteq> None"
  shows "unat i < 2 ^ 32" "odd (unat i) \<longleftrightarrow> mx_isClient c"
    "mx_log c' = mx_log c @ [Frame (mx_serviceID c) (mux_frame i kcpMuxFrameOpen [])]"
    "\<exists>e. getEntry i c' = Some e \<and> se_conn e = r" "mx_conns c' ! r = NewKCPConn now (ucast i)"
proof -
  let ?f = "mux_frame i kcpMuxFrameOpen []"
  have "\<not> mx_closing c" using c(2) by (auto simp: Open_def)
  with mux_reach_inv [OF c(1)] have *: "unat i < 2 ^ 32 \<and> (odd (unat i) \<longleftrightarrow> mx_isClient c)
      \<and> mx_log c' = mx_log c @ [Frame (mx_serviceID c) ?f] \<and> (\<exists>e. getEntry i c' = Some e \<and> se_conn e = r)
      \<and> mx_conns c' ! r = NewKCPConn now (ucast i)"
  proof (cases rule: Open_shape [where env = env and now = now])
    case (fresh j e m2)
    obtain err m3 where sf: "sendFrame env j kcpMuxFrameOpen [] m2 = (err, m3)" by fastforce
    have "same_table m2 m3" using sendFrame_table [of m2 env j kcpMuxFrameOpen "[]"] by (simp add: sf)
    then have "getEntry k m3 = getEntry k m2" "mx_conns m3 = mx_conns m2" for k
      by (rule getEntry_same_table) (use \<open>same_table m2 m3\<close> same_table_fields in blast)
    then show ?thesis using fresh c(2,3) sendFrame_ok [of env j kcpMuxFrameOpen "[]" m2 m3]
      by (cases err) (auto simp: sf)
  qed (use c(2) in simp)
  then show "unat i < 2 ^ 32" "odd (unat i) \<longleftrightarrow> mx_isClient c"
    "mx_log c' = mx_log c @ [Frame (mx_serviceID c) ?f]"
    "\<exists>e. getEntry i c' = Some e \<and> se_conn e = r" "mx_conns c' ! r = NewKCPConn now (ucast i)"
    by blast+
qed

text \<open>
  C31: a stream opened on one side can be accepted on the other: the frame that \<^verbatim>\<open>Open\<close> sends,
  given to the peer's \<^verbatim>\<open>Input\<close>, makes its next \<^verbatim>\<open>Accept\<close> return a stream with the same
  identifier, provided the peer still accepts, is below its limit and has nothing else queued.
\<close>

theorem mux_open_accept:
  assumes c: "mux_reach env c" "Open env now c = Some (Inr (i, r), c')" "env_output env \<noteq> None"
    and s: "mux_reach env' s" "mx_isClient s \<noteq> mx_isClient c" "\<not> mx_closing s" "mx_acceptingRemote s"
      "mx_activeStreams s < mc_MaxActiveStreams (mx_config s)" "mx_acceptCh s = []" "getEntry i s = None"
  shows "\<exists>frame s1 s2. mx_log c' = mx_log c @ [Frame (mx_serviceID c) frame]
     \<and> Input env' t frame s = [(None, s1)]
     \<and> Accept t' [FromQueue] s1 = (Some (Inr (i, length (mx_conns s))), s2)
     \<and> (\<exists>e. getEntry i s2 = Some e \<and> se_active e)"
proof -
  let ?f = "mux_frame i kcpMuxFrameOpen []"
  note i = open_sends(1,2) [OF c] and log = open_sends(3) [OF c]
  note inv = mux_reach_inv [OF s(1)]
  have fl: "flags_ok s" and "\<not> mx_closed s" using inv s(3) by (simp_all add: mux_inv_def flags_ok_def)
  have rem: "isRemoteStreamID i s"
    using i s(2) by (auto simp: isRemoteStreamID_def even_iff_mod_2_eq_zero odd_iff_mod_2_eq_one)
  have dec: "decodeMuxFrame (env_overhead env') ?f = Inr (i, kcpMuxFrameOpen, [])"
    by (rule decode_control [OF _ i(1)]) simp
  have inp: "Input env' t ?f s = [(None, handleOpen t i s)]"
    using s(3,7) \<open>\<not> mx_closed s\<close> rem by (simp add: Input_def dec Let_def)
  have "0 < mc_AcceptBacklog (mx_config s)" using fl by (simp add: flags_ok_def)
  then have acc: "\<exists>s2 e. Accept t' [FromQueue] (handleOpen t i s) = (Some (Inr (i, length (mx_conns s))), s2)
     \<and> getEntry i s2 = Some e \<and> se_active e"
    using s(3-7) \<open>\<not> mx_closed s\<close>
    by (simp add: handleOpen_def newStreamEntry_def acceptQueued_def Let_def)
      (simp add: put_entry_def wrapStream_def)
  show ?thesis using log inp acc by blast
qed

definition toy_server :: KcpMux where
  "toy_server = NewKcpMux 7 False \<lparr>mc_CloseAckTimeout = 0, mc_IdleStreamTimeout = 0,
     mc_AcceptBacklog = 2, mc_MaxActiveStreams = 1\<rparr>"

definition toy_client :: KcpMux where
  "toy_client = NewKcpMux 7 True \<lparr>mc_CloseAckTimeout = 0, mc_IdleStreamTimeout = 0,
     mc_AcceptBacklog = 2, mc_MaxActiveStreams = 1\<rparr>"

theorem mux_open_accept_witness:
  "\<exists>frame s1 s2. Input quiet_env 5 frame toy_server = [(None, s1)]
     \<and> Accept 6 [FromQueue] s1 = (Some (Inr (1, 0)), s2)"
proof -
  obtain m where "Open quiet_env 0 toy_client = Some (Inr (1, 0), m)"
    using toy_mux_open by (auto simp: toy_client_def)
  moreover have "mux_reach quiet_env toy_client" "mux_reach quiet_env toy_server"
    unfolding toy_client_def toy_server_def by (rule mux_reach.new)+
  ultimately have "\<exists>frame s1 s2. mx_log m = mx_log toy_client @ [Frame (mx_serviceID toy_client) frame]
     \<and> Input quiet_env 5 frame toy_server = [(None, s1)]
     \<and> Accept 6 [FromQueue] s1 = (Some (Inr (1, length (mx_conns toy_server))), s2)
     \<and> (\<exists>e. getEntry 1 s2 = Some e \<and> se_active e)"
    by (intro mux_open_accept [of quiet_env])
      (simp_all add: toy_client_def toy_server_def NewKcpMux_def defaultKcpMuxConfig_def quiet_env_def getEntry_def)
  then show ?thesis by (simp add: toy_server_def NewKcpMux_def) blast
qed

text \<open>How the pieces of a close act on one stream.\<close>

lemma closeStream_shape:
  assumes inv: "mux_inv m" and e: "getEntry i m = Some e" and lc: "\<not> se_localClose e"
    and alive: "\<not> kc_closed (mx_conns m ! se_conn e)"
    and time: "later \<le> now + mc_CloseAckTimeout (mx_config m)"
  shows "\<exists>m1 e1 ch. closeStream env now later i m = (CloseWaits (Some ch), m1)
     \<and> getEntry i m1 = Some e1 \<and> se_closeAckCh e1 = Some ch \<and> se_localClose e1
     \<and> \<not> se_closeAckSet e1 \<and> se_conn e1 = se_conn e \<and> \<not> mx_ackChs m1 ! ch \<and> ch < length (mx_ackChs m1)"
proof -
  have ok: "entry_ok m i e" and i: "se_streamID e = i"
    using core_entry [OF mux_invD(1) [OF inv] e] by (simp_all add: entry_ok_def)
  have notset: "\<not> se_closeAckSet e" using ok lc by (auto simp: entry_ok_def)
  have closed: "\<not> mx_closed m"
    using mux_inv_open_flags [OF inv e] mux_invD(2) [OF inv] by (simp add: flags_ok_def)
  let ?x = "m\<lparr>mx_ackChs := mx_ackChs m @ [False]\<rparr>" and ?ch = "length (mx_ackChs m)"
  let ?e = "resetIdleTimer now ?x (e\<lparr>se_localClose := True, se_closeAckCh := Some ?ch\<rparr>)"
  let ?y = "update_conn (se_conn e) (closeSignal (Some ErrConnClosedLocal)) (put_entry ?e ?x)"
  have drain: "conn_Drain later (Some (now + mc_CloseAckTimeout (mx_config m))) (mx_conns m ! se_conn e) = None"
    using alive time by (simp add: conn_Drain_def past_def)
  have cs: "closeStream env now later i m
      = (CloseWaits (Some ?ch), sendClose env i streamCloseReasonClose ?y)"
    using e lc closed drain by (simp add: closeStream_def Let_def)
  note st = sendClose_table [where m = ?y and env = env and i = i and r = streamCloseReasonClose]
  have "getEntry i (sendClose env i streamCloseReasonClose ?y) = Some ?e"
    using getEntry_same_table [OF st, of i] i by (simp add: update_conn_def)
  moreover have "mx_ackChs (sendClose env i streamCloseReasonClose ?y) = mx_ackChs m @ [False]"
    using same_table_fields [OF st] by (simp add: update_conn_def)
  ultimately show ?thesis using cs notset by auto
qed

lemma ack_removes:
  assumes inv: "mux_inv m" and e: "getEntry i m = Some e" "se_closeAckCh e = Some ch"
    "se_localClose e" "\<not> se_closeAckSet e"
  shows "getEntry i (handleCloseAck i m) = None \<and> mx_ackChs (handleCloseAck i m) ! ch"
proof -
  note core = mux_invD(1) [OF inv]
  have ok: "entry_ok m i e" by (rule core_entry [OF core e(1)])
  then have i: "se_streamID e = i" and ch: "ch < length (mx_ackChs m)"
    using e(2) by (simp_all add: entry_ok_def)
  let ?e = "e\<lparr>se_closeAckSet := True\<rparr>"
  let ?m = "put_entry ?e (m\<lparr>mx_ackChs := (mx_ackChs m)[ch := True]\<rparr>)"
  have eq: "handleCloseAck i m = removeStream i ErrConnClosedLocal ?m"
    using e by (simp add: handleCloseAck_def close_ack_channel_def Let_def i)
  have get: "getEntry i ?m = Some ?e" by (simp add: i)
  have "mx_ackChs (removeStream i ErrConnClosedLocal ?m) = (mx_ackChs m)[ch := True]"
    unfolding removeStream_def get by (simp add: close_ack_channel_def update_conn_def e(2) Let_def)
  moreover have "getEntry i (removeStream i ErrConnClosedLocal ?m) = None"
    unfolding removeStream_def get
    by (simp add: close_ack_channel_def update_conn_def e(2) Let_def getEntry_def)
  ultimately show ?thesis using ch by (simp add: eq)
qed

text \<open>
  C29: the close handshake completes: closing an open stream waits for the peer, and when the
  peer's CLOSE_ACK arrives the stream is removed and the wait returns without its timeout.
\<close>

theorem mux_close_handshake:
  assumes "mux_reach env m" "getEntry i m = Some e" "\<not> se_localClose e"
    "\<not> kc_closed (mx_conns m ! se_conn e)" "later \<le> now + mc_CloseAckTimeout (mx_config m)"
  shows "\<exists>m1 ch m2. closeStream env now later i m = (CloseWaits (Some ch), m1)
     \<and> waitForCloseAck i (Some ch) False m1 = []
     \<and> Input env t (mux_frame i kcpMuxFrameCloseAck []) m1 = [(None, m2)]
     \<and> getEntry i m2 = None \<and> m2 \<in> set (waitForCloseAck i (Some ch) False m2)"
proof -
  have inv: "mux_inv m" by (rule mux_reach_inv [OF assms(1)])
  obtain m1 e1 ch where c: "closeStream env now later i m = (CloseWaits (Some ch), m1)"
    "getEntry i m1 = Some e1" "se_closeAckCh e1 = Some ch" "se_localClose e1" "\<not> se_closeAckSet e1"
    "\<not> mx_ackChs m1 ! ch"
    using closeStream_shape [OF inv assms(2-5)] by blast
  have inv1: "mux_inv m1" using mux_inv_closeStream [OF inv, of env now later i] by (simp add: c(1))
  have small: "unat i < 2 ^ 32" using core_entry [OF mux_invD(1) [OF inv] assms(2)] by (simp add: entry_ok_def)
  have fl: "\<not> mx_closing m1" "\<not> mx_closed m1" "\<not> mx_closeChClosed m1"
    using mux_inv_open_flags [OF inv1 c(2)] mux_invD(2) [OF inv1] by (simp_all add: flags_ok_def)
  have dec: "decodeMuxFrame (env_overhead env) (mux_frame i kcpMuxFrameCloseAck [])
      = Inr (i, kcpMuxFrameCloseAck, [])"
    by (rule decode_control [OF _ small]) simp
  let ?t = "touchStream t i m1"
  have "getEntry i ?t = Some (resetIdleTimer t m1 e1)"
    using getEntry_touch [OF mux_invD(1) [OF inv1]] c(2) by simp
  from ack_removes [OF mux_inv_touch [OF inv1] this, of ch] c(3-5)
  have "getEntry i (handleCloseAck i ?t) = None" "mx_ackChs (handleCloseAck i ?t) ! ch" by simp_all
  moreover have "Input env t (mux_frame i kcpMuxFrameCloseAck []) m1 = [(None, handleCloseAck i ?t)]"
    using fl by (simp add: Input_def dec)
  ultimately show ?thesis using c fl(3) by (auto simp: waitForCloseAck_def)
qed

lemma toy_entry:
  "\<exists>e. getEntry 1 toy_mux = Some e \<and> se_conn e = 0 \<and> \<not> se_localClose e
     \<and> mx_conns toy_mux ! 0 = NewKCPConn 0 1 \<and> mc_CloseAckTimeout (mx_config toy_mux) = 15 * second"
  by (simp add: toy_mux_def Open_def NewKcpMux_def initialLocalStreamID_def allocateLocalStreamID_def
      allocate_stream_loop.simps [of _ "[]"] defaultKcpMuxConfig_def newStreamEntry_def put_entry_def
      resetIdleTimer_def sendFrame_def quiet_env_def emit_def wrapStream_def Let_def getEntry_def)

theorem mux_close_handshake_witness:
  "\<exists>m1 ch m2. closeStream quiet_env 10 20 1 toy_mux = (CloseWaits (Some ch), m1)
     \<and> Input quiet_env 30 (mux_frame 1 kcpMuxFrameCloseAck []) m1 = [(None, m2)]
     \<and> getEntry 1 m2 = None"
proof -
  obtain e where e: "getEntry 1 toy_mux = Some e" "se_conn e = 0" "\<not> se_localClose e"
    "mx_conns toy_mux ! 0 = NewKCPConn 0 1" "mc_CloseAckTimeout (mx_config toy_mux) = 15 * second"
    using toy_entry by blast
  have "\<not> kc_closed (mx_conns toy_mux ! se_conn e)" by (simp add: e NewKCPConn_def)
  moreover have "(20 :: int) \<le> 10 + mc_CloseAckTimeout (mx_config toy_mux)" by (simp add: e second_def)
  ultimately show ?thesis
    using mux_close_handshake [OF toy_mux_reach e(1,3), of 20 10 30] by blast
qed

definition close_error :: "u8 \<Rightarrow> kcp_error" where
  "close_error reason =
     (if reason = streamCloseReasonClose then ErrStreamClosedGraceful
      else if reason = streamCloseReasonAbort then ErrStreamAborted else ErrStreamInvalid)"

lemma remote_close:
  assumes "mux_inv m" "getEntry i m = Some e" "\<not> kc_closed (mx_conns m ! se_conn e)"
    "kc_closeErr (mx_conns m ! se_conn e) = None" "env_output env \<noteq> None"
  shows "\<exists>m1 log. Input env t (mux_frame i kcpMuxFrameClose [reason]) m = [(None, m1)]
     \<and> getEntry i m1 = None
     \<and> mx_log m1 = mx_log m @ Frame (mx_serviceID m) (mux_frame i kcpMuxFrameCloseAck []) # log
     \<and> kc_closed (mx_conns m1 ! se_conn e) \<and> getCloseErr (mx_conns m1 ! se_conn e) = close_error reason"
proof -
  note inv = assms(1)
  have ok: "entry_ok m i e" by (rule core_entry [OF mux_invD(1) [OF inv] assms(2)])
  then have small: "unat i < 2 ^ 32" and r: "se_conn e < length (mx_conns m)" and i: "se_streamID e = i"
    by (simp_all add: entry_ok_def)
  have fl: "\<not> mx_closing m" "\<not> mx_closed m"
    using mux_inv_open_flags [OF inv assms(2)] mux_invD(2) [OF inv] by (simp_all add: flags_ok_def)
  have dec: "decodeMuxFrame (env_overhead env) (mux_frame i kcpMuxFrameClose [reason])
      = Inr (i, kcpMuxFrameClose, [reason])"
    by (rule decode_control [OF _ small]) simp
  let ?t = "touchStream t i m" and ?e = "resetIdleTimer t m e"
  have get: "getEntry i ?t = Some ?e"
    using getEntry_touch [OF mux_invD(1) [OF inv]] assms(2) by simp
  have tinv: "mux_inv ?t" by (rule mux_inv_touch [OF inv])
  have tf: "mx_conns ?t = mx_conns m" "mx_log ?t = mx_log m" "mx_serviceID ?t = mx_serviceID m"
    by (simp_all add: touchStream_def put_entry_def split: option.split)
  let ?r = "removeStream i (close_error reason) ?t"
  let ?s = "sendCloseAck env i ?r"
  have inp: "Input env t (mux_frame i kcpMuxFrameClose [reason]) m = [(None, ?s)]"
    using fl i by (simp add: Input_def dec get handleRemoteClose_def close_error_def Let_def)
  have rconn: "mx_conns ?r = (mx_conns m)[se_conn e := closeSignal (Some (close_error reason)) (mx_conns m ! se_conn e)]"
    using removeStream_eq [OF mux_invD(1) [OF tinv] get, of "close_error reason"]
    by (simp add: update_conn_def removed_def tf)
  have rlog: "mx_log ?r = mx_log m" "mx_serviceID ?r = mx_serviceID m"
    using removeStream_eq [OF mux_invD(1) [OF tinv] get, of "close_error reason"]
    by (simp_all add: update_conn_def removed_def tf)
  note st = sendCloseAck_table [where m = ?r and env = env and i = i]
  have gone: "getEntry i ?s = None"
    using getEntry_same_table [OF st, of i] getEntry_removeStream [OF mux_invD(1) [OF tinv], of i i] by simp
  have conn: "mx_conns ?s ! se_conn e = closeSignal (Some (close_error reason)) (mx_conns m ! se_conn e)"
    using same_table_fields [OF st] r by (simp add: rconn)
  have log: "\<exists>log. mx_log ?s = mx_log m @ Frame (mx_serviceID m) (mux_frame i kcpMuxFrameCloseAck []) # log"
    using assms(5) by (auto simp: sendCloseAck_def sendFrame_def Let_def emit_def reportOutput_def rlog
        split: option.splits)
  have err: "getCloseErr (mx_conns ?s ! se_conn e) = (close_error reason)"
    unfolding conn by (rule closeSignal_err [OF assms(3,4)])
  have cl: "kc_closed (mx_conns ?s ! se_conn e)" unfolding conn by simp
  show ?thesis using inp gone log err cl by blast
qed

text \<open>
  C30: a graceful close by the peer ends the stream here: the CLOSE frame is acknowledged, the
  stream is gone, and every later read of it reports the end of the stream, every write a
  closed pipe.
\<close>

theorem mux_remote_close:
  assumes "mux_reach env m" "getEntry i m = Some e" "\<not> kc_closed (mx_conns m ! se_conn e)"
    "kc_closeErr (mx_conns m ! se_conn e) = None" "env_output env \<noteq> None"
  shows "\<exists>m1 log. Input env t (mux_frame i kcpMuxFrameClose [streamCloseReasonClose]) m = [(None, m1)]
     \<and> getEntry i m1 = None
     \<and> mx_log m1 = mx_log m @ Frame (mx_serviceID m) (mux_frame i kcpMuxFrameCloseAck []) # log
     \<and> fst (stream_Read t' r (i, se_conn e) m1) = (0, Some ErrEOF)
     \<and> fst (stream_Write t' w (i, se_conn e) m1) = (0, Some ErrClosedPipe)"
proof -
  from remote_close [OF mux_reach_inv [OF assms(1)] assms(2-5), of t streamCloseReasonClose]
  show ?thesis
    by (auto simp: stream_Read_def stream_Write_def conn_Read_def conn_Write_def close_error_def)
qed

theorem mux_remote_close_witness:
  "\<exists>m1. Input quiet_env 30 (mux_frame 1 kcpMuxFrameClose [streamCloseReasonClose]) toy_mux = [(None, m1)]
     \<and> fst (stream_Read 40 (5, None) (1, 0) m1) = (0, Some ErrEOF)"
proof -
  obtain e where e: "getEntry 1 toy_mux = Some e" "se_conn e = 0" "mx_conns toy_mux ! 0 = NewKCPConn 0 1"
    using toy_entry by blast
  have "\<not> kc_closed (mx_conns toy_mux ! se_conn e)" "kc_closeErr (mx_conns toy_mux ! se_conn e) = None"
    "env_output quiet_env \<noteq> None"
    by (simp_all add: e NewKCPConn_def quiet_env_def)
  from mux_remote_close [OF toy_mux_reach e(1) this, of 30 40 "(5, None)"] show ?thesis
    by (simp only: e(2)) blast
qed

section \<open>Two defects\<close>

text \<open>
  The limit of active streams is checked when a stream is queued but not when it is accepted,
  so it can be exceeded: with a limit of one, two queued streams are both accepted.
\<close>

lemma max_active_exceeded:
  "\<exists>s1 s2 r1 r2. Input quiet_env 1 (mux_frame 1 kcpMuxFrameOpen []) toy_server = [(None, s1)]
     \<and> Input quiet_env 2 (mux_frame 3 kcpMuxFrameOpen []) s1 = [(None, s2)]
     \<and> fst (Accept 3 [FromQueue] s2) = Some (Inr r1)
     \<and> fst (Accept 4 [FromQueue] (snd (Accept 3 [FromQueue] s2))) = Some (Inr r2)
     \<and> mc_MaxActiveStreams (mx_config s2) = 1
     \<and> mx_activeStreams (snd (Accept 4 [FromQueue] (snd (Accept 3 [FromQueue] s2)))) = 2"
proof -
  have "unat (1 :: u64) < 2 ^ 32" "unat (3 :: u64) < 2 ^ 32" by simp_all
  then have d: "decodeMuxFrame n (mux_frame 1 kcpMuxFrameOpen []) = Inr (1, kcpMuxFrameOpen, [])"
    "decodeMuxFrame n (mux_frame 3 kcpMuxFrameOpen []) = Inr (3, kcpMuxFrameOpen, [])" for n
    by (simp_all add: decode_control)
  show ?thesis
    by (simp add: Input_def d toy_server_def NewKcpMux_def defaultKcpMuxConfig_def getEntry_def
        isRemoteStreamID_def handleOpen_def newStreamEntry_def put_entry_def resetIdleTimer_def
        acceptQueued_def Let_def)
qed

text \<open>A failing data frame is reported twice: by \<^verbatim>\<open>sendFrame\<close> and by the callback that called it.\<close>

lemma data_error_reported_twice:
  assumes "env_output env = Some out" "env_reportErr env"
    "out (mx_serviceID m) (mux_frame i kcpMuxFrameData d) (length (mx_log m)) = Some err"
  shows "mx_log (stream_output env now i d m) = mx_log m
     @ [Frame (mx_serviceID m) (mux_frame i kcpMuxFrameData d),
        Report (mx_serviceID m) err, Report (mx_serviceID m) err]"
proof -
  have "mx_log (touchStream now i m) = mx_log m" "mx_serviceID (touchStream now i m) = mx_serviceID m"
    by (simp_all add: touchStream_def put_entry_def split: option.split)
  then show ?thesis using assms
    by (simp add: stream_output_def sendFrame_def Let_def reportOutput_def emit_def)
qed

end
