(* ===== verification/KcpMuxLog.thy ===== *)
theory KcpMuxLog
  imports KcpMuxProps
begin

text \<open>
  What a multiplexer tells the outside: its log only grows, and everything in it carries the
  identifier of its own service; once closed it stays closed, and once it refuses remote streams
  it does so for ever. A service multiplexer, which hands one \<^verbatim>\<open>Output\<close> callback to all
  its \<^verbatim>\<open>KcpMux\<close>es, rests on it to keep the services apart on the wire.
\<close>

fun event_service :: "mux_event \<Rightarrow> u64" where
  "event_service (Frame service data) = service"
| "event_service (Report service err) = service"

definition grows :: "KcpMux \<Rightarrow> KcpMux \<Rightarrow> bool" where
  "grows m m' \<longleftrightarrow> mx_serviceID m' = mx_serviceID m \<and> mx_isClient m' = mx_isClient m
     \<and> mx_config m' = mx_config m \<and> (mx_closed m \<longrightarrow> mx_closed m')
     \<and> (mx_acceptingRemote m' \<longrightarrow> mx_acceptingRemote m)
     \<and> (\<exists>evs. mx_log m' = mx_log m @ evs \<and> (\<forall>ev\<in>set evs. event_service ev = mx_serviceID m))"

lemma grows_refl [simp]: "grows m m"
  by (simp add: grows_def)

lemma grows_trans: "grows m m' \<Longrightarrow> grows m' m'' \<Longrightarrow> grows m m''"
  by (auto simp: grows_def)

lemma grows_fields [intro]:
  assumes "grows m0 m"
  shows "grows m0 (m\<lparr>mx_streams := s\<rparr>)" "grows m0 (m\<lparr>mx_nextLocalStreamID := n\<rparr>)"
    "grows m0 (m\<lparr>mx_activeStreams := a\<rparr>)" "grows m0 (m\<lparr>mx_acceptCh := q\<rparr>)"
    "grows m0 (m\<lparr>mx_acceptStopClosed := b\<rparr>)" "grows m0 (m\<lparr>mx_acceptingRemote := False\<rparr>)"
    "grows m0 (m\<lparr>mx_closeChClosed := b\<rparr>)" "grows m0 (m\<lparr>mx_closing := b\<rparr>)"
    "grows m0 (m\<lparr>mx_closed := True\<rparr>)" "grows m0 (m\<lparr>mx_closeOnce := b\<rparr>)"
    "grows m0 (m\<lparr>mx_conns := c\<rparr>)" "grows m0 (m\<lparr>mx_ackChs := k\<rparr>)" "grows m0 (m\<lparr>mx_spawned := sp\<rparr>)"
  using assms by (simp_all add: grows_def)

lemma grows_emit: "grows m0 m \<Longrightarrow> event_service ev = mx_serviceID m \<Longrightarrow> grows m0 (emit ev m)"
  by (auto simp: grows_def emit_def)

lemma grows_report [intro]: "grows m0 m \<Longrightarrow> grows m0 (reportOutput env err m)"
  by (auto simp: reportOutput_def intro: grows_emit split: option.splits)

lemma grows_sendFrame [intro]: "grows m0 m \<Longrightarrow> grows m0 (snd (sendFrame env i ft p m))"
  by (auto simp: sendFrame_def Let_def intro!: grows_emit grows_report split: option.splits)

lemma grows_sendFrame_eq: "sendFrame env i ft p m = (x, m') \<Longrightarrow> grows m0 m \<Longrightarrow> grows m0 m'"
  using grows_sendFrame [of m0 m env i ft p] by simp

lemma grows_send [intro]:
  assumes "grows m0 m"
  shows "grows m0 (sendClose env i r m)" "grows m0 (sendCloseAck env i m)"
  using assms by (auto simp: sendClose_def sendCloseAck_def)

lemma grows_small [intro]:
  assumes "grows m0 m"
  shows "grows m0 (put_entry e m)" "grows m0 (update_conn r f m)" "grows m0 (spawn_sendClose i c m)"
    "grows m0 (close_ack_channel e m)" "grows m0 (touchStream now i m)"
  using assms
  by (auto simp: put_entry_def update_conn_def spawn_sendClose_def close_ack_channel_def
      touchStream_def split: option.splits)

lemma grows_removeStream [intro]: "grows m0 m \<Longrightarrow> grows m0 (removeStream i err m)"
  by (auto simp: removeStream_def Let_def split: option.splits)

lemma grows_new: "newStreamEntry now i m = (e, m') \<Longrightarrow> grows m0 m \<Longrightarrow> grows m0 m'"
  by (auto simp: newStreamEntry_def)

lemma grows_fold: "(\<And>x m. grows m0 m \<Longrightarrow> grows m0 (f x m)) \<Longrightarrow> grows m0 m \<Longrightarrow> grows m0 (fold f xs m)"
  by (rule fold_inv [where P = "grows m0"])

section \<open>The operations\<close>

lemma grows_handleOpen [intro]: "grows m0 m \<Longrightarrow> grows m0 (handleOpen now i m)"
  by (auto simp: handleOpen_def newStreamEntry_def)

lemma grows_handleRemoteClose [intro]: "grows m0 m \<Longrightarrow> grows m0 (handleRemoteClose e r m)"
  by (auto simp: handleRemoteClose_def)

lemma grows_handleCloseAck [intro]: "grows m0 m \<Longrightarrow> grows m0 (handleCloseAck i m)"
  by (auto simp: handleCloseAck_def Let_def split: option.splits)

lemma grows_allocate: "allocateLocalStreamID m = Some (x, m') \<Longrightarrow> grows m0 m \<Longrightarrow> grows m0 m'"
  by (auto simp: allocateLocalStreamID_def Let_def split: option.splits sum.splits)

lemma grows_Open: "Open env now m = Some (res, m') \<Longrightarrow> grows m0 m \<Longrightarrow> grows m0 m'"
  by (auto simp: Open_def Let_def newStreamEntry_def split: if_splits option.splits prod.splits sum.splits
      dest!: grows_allocate [of m _ _ m0] elim!: grows_sendFrame_eq intro!: grows_small grows_removeStream grows_fields)

lemma grows_branch:
  assumes "grows m0 m" "grows m0 m'"
  shows "grows m0 (if b then m else m')"
  using assms by simp

lemma grows_option: "grows m0 m \<Longrightarrow> (\<And>x. grows m0 (f x)) \<Longrightarrow> grows m0 (case x of None \<Rightarrow> m | Some x \<Rightarrow> f x)"
  by (simp split: option.split)

definition all_grow :: "KcpMux \<Rightarrow> ('a \<times> KcpMux) list \<Rightarrow> bool" where
  "all_grow m0 rs \<longleftrightarrow> (\<forall>r\<in>set rs. grows m0 (snd r))"

lemma all_grow_cases:
  "grows m0 m \<Longrightarrow> all_grow m0 [(err, m)]"
  "all_grow m0 rs \<Longrightarrow> all_grow m0 rs' \<Longrightarrow> all_grow m0 (if b then rs else rs')"
  "all_grow m0 rs \<Longrightarrow> (\<And>e. all_grow m0 (f e)) \<Longrightarrow> all_grow m0 (case x of None \<Rightarrow> rs | Some e \<Rightarrow> f e)"
  "(\<And>i ft p. all_grow m0 (h i ft p)) \<Longrightarrow> all_grow m0 (case fr of (i, ft, p) \<Rightarrow> h i ft p)"
  "(\<And>e c. grows m0 (snd (g e c))) \<Longrightarrow> all_grow m0 (map (\<lambda>(e, c). g e c) cs)"
  by (fastforce simp: all_grow_def split: option.split prod.split)+

lemma grows_snd_option:
  "grows m0 (snd p) \<Longrightarrow> (\<And>e. grows m0 (snd (f e))) \<Longrightarrow> grows m0 (snd (case x of None \<Rightarrow> p | Some e \<Rightarrow> f e))"
  by (simp split: option.split)

lemma grows_pair: "grows m0 m \<Longrightarrow> grows m0 (snd (err, m))"
  by simp

lemmas grows_rules = grows_branch grows_option grows_snd_option grows_pair grows_small grows_send
  grows_removeStream grows_handleOpen grows_handleRemoteClose grows_handleCloseAck

lemma all_grow_Input:
  assumes "grows m0 m"
  shows "all_grow m0 (Input env now d m)"
proof (cases "decodeMuxFrame (env_overhead env) d")
  case (Inr f)
  show ?thesis unfolding Input_def Let_def Inr sum.case
    by (intro all_grow_cases grows_rules assms)
qed (use assms in \<open>auto simp: Input_def all_grow_def\<close>)

lemma grows_Input: "(err, m') \<in> set (Input env now d m) \<Longrightarrow> grows m0 m \<Longrightarrow> grows m0 m'"
  using all_grow_Input [of m0 m env now d] by (auto simp: all_grow_def)

lemma grows_acceptQueued: "acceptQueued now i m = (x, m') \<Longrightarrow> grows m0 m \<Longrightarrow> grows m0 m'"
  by (auto simp: acceptQueued_def Let_def split: if_splits option.splits)

lemma grows_Accept: "grows m0 m \<Longrightarrow> grows m0 (snd (Accept now choices m))"
proof (induction now choices m rule: Accept.induct)
  case (2 now choices m)
  show ?case
  proof (cases "mx_acceptCh m")
    case (Cons i rest)
    obtain x m' where a: "acceptQueued now i (m\<lparr>mx_acceptCh := rest\<rparr>) = (x, m')" by fastforce
    then have "grows m0 m'" using 2(3) by (blast intro: grows_acceptQueued)
    then show ?thesis using 2(2) [OF Cons a [symmetric]] Cons a
      by (cases x) (auto split: option.splits)
  qed (use 2 in simp)
qed auto

lemma grows_StopAccepting: "grows m0 m \<Longrightarrow> grows m0 (StopAccepting env m)"
  by (auto simp: StopAccepting_def Let_def intro!: grows_fold)

lemma grows_closeStream [intro]: "grows m0 m \<Longrightarrow> grows m0 (snd (closeStream env now later i m))"
  by (auto simp: closeStream_def Let_def split: option.splits)

lemma grows_wait: "m' \<in> set (waitForCloseAck i ch timeout m) \<Longrightarrow> grows m0 m \<Longrightarrow> grows m0 m'"
  by (auto simp: waitForCloseAck_def split: option.splits if_splits)

lemma grows_Close: "grows m0 m \<Longrightarrow> grows m0 (Close env now later m)"
  unfolding Close_def Let_def
  by (intro grows_branch) (assumption
    | intro grows_fields grows_fold grows_removeStream grows_closeStream)+

lemma grows_stream_io:
  assumes "grows m0 m"
  shows "grows m0 (snd (stream_Read now r s m))" "grows m0 (snd (stream_Write now r s m))"
  using assms by (auto simp: stream_Read_def stream_Write_def split: prod.splits)

lemma grows_goroutines:
  assumes "grows m0 m"
  shows "grows m0 (run_spawned env k m)" "grows m0 (idle_fires now i m)"
    "grows m0 (stream_output env now i d m)"
  using assms
  by (auto simp: run_spawned_def idle_fires_def stream_output_def
      split: prod.splits option.splits elim!: grows_sendFrame_eq)

lemmas grows_ops = grows_Open grows_Input grows_Accept grows_StopAccepting grows_closeStream
  grows_wait grows_Close grows_stream_io grows_goroutines grows_small(2)

lemma grows_step: "mux_step env m m' \<Longrightarrow> grows m m'"
  by (erule mux_step.cases; hypsubst) (blast intro: grows_ops grows_refl)+

end
