(* ===== verification/MuxHeap.thy ===== *)
theory MuxHeap
  imports KcpMuxLog
begin

text \<open>
  Both service multiplexers keep one component per service, created on demand and shared by
  pointer. The contract they rely on is the same: a component stays well-formed and keeps its
  key whatever it does, so a table of references into a list of components stays consistent and
  two keys never share a component. Here the contract, and the interpretation on \<^verbatim>\<open>KcpMux\<close>.
\<close>

locale keyed_heap =
  fixes key :: "'m \<Rightarrow> 'k" and okay :: "'m \<Rightarrow> bool" and run :: "'m \<Rightarrow> 'm \<Rightarrow> bool"
  assumes run_okay: "okay m \<Longrightarrow> run m m' \<Longrightarrow> okay m'"
    and run_key: "run m m' \<Longrightarrow> key m' = key m"
begin

definition consistent :: "('k \<Rightarrow> nat option) \<Rightarrow> 'm list \<Rightarrow> bool" where
  "consistent refs ms \<longleftrightarrow> (\<forall>m\<in>set ms. okay m)
     \<and> (\<forall>k r. refs k = Some r \<longrightarrow> r < length ms \<and> key (ms ! r) = k)"

lemma consistentD:
  assumes "consistent refs ms" "refs k = Some r"
  shows "r < length ms" "key (ms ! r) = k" "okay (ms ! r)"
  using assms by (auto simp: consistent_def)

lemma consistent_run:
  assumes "consistent refs ms" "run (ms ! r) m'"
  shows "consistent refs (ms[r := m'])"
proof (cases "r < length ms")
  case True
  then have "okay (ms ! r)" using assms(1) by (simp add: consistent_def)
  then have "okay m'" "key m' = key (ms ! r)"
    using run_okay run_key assms(2) by blast+
  moreover have "okay m" if "m \<in> set (ms[r := m'])" for m
    using set_update_subset_insert [of ms r m'] that assms(1) \<open>okay m'\<close> by (auto simp: consistent_def)
  ultimately show ?thesis using assms(1) True
    by (auto simp: consistent_def nth_list_update)
qed (use assms in \<open>simp add: not_less list_update_beyond\<close>)

lemma consistent_new:
  assumes "consistent refs ms" "okay m" "key m = k"
  shows "consistent (refs(k \<mapsto> length ms)) (ms @ [m])"
  using assms by (force simp: consistent_def nth_append split: if_splits)

lemma consistent_subset:
  assumes "consistent refs ms" "\<And>k r. refs' k = Some r \<Longrightarrow> refs k = Some r"
  shows "consistent refs' ms"
  using assms unfolding consistent_def by blast

lemma not_shared:
  assumes "consistent refs ms" "refs k = Some r" "refs k' = Some r"
  shows "k = k'"
  using consistentD(2) [OF assms(1,2)] consistentD(2) [OF assms(1,3)] by simp

lemma run_isolated:
  assumes "consistent refs ms" "refs k = Some r" "refs k' = Some r'" "k \<noteq> k'"
  shows "ms[r := m'] ! r' = ms ! r'"
proof -
  have "r \<noteq> r'" using not_shared [OF assms(1,2), of k'] assms(3,4) by blast
  then show ?thesis by simp
qed

end

lemma mux_step_key: "mux_step env m m' \<Longrightarrow> mx_serviceID m' = mx_serviceID m"
  using grows_step [of env m m'] by (simp add: grows_def)

interpretation muxes: keyed_heap mx_serviceID "mux_reach env" "mux_step env" for env
  by unfold_locales (auto intro: mux_reach.step mux_step_key)

lemma NewKcpMux_key [simp]: "mx_serviceID (NewKcpMux s c cfg) = s" "mx_log (NewKcpMux s c cfg) = []"
  by (simp_all add: NewKcpMux_def)

end
