(* ===== verification/CoreServiceMux.thy ===== *)
theory CoreServiceMux
  imports MuxHeap CoreConsts
begin

text \<open>
  The service multiplexer of a peer, \<^verbatim>\<open>pkgs/giznet/internal/core/service_mux.go\<close>: it routes the
  frames of the encrypted transport to one \<^verbatim>\<open>KcpMux\<close> per service, creates these on demand, refuses
  services the policy does not admit, and queues the direct packets. The multiplexers live in a
  list and \<^verbatim>\<open>serviceState.mux\<close> is a position of it, as the streams a caller holds keep pointing
  at them after \<^verbatim>\<open>Close\<close>. A method is one step. What a \<^verbatim>\<open>KcpMux\<close> sends and reports during a step
  goes through the callbacks it was created with: \<open>set_mux\<close> replays the new part of its log.
\<close>

section \<open>State\<close>

definition serviceMuxFrameOpen :: u8 where "serviceMuxFrameOpen = 0"
definition serviceMuxFrameData :: u8 where "serviceMuxFrameData = 1"
definition serviceMuxFrameClose :: u8 where "serviceMuxFrameClose = 2"
definition serviceMuxFrameCloseAck :: u8 where "serviceMuxFrameCloseAck = 3"

definition serviceStreamCloseReasonClose :: u8 where "serviceStreamCloseReasonClose = 0"
definition serviceStreamCloseReasonAbort :: u8 where "serviceStreamCloseReasonAbort = 1"
definition serviceStreamCloseReasonInvalid :: u8 where "serviceStreamCloseReasonInvalid = 2"

text \<open>
  The callbacks: \<^verbatim>\<open>Output\<close> may fail or not depending on its arguments and on how much its caller
  has sent before, \<^verbatim>\<open>OnOutputError\<close> is present or not. The last field is \<^verbatim>\<open>gokcp.IKCP_OVERHEAD\<close>.
\<close>

record ServiceMuxConfig =
  svc_IsClient :: bool
  svc_Output :: "(bytes \<Rightarrow> u64 \<Rightarrow> u8 \<Rightarrow> bytes \<Rightarrow> nat \<Rightarrow> kcp_error option) option"
  svc_OnOutputError :: bool
  svc_OnNewService :: "(bytes \<Rightarrow> u64 \<Rightarrow> bool) option"
  svc_DefaultKcpMuxConfig :: KcpMuxConfig
  svc_overhead :: nat

record serviceState =
  sst_serviceID :: u64
  sst_mux :: "nat option"
  sst_closed :: bool
  sst_acceptingStopped :: bool

datatype service_event = Sent u64 u8 bytes | OutputError u64 kcp_error

record ServiceMux =
  sv_config :: ServiceMuxConfig
  sv_peer :: bytes
  sv_services :: "(u64, serviceState) gomap"
  sv_closeCh :: bool
  sv_directCh :: "(u8 \<times> bytes) list"
  sv_closed :: bool
  sv_closeOnce :: bool
  sv_outputErrors :: u64
  sv_muxes :: "KcpMux list"
  sv_log :: "service_event list"

definition NewServiceMux :: "bytes \<Rightarrow> ServiceMuxConfig \<Rightarrow> ServiceMux" where
  "NewServiceMux peer cfg =
     (let cfg = (if svc_OnNewService cfg = None
                 then cfg\<lparr>svc_OnNewService := Some (\<lambda>_ service. service = 0)\<rparr> else cfg)
      in \<lparr>sv_config = cfg, sv_peer = peer, sv_services = [], sv_closeCh = False, sv_directCh = [],
          sv_closed = False, sv_closeOnce = False, sv_outputErrors = 0, sv_muxes = [], sv_log = []\<rparr>)"

section \<open>Callbacks\<close>

definition log_event :: "service_event \<Rightarrow> ServiceMux \<Rightarrow> ServiceMux" where
  "log_event ev m = m\<lparr>sv_log := sv_log m @ [ev]\<rparr>"

definition reportOutputError :: "u64 \<Rightarrow> kcp_error option \<Rightarrow> ServiceMux \<Rightarrow> ServiceMux" where
  "reportOutputError service err m =
     (case err of
        None \<Rightarrow> m
      | Some e \<Rightarrow>
          let m = m\<lparr>sv_outputErrors := sv_outputErrors m + 1\<rparr>
          in if svc_OnOutputError (sv_config m) then log_event (OutputError service e) m else m)"

text \<open>The closure that a \<^verbatim>\<open>KcpMux\<close> is given as its output, and the environment it runs in.\<close>

definition mux_output :: "ServiceMuxConfig \<Rightarrow> bytes \<Rightarrow> u64 \<Rightarrow> bytes \<Rightarrow> nat \<Rightarrow> kcp_error option" where
  "mux_output cfg peer service data n =
     (case svc_Output cfg of
        None \<Rightarrow> Some ErrNoSession
      | Some out \<Rightarrow> out peer service ProtocolKCP data n)"

definition service_env :: "ServiceMux \<Rightarrow> mux_env" where
  "service_env m = \<lparr>env_output = Some (mux_output (sv_config m) (sv_peer m)), env_reportErr = True,
     env_overhead = svc_overhead (sv_config m)\<rparr>"

fun absorb :: "mux_event \<Rightarrow> ServiceMux \<Rightarrow> ServiceMux" where
  "absorb (Frame service data) m =
     (if svc_Output (sv_config m) = None then m else log_event (Sent service ProtocolKCP data) m)"
| "absorb (Report service err) m = reportOutputError service (Some err) m"

definition set_mux :: "nat \<Rightarrow> KcpMux \<Rightarrow> ServiceMux \<Rightarrow> ServiceMux" where
  "set_mux r mux m =
     fold absorb (drop (length (mx_log (sv_muxes m ! r))) (mx_log mux))
       (m\<lparr>sv_muxes := (sv_muxes m)[r := mux]\<rparr>)"

section \<open>Frames for services that are refused\<close>

definition decodeServiceMuxFrame :: "nat \<Rightarrow> bytes \<Rightarrow> kcp_error + (u64 \<times> u8)" where
  "decodeServiceMuxFrame overhead data =
     (if length data = 0 then Inl ErrInvalidServiceFrame
      else let frameType = data ! 0 in
        if frameType = serviceMuxFrameData then
          (if length (drop 1 data) < overhead then Inl ErrInvalidServiceFrame
           else Inr (ucast (get_u32 (drop 1 data)), frameType))
        else if length data < 5 then Inl ErrInvalidServiceFrame
        else Inr (ucast (get_u32 (drop 1 data)), frameType))"

definition shouldRejectStoppedService :: "nat \<Rightarrow> bytes \<Rightarrow> bool" where
  "shouldRejectStoppedService overhead data =
     (case decodeServiceMuxFrame overhead data of
        Inl _ \<Rightarrow> False
      | Inr (_, frameType) \<Rightarrow> frameType = serviceMuxFrameOpen)"

definition sendServiceControlFrame ::
  "u64 \<Rightarrow> u64 \<Rightarrow> u8 \<Rightarrow> bytes \<Rightarrow> ServiceMux \<Rightarrow> ServiceMux" where
  "sendServiceControlFrame service streamID frameType payload m =
     (let frame = [frameType]; frame = frame @ put_u32 (ucast streamID); frame = frame @ payload in
      case svc_Output (sv_config m) of
        None \<Rightarrow> m
      | Some out \<Rightarrow>
          reportOutputError service (out (sv_peer m) service ProtocolKCP frame (length (sv_log m)))
            (log_event (Sent service ProtocolKCP frame) m))"

definition rejectUnknownService ::
  "u64 \<Rightarrow> bytes \<Rightarrow> ServiceMux \<Rightarrow> kcp_error option \<times> ServiceMux" where
  "rejectUnknownService service data m =
     (case decodeServiceMuxFrame (svc_overhead (sv_config m)) data of
        Inl e \<Rightarrow> (Some e, m)
      | Inr (streamID, frameType) \<Rightarrow>
          if frameType = serviceMuxFrameOpen then
            (None, sendServiceControlFrame service streamID serviceMuxFrameClose
                     [serviceStreamCloseReasonAbort] m)
          else if frameType = serviceMuxFrameClose then
            (None, sendServiceControlFrame service streamID serviceMuxFrameCloseAck [] m)
          else if frameType = serviceMuxFrameCloseAck then (None, m)
          else
            (None, sendServiceControlFrame service streamID serviceMuxFrameClose
                     [serviceStreamCloseReasonInvalid] m))"

section \<open>Services\<close>

definition getService :: "u64 \<Rightarrow> ServiceMux \<Rightarrow> serviceState option" where
  "getService service m = map_get (sv_services m) service"

definition put_service :: "serviceState \<Rightarrow> ServiceMux \<Rightarrow> ServiceMux" where
  "put_service state m = m\<lparr>sv_services := map_put (sst_serviceID state) state (sv_services m)\<rparr>"

definition new_service :: "u64 \<Rightarrow> serviceState" where
  "new_service service =
     \<lparr>sst_serviceID = service, sst_mux = None, sst_closed = False, sst_acceptingStopped = False\<rparr>"

definition getOrCreateService ::
  "u64 \<Rightarrow> ServiceMux \<Rightarrow> (kcp_error + serviceState) \<times> ServiceMux" where
  "getOrCreateService service m =
     (if sv_closed m then (Inl ErrServiceMuxClosed, m)
      else case getService service m of
        Some state \<Rightarrow> if sst_closed state then (Inl ErrServiceMuxClosed, m) else (Inr state, m)
      | None \<Rightarrow> let state = new_service service in (Inr state, put_service state m))"

definition ensureKcpMux :: "serviceState \<Rightarrow> ServiceMux \<Rightarrow> (kcp_error + nat) \<times> ServiceMux" where
  "ensureKcpMux state m =
     (case sst_mux state of
        Some mux \<Rightarrow> (Inr mux, m)
      | None \<Rightarrow>
          if sv_closed m then (Inl ErrServiceMuxClosed, m)
          else if sst_closed state then (Inl ErrServiceMuxClosed, m)
          else
            let r = length (sv_muxes m);
                m = m\<lparr>sv_muxes := sv_muxes m @ [NewKcpMux (sst_serviceID state)
                       (svc_IsClient (sv_config m)) (svc_DefaultKcpMuxConfig (sv_config m))]\<rparr>;
                m = put_service (state\<lparr>sst_mux := Some r\<rparr>) m;
                m = (if sst_acceptingStopped state
                     then set_mux r (StopAccepting (service_env m) (sv_muxes m ! r)) m else m)
            in (Inr r, m))"

definition inputKCPToService ::
  "int \<Rightarrow> serviceState \<Rightarrow> bytes \<Rightarrow> ServiceMux \<Rightarrow> (kcp_error option \<times> ServiceMux) list" where
  "inputKCPToService now state data m =
     (case ensureKcpMux state m of
        (Inl e, m) \<Rightarrow> [(Some e, m)]
      | (Inr r, m) \<Rightarrow>
          map (\<lambda>(err, mux). (err, set_mux r mux m)) (Input (service_env m) now data (sv_muxes m ! r)))"

definition admits :: "u64 \<Rightarrow> ServiceMux \<Rightarrow> bool" where
  "admits service m =
     (case svc_OnNewService (sv_config m) of
        None \<Rightarrow> False
      | Some f \<Rightarrow> f (sv_peer m) service)"

definition InputKCP ::
  "int \<Rightarrow> u64 \<Rightarrow> bytes \<Rightarrow> ServiceMux \<Rightarrow> (kcp_error option \<times> ServiceMux) list" where
  "InputKCP now service data m =
     (if sv_closed m then [(Some ErrServiceMuxClosed, m)]
      else case getService service m of
        Some state \<Rightarrow>
          if sst_closed state then [rejectUnknownService service data m]
          else if sst_acceptingStopped state
              \<and> shouldRejectStoppedService (svc_overhead (sv_config m)) data
            then [rejectUnknownService service data m]
          else inputKCPToService now state data m
      | None \<Rightarrow>
          if \<not> admits service m then [rejectUnknownService service data m]
          else case getOrCreateService service m of
            (Inl e, m) \<Rightarrow> [(Some e, m)]
          | (Inr state, m) \<Rightarrow> inputKCPToService now state data m)"

text \<open>A stream carries the multiplexer it belongs to.\<close>

definition OpenStream ::
  "int \<Rightarrow> u64 \<Rightarrow> ServiceMux \<Rightarrow> ((kcp_error + nat \<times> stream) \<times> ServiceMux) option" where
  "OpenStream now service m =
     (if sv_closed m then Some (Inl ErrServiceMuxClosed, m)
      else case getOrCreateService service m of
        (Inl e, m) \<Rightarrow> Some (Inl e, m)
      | (Inr state, m) \<Rightarrow>
          (case ensureKcpMux state m of
             (Inl e, m) \<Rightarrow> Some (Inl e, m)
           | (Inr r, m) \<Rightarrow>
               (case Open (service_env m) now (sv_muxes m ! r) of
                  None \<Rightarrow> None
                | Some (Inl e, mux) \<Rightarrow> Some (Inl e, set_mux r mux m)
                | Some (Inr s, mux) \<Rightarrow> Some (Inr (r, s), set_mux r mux m))))"

text \<open>\<open>None\<close> is a call that still waits.\<close>

definition AcceptStream ::
  "int \<Rightarrow> accept_choice list \<Rightarrow> u64 \<Rightarrow> ServiceMux \<Rightarrow> (kcp_error + nat \<times> stream) option \<times> ServiceMux" where
  "AcceptStream now choices service m =
     (if sv_closed m then (Some (Inl ErrServiceMuxClosed), m)
      else case getOrCreateService service m of
        (Inl e, m) \<Rightarrow> (Some (Inl e), m)
      | (Inr state, m) \<Rightarrow>
          (case ensureKcpMux state m of
             (Inl e, m) \<Rightarrow> (Some (Inl e), m)
           | (Inr r, m) \<Rightarrow>
               (case Accept now choices (sv_muxes m ! r) of
                  (None, mux) \<Rightarrow> (None, set_mux r mux m)
                | (Some (Inl e), mux) \<Rightarrow> (Some (Inl e), set_mux r mux m)
                | (Some (Inr s), mux) \<Rightarrow> (Some (Inr (r, s)), set_mux r mux m))))"

definition service_or_new :: "u64 \<Rightarrow> ServiceMux \<Rightarrow> serviceState" where
  "service_or_new service m =
     (case getService service m of Some state \<Rightarrow> state | None \<Rightarrow> new_service service)"

definition CloseService ::
  "int \<Rightarrow> int \<Rightarrow> u64 \<Rightarrow> ServiceMux \<Rightarrow> kcp_error option \<times> ServiceMux" where
  "CloseService now later service m =
     (if sv_closed m then (Some ErrServiceMuxClosed, m)
      else
        let state = (service_or_new service m)\<lparr>sst_closed := True, sst_acceptingStopped := True\<rparr>;
            m = put_service state m
        in case sst_mux state of
             None \<Rightarrow> (None, m)
           | Some r \<Rightarrow> (None, set_mux r (Close (service_env m) now later (sv_muxes m ! r)) m))"

definition StopAcceptingService :: "u64 \<Rightarrow> ServiceMux \<Rightarrow> kcp_error option \<times> ServiceMux" where
  "StopAcceptingService service m =
     (if sv_closed m then (Some ErrServiceMuxClosed, m)
      else
        let state = (service_or_new service m)\<lparr>sst_acceptingStopped := True\<rparr>;
            m = put_service state m
        in case sst_mux state of
             None \<Rightarrow> (None, m)
           | Some r \<Rightarrow> (None, set_mux r (StopAccepting (service_env m) (sv_muxes m ! r)) m))"

definition ServiceMux_Close :: "int \<Rightarrow> int \<Rightarrow> ServiceMux \<Rightarrow> ServiceMux" where
  "ServiceMux_Close now later m =
     (if sv_closeOnce m then m
      else
        let m = m\<lparr>sv_closeOnce := True, sv_closed := True, sv_closeCh := True\<rparr>;
            states = map snd (sv_services m);
            m = m\<lparr>sv_services := []\<rparr>
        in fold (\<lambda>state m. case sst_mux state of
                   None \<Rightarrow> m
                 | Some r \<Rightarrow> set_mux r (Close (service_env m) now later (sv_muxes m ! r)) m) states m)"

section \<open>Direct packets\<close>

definition InputPacket :: "u8 \<Rightarrow> bytes \<Rightarrow> ServiceMux \<Rightarrow> kcp_error option \<times> ServiceMux" where
  "InputPacket protocol data m =
     (if sv_closed m then (Some ErrServiceMuxClosed, m)
      else if protocol = ProtocolKCP then (Some ErrKCPMustUseStream, m)
      else if length (sv_directCh m) < InboundChanSize
        then (None, m\<lparr>sv_directCh := sv_directCh m @ [(protocol, data)]\<rparr>)
      else (Some ErrInboundQueueFull, m))"

definition copyDirectPacket :: "u8 \<times> bytes \<Rightarrow> bool \<Rightarrow> nat \<Rightarrow> ServiceMux \<Rightarrow> kcp_error + bytes" where
  "copyDirectPacket pkt ok buf m =
     (if \<not> ok then Inl ErrServiceMuxClosed
      else if sv_closed m then Inl ErrServiceMuxClosed
      else Inr (take buf (snd pkt)))"

text \<open>
  \<^verbatim>\<open>Read\<close> into a buffer of \<open>buf\<close> bytes: the outcomes of its \<^verbatim>\<open>select\<close>, none while it waits. Between
  the receive and the second look at \<^verbatim>\<open>closed\<close> other goroutines may run (the tests hook in there):
  \<open>hook\<close> is what they do.
\<close>

definition ServiceMux_Read ::
  "nat \<Rightarrow> (ServiceMux \<Rightarrow> ServiceMux) \<Rightarrow> ServiceMux \<Rightarrow> ((kcp_error + u8 \<times> bytes) \<times> ServiceMux) list" where
  "ServiceMux_Read buf hook m =
     (if sv_closed m then [(Inl ErrServiceMuxClosed, m)]
      else
        (case sv_directCh m of
           [] \<Rightarrow> []
         | pkt # rest \<Rightarrow>
             let m = hook (m\<lparr>sv_directCh := rest\<rparr>) in
             [(case copyDirectPacket pkt True buf m of
                 Inl e \<Rightarrow> Inl e
               | Inr data \<Rightarrow> Inr (fst pkt, data), m)])
        @ (if sv_closeCh m then [(Inl ErrServiceMuxClosed, m)] else []))"

definition ServiceMux_Write ::
  "u8 \<Rightarrow> bytes \<Rightarrow> ServiceMux \<Rightarrow> (kcp_error + nat) \<times> ServiceMux" where
  "ServiceMux_Write protocol data m =
     (if sv_closed m then (Inl ErrServiceMuxClosed, m)
      else if protocol = ProtocolKCP then (Inl ErrKCPMustUseStream, m)
      else case svc_Output (sv_config m) of
        None \<Rightarrow> (Inl ErrNoSession, m)
      | Some out \<Rightarrow>
          (case out (sv_peer m) 0 protocol data (length (sv_log m)) of
             Some err \<Rightarrow> (Inl err, reportOutputError 0 (Some err) (log_event (Sent 0 protocol data) m))
           | None \<Rightarrow> (Inr (length data), log_event (Sent 0 protocol data) m)))"

section \<open>Counters\<close>

definition IsClosed :: "ServiceMux option \<Rightarrow> bool" where
  "IsClosed m = (case m of None \<Rightarrow> True | Some m \<Rightarrow> sv_closed m)"

definition NumServices :: "ServiceMux \<Rightarrow> nat" where
  "NumServices m = length (sv_services m)"

definition ServiceMux_NumStreams :: "ServiceMux \<Rightarrow> nat" where
  "ServiceMux_NumStreams m =
     sum_list (map (\<lambda>(_, state). case sst_mux state of
       None \<Rightarrow> 0 | Some r \<Rightarrow> NumStreams (sv_muxes m ! r)) (sv_services m))"

definition OutputErrorCount :: "ServiceMux \<Rightarrow> u64" where
  "OutputErrorCount m = sv_outputErrors m"

end
