(* ===== verification/CoreServiceMuxProps.thy ===== *)
theory CoreServiceMuxProps
  imports CoreServiceMux
begin

text \<open>
  The service multiplexer as a state machine: its invariant, and the properties of its reachable
  states. What the single \<^verbatim>\<open>KcpMux\<close>es guarantee comes from the interpretation \<open>muxes\<close>.
\<close>

section \<open>Calls for one service\<close>

datatype service_op =
    InputOp int bytes
  | OpenOp int
  | AcceptOp int "accept_choice list"
  | StopOp
  | CloseOp int int

fun service_call :: "service_op \<Rightarrow> u64 \<Rightarrow> ServiceMux \<Rightarrow> ServiceMux list" where
  "service_call (InputOp now data) s m = map snd (InputKCP now s data m)"
| "service_call (OpenOp now) s m = (case OpenStream now s m of None \<Rightarrow> [] | Some (_, m') \<Rightarrow> [m'])"
| "service_call (AcceptOp now choices) s m = [snd (AcceptStream now choices s m)]"
| "service_call StopOp s m = [snd (StopAcceptingService s m)]"
| "service_call (CloseOp now later) s m = [snd (CloseService now later s m)]"

inductive service_step :: "ServiceMux \<Rightarrow> ServiceMux \<Rightarrow> bool" where
  call_step: "m' \<in> set (service_call op s m) \<Longrightarrow> service_step m m'"
| close_all_step: "service_step m (ServiceMux_Close now later m)"
| inner_step: "r < length (sv_muxes m) \<Longrightarrow> mux_step (service_env m) (sv_muxes m ! r) mux \<Longrightarrow>
    service_step m (set_mux r mux m)"
| packet_step: "service_step m (snd (InputPacket p d m))"
| direct_read_step: "hook = (\<lambda>m. m) \<or> hook = ServiceMux_Close now later \<Longrightarrow>
    (x, m') \<in> set (ServiceMux_Read n hook m) \<Longrightarrow> service_step m m'"
| direct_write_step: "service_step m (snd (ServiceMux_Write p d m))"

inductive service_reach :: "ServiceMux \<Rightarrow> bool" where
  new: "service_reach (NewServiceMux peer cfg)"
| step: "service_reach m \<Longrightarrow> service_step m m' \<Longrightarrow> service_reach m'"

section \<open>Callbacks change the log and the counter only\<close>

definition same_state :: "ServiceMux \<Rightarrow> ServiceMux \<Rightarrow> bool" where
  "same_state m m' \<longleftrightarrow> sv_config m' = sv_config m \<and> sv_peer m' = sv_peer m
     \<and> sv_services m' = sv_services m \<and> sv_closeCh m' = sv_closeCh m \<and> sv_directCh m' = sv_directCh m
     \<and> sv_closed m' = sv_closed m \<and> sv_closeOnce m' = sv_closeOnce m \<and> sv_muxes m' = sv_muxes m"

fun logged_service :: "service_event \<Rightarrow> u64" where
  "logged_service (Sent s p d) = s"
| "logged_service (OutputError s e) = s"

definition tells :: "u64 \<Rightarrow> ServiceMux \<Rightarrow> ServiceMux \<Rightarrow> bool" where
  "tells s m m' \<longleftrightarrow> (\<exists>evs. sv_log m' = sv_log m @ evs \<and> (\<forall>ev\<in>set evs. logged_service ev = s))"

lemma tells_refl [simp]: "tells s m m"
  by (simp add: tells_def)

lemma tells_trans: "tells s m m' \<Longrightarrow> tells s m' m'' \<Longrightarrow> tells s m m''"
  by (auto simp: tells_def)

lemma same_state_trans: "same_state m m' \<Longrightarrow> same_state m' m'' \<Longrightarrow> same_state m m''"
  by (simp add: same_state_def)

lemma reportOutputError_same: "same_state m (reportOutputError s e m)" "tells s m (reportOutputError s e m)"
  by (auto simp: same_state_def tells_def reportOutputError_def log_event_def Let_def split: option.splits)

lemma absorb_same: "same_state m (absorb ev m)" "event_service ev = s \<Longrightarrow> tells s m (absorb ev m)"
  using reportOutputError_same
  by (cases ev; auto simp: same_state_def tells_def log_event_def)+

lemma fold_absorb:
  "same_state m (fold absorb evs m)"
  "(\<forall>ev\<in>set evs. event_service ev = s) \<Longrightarrow> tells s m (fold absorb evs m)"
proof (induction evs arbitrary: m)
  case (Cons ev evs)
  { case 1 show ?case using same_state_trans [OF absorb_same(1) Cons.IH(1)] by simp }
  { case 2 then show ?case using tells_trans [OF absorb_same(2) Cons.IH(2)] by simp }
qed (simp_all add: same_state_def)

lemma set_mux_fields [simp]:
  "sv_config (set_mux r mux m) = sv_config m" "sv_peer (set_mux r mux m) = sv_peer m"
  "sv_services (set_mux r mux m) = sv_services m" "sv_closeCh (set_mux r mux m) = sv_closeCh m"
  "sv_directCh (set_mux r mux m) = sv_directCh m" "sv_closed (set_mux r mux m) = sv_closed m"
  "sv_closeOnce (set_mux r mux m) = sv_closeOnce m" "sv_muxes (set_mux r mux m) = (sv_muxes m)[r := mux]"
  "service_env (set_mux r mux m) = service_env m" "getService s (set_mux r mux m) = getService s m"
  using fold_absorb(1) [of "m\<lparr>sv_muxes := (sv_muxes m)[r := mux]\<rparr>"
      "drop (length (mx_log (sv_muxes m ! r))) (mx_log mux)"]
  by (simp_all add: set_mux_def same_state_def service_env_def getService_def)

lemma set_mux_tells:
  assumes "grows (sv_muxes m ! r) mux" "mx_serviceID (sv_muxes m ! r) = s"
  shows "tells s m (set_mux r mux m)"
proof -
  obtain evs where "mx_log mux = mx_log (sv_muxes m ! r) @ evs" "\<forall>ev\<in>set evs. event_service ev = s"
    using assms by (auto simp: grows_def)
  then show ?thesis using fold_absorb(2) [of evs s "m\<lparr>sv_muxes := (sv_muxes m)[r := mux]\<rparr>"]
    by (simp add: set_mux_def tells_def)
qed

lemma log_event_same: "same_state m (log_event ev m)" "logged_service ev = s \<Longrightarrow> tells s m (log_event ev m)"
  by (simp_all add: same_state_def tells_def log_event_def)

lemma control_frame_same:
  "same_state m (sendServiceControlFrame s i ft p m)" "tells s m (sendServiceControlFrame s i ft p m)"
  by (auto simp: sendServiceControlFrame_def Let_def same_state_def [of m m] split: option.splits
      intro: same_state_trans [OF log_event_same(1) reportOutputError_same(1)]
        tells_trans [OF log_event_same(2) reportOutputError_same(2)])

lemma reject_same:
  "same_state m (snd (rejectUnknownService s d m))" "tells s m (snd (rejectUnknownService s d m))"
  using control_frame_same
  by (auto simp: rejectUnknownService_def same_state_def split: sum.splits prod.splits)


section \<open>The invariant\<close>

definition refs :: "ServiceMux \<Rightarrow> u64 \<Rightarrow> nat option" where
  "refs m s = (case getService s m of None \<Rightarrow> None | Some st \<Rightarrow> sst_mux st)"

definition state_ok :: "ServiceMux \<Rightarrow> u64 \<Rightarrow> serviceState \<Rightarrow> bool" where
  "state_ok m s st \<longleftrightarrow> sst_serviceID st = s \<and> (sst_closed st \<longrightarrow> sst_acceptingStopped st)
     \<and> (\<forall>r. sst_mux st = Some r \<longrightarrow> (sst_closed st \<longrightarrow> mx_closed (sv_muxes m ! r))
          \<and> (sst_acceptingStopped st \<longrightarrow> \<not> mx_acceptingRemote (sv_muxes m ! r)))"

definition sv_inv :: "ServiceMux \<Rightarrow> bool" where
  "sv_inv m \<longleftrightarrow> muxes.consistent (service_env m) (refs m) (sv_muxes m)
     \<and> wf_map (sv_services m) \<and> (\<forall>s st. getService s m = Some st \<longrightarrow> state_ok m s st)
     \<and> sv_closeOnce m = sv_closed m \<and> sv_closeCh m = sv_closed m
     \<and> (\<not> sv_closed m \<longrightarrow> (\<forall>r < length (sv_muxes m). refs m (mx_serviceID (sv_muxes m ! r)) = Some r))
     \<and> (sv_closed m \<longrightarrow> sv_services m = [] \<and> (\<forall>mux\<in>set (sv_muxes m). mx_closed mux))"

lemma sv_inv_New: "sv_inv (NewServiceMux peer cfg)"
  by (simp add: sv_inv_def NewServiceMux_def muxes.consistent_def refs_def getService_def Let_def)

lemma refs_set_mux [simp]: "refs (set_mux r mux m) = refs m"
  by (simp add: refs_def fun_eq_iff)

lemma sv_inv_same: "same_state m m' \<Longrightarrow> sv_inv m \<Longrightarrow> sv_inv m'"
proof -
  assume a: "same_state m m'" "sv_inv m"
  have "service_env m' = service_env m" "getService s m' = getService s m" "refs m' = refs m" for s
    using a(1) by (simp_all add: same_state_def service_env_def getService_def refs_def fun_eq_iff)
  then show "sv_inv m'" using a by (simp add: sv_inv_def same_state_def state_ok_def)
qed

text \<open>A multiplexer of the list takes a step of its own.\<close>

lemma sv_inv_run:
  assumes inv: "sv_inv m" and s: "mux_step (service_env m) (sv_muxes m ! r) mux" and r: "r < length (sv_muxes m)"
  shows "sv_inv (set_mux r mux m)"
proof -
  have g: "mx_serviceID mux = mx_serviceID (sv_muxes m ! r)" "mx_closed (sv_muxes m ! r) \<Longrightarrow> mx_closed mux"
     "mx_acceptingRemote mux \<Longrightarrow> mx_acceptingRemote (sv_muxes m ! r)"
    using grows_step [OF s] by (auto simp: grows_def)
  have "muxes.consistent (service_env m) (refs m) ((sv_muxes m)[r := mux])"
    using inv s muxes.consistent_run by (auto simp: sv_inv_def)
  moreover have "state_ok (set_mux r mux m) k st" if "state_ok m k st" for k st
    using that g(2,3) r by (auto simp: state_ok_def nth_list_update)
  moreover have "refs m (mx_serviceID ((sv_muxes m)[r := mux] ! r')) = Some r'"
    if "\<not> sv_closed m" "r' < length (sv_muxes m)" for r'
    using that inv g(1) by (cases "r' = r") (simp_all add: sv_inv_def)
  moreover have "mx_closed mx" if "sv_closed m" "mx \<in> set ((sv_muxes m)[r := mux])" for mx
    using that inv g(2) r set_update_subset_insert [of "sv_muxes m" r mux] by (auto simp: sv_inv_def)
  ultimately show ?thesis using inv by (simp add: sv_inv_def)
qed

lemma sv_inv_ref:
  assumes "sv_inv m" "getService s m = Some st" "sst_mux st = Some r"
  shows "r < length (sv_muxes m)" "mx_serviceID (sv_muxes m ! r) = s"
    "mux_reach (service_env m) (sv_muxes m ! r)"
  using muxes.consistentD [of "service_env m" "refs m" "sv_muxes m" s r] assms
  by (auto simp: sv_inv_def refs_def)

lemma getService_put [simp]:
  "getService s (put_service st m) = (if s = sst_serviceID st then Some st else getService s m)"
  by (simp add: getService_def put_service_def)

lemma put_service_fields [simp]:
  "sv_config (put_service st m) = sv_config m" "sv_peer (put_service st m) = sv_peer m"
  "sv_closed (put_service st m) = sv_closed m" "sv_closeCh (put_service st m) = sv_closeCh m"
  "sv_closeOnce (put_service st m) = sv_closeOnce m" "sv_muxes (put_service st m) = sv_muxes m"
  "sv_directCh (put_service st m) = sv_directCh m" "sv_log (put_service st m) = sv_log m"
  "service_env (put_service st m) = service_env m"
  "sv_services (put_service st m) = map_put (sst_serviceID st) st (sv_services m)"
  by (simp_all add: put_service_def service_env_def)

lemma refs_put [simp]: "refs (put_service st m) = (refs m)(sst_serviceID st := sst_mux st)"
  by (auto simp: refs_def fun_eq_iff)

text \<open>The table entry of a service changes, its multiplexer stays.\<close>

lemma sv_inv_put:
  assumes inv: "sv_inv m" "\<not> sv_closed m" and st: "state_ok m (sst_serviceID st) st"
    "sst_mux st = refs m (sst_serviceID st)"
  shows "sv_inv (put_service st m)"
proof -
  have "refs (put_service st m) = refs m" using st(2) by (simp add: fun_eq_iff)
  moreover have "state_ok (put_service st m) s st' = state_ok m s st'" for s st'
    by (simp add: state_ok_def)
  ultimately show ?thesis using inv st by (simp add: sv_inv_def)
qed


section \<open>A call touches its own service only\<close>

definition only :: "u64 \<Rightarrow> ServiceMux \<Rightarrow> ServiceMux \<Rightarrow> bool" where
  "only s m m' \<longleftrightarrow> sv_config m' = sv_config m \<and> sv_peer m' = sv_peer m
     \<and> sv_closed m' = sv_closed m \<and> sv_closeOnce m' = sv_closeOnce m \<and> sv_closeCh m' = sv_closeCh m
     \<and> sv_directCh m' = sv_directCh m \<and> tells s m m'
     \<and> (\<forall>s'. s' \<noteq> s \<longrightarrow> getService s' m' = getService s' m)
     \<and> length (sv_muxes m) \<le> length (sv_muxes m')
     \<and> (\<forall>r < length (sv_muxes m). mx_serviceID (sv_muxes m' ! r) = mx_serviceID (sv_muxes m ! r)
          \<and> (mx_serviceID (sv_muxes m ! r) \<noteq> s \<longrightarrow> sv_muxes m' ! r = sv_muxes m ! r))"

lemma only_refl [simp]: "only s m m"
  by (simp add: only_def)

lemma only_trans: "only s m m' \<Longrightarrow> only s m' m'' \<Longrightarrow> only s m m''"
  by (auto simp: only_def intro: tells_trans)

lemma only_same: "same_state m m' \<Longrightarrow> tells s m m' \<Longrightarrow> only s m m'"
  by (auto simp: only_def same_state_def getService_def)

lemma only_put [simp]: "sst_serviceID st = s \<Longrightarrow> only s m (put_service st m)"
  by (simp add: only_def tells_def)

lemma only_set_mux:
  assumes "grows (sv_muxes m ! r) mux" "mx_serviceID (sv_muxes m ! r) = s"
  shows "only s m (set_mux r mux m)"
proof -
  have "mx_serviceID mux = s" using assms by (simp add: grows_def)
  then have "mx_serviceID ((sv_muxes m)[r := mux] ! k) = mx_serviceID (sv_muxes m ! k)
      \<and> (mx_serviceID (sv_muxes m ! k) \<noteq> s \<longrightarrow> (sv_muxes m)[r := mux] ! k = sv_muxes m ! k)"
    if "k < length (sv_muxes m)" for k
    using that assms(2) by (cases "k = r") simp_all
  then show ?thesis using set_mux_tells [OF assms] by (simp add: only_def)
qed

lemma only_grow:
  "only s m (m\<lparr>sv_muxes := sv_muxes m @ [mux]\<rparr>)"
  by (auto simp: only_def tells_def getService_def nth_append)

lemma env_only: "only s m m' \<Longrightarrow> service_env m' = service_env m"
  by (simp add: only_def service_env_def)

text \<open>A step of the multiplexer of service \<open>s\<close>, and a change of its table entry.\<close>

lemma run_service:
  assumes "sv_inv m" "refs m s = Some r" "mux_step (service_env m) (sv_muxes m ! r) mux"
  shows "sv_inv (set_mux r mux m)" "only s m (set_mux r mux m)"
proof -
  obtain st where "getService s m = Some st" "sst_mux st = Some r"
    using assms(2) by (auto simp: refs_def split: option.splits)
  note r = sv_inv_ref [OF assms(1) this]
  show "sv_inv (set_mux r mux m)" by (rule sv_inv_run [OF assms(1,3) r(1)])
  show "only s m (set_mux r mux m)" by (rule only_set_mux [OF grows_step [OF assms(3)] r(2)])
qed

lemma getOrCreateService_ok:
  assumes inv: "sv_inv m" and g: "getOrCreateService s m = (res, m1)"
  shows "sv_inv m1 \<and> only s m m1
     \<and> (\<forall>st. res = Inr st \<longrightarrow> getService s m1 = Some st \<and> \<not> sst_closed st \<and> \<not> sv_closed m1)"
proof (cases "sv_closed m \<or> getService s m \<noteq> None")
  case True
  then show ?thesis using inv g by (auto simp: getOrCreateService_def split: if_splits option.splits)
next
  case False
  then have "refs m s = None" by (simp add: refs_def)
  then have "sv_inv (put_service (new_service s) m)"
    using False by (intro sv_inv_put inv) (auto simp: state_ok_def new_service_def)
  then show ?thesis using g False
    by (auto simp: getOrCreateService_def new_service_def Let_def)
qed

lemma sv_inv_create:
  assumes inv: "sv_inv m" "\<not> sv_closed m" and st: "getService s m = Some st" "sst_mux st = None" "\<not> sst_closed st"
    and mux: "mux_reach (service_env m) mux" "mx_serviceID mux = s"
      "sst_acceptingStopped st \<longrightarrow> \<not> mx_acceptingRemote mux"
    and m': "m' = put_service (st\<lparr>sst_mux := Some (length (sv_muxes m))\<rparr>) (m\<lparr>sv_muxes := sv_muxes m @ [mux]\<rparr>)"
  shows "sv_inv m'"
proof -
  have id: "sst_serviceID st = s" and refs: "refs m s = None"
    using inv st by (auto simp: sv_inv_def state_ok_def refs_def)
  have env: "service_env m' = service_env m" by (simp add: m' service_env_def)
  have get: "getService k m' = (if k = s then Some (st\<lparr>sst_mux := Some (length (sv_muxes m))\<rparr>) else getService k m)" for k
    by (simp add: m' id) (simp add: getService_def)
  have refs': "refs m' = (refs m)(s \<mapsto> length (sv_muxes m))"
    by (auto simp: refs_def get fun_eq_iff)
  have muxes': "sv_muxes m' = sv_muxes m @ [mux]" by (simp add: m')
  have "muxes.consistent (service_env m') (refs m') (sv_muxes m')"
    unfolding env refs' muxes' using inv(1) mux by (intro muxes.consistent_new) (simp_all add: sv_inv_def)
  moreover have "state_ok m' k st'" if "getService k m' = Some st'" for k st'
  proof (cases "k = s")
    case True
    then show ?thesis using that st(3) mux(3) id by (auto simp: get state_ok_def muxes')
  next
    case False
    then have g: "getService k m = Some st'" using that by (simp add: get)
    then have "state_ok m k st'" using inv(1) by (simp add: sv_inv_def)
    then show ?thesis using sv_inv_ref(1) [OF inv(1) g] by (auto simp: state_ok_def muxes' nth_append)
  qed
  moreover have "refs m' (mx_serviceID (sv_muxes m' ! r)) = Some r" if "r < length (sv_muxes m')" for r
  proof (cases "r = length (sv_muxes m)")
    case False
    then have "r < length (sv_muxes m)" using that by (simp add: muxes')
    then show ?thesis using inv refs by (auto simp: sv_inv_def refs' muxes' nth_append)
  qed (simp add: muxes' refs' mux(2))
  ultimately show ?thesis using inv by (simp add: sv_inv_def m')
qed


lemma StopAccepting_new:
  "mx_log (StopAccepting env (NewKcpMux s c cfg)) = []"
  "\<not> mx_acceptingRemote (StopAccepting env (NewKcpMux s c cfg))"
  "mx_serviceID (StopAccepting env (NewKcpMux s c cfg)) = s"
  by (simp_all add: StopAccepting_def NewKcpMux_def Let_def)

lemma ensureKcpMux_ok:
  assumes inv: "sv_inv m" "\<not> sv_closed m" and st: "getService s m = Some st"
    and e: "ensureKcpMux st m = (res, m1)"
  shows "sv_inv m1 \<and> only s m m1 \<and> (\<forall>r. res = Inr r \<longrightarrow> refs m1 s = Some r)
     \<and> (sst_closed st \<longrightarrow> m1 = m) \<and> (\<not> sst_closed st \<longrightarrow> (\<exists>r. res = Inr r))"
proof -
  have id: "sst_serviceID st = s" using inv st by (simp add: sv_inv_def state_ok_def)
  consider (there) r where "sst_mux st = Some r" | (closed) "sst_mux st = None" "sst_closed st"
    | (new) "sst_mux st = None" "\<not> sst_closed st" by fastforce
  then show ?thesis
  proof cases
    case (there r)
    then show ?thesis using e inv st by (auto simp: ensureKcpMux_def refs_def)
  next
    case closed
    then show ?thesis using e inv by (auto simp: ensureKcpMux_def)
  next
    case new
    let ?r = "length (sv_muxes m)"
    let ?new = "NewKcpMux s (svc_IsClient (sv_config m)) (svc_DefaultKcpMuxConfig (sv_config m))"
    define mux where "mux = (if sst_acceptingStopped st then StopAccepting (service_env m) ?new else ?new)"
    let ?m' = "put_service (st\<lparr>sst_mux := Some ?r\<rparr>) (m\<lparr>sv_muxes := sv_muxes m @ [mux]\<rparr>)"
    have res: "res = Inr ?r" and m1: "m1 = ?m'"
      using e new inv(2) id
      by (auto simp: ensureKcpMux_def Let_def set_mux_def mux_def StopAccepting_new service_env_def
          put_service_def split: if_splits)
    have reach: "mux_reach (service_env m) mux"
      unfolding mux_def using mux_reach.step [OF mux_reach.new stop_step] mux_reach.new by auto
    have "sv_inv ?m'"
      by (rule sv_inv_create [OF inv st new reach _ _ refl]) (auto simp: mux_def StopAccepting_new)
    moreover have "only s m ?m'"
      by (rule only_trans [OF only_grow only_put]) (simp add: id)
    ultimately show ?thesis using res m1 new id by (auto simp: refs_def)
  qed
qed

text \<open>The steps of a multiplexer that the calls use.\<close>

lemmas mux_steps = open_step input_step accept_step stop_step close_step

lemma inputKCPToService_ok:
  assumes inv: "sv_inv m" "\<not> sv_closed m" and st: "getService s m = Some st"
    and i: "(err, m') \<in> set (inputKCPToService now st data m)"
  shows "sv_inv m' \<and> only s m m'"
proof -
  obtain res m1 where e: "ensureKcpMux st m = (res, m1)" by fastforce
  note ok = ensureKcpMux_ok [OF inv st e]
  show ?thesis
  proof (cases res)
    case (Inr r)
    then obtain mux where mux: "(err, mux) \<in> set (Input (service_env m1) now data (sv_muxes m1 ! r))"
      "m' = set_mux r mux m1"
      using i by (auto simp: inputKCPToService_def e)
    have "sv_inv m1" "refs m1 s = Some r" "only s m m1" using ok Inr by auto
    with run_service [OF this(1,2) input_step [OF mux(1)]] show ?thesis
      unfolding mux(2) by (blast intro: only_trans)
  qed (use i ok in \<open>auto simp: inputKCPToService_def e\<close>)
qed

lemma reject_ok: "sv_inv m \<Longrightarrow> (err, m') = rejectUnknownService s d m \<Longrightarrow> sv_inv m' \<and> only s m m'"
  by (metis reject_same sv_inv_same only_same snd_conv)

lemma InputKCP_ok:
  assumes inv: "sv_inv m" and i: "(err, m') \<in> set (InputKCP now s data m)"
  shows "sv_inv m' \<and> only s m m'"
proof (cases "sv_closed m")
  case False
  show ?thesis
  proof (cases "getService s m")
    case None
    obtain res m1 where g: "getOrCreateService s m = (res, m1)" by fastforce
    note ok = getOrCreateService_ok [OF inv g]
    show ?thesis
    proof (cases "admits s m")
      case True
      show ?thesis
      proof (cases res)
        case (Inr st)
        then have "getService s m1 = Some st" "\<not> sv_closed m1" "sv_inv m1" "only s m m1" using ok by auto
        with inputKCPToService_ok [OF this(3,2,1)] show ?thesis
          using i False None True Inr by (auto simp: InputKCP_def g intro: only_trans)
      qed (use i False None True ok in \<open>auto simp: InputKCP_def g\<close>)
    qed (use i False None reject_ok [OF inv] in \<open>auto simp: InputKCP_def\<close>)
  next
    case (Some st)
    then show ?thesis using i False inputKCPToService_ok [OF inv False Some]
        reject_ok [OF inv] by (auto simp: InputKCP_def split: if_splits)
  qed
qed (use inv i in \<open>auto simp: InputKCP_def\<close>)


text \<open>The calls that start from an existing or new service.\<close>

lemma with_service:
  assumes inv: "sv_inv m" and g: "getOrCreateService s m = (Inr st, m1)" and e: "ensureKcpMux st m1 = (res, m2)"
  shows "\<exists>r. res = Inr r \<and> sv_inv m2 \<and> only s m m2 \<and> refs m2 s = Some r"
proof -
  have "getService s m1 = Some st" "\<not> sst_closed st" "\<not> sv_closed m1" "sv_inv m1" "only s m m1"
    using getOrCreateService_ok [OF inv g] by auto
  with ensureKcpMux_ok [OF this(4,3,1) e] show ?thesis by (blast intro: only_trans)
qed

lemma with_service_step:
  assumes "sv_inv m" "getOrCreateService s m = (Inr st, m1)" "ensureKcpMux st m1 = (Inr r, m2)"
    and "mux_step (service_env m2) (sv_muxes m2 ! r) mux"
  shows "sv_inv (set_mux r mux m2) \<and> only s m (set_mux r mux m2)"
proof -
  have "sv_inv m2" "only s m m2" "refs m2 s = Some r"
    using with_service [OF assms(1-3)] by auto
  with run_service [OF this(1,3) assms(4)] show ?thesis by (blast intro: only_trans)
qed

lemma OpenStream_ok:
  assumes inv: "sv_inv m" and o: "OpenStream now s m = Some (res, m')"
  shows "sv_inv m' \<and> only s m m'"
proof -
  obtain gs m1 where g: "getOrCreateService s m = (gs, m1)" by fastforce
  show ?thesis
  proof (cases "sv_closed m \<or> (\<exists>e. gs = Inl e)")
    case True
    then show ?thesis using o inv getOrCreateService_ok [OF inv g]
      by (auto simp: OpenStream_def g split: if_splits)
  next
    case False
    then obtain st where st: "gs = Inr st" by (cases gs) auto
    obtain es m2 where e: "ensureKcpMux st m1 = (es, m2)" by fastforce
    obtain r where r: "es = Inr r" using with_service [OF inv g [unfolded st] e] by blast
    obtain x mux where "Open (service_env m2) now (sv_muxes m2 ! r) = Some (x, mux)" "m' = set_mux r mux m2"
      using o False by (auto simp: OpenStream_def g st e r split: option.splits sum.splits)
    then show ?thesis
      using with_service_step [OF inv g [unfolded st] e [unfolded r] open_step] by blast
  qed
qed

lemma AcceptStream_ok:
  assumes inv: "sv_inv m"
  shows "sv_inv (snd (AcceptStream now choices s m)) \<and> only s m (snd (AcceptStream now choices s m))"
proof -
  obtain gs m1 where g: "getOrCreateService s m = (gs, m1)" by fastforce
  show ?thesis
  proof (cases "sv_closed m \<or> (\<exists>e. gs = Inl e)")
    case True
    then show ?thesis using inv getOrCreateService_ok [OF inv g]
      by (auto simp: AcceptStream_def g)
  next
    case False
    then obtain st where st: "gs = Inr st" by (cases gs) auto
    obtain es m2 where e: "ensureKcpMux st m1 = (es, m2)" by fastforce
    obtain r where r: "es = Inr r" using with_service [OF inv g [unfolded st] e] by blast
    let ?mux = "snd (Accept now choices (sv_muxes m2 ! r))"
    have "snd (AcceptStream now choices s m) = set_mux r ?mux m2"
      using False by (auto simp: AcceptStream_def g st e r split: option.split sum.split prod.split)
    then show ?thesis
      using with_service_step [OF inv g [unfolded st] e [unfolded r] accept_step] by metis
  qed
qed

lemma set_mux_put: "set_mux r mux (put_service st m) = put_service st (set_mux r mux m)"
proof -
  define upd where "upd x m = m\<lparr>sv_services := x\<rparr>" for x :: "(u64, serviceState) gomap" and m :: ServiceMux
  have "absorb ev (upd x m) = upd x (absorb ev m)" for ev x m
    by (cases ev) (simp_all add: log_event_def reportOutputError_def Let_def upd_def)
  then have *: "fold absorb evs (upd x m) = upd x (fold absorb evs m)" for evs x m
    by (rule fold_commute)
  have "sv_services (fold absorb evs m) = sv_services m" for evs m
    using fold_absorb(1) [of m evs] by (simp add: same_state_def)
  moreover have "put_service st m\<lparr>sv_muxes := y\<rparr>
      = upd (map_put (sst_serviceID st) st (sv_services m)) (m\<lparr>sv_muxes := y\<rparr>)" for y
    by (simp add: put_service_def upd_def)
  ultimately show ?thesis by (simp add: set_mux_def *) (simp add: put_service_def upd_def)
qed

lemma StopAccepting_stops:
  assumes "flags_ok m"
  shows "\<not> mx_acceptingRemote (StopAccepting env m)"
proof (cases "mx_closed m \<or> mx_closing m \<or> \<not> mx_acceptingRemote m")
  case False
  then have "grows (m\<lparr>mx_acceptingRemote := False\<rparr>) (StopAccepting env m)"
    by (auto simp: StopAccepting_def Let_def intro!: grows_fold)
  then show ?thesis by (auto simp: grows_def)
qed (use assms in \<open>auto simp: StopAccepting_def flags_ok_def\<close>)

text \<open>A service is marked and its multiplexer, when there is one, brought in line.\<close>

lemma service_or_new_fields:
  assumes "sv_inv m"
  shows "sst_serviceID (service_or_new s m) = s" "sst_mux (service_or_new s m) = refs m s"
    "refs m s = Some r \<Longrightarrow> sst_closed (service_or_new s m) \<Longrightarrow> mx_closed (sv_muxes m ! r)"
  using assms by (auto simp: service_or_new_def refs_def new_service_def sv_inv_def state_ok_def
      split: option.splits)

lemma mark_service:
  assumes inv: "sv_inv m" "\<not> sv_closed m"
    and st: "sst_serviceID st = s" "sst_mux st = refs m s" "sst_acceptingStopped st"
    and f: "\<And>r. refs m s = Some r \<Longrightarrow> mux_reach (service_env m) (sv_muxes m ! r) \<Longrightarrow>
        mux_step (service_env m) (sv_muxes m ! r) (f (sv_muxes m ! r))
        \<and> \<not> mx_acceptingRemote (f (sv_muxes m ! r)) \<and> (sst_closed st \<longrightarrow> mx_closed (f (sv_muxes m ! r)))"
    and m': "m' = (case sst_mux st of None \<Rightarrow> put_service st m
        | Some r \<Rightarrow> set_mux r (f (sv_muxes m ! r)) (put_service st m))"
  shows "sv_inv m' \<and> only s m m' \<and> getService s m' = Some st"
proof (cases "sst_mux st")
  case None
  then have "sv_inv (put_service st m)" using st
    by (intro sv_inv_put inv) (simp_all add: state_ok_def)
  then show ?thesis using None st(1) by (simp add: m')
next
  case (Some r)
  have rs: "refs m s = Some r" using Some st(2) by simp
  note r = muxes.consistentD [of "service_env m" "refs m" "sv_muxes m" s r]
  have r: "r < length (sv_muxes m)" "mux_reach (service_env m) (sv_muxes m ! r)"
    using r inv(1) rs by (simp_all add: sv_inv_def)
  let ?mux = "f (sv_muxes m ! r)" let ?m1 = "set_mux r ?mux m"
  note f = f [OF rs r(2)]
  note run = run_service [OF inv(1) rs conjunct1 [OF f]]
  have "sv_inv (put_service st ?m1)"
    using run(1) inv(2) st rs f r(1) by (intro sv_inv_put) (simp_all add: state_ok_def)
  moreover have "only s m (put_service st ?m1)"
    by (rule only_trans [OF run(2) only_put [OF st(1)]])
  ultimately show ?thesis using Some st(1) by (simp add: m' set_mux_put)
qed

lemma StopAcceptingService_ok:
  assumes inv: "sv_inv m"
  shows "sv_inv (snd (StopAcceptingService s m)) \<and> only s m (snd (StopAcceptingService s m))"
proof (cases "sv_closed m")
  case False
  let ?st = "(service_or_new s m)\<lparr>sst_acceptingStopped := True\<rparr>"
  note st = service_or_new_fields [OF inv]
  have *: "mux_step (service_env m) (sv_muxes m ! r) (StopAccepting (service_env m) (sv_muxes m ! r))
      \<and> \<not> mx_acceptingRemote (StopAccepting (service_env m) (sv_muxes m ! r))
      \<and> (sst_closed ?st \<longrightarrow> mx_closed (StopAccepting (service_env m) (sv_muxes m ! r)))"
    if "refs m s = Some r" "mux_reach (service_env m) (sv_muxes m ! r)" for r
  proof -
    have "flags_ok (sv_muxes m ! r)" using mux_reach_inv [OF that(2)] by (simp add: mux_inv_def)
    then show ?thesis
      using stop_step [of "service_env m" "sv_muxes m ! r"] st(3) [OF that(1)] StopAccepting_stops
        grows_step [OF stop_step [of "service_env m" "sv_muxes m ! r"]] by (simp add: grows_def)
  qed
  have "snd (StopAcceptingService s m) = (case sst_mux ?st of None \<Rightarrow> put_service ?st m
      | Some r \<Rightarrow> set_mux r (StopAccepting (service_env m) (sv_muxes m ! r)) (put_service ?st m))"
    using False by (simp add: StopAcceptingService_def Let_def split: option.split)
  from mark_service [OF inv False _ _ _ * this] st show ?thesis by simp
qed (use inv in \<open>simp add: StopAcceptingService_def\<close>)

lemma CloseService_ok:
  assumes inv: "sv_inv m" and m': "m' = snd (CloseService now later s m)"
  shows "sv_inv m' \<and> only s m m'"
    and "\<not> sv_closed m \<Longrightarrow> \<exists>st. getService s m' = Some st \<and> sst_closed st"
proof -
  let ?st = "(service_or_new s m)\<lparr>sst_closed := True, sst_acceptingStopped := True\<rparr>"
  let ?f = "Close (service_env m) now later"
  note st = service_or_new_fields [OF inv]
  have *: "sv_inv m' \<and> only s m m' \<and> getService s m' = Some ?st" if "\<not> sv_closed m"
  proof (rule mark_service [OF inv that])
    fix r
    assume "refs m s = Some r" "mux_reach (service_env m) (sv_muxes m ! r)"
    then have "mux_inv (?f (sv_muxes m ! r))" "mx_closed (?f (sv_muxes m ! r))"
      using mux_inv_Close [OF mux_reach_inv] by auto
    then show "mux_step (service_env m) (sv_muxes m ! r) (?f (sv_muxes m ! r))
        \<and> \<not> mx_acceptingRemote (?f (sv_muxes m ! r)) \<and> (sst_closed ?st \<longrightarrow> mx_closed (?f (sv_muxes m ! r)))"
      using close_step by (auto simp: mux_inv_def flags_ok_def)
  next
    show "m' = (case sst_mux ?st of None \<Rightarrow> put_service ?st m
        | Some r \<Rightarrow> set_mux r (?f (sv_muxes m ! r)) (put_service ?st m))"
      using that by (simp add: m' CloseService_def Let_def split: option.split)
  qed (use st in simp_all)
  show "sv_inv m' \<and> only s m m'"
    using * inv by (cases "sv_closed m") (simp_all add: m' CloseService_def)
  show "\<exists>st. getService s m' = Some st \<and> sst_closed st" if "\<not> sv_closed m"
    using * [OF that] by simp
qed

lemma service_call_ok:
  assumes inv: "sv_inv m" and c: "m' \<in> set (service_call op s m)"
  shows "sv_inv m' \<and> only s m m'"
proof (cases op)
  case (InputOp now data)
  then obtain err where "(err, m') \<in> set (InputKCP now s data m)" using c by auto
  then show ?thesis by (rule InputKCP_ok [OF inv])
next
  case (OpenOp now)
  then obtain res where "OpenStream now s m = Some (res, m')"
    using c by (auto split: option.splits dest: sym)
  then show ?thesis by (rule OpenStream_ok [OF inv])
qed (use c AcceptStream_ok [OF inv] StopAcceptingService_ok [OF inv] CloseService_ok(1) [OF inv] in auto)


section \<open>Closing everything\<close>

definition close_state :: "int \<Rightarrow> int \<Rightarrow> serviceState \<Rightarrow> ServiceMux \<Rightarrow> ServiceMux" where
  "close_state now later state m = (case sst_mux state of
     None \<Rightarrow> m
   | Some r \<Rightarrow> set_mux r (Close (service_env m) now later (sv_muxes m ! r)) m)"

definition no_table :: "ServiceMux \<Rightarrow> bool" where
  "no_table m \<longleftrightarrow> sv_services m = [] \<and> sv_closed m \<and> sv_closeOnce m \<and> sv_closeCh m
     \<and> (\<forall>mux\<in>set (sv_muxes m). mux_reach (service_env m) mux)"

lemma close_state_ok:
  assumes "no_table m" "\<forall>r. sst_mux st = Some r \<longrightarrow> r < length (sv_muxes m)"
  shows "no_table (close_state now later st m) \<and> length (sv_muxes (close_state now later st m)) = length (sv_muxes m)
     \<and> (\<forall>r < length (sv_muxes m). mx_closed (sv_muxes m ! r) \<or> sst_mux st = Some r \<longrightarrow>
          mx_closed (sv_muxes (close_state now later st m) ! r))"
proof (cases "sst_mux st")
  case None
  then show ?thesis using assms(1) by (simp add: close_state_def)
next
  case (Some r)
  let ?mux = "Close (service_env m) now later (sv_muxes m ! r)"
  have r: "r < length (sv_muxes m)" "mux_reach (service_env m) (sv_muxes m ! r)"
    using assms Some by (auto simp: no_table_def)
  have "mux_reach (service_env m) ?mux" "mx_closed ?mux"
    using mux_reach.step [OF r(2) close_step] mux_inv_Close(2) [OF mux_reach_inv [OF r(2)]] by auto
  then show ?thesis using assms(1) Some r(1) set_update_subset_insert [of "sv_muxes m" r ?mux]
    by (auto simp: close_state_def no_table_def nth_list_update)
qed

lemma close_states_ok:
  assumes "no_table m" "\<forall>st\<in>set sts. \<forall>r. sst_mux st = Some r \<longrightarrow> r < length (sv_muxes m)"
  shows "no_table (fold (close_state now later) sts m)
     \<and> length (sv_muxes (fold (close_state now later) sts m)) = length (sv_muxes m)
     \<and> (\<forall>r < length (sv_muxes m).
          mx_closed (sv_muxes m ! r) \<or> (\<exists>st\<in>set sts. sst_mux st = Some r) \<longrightarrow>
          mx_closed (sv_muxes (fold (close_state now later) sts m) ! r))"
  using assms
proof (induction sts arbitrary: m)
  case (Cons st sts)
  have "\<forall>r. sst_mux st = Some r \<longrightarrow> r < length (sv_muxes m)" using Cons.prems(2) by simp
  note 1 = close_state_ok [OF Cons.prems(1) this, of now later]
  have "\<forall>st\<in>set sts. \<forall>r. sst_mux st = Some r \<longrightarrow> r < length (sv_muxes (close_state now later st' m))"
    if "st' = st" for st' using Cons.prems(2) 1 that by simp
  note 2 = Cons.IH [OF conjunct1 [OF 1] this [OF refl]]
  show ?case using 1 2 by auto
qed simp

lemma closed_inv:
  assumes "no_table m" "\<forall>r < length (sv_muxes m). mx_closed (sv_muxes m ! r)"
  shows "sv_inv m"
  using assms by (auto simp: sv_inv_def no_table_def muxes.consistent_def refs_def getService_def
      in_set_conv_nth)

lemma sv_inv_Close:
  assumes inv: "sv_inv m"
  shows "sv_inv (ServiceMux_Close now later m) \<and> sv_closed (ServiceMux_Close now later m)
     \<and> service_env (ServiceMux_Close now later m) = service_env m
     \<and> length (sv_muxes (ServiceMux_Close now later m)) = length (sv_muxes m)"
proof (cases "sv_closeOnce m")
  case True
  then show ?thesis using inv by (simp add: ServiceMux_Close_def sv_inv_def)
next
  case False
  let ?m0 = "m\<lparr>sv_closeOnce := True, sv_closed := True, sv_closeCh := True, sv_services := []\<rparr>"
  let ?sts = "map snd (sv_services m)"
  let ?m' = "fold (close_state now later) ?sts ?m0"
  have eq: "ServiceMux_Close now later m = ?m'"
    using False by (simp add: ServiceMux_Close_def Let_def close_state_def [abs_def])
  have tab: "\<exists>s. getService s m = Some st" if "st \<in> set ?sts" for st
    using that inv by (force simp: sv_inv_def getService_def wf_map_mem)
  have len: "\<forall>st\<in>set ?sts. \<forall>r. sst_mux st = Some r \<longrightarrow> r < length (sv_muxes ?m0)"
    using tab sv_inv_ref(1) [OF inv] by fastforce
  have env: "service_env ?m0 = service_env m" by (simp add: service_env_def)
  have "no_table ?m0"
    using inv by (simp add: no_table_def env sv_inv_def muxes.consistent_def)
  note ok = close_states_ok [OF this len, of now later]
  have "mx_closed (sv_muxes ?m' ! r)" if r: "r < length (sv_muxes m)" for r
  proof -
    have "refs m (mx_serviceID (sv_muxes m ! r)) = Some r"
      using inv False r by (simp add: sv_inv_def)
    then obtain st where "getService (mx_serviceID (sv_muxes m ! r)) m = Some st" "sst_mux st = Some r"
      by (auto simp: refs_def split: option.splits)
    moreover from this have "(mx_serviceID (sv_muxes m ! r), st) \<in> set (sv_services m)"
      by (simp add: getService_def map_of_SomeD)
    then have "st \<in> set ?sts" by force
    ultimately show ?thesis using ok r by auto
  qed
  then have "sv_inv ?m'" using ok by (intro closed_inv) simp_all
  moreover have "service_env ?m' = service_env m"
    unfolding env [symmetric] by (rule fold_inv [where P = "\<lambda>m. service_env m = service_env ?m0"])
      (auto simp: close_state_def split: option.split)
  ultimately show ?thesis using ok by (simp add: eq no_table_def)
qed

section \<open>Reachable states\<close>

lemma direct_inv:
  assumes "sv_inv m"
  shows "sv_inv (m\<lparr>sv_directCh := q\<rparr>)"
proof -
  have "service_env (m\<lparr>sv_directCh := q\<rparr>) = service_env m" "refs (m\<lparr>sv_directCh := q\<rparr>) = refs m"
    "getService s (m\<lparr>sv_directCh := q\<rparr>) = getService s m"
    "state_ok (m\<lparr>sv_directCh := q\<rparr>) s st = state_ok m s st" for s st
    by (simp_all add: service_env_def refs_def getService_def state_ok_def fun_eq_iff)
  then show ?thesis using assms by (simp add: sv_inv_def)
qed

lemma service_step_inv:
  assumes "service_step m m'" "sv_inv m"
  shows "sv_inv m'"
  using assms
proof cases
  case (call_step op s)
  then show ?thesis using service_call_ok assms(2) by blast
next
  case (close_all_step now later)
  then show ?thesis using sv_inv_Close assms(2) by blast
next
  case (inner_step r mux)
  then show ?thesis using sv_inv_run assms(2) by blast
next
  case (packet_step p d)
  then show ?thesis using assms(2) by (simp add: InputPacket_def direct_inv)
next
  case (direct_read_step hook now later x n)
  then show ?thesis using assms(2) sv_inv_Close direct_inv
    by (auto simp: ServiceMux_Read_def Let_def split: if_splits list.splits)
next
  case (direct_write_step p d)
  have "sv_inv (reportOutputError 0 (Some e) (log_event (Sent 0 p d) m))" for e
    by (rule sv_inv_same [OF same_state_trans [OF log_event_same(1) reportOutputError_same(1)] assms(2)])
  moreover have "sv_inv (log_event (Sent 0 p d) m)"
    by (rule sv_inv_same [OF log_event_same(1) assms(2)])
  ultimately show ?thesis using assms(2) direct_write_step
    by (auto simp: ServiceMux_Write_def split: option.splits)
qed

lemma service_reach_inv: "service_reach m \<Longrightarrow> sv_inv m"
  by (induction rule: service_reach.induct) (auto intro: sv_inv_New service_step_inv)

end
