(* ===== verification/CoreServiceMuxThms.thy ===== *)
theory CoreServiceMuxThms
  imports CoreServiceMuxProps
begin

text \<open>The properties of the service multiplexer.\<close>

definition toy_service_config :: "bool \<Rightarrow> ServiceMuxConfig" where
  "toy_service_config client = \<lparr>svc_IsClient = client, svc_Output = Some (\<lambda>_ _ _ _ _. None),
     svc_OnOutputError = False, svc_OnNewService = None,
     svc_DefaultKcpMuxConfig = \<lparr>mc_CloseAckTimeout = 0, mc_IdleStreamTimeout = 0,
       mc_AcceptBacklog = 0, mc_MaxActiveStreams = 0\<rparr>, svc_overhead = 24\<rparr>"

definition toy_service_mux :: ServiceMux where
  "toy_service_mux = NewServiceMux [1, 2] (toy_service_config False)"

lemma toy_service_reach: "service_reach toy_service_mux"
  unfolding toy_service_mux_def by (rule service_reach.new)

section \<open>Composition\<close>



text \<open>
  C15: services do not disturb each other: whatever a call for one service does, the table entry
  and the multiplexer of every other service stay exactly as they were, and everything that is
  sent or reported during the call carries the identifier of the service that was called.
\<close>

theorem service_isolation:
  assumes "service_reach m" "m' \<in> set (service_call op s m)" "s' \<noteq> s"
  shows "getService s' m' = getService s' m
     \<and> (\<forall>st r. getService s' m = Some st \<longrightarrow> sst_mux st = Some r \<longrightarrow> sv_muxes m' ! r = sv_muxes m ! r)
     \<and> (\<exists>evs. sv_log m' = sv_log m @ evs \<and> (\<forall>ev\<in>set evs. logged_service ev = s))"
proof -
  have inv: "sv_inv m" by (rule service_reach_inv [OF assms(1)])
  have only: "only s m m'" using service_call_ok [OF inv assms(2)] by blast
  have "sv_muxes m' ! r = sv_muxes m ! r" if "getService s' m = Some st" "sst_mux st = Some r" for st r
    using sv_inv_ref(1,2) [OF inv that] only assms(3) by (simp add: only_def)
  then show ?thesis using only assms(3) by (simp add: only_def tells_def)
qed

theorem service_isolation_witness:
  "getService 5 (snd (StopAcceptingService 3 toy_service_mux)) = getService 5 toy_service_mux"
  using service_isolation [OF toy_service_reach, where op = StopOp and s = 3 and s' = 5] by simp

section \<open>Closed services\<close>

definition shut :: "u64 \<Rightarrow> ServiceMux \<Rightarrow> bool" where
  "shut s m \<longleftrightarrow> sv_closed m \<or> (\<exists>st. getService s m = Some st \<and> sst_closed st)"

lemma shut_calls:
  assumes "shut s m"
  shows "OpenStream now s m = Some (Inl ErrServiceMuxClosed, m)"
    "AcceptStream now choices s m = (Some (Inl ErrServiceMuxClosed), m)"
    "(err, m') \<in> set (InputKCP now s d m) \<Longrightarrow> same_state m m'"
  using assms reject_same(1) [of m s d]
  by (auto simp: shut_def OpenStream_def AcceptStream_def getOrCreateService_def InputKCP_def same_state_def
      split: if_splits) (metis snd_conv)+

lemma shut_same: "same_state m m' \<Longrightarrow> shut s m \<Longrightarrow> shut s m'"
  by (simp add: shut_def same_state_def getService_def)

lemma shut_call:
  assumes inv: "sv_inv m" and sh: "shut s m" and c: "m' \<in> set (service_call op s' m)"
  shows "shut s m'"
proof (cases "s' = s")
  case False
  then show ?thesis using service_call_ok [OF inv c] sh by (auto simp: only_def shut_def)
next
  case True
  show ?thesis
  proof (cases op)
    case (InputOp now data)
    then obtain err where "(err, m') \<in> set (InputKCP now s data m)" using c True by auto
    then show ?thesis using shut_same [OF shut_calls(3) [OF sh] sh] by blast
  next
    case StopOp
    have "getService s (set_mux r mux m) = getService s m" for r mux by simp
    then show ?thesis using c True sh StopOp
      by (auto simp: StopAcceptingService_def Let_def shut_def service_or_new_def
          service_or_new_fields(1) [OF inv, unfolded service_or_new_def] split: option.splits)
  next
    case (CloseOp now later)
    then have "m' = snd (CloseService now later s m)" using c True by simp
    from CloseService_ok(2) [OF inv this] this sh show ?thesis
      by (cases "sv_closed m") (auto simp: shut_def CloseService_def)
  qed (use c True sh shut_calls(1,2) [OF sh] in auto)
qed

lemma shut_step:
  assumes "service_step m m'" "sv_inv m" "shut s m"
  shows "shut s m'"
  using assms
proof cases
  case (direct_read_step hook now later x n)
  have "shut s (m\<lparr>sv_directCh := q\<rparr>)" for q using assms(3) by (simp add: shut_def getService_def)
  moreover have "shut s (ServiceMux_Close now later (m\<lparr>sv_directCh := q\<rparr>))" for q
    using sv_inv_Close [OF direct_inv [OF assms(2)]] by (simp add: shut_def)
  ultimately show ?thesis using direct_read_step assms(3)
    by (auto simp: ServiceMux_Read_def Let_def split: if_splits list.splits)
next
  case (direct_write_step p d)
  then show ?thesis using assms(3)
      shut_same [OF same_state_trans [OF log_event_same(1) reportOutputError_same(1)]] shut_same [OF log_event_same(1)]
    by (auto simp: ServiceMux_Write_def split: option.splits)
next
  case (packet_step p d)
  then show ?thesis using assms(3) by (auto simp: InputPacket_def shut_def getService_def)
next
  case (call_step op s')
  then show ?thesis using shut_call assms(2,3) by blast
qed (use assms sv_inv_Close in \<open>auto simp: shut_def\<close>)

text \<open>
  C17: closing a service is final: from then on, whatever happens, opening or accepting a stream
  of the service fails with \<^verbatim>\<open>ErrServiceMuxClosed\<close>, and a frame that arrives for it is answered
  without creating or touching any multiplexer.
\<close>

theorem closed_service_is_final:
  assumes "service_reach m" "\<not> sv_closed m" "m1 = snd (CloseService now later s m)"
    "service_step\<^sup>*\<^sup>* m1 m2"
  shows "OpenStream t s m2 = Some (Inl ErrServiceMuxClosed, m2)
     \<and> AcceptStream t choices s m2 = (Some (Inl ErrServiceMuxClosed), m2)
     \<and> (\<forall>(err, m3)\<in>set (InputKCP t s d m2). sv_services m3 = sv_services m2 \<and> sv_muxes m3 = sv_muxes m2)"
proof -
  have inv: "sv_inv m" by (rule service_reach_inv [OF assms(1)])
  have "sv_inv m1" "shut s m1"
    using CloseService_ok [OF inv assms(3)] assms(2) by (auto simp: shut_def)
  with assms(4) have "shut s m2"
    by (induction rule: rtranclp_induct) (auto dest: rtranclp_induct [of service_step m1 _ sv_inv]
      intro: shut_step service_step_inv)
  from shut_calls [OF this] show ?thesis by (fastforce simp: same_state_def)
qed

theorem closed_service_is_final_witness:
  "OpenStream 9 0 (snd (StopAcceptingService 4 (snd (CloseService 1 2 0 toy_service_mux))))
     = Some (Inl ErrServiceMuxClosed, snd (StopAcceptingService 4 (snd (CloseService 1 2 0 toy_service_mux))))"
proof -
  let ?m1 = "snd (CloseService 1 2 0 toy_service_mux)"
  have "service_step\<^sup>*\<^sup>* ?m1 (snd (StopAcceptingService 4 ?m1))"
    by (rule r_into_rtranclp, rule call_step [where op = StopOp and s = 4]) simp
  moreover have "\<not> sv_closed toy_service_mux" by (simp add: toy_service_mux_def NewServiceMux_def Let_def)
  ultimately show ?thesis using closed_service_is_final [OF toy_service_reach _ refl] by blast
qed


section \<open>Refused streams\<close>

lemmas service_frame_defs = serviceMuxFrameOpen_def serviceMuxFrameData_def serviceMuxFrameClose_def
  serviceMuxFrameCloseAck_def serviceStreamCloseReasonAbort_def frame_defs reason_defs

text \<open>The decoder of this file reads what the one of \<^verbatim>\<open>kcp_mux.go\<close> reads, without the payload.\<close>

lemma decode_equiv:
  "decodeServiceMuxFrame n d = (case decodeMuxFrame n d of Inl e \<Rightarrow> Inl e | Inr (i, ft, p) \<Rightarrow> Inr (i, ft))"
  by (simp add: decodeServiceMuxFrame_def decodeMuxFrame_def decodeKCPConv_def Let_def
      serviceMuxFrameData_def kcpMuxFrameData_def)

definition refuses :: "u64 \<Rightarrow> ServiceMux \<Rightarrow> bool" where
  "refuses s m \<longleftrightarrow> \<not> sv_closed m \<and>
     (case getService s m of
        None \<Rightarrow> \<not> admits s m
      | Some st \<Rightarrow> sst_closed st \<or> sst_acceptingStopped st)"

lemma refused_open:
  assumes "refuses s m" "unat i < 2 ^ 32" "svc_Output (sv_config m) \<noteq> None"
  shows "\<exists>m' evs. InputKCP t s (mux_frame i kcpMuxFrameOpen []) m = [(None, m')]
     \<and> sv_log m' = sv_log m @ Sent s ProtocolKCP (mux_frame i kcpMuxFrameClose [streamCloseReasonAbort]) # evs
     \<and> sv_muxes m' = sv_muxes m"
proof -
  let ?f = "mux_frame i kcpMuxFrameOpen []"
  let ?m' = "sendServiceControlFrame s i serviceMuxFrameClose [serviceStreamCloseReasonAbort] m"
  have dec: "decodeServiceMuxFrame n ?f = Inr (i, serviceMuxFrameOpen)" for n
    by (simp add: decode_equiv decode_control [OF _ assms(2)] service_frame_defs)
  then have "rejectUnknownService s ?f m = (None, ?m')" "shouldRejectStoppedService n ?f" for n
    by (simp_all add: rejectUnknownService_def shouldRejectStoppedService_def)
  then have inp: "InputKCP t s ?f m = [(None, ?m')]"
    using assms(1) by (auto simp: refuses_def InputKCP_def split: option.splits)
  obtain out where out: "svc_Output (sv_config m) = Some out" using assms(3) by blast
  let ?reply = "mux_frame i kcpMuxFrameClose [streamCloseReasonAbort]"
  have "[serviceMuxFrameClose] @ put_u32 (ucast i) @ [serviceStreamCloseReasonAbort] = ?reply"
    by (simp add: mux_frame_def service_frame_defs)
  then have "\<exists>err. ?m' = reportOutputError s err (log_event (Sent s ProtocolKCP ?reply) m)"
    by (auto simp: sendServiceControlFrame_def out Let_def)
  then have "\<exists>evs. sv_log ?m' = sv_log m @ Sent s ProtocolKCP ?reply # evs"
    by (auto simp: reportOutputError_def log_event_def Let_def split: option.splits)
  moreover have "sv_muxes ?m' = sv_muxes m" using control_frame_same(1) by (simp add: same_state_def)
  ultimately show ?thesis using inp by blast
qed

text \<open>
  C14: a refused stream is aborted at the side that opened it: when the service is unknown and not
  admitted, closed or no longer accepting, the OPEN frame is answered with a CLOSE frame and no
  multiplexer is created; that reply, given to the opener's \<^verbatim>\<open>Input\<close>, is acknowledged and removes
  its stream, and reading the stream then reports the abort.
\<close>

theorem refused_stream_is_aborted:
  assumes c: "mux_reach env c" "Open env now c = Some (Inr (i, r), c')" "env_output env \<noteq> None"
    and s: "refuses s m" "svc_Output (sv_config m) \<noteq> None"
  shows "\<exists>frame reply m' evs c'' log.
     mx_log c' = mx_log c @ [Frame (mx_serviceID c) frame]
     \<and> InputKCP t s frame m = [(None, m')] \<and> sv_muxes m' = sv_muxes m
     \<and> sv_log m' = sv_log m @ Sent s ProtocolKCP reply # evs
     \<and> Input env t' reply c' = [(None, c'')] \<and> getEntry i c'' = None
     \<and> mx_log c'' = mx_log c' @ Frame (mx_serviceID c') (mux_frame i kcpMuxFrameCloseAck []) # log
     \<and> fst (stream_Read t'' res (i, r) c'') = (0, Some ErrStreamAborted)"
proof -
  note o = open_sends [OF c]
  obtain m' evs where srv: "InputKCP t s (mux_frame i kcpMuxFrameOpen []) m = [(None, m')]"
    "sv_log m' = sv_log m @ Sent s ProtocolKCP (mux_frame i kcpMuxFrameClose [streamCloseReasonAbort]) # evs"
    "sv_muxes m' = sv_muxes m"
    using refused_open [OF s(1) o(1) s(2)] by blast
  obtain e where e: "getEntry i c' = Some e" "se_conn e = r" using o(4) by blast
  have inv: "mux_inv c'" by (rule mux_reach_inv [OF mux_reach.step [OF c(1) open_step [OF c(2)]]])
  have "\<not> kc_closed (mx_conns c' ! se_conn e)" "kc_closeErr (mx_conns c' ! se_conn e) = None"
    using o(5) e(2) by (simp_all add: NewKCPConn_def)
  from remote_close [OF inv e(1) this c(3), of t' streamCloseReasonAbort] obtain c'' log where cl:
    "Input env t' (mux_frame i kcpMuxFrameClose [streamCloseReasonAbort]) c' = [(None, c'')]"
    "getEntry i c'' = None" "kc_closed (mx_conns c'' ! r)"
    "mx_log c'' = mx_log c' @ Frame (mx_serviceID c') (mux_frame i kcpMuxFrameCloseAck []) # log"
    "getCloseErr (mx_conns c'' ! r) = close_error streamCloseReasonAbort"
    using e(2) by blast
  have "fst (stream_Read t'' res (i, r) c'') = (0, Some ErrStreamAborted)"
    using cl(3,5) by (simp add: stream_Read_def conn_Read_def close_error_def reason_defs)
  then show ?thesis using o(3) srv cl(1,2,4) by blast
qed

theorem refused_stream_is_aborted_witness:
  "\<exists>c frame m'. Open quiet_env 0 toy_client = Some (Inr (1, 0), c)
     \<and> InputKCP 2 7 frame toy_service_mux = [(None, m')] \<and> sv_muxes m' = []"
proof -
  obtain c where o: "Open quiet_env 0 toy_client = Some (Inr (1, 0), c)"
    using toy_mux_open by (auto simp: toy_client_def)
  have "mux_reach quiet_env toy_client" unfolding toy_client_def by (rule mux_reach.new)
  moreover have "refuses 7 toy_service_mux" "svc_Output (sv_config toy_service_mux) \<noteq> None"
    "sv_muxes toy_service_mux = []"
    by (simp_all add: refuses_def toy_service_mux_def NewServiceMux_def toy_service_config_def
        getService_def admits_def)
  moreover have "env_output quiet_env \<noteq> None" by (simp add: quiet_env_def)
  ultimately obtain frame m' where "InputKCP 2 7 frame toy_service_mux = [(None, m')]" "sv_muxes m' = []"
    using refused_stream_is_aborted [OF _ o, of 7 toy_service_mux 2 3 4 undefined] by auto
  with o show ?thesis by blast
qed

section \<open>Direct packets\<close>

text \<open>Sending a list of packets into the queue, and reading it empty.\<close>

fun put_packets :: "(u8 \<times> bytes) list \<Rightarrow> ServiceMux \<Rightarrow> ServiceMux" where
  "put_packets [] m = m"
| "put_packets ((p, d) # pkts) m = put_packets pkts (snd (InputPacket p d m))"

fun read_packets :: "nat \<Rightarrow> nat \<Rightarrow> ServiceMux \<Rightarrow> (kcp_error + u8 \<times> bytes) list" where
  "read_packets buf 0 m = []"
| "read_packets buf (Suc n) m =
     (case ServiceMux_Read buf (\<lambda>m. m) m of
        [] \<Rightarrow> []
      | (res, m) # _ \<Rightarrow> res # read_packets buf n m)"

lemma put_packets_queue:
  assumes "\<not> sv_closed m"
  shows "\<not> sv_closed (put_packets pkts m) \<and> sv_closeCh (put_packets pkts m) = sv_closeCh m \<and>
     sv_directCh (put_packets pkts m) = sv_directCh m @
       take (InboundChanSize - length (sv_directCh m)) (filter (\<lambda>(p, _). p \<noteq> ProtocolKCP) pkts)"
  using assms
proof (induction pkts m rule: put_packets.induct)
  case (2 p d pkts m)
  show ?case using 2
    by (cases "length (sv_directCh m) < InboundChanSize")
      (auto simp: InputPacket_def Suc_diff_Suc take_Cons' split: if_splits)
qed simp

lemma read_packets_queue:
  assumes "\<not> sv_closed m" "\<not> sv_closeCh m" "n = length (sv_directCh m)"
  shows "read_packets buf n m = map (\<lambda>(p, d). Inr (p, take buf d)) (sv_directCh m)"
  using assms
proof (induction n arbitrary: m)
  case (Suc n)
  then obtain p d rest where q: "sv_directCh m = (p, d) # rest" by (cases "sv_directCh m") auto
  then show ?case using Suc.IH [of "m\<lparr>sv_directCh := rest\<rparr>"] Suc.prems
    by (simp add: ServiceMux_Read_def copyDirectPacket_def)
qed simp

text \<open>
  C18: direct packets come out in the order they went in, each cut to the reader's buffer, with the
  KCP protocol byte refused at the entrance and packets beyond the capacity of the queue dropped
  at the entrance, never from the middle.
\<close>

theorem direct_packets_fifo:
  assumes "\<not> sv_closed m" "\<not> sv_closeCh m" "sv_directCh m = []"
    "kept = take 8192 (filter (\<lambda>(p, _). p \<noteq> ProtocolKCP) pkts)"
  shows "read_packets buf (length kept) (put_packets pkts m) = map (\<lambda>(p, d). Inr (p, take buf d)) kept"
proof -
  have "sv_directCh (put_packets pkts m) = kept" "\<not> sv_closed (put_packets pkts m)"
    "\<not> sv_closeCh (put_packets pkts m)"
    using put_packets_queue [OF assms(1), of pkts] assms(2-4) by (simp_all add: InboundChanSize_def)
  with read_packets_queue [OF this(2,3)] show ?thesis by simp
qed

theorem direct_packets_fifo_witness:
  "read_packets 2 2 (put_packets [(3, [1, 2, 3]), (0, [9]), (4, [5])] toy_service_mux)
     = [Inr (3, [1, 2]), Inr (4, [5])]"
proof -
  have "\<not> sv_closed toy_service_mux" "\<not> sv_closeCh toy_service_mux" "sv_directCh toy_service_mux = []"
    by (simp_all add: toy_service_mux_def NewServiceMux_def)
  moreover have "[(3, [1, 2, 3]), (4, [5])]
      = take 8192 (filter (\<lambda>(p, _). p \<noteq> ProtocolKCP) [(3, [1, 2, 3]), (0, [9]), (4, [5])])"
    by (simp add: ProtocolKCP_def)
  ultimately have "read_packets 2 (length [(3 :: u8, [1, 2, 3 :: u8]), (4, [5])])
       (put_packets [(3, [1, 2, 3]), (0, [9]), (4, [5])] toy_service_mux)
     = map (\<lambda>(p, d). Inr (p, take 2 d)) [(3, [1, 2, 3]), (4, [5])]"
    by (rule direct_packets_fifo)
  then show ?thesis by (simp del: read_packets.simps put_packets.simps add: numeral_2_eq_2)
qed

end
