(* ===== verification/CoreSessionManager.thy ===== *)
theory CoreSessionManager
  imports NoiseSession IdCycle
begin

text \<open>
  The session table of \<^verbatim>\<open>pkgs/giznet/internal/core/manager.go\<close>. Sessions are shared by pointer:
  they live in a list and a pointer is a position, so that a session found under its index and
  one found under its public key are the same object. Two maps point into that list.
\<close>

section \<open>Model\<close>

type_synonym sessions = "Session list"
type_synonym session_ref = nat

record SessionManager =
  sm_byIndex :: "(u32, session_ref) gomap"
  sm_byPubkey :: "(bytes, session_ref) gomap"
  sm_nextIndex :: u32

datatype manager_error = ErrIndexInUse | ErrNoFreeIndex | SessionError noise_error

definition NewSessionManager :: SessionManager where
  "NewSessionManager = \<lparr>sm_byIndex = [], sm_byPubkey = [], sm_nextIndex = 1\<rparr>"

definition bump_index :: "u32 \<Rightarrow> u32" where
  "bump_index n = (let n = n + 1 in if n = 0 then 1 else n)"

text \<open>The loop of \<^verbatim>\<open>allocateIndex\<close> might not return; that it does is proved below.\<close>

partial_function (option) allocate_loop ::
  "u32 \<Rightarrow> (u32, session_ref) gomap \<Rightarrow> u32 \<Rightarrow> (u32 \<times> u32) option" where
  "allocate_loop startIndex byIndex index =
     (if map_get byIndex index = None then Some (index, bump_index index)
      else if bump_index index = startIndex then Some (0, bump_index index)
      else allocate_loop startIndex byIndex (bump_index index))"

definition allocateIndex :: "SessionManager \<Rightarrow> (u32 \<times> SessionManager) option" where
  "allocateIndex m =
     (case allocate_loop (sm_nextIndex m) (sm_byIndex m) (sm_nextIndex m) of
        None \<Rightarrow> None
      | Some (index, n) \<Rightarrow> Some (index, m\<lparr>sm_nextIndex := n\<rparr>))"

text \<open>The shared end of \<^verbatim>\<open>CreateSession\<close> and \<^verbatim>\<open>RegisterSession\<close>.\<close>

definition replace_session :: "sessions \<Rightarrow> u32 \<Rightarrow> bytes \<Rightarrow> session_ref \<Rightarrow> SessionManager \<Rightarrow> SessionManager" where
  "replace_session h localIndex remotePK r m =
     (let m = (case map_get (sm_byPubkey m) remotePK of
                 None \<Rightarrow> m
               | Some existing \<Rightarrow>
                   m\<lparr>sm_byIndex := map_del (ses_localIndex (h ! existing)) (sm_byIndex m)\<rparr>)
      in m\<lparr>sm_byIndex := map_put localIndex r (sm_byIndex m),
           sm_byPubkey := map_put remotePK r (sm_byPubkey m)\<rparr>)"

definition CreateSession ::
  "int \<Rightarrow> bytes \<Rightarrow> bytes \<Rightarrow> bytes \<Rightarrow> sessions \<Rightarrow> SessionManager
   \<Rightarrow> ((manager_error + session_ref) \<times> sessions \<times> SessionManager) option" where
  "CreateSession now remotePK sendKey recvKey h m =
     (case allocateIndex m of
        None \<Rightarrow> None
      | Some (localIndex, m) \<Rightarrow>
          if localIndex = 0 then Some (Inl ErrNoFreeIndex, h, m)
          else
            (case NewSession \<lparr>sc_LocalIndex = localIndex, sc_RemoteIndex = 0, sc_SendKey = sendKey,
                sc_RecvKey = recvKey, sc_RemotePK = remotePK, sc_CipherMode = ''''\<rparr> now of
               Inl e \<Rightarrow> Some (Inl (SessionError e), h, m)
             | Inr session \<Rightarrow>
                 Some (Inr (length h), h @ [session],
                       replace_session h localIndex remotePK (length h) m)))"

definition RegisterSession ::
  "session_ref \<Rightarrow> sessions \<Rightarrow> SessionManager \<Rightarrow> manager_error option \<times> SessionManager" where
  "RegisterSession session h m =
     (let localIndex = ses_localIndex (h ! session); remotePK = ses_remotePK (h ! session) in
      if map_get (sm_byIndex m) localIndex \<noteq> None then (Some ErrIndexInUse, m)
      else (None, replace_session h localIndex remotePK session m))"

definition GetByIndex :: "u32 \<Rightarrow> SessionManager \<Rightarrow> session_ref option" where
  "GetByIndex index m = map_get (sm_byIndex m) index"

definition GetByPubkey :: "bytes \<Rightarrow> SessionManager \<Rightarrow> session_ref option" where
  "GetByPubkey pk m = map_get (sm_byPubkey m) pk"

definition RemoveSession :: "u32 \<Rightarrow> sessions \<Rightarrow> SessionManager \<Rightarrow> SessionManager" where
  "RemoveSession index h m =
     (case map_get (sm_byIndex m) index of
        None \<Rightarrow> m
      | Some session \<Rightarrow>
          m\<lparr>sm_byIndex := map_del index (sm_byIndex m),
            sm_byPubkey := map_del (ses_remotePK (h ! session)) (sm_byPubkey m)\<rparr>)"

definition RemoveByPubkey :: "bytes \<Rightarrow> sessions \<Rightarrow> SessionManager \<Rightarrow> SessionManager" where
  "RemoveByPubkey pk h m =
     (case map_get (sm_byPubkey m) pk of
        None \<Rightarrow> m
      | Some session \<Rightarrow>
          m\<lparr>sm_byIndex := map_del (ses_localIndex (h ! session)) (sm_byIndex m),
            sm_byPubkey := map_del pk (sm_byPubkey m)\<rparr>)"

definition drop_session :: "sessions \<Rightarrow> session_ref \<Rightarrow> SessionManager \<Rightarrow> SessionManager" where
  "drop_session h session m =
     m\<lparr>sm_byIndex := map_del (ses_localIndex (h ! session)) (sm_byIndex m),
       sm_byPubkey := map_del (ses_remotePK (h ! session)) (sm_byPubkey m)\<rparr>"

definition ExpireSessions :: "int \<Rightarrow> sessions \<Rightarrow> SessionManager \<Rightarrow> nat \<times> SessionManager" where
  "ExpireSessions now h m =
     (let expired = filter (\<lambda>session. IsExpired now (h ! session)) (map snd (sm_byIndex m))
      in (length expired, fold (drop_session h) expired m))"

definition Count :: "SessionManager \<Rightarrow> nat" where
  "Count m = length (sm_byIndex m)"

definition Sessions :: "SessionManager \<Rightarrow> session_ref list" where
  "Sessions m = map snd (sm_byIndex m)"

definition Clear :: "SessionManager \<Rightarrow> SessionManager" where
  "Clear m = m\<lparr>sm_byIndex := [], sm_byPubkey := []\<rparr>"

text \<open>The worker of \<^verbatim>\<open>StartExpiryWorker\<close>: the time and the sessions at each tick.\<close>

fun expiry_worker :: "(int \<times> sessions) list \<Rightarrow> SessionManager \<Rightarrow> SessionManager" where
  "expiry_worker [] m = m"
| "expiry_worker ((now, h) # ticks) m = expiry_worker ticks (snd (ExpireSessions now h m))"

section \<open>The index allocator\<close>

abbreviation index_period :: nat where "index_period \<equiv> 2 ^ 32 - 1"

lemma unat_bump_index: "n \<noteq> 0 \<Longrightarrow> unat (bump_index n) = unat n mod index_period + 1"
proof (cases "n = - 1")
  case True
  then show ?thesis by (simp add: bump_index_def unsigned_minus_1_eq_mask mask_eq_exp_minus_1)
next
  case False
  have b: "unat n < 2 ^ 32" using unsigned_less [of n] by simp
  have "unat n \<noteq> 2 ^ 32 - 1"
  proof
    assume "unat n = 2 ^ 32 - 1"
    then have "unat n = unat (- 1 :: u32)"
      by (simp add: unsigned_minus_1_eq_mask mask_eq_exp_minus_1)
    then show False using False by (simp only: word_unat_eq_iff)
  qed
  with b have lt: "unat n + 1 < 2 ^ 32" by linarith
  then have un: "unat (n + 1) = unat n + 1" by (simp add: unat_word_ariths)
  then have "n + 1 \<noteq> 0" by (metis add_is_0 unsigned_0 zero_neq_one)
  then show ?thesis using un lt by (simp add: bump_index_def)
qed

interpretation indices: id_cycle bump_index "\<lambda>i. unat i - 1" index_period "\<lambda>i. i \<noteq> 0"
proof
  fix i j :: u32
  assume i: "i \<noteq> 0"
  then have pos: "0 < unat i" by (simp add: unat_gt_0)
  have lt: "unat i < 2 ^ 32" using unsigned_less [of i] by simp
  show "unat i - 1 < index_period" using pos lt by linarith
  have un: "unat (bump_index i) = unat i mod index_period + 1" by (rule unat_bump_index [OF i])
  show "bump_index i \<noteq> 0" using un by (metis add_is_0 unsigned_0 zero_neq_one)
  show "unat (bump_index i) - 1 = (unat i - 1 + 1) mod index_period" using un pos by simp
  assume j: "j \<noteq> 0" and eq: "unat i - 1 = unat j - 1"
  have "0 < unat j" using j by (simp add: unat_gt_0)
  with pos eq have "unat i = unat j" by linarith
  then show "i = j" by (rule unsigned_word_eqI)
qed

lemma allocateIndex_spec:
  assumes "sm_nextIndex m \<noteq> 0"
  obtains i n where "allocateIndex m = Some (i, m\<lparr>sm_nextIndex := n\<rparr>)" "n \<noteq> 0" "i \<noteq> 0"
      "GetByIndex i m = None"
    | n where "allocateIndex m = Some (0, m\<lparr>sm_nextIndex := n\<rparr>)" "n \<noteq> 0"
      "\<forall>i. i \<noteq> 0 \<longrightarrow> GetByIndex i m \<noteq> None"
proof -
  let ?s = "sm_nextIndex m" and ?b = "sm_byIndex m"
  have "allocate_loop ?s ?b i = (if \<not> map_get ?b i \<noteq> None then Some (i, bump_index i)
      else if bump_index i = ?s then Some (0, ?s) else allocate_loop ?s ?b (bump_index i))" for i
    using allocate_loop.simps [of ?s ?b i] by auto
  from indices.search [of "allocate_loop ?s ?b" "\<lambda>i. map_get ?b i \<noteq> None", OF this assms]
  show ?thesis
  proof (elim disjE exE conjE)
    fix i assume "i \<noteq> 0" "\<not> map_get ?b i \<noteq> None" "allocate_loop ?s ?b ?s = Some (i, bump_index i)"
    then show ?thesis using that(1) [of i "bump_index i"] indices.bump_valid [of i]
      by (simp add: allocateIndex_def GetByIndex_def)
  next
    assume "\<forall>i. i \<noteq> 0 \<longrightarrow> map_get ?b i \<noteq> None" "allocate_loop ?s ?b ?s = Some (0, ?s)"
    then show ?thesis using that(2) [of ?s] assms by (simp add: allocateIndex_def GetByIndex_def)
  qed
qed

section \<open>Invariant\<close>

definition mgr_inv :: "sessions \<Rightarrow> SessionManager \<Rightarrow> bool" where
  "mgr_inv h m \<longleftrightarrow>
     wf_map (sm_byIndex m) \<and> wf_map (sm_byPubkey m) \<and> sm_nextIndex m \<noteq> 0
     \<and> (\<forall>i r. GetByIndex i m = Some r \<longrightarrow> r < length h \<and> ses_localIndex (h ! r) = i
            \<and> GetByPubkey (ses_remotePK (h ! r)) m = Some r)
     \<and> (\<forall>pk r. GetByPubkey pk m = Some r \<longrightarrow> r < length h \<and> ses_remotePK (h ! r) = pk
            \<and> GetByIndex (ses_localIndex (h ! r)) m = Some r)"

definition same_identity :: "sessions \<Rightarrow> sessions \<Rightarrow> bool" where
  "same_identity h h' \<longleftrightarrow> length h \<le> length h' \<and>
     (\<forall>r < length h. ses_localIndex (h' ! r) = ses_localIndex (h ! r)
        \<and> ses_remotePK (h' ! r) = ses_remotePK (h ! r))"

lemmas get_defs = GetByIndex_def GetByPubkey_def

lemma mgr_inv_New: "mgr_inv h NewSessionManager"
  by (simp add: mgr_inv_def NewSessionManager_def get_defs)

lemma mgr_invD:
  assumes "mgr_inv h m"
  shows "GetByIndex i m = Some r \<Longrightarrow> r < length h \<and> ses_localIndex (h ! r) = i
            \<and> GetByPubkey (ses_remotePK (h ! r)) m = Some r"
    and "GetByPubkey pk m = Some r \<Longrightarrow> r < length h \<and> ses_remotePK (h ! r) = pk
            \<and> GetByIndex (ses_localIndex (h ! r)) m = Some r"
  using assms by (auto simp: mgr_inv_def)

lemma mgr_invI:
  assumes "wf_map (sm_byIndex m)" "wf_map (sm_byPubkey m)" "sm_nextIndex m \<noteq> 0"
    "\<And>i r. GetByIndex i m = Some r \<Longrightarrow> r < length h \<and> ses_localIndex (h ! r) = i
       \<and> GetByPubkey (ses_remotePK (h ! r)) m = Some r"
    "\<And>pk r. GetByPubkey pk m = Some r \<Longrightarrow> r < length h \<and> ses_remotePK (h ! r) = pk
       \<and> GetByIndex (ses_localIndex (h ! r)) m = Some r"
  shows "mgr_inv h m"
  using assms unfolding mgr_inv_def by blast

lemma mgr_inv_heap:
  assumes inv: "mgr_inv h m" and id: "same_identity h h'"
  shows "mgr_inv h' m"
proof (rule mgr_invI)
  show "wf_map (sm_byIndex m)" "wf_map (sm_byPubkey m)" "sm_nextIndex m \<noteq> 0"
    using inv by (simp_all add: mgr_inv_def)
next
  fix i r assume "GetByIndex i m = Some r"
  from mgr_invD(1) [OF inv this] id show "r < length h' \<and> ses_localIndex (h' ! r) = i
       \<and> GetByPubkey (ses_remotePK (h' ! r)) m = Some r"
    by (auto simp: same_identity_def)
next
  fix pk r assume "GetByPubkey pk m = Some r"
  from mgr_invD(2) [OF inv this] id show "r < length h' \<and> ses_remotePK (h' ! r) = pk
       \<and> GetByIndex (ses_localIndex (h' ! r)) m = Some r"
    by (auto simp: same_identity_def)
qed

lemma mgr_inv_next: "mgr_inv h m \<Longrightarrow> n \<noteq> 0 \<Longrightarrow> mgr_inv h (m\<lparr>sm_nextIndex := n\<rparr>)"
  by (simp add: mgr_inv_def get_defs)

lemma mgr_inv_Clear: "mgr_inv h m \<Longrightarrow> mgr_inv h (Clear m)"
  by (simp add: mgr_inv_def Clear_def get_defs)

text \<open>Dropping one registered session is the step all removals are made of.\<close>

lemma drop_session_get:
  "GetByIndex i (drop_session h r m) = (if i = ses_localIndex (h ! r) then None else GetByIndex i m)"
  "GetByPubkey pk (drop_session h r m) = (if pk = ses_remotePK (h ! r) then None else GetByPubkey pk m)"
  by (simp_all add: drop_session_def get_defs)

lemma mgr_inv_drop:
  assumes inv: "mgr_inv h m" and idx: "GetByIndex (ses_localIndex (h ! r)) m = Some r"
  shows "mgr_inv h (drop_session h r m)"
proof (rule mgr_invI)
  show "wf_map (sm_byIndex (drop_session h r m))" "wf_map (sm_byPubkey (drop_session h r m))"
    "sm_nextIndex (drop_session h r m) \<noteq> 0"
    using inv by (simp_all add: mgr_inv_def drop_session_def)
next
  have pk: "GetByPubkey (ses_remotePK (h ! r)) m = Some r" using mgr_invD(1) [OF inv idx] by simp
  fix i q assume "GetByIndex i (drop_session h r m) = Some q"
  then have q: "i \<noteq> ses_localIndex (h ! r)" "GetByIndex i m = Some q"
    by (simp_all add: drop_session_get split: if_splits)
  note f = mgr_invD(1) [OF inv q(2)]
  have "ses_remotePK (h ! q) \<noteq> ses_remotePK (h ! r)" using f pk q(1) by auto
  then show "q < length h \<and> ses_localIndex (h ! q) = i
      \<and> GetByPubkey (ses_remotePK (h ! q)) (drop_session h r m) = Some q"
    using f by (simp add: drop_session_get)
next
  fix k q assume "GetByPubkey k (drop_session h r m) = Some q"
  then have q: "k \<noteq> ses_remotePK (h ! r)" "GetByPubkey k m = Some q"
    by (simp_all add: drop_session_get split: if_splits)
  note f = mgr_invD(2) [OF inv q(2)]
  have "ses_localIndex (h ! q) \<noteq> ses_localIndex (h ! r)" using f idx q(1) by auto
  then show "q < length h \<and> ses_remotePK (h ! q) = k
      \<and> GetByIndex (ses_localIndex (h ! q)) (drop_session h r m) = Some q"
    using f by (simp add: drop_session_get)
qed

lemma RemoveSession_eq:
  assumes "mgr_inv h m"
  shows "RemoveSession i h m = (case GetByIndex i m of None \<Rightarrow> m | Some r \<Rightarrow> drop_session h r m)"
  using mgr_invD(1) [OF assms, of i]
  by (auto simp: RemoveSession_def drop_session_def GetByIndex_def split: option.splits)

lemma RemoveByPubkey_eq:
  assumes "mgr_inv h m"
  shows "RemoveByPubkey pk h m = (case GetByPubkey pk m of None \<Rightarrow> m | Some r \<Rightarrow> drop_session h r m)"
  using mgr_invD(2) [OF assms, of pk]
  by (auto simp: RemoveByPubkey_def drop_session_def GetByPubkey_def split: option.splits)

lemma mgr_inv_RemoveSession: "mgr_inv h m \<Longrightarrow> mgr_inv h (RemoveSession i h m)"
  using mgr_invD(1) [of h m i] mgr_inv_drop [of h m]
  by (auto simp: RemoveSession_eq split: option.splits)

lemma mgr_inv_RemoveByPubkey: "mgr_inv h m \<Longrightarrow> mgr_inv h (RemoveByPubkey pk h m)"
  using mgr_invD(2) [of h m pk] mgr_inv_drop [of h m]
  by (auto simp: RemoveByPubkey_eq split: option.splits)

text \<open>Registering a session replaces the one of the same peer.\<close>

lemma replace_session_get:
  assumes "mgr_inv h m"
  shows "GetByIndex i (replace_session h li pk r m) =
      (if i = li then Some r
       else if \<exists>q. GetByPubkey pk m = Some q \<and> ses_localIndex (h ! q) = i then None else GetByIndex i m)"
    "GetByPubkey pk' (replace_session h li pk r m) =
      (if pk' = pk then Some r else GetByPubkey pk' m)"
    "sm_nextIndex (replace_session h li pk r m) = sm_nextIndex m"
  by (auto simp: replace_session_def get_defs Let_def split: option.splits)

lemma mgr_inv_replace:
  assumes inv: "mgr_inv h m" and id: "same_identity h h'" and r: "r < length h'"
    and h': "ses_localIndex (h' ! r) = li" "ses_remotePK (h' ! r) = pk"
    and free: "GetByIndex li m = None"
  shows "mgr_inv h' (replace_session h li pk r m)"
proof (rule mgr_invI)
  let ?m = "replace_session h li pk r m"
  have len: "length h \<le> length h'"
    and idr: "\<And>q. q < length h \<Longrightarrow> ses_localIndex (h' ! q) = ses_localIndex (h ! q)"
      "\<And>q. q < length h \<Longrightarrow> ses_remotePK (h' ! q) = ses_remotePK (h ! q)"
    using id by (auto simp: same_identity_def)
  note get = replace_session_get [OF inv, where li = li and pk = pk and r = r]
  show "wf_map (sm_byIndex ?m)" "wf_map (sm_byPubkey ?m)" "sm_nextIndex ?m \<noteq> 0"
    using inv by (auto simp: mgr_inv_def replace_session_def Let_def split: option.splits)
  fix i q assume g: "GetByIndex i ?m = Some q"
  show "q < length h' \<and> ses_localIndex (h' ! q) = i \<and> GetByPubkey (ses_remotePK (h' ! q)) ?m = Some q"
  proof (cases "i = li")
    case True
    then show ?thesis using g r h' get by simp
  next
    case False
    then have q: "GetByIndex i m = Some q"
      and no: "\<not> (\<exists>q. GetByPubkey pk m = Some q \<and> ses_localIndex (h ! q) = i)"
      using g get(1) [of i] by (auto split: if_splits)
    note f = mgr_invD(1) [OF inv q]
    then show ?thesis using no idr len get(2) by auto
  qed
next
  let ?m = "replace_session h li pk r m"
  note get = replace_session_get [OF inv, where li = li and pk = pk and r = r]
  fix k q assume g: "GetByPubkey k ?m = Some q"
  show "q < length h' \<and> ses_remotePK (h' ! q) = k \<and> GetByIndex (ses_localIndex (h' ! q)) ?m = Some q"
  proof (cases "k = pk")
    case True
    then show ?thesis using g r h' get by simp
  next
    case False
    then have q: "GetByPubkey k m = Some q" using g get(2) [of k] by simp
    note f = mgr_invD(2) [OF inv q]
    have "ses_localIndex (h ! q) \<noteq> li" using f free by auto
    moreover have "\<not> (\<exists>p. GetByPubkey pk m = Some p \<and> ses_localIndex (h ! p) = ses_localIndex (h ! q))"
      using mgr_invD(2) [OF inv, of pk] f False by (metis option.inject)
    moreover have "ses_localIndex (h' ! q) = ses_localIndex (h ! q)"
      "ses_remotePK (h' ! q) = ses_remotePK (h ! q)" "q < length h'"
      using f id by (auto simp: same_identity_def)
    ultimately show ?thesis using f get(1) by simp
  qed
qed

section \<open>Reachable states\<close>

lemma same_identity_refl [simp]: "same_identity h h"
  by (simp add: same_identity_def)

lemma same_identity_append [simp]: "same_identity h (h @ [s])"
  by (simp add: same_identity_def nth_append)

text \<open>
  The steps of a manager and its sessions. \<open>make\<close> is a session created outside the manager;
  \<open>use\<close> is anything that happens to the sessions themselves: no operation of a session changes
  its local index or its peer's key.
\<close>

inductive mgr_step :: "sessions \<times> SessionManager \<Rightarrow> sessions \<times> SessionManager \<Rightarrow> bool" where
  create: "CreateSession now pk sk rk h m = Some (res, h', m') \<Longrightarrow> mgr_step (h, m) (h', m')"
| register: "r < length h \<Longrightarrow> mgr_step (h, m) (h, snd (RegisterSession r h m))"
| remove: "mgr_step (h, m) (h, RemoveSession i h m)"
| remove_pubkey: "mgr_step (h, m) (h, RemoveByPubkey pk h m)"
| expire: "mgr_step (h, m) (h, snd (ExpireSessions now h m))"
| clear: "mgr_step (h, m) (h, Clear m)"
| make: "mgr_step (h, m) (h @ [s], m)"
| use_session: "same_identity h h' \<Longrightarrow> mgr_step (h, m) (h', m)"

inductive mgr_reach :: "sessions \<times> SessionManager \<Rightarrow> bool" where
  start: "mgr_reach ([], NewSessionManager)"
| step: "mgr_reach x \<Longrightarrow> mgr_step x y \<Longrightarrow> mgr_reach y"

inductive_cases mgr_stepE: "mgr_step (h, m) y"

lemma NewSession_identity:
  assumes "NewSession cfg now = Inr s"
  shows "ses_localIndex s = sc_LocalIndex cfg" "ses_remotePK s = sc_RemotePK cfg"
  using assms by (auto simp: NewSession_def Let_def split: sum.splits if_splits)

lemma mgr_inv_CreateSession:
  assumes inv: "mgr_inv h m" and c: "CreateSession now pk sk rk h m = Some (res, h', m')"
  shows "mgr_inv h' m'"
proof -
  have nz: "sm_nextIndex m \<noteq> 0" using inv by (simp add: mgr_inv_def)
  from nz show ?thesis
  proof (cases rule: allocateIndex_spec)
    case (1 i n)
    note inv' = mgr_inv_next [OF inv 1(2)]
    let ?cfg = "\<lparr>sc_LocalIndex = i, sc_RemoteIndex = 0, sc_SendKey = sk, sc_RecvKey = rk,
      sc_RemotePK = pk, sc_CipherMode = ''''\<rparr>"
    show ?thesis
    proof (cases "NewSession ?cfg now")
      case (Inl e)
      then show ?thesis using c 1 inv' by (simp add: CreateSession_def)
    next
      case (Inr s)
      have "mgr_inv (h @ [s]) (replace_session h i pk (length h) (m\<lparr>sm_nextIndex := n\<rparr>))"
        using NewSession_identity [OF Inr] 1(4)
        by (intro mgr_inv_replace [OF inv']) (simp_all add: get_defs)
      then show ?thesis using c 1 Inr by (simp add: CreateSession_def)
    qed
  next
    case (2 n)
    then show ?thesis using c mgr_inv_next [OF inv 2(2)] by (simp add: CreateSession_def)
  qed
qed

lemma mgr_inv_RegisterSession:
  assumes "mgr_inv h m" "r < length h"
  shows "mgr_inv h (snd (RegisterSession r h m))"
  using assms mgr_inv_replace [OF assms(1) same_identity_refl assms(2) refl refl]
  by (auto simp: RegisterSession_def Let_def GetByIndex_def)

text \<open>Expiry drops the expired sessions one by one.\<close>

lemma fold_drop:
  assumes "mgr_inv h m" "distinct rs" "\<forall>r\<in>set rs. GetByIndex (ses_localIndex (h ! r)) m = Some r"
  shows "mgr_inv h (fold (drop_session h) rs m)
     \<and> (\<forall>i. GetByIndex i (fold (drop_session h) rs m)
         = (case GetByIndex i m of None \<Rightarrow> None | Some r \<Rightarrow> if r \<in> set rs then None else Some r))"
  using assms
proof (induction rs arbitrary: m)
  case Nil
  then show ?case by (simp split: option.split)
next
  case (Cons r rs)
  have r: "GetByIndex (ses_localIndex (h ! r)) m = Some r" using Cons.prems(3) by simp
  have inv: "mgr_inv h (drop_session h r m)" by (rule mgr_inv_drop [OF Cons.prems(1) r])
  have others: "GetByIndex (ses_localIndex (h ! q)) (drop_session h r m) = Some q"
    if q: "q \<in> set rs" for q
  proof -
    have "GetByIndex (ses_localIndex (h ! q)) m = Some q" "q \<noteq> r"
      using q Cons.prems(2,3) by auto
    with r show ?thesis by (auto simp: drop_session_get)
  qed
  have "distinct rs" using Cons.prems(2) by simp
  from Cons.IH [OF inv this] others
  have ih: "mgr_inv h (fold (drop_session h) rs (drop_session h r m))"
    "\<And>i. GetByIndex i (fold (drop_session h) rs (drop_session h r m))
       = (case GetByIndex i (drop_session h r m) of None \<Rightarrow> None
          | Some r \<Rightarrow> if r \<in> set rs then None else Some r)" by blast+
  have uniq: "GetByIndex i m = Some r \<Longrightarrow> i = ses_localIndex (h ! r)" for i
    using mgr_invD(1) [OF Cons.prems(1), of i r] by simp
  have "GetByIndex i (fold (drop_session h) (r # rs) m)
      = (case GetByIndex i m of None \<Rightarrow> None | Some q \<Rightarrow> if q \<in> set (r # rs) then None else Some q)"
    for i
  proof (cases "i = ses_localIndex (h ! r)")
    case True
    then show ?thesis using r by (simp add: ih(2) drop_session_get)
  next
    case False
    then show ?thesis using uniq by (auto simp: ih(2) drop_session_get split: option.split)
  qed
  then show ?case using ih(1) by simp
qed

lemma byIndex_mem:
  assumes "mgr_inv h m"
  shows "r \<in> set (map snd (sm_byIndex m)) \<longleftrightarrow> GetByIndex (ses_localIndex (h ! r)) m = Some r"
proof -
  have "(i, r) \<in> set (sm_byIndex m) \<longleftrightarrow> GetByIndex i m = Some r" for i
    using assms wf_map_mem [of "sm_byIndex m"] by (simp add: mgr_inv_def GetByIndex_def)
  then show ?thesis using mgr_invD(1) [OF assms] by (force simp: image_iff)
qed

lemma distinct_refs:
  assumes "mgr_inv h m"
  shows "distinct (map snd (sm_byIndex m))"
proof -
  have "ses_localIndex (h ! r) = i" if "(i, r) \<in> set (sm_byIndex m)" for i r
    using that mgr_invD(1) [OF assms, of i r] assms
    by (simp add: mgr_inv_def GetByIndex_def wf_map_mem)
  then have "map fst (sm_byIndex m) = map (\<lambda>r. ses_localIndex (h ! r)) (map snd (sm_byIndex m))"
    by auto
  moreover have "distinct (map fst (sm_byIndex m))" using assms by (simp add: mgr_inv_def wf_map_def)
  ultimately show ?thesis by (metis distinct_map)
qed

lemma ExpireSessions_spec:
  assumes "mgr_inv h m" "ExpireSessions now h m = (n, m')"
  shows "mgr_inv h m'"
    and "GetByIndex i m' = (case GetByIndex i m of None \<Rightarrow> None
          | Some r \<Rightarrow> if IsExpired now (h ! r) then None else Some r)"
    and "n = length (filter (\<lambda>r. IsExpired now (h ! r)) (Sessions m))"
proof -
  let ?rs = "filter (\<lambda>r. IsExpired now (h ! r)) (map snd (sm_byIndex m))"
  have m': "m' = fold (drop_session h) ?rs m" and n: "n = length ?rs"
    using assms(2) by (simp_all add: ExpireSessions_def)
  have "distinct ?rs" using distinct_refs [OF assms(1)] by simp
  moreover have "\<forall>r\<in>set ?rs. GetByIndex (ses_localIndex (h ! r)) m = Some r"
    using byIndex_mem [OF assms(1)] by simp
  ultimately have f: "mgr_inv h m'"
    "\<And>i. GetByIndex i m' = (case GetByIndex i m of None \<Rightarrow> None
       | Some r \<Rightarrow> if r \<in> set ?rs then None else Some r)"
    using fold_drop [OF assms(1), of ?rs] unfolding m' by blast+
  show "mgr_inv h m'" by (rule f(1))
  show "n = length (filter (\<lambda>r. IsExpired now (h ! r)) (Sessions m))"
    by (simp add: n Sessions_def)
  have "r \<in> set ?rs \<longleftrightarrow> IsExpired now (h ! r)" if "GetByIndex i m = Some r" for r
    using that byIndex_mem [OF assms(1), of r] mgr_invD(1) [OF assms(1) that] by auto
  then show "GetByIndex i m' = (case GetByIndex i m of None \<Rightarrow> None
      | Some r \<Rightarrow> if IsExpired now (h ! r) then None else Some r)"
    by (simp add: f(2) split: option.split)
qed

lemma mgr_step_inv: "mgr_step (h, m) (h', m') \<Longrightarrow> mgr_inv h m \<Longrightarrow> mgr_inv h' m'"
  by (erule mgr_stepE)
    (auto simp: mgr_inv_CreateSession mgr_inv_RegisterSession mgr_inv_RemoveSession
      mgr_inv_RemoveByPubkey mgr_inv_Clear intro: mgr_inv_heap ExpireSessions_spec(1) [OF _ prod.collapse [symmetric]])

lemma mgr_reach_inv: "mgr_reach x \<Longrightarrow> mgr_inv (fst x) (snd x)"
proof (induction rule: mgr_reach.induct)
  case (step x y)
  then show ?case using mgr_step_inv [of "fst x" "snd x" "fst y" "snd y"] by simp
qed (simp add: mgr_inv_New)

section \<open>Properties\<close>

text \<open>
  C25: the two maps of the manager agree in every reachable state: the session found under a
  peer's key is the one found under its own index and belongs to that peer, and every session
  found under an index is the only one registered for its peer.
\<close>

theorem manager_maps_agree:
  assumes "mgr_reach (h, m)"
  shows "GetByPubkey pk m = Some r
     \<longleftrightarrow> r < length h \<and> ses_remotePK (h ! r) = pk \<and> GetByIndex (ses_localIndex (h ! r)) m = Some r"
  using mgr_invD [OF mgr_reach_inv [OF assms, simplified]] by metis

definition toy_manager :: "sessions \<times> SessionManager" where
  "toy_manager = (case CreateSession 0 [7] (replicate 32 1) (replicate 32 2) [] NewSessionManager of
     Some (_, h, m) \<Rightarrow> (h, m) | None \<Rightarrow> ([], NewSessionManager))"

lemma toy_manager_eq: "\<exists>s. toy_manager = ([s], \<lparr>sm_byIndex = [(1, 0)], sm_byPubkey = [([7], 0)],
     sm_nextIndex = 2\<rparr>) \<and> ses_localIndex s = 1 \<and> ses_remotePK s = [7]
   \<and> ses_lastReceived s = 0
   \<and> CreateSession 0 [7] (replicate 32 1) (replicate 32 2) [] NewSessionManager
       = Some (Inr 0, toy_manager)"
  by (simp add: toy_manager_def CreateSession_def allocateIndex_def NewSessionManager_def
      allocate_loop.simps [of 1] bump_index_def NewSession_def NormalizeCipherMode_def
      NewAEADWithMode_def mode_defs replace_session_def)

lemma toy_manager_reach: "mgr_reach toy_manager"
  using mgr_reach.step [OF mgr_reach.start, of toy_manager] toy_manager_eq mgr_step.create
  by (metis prod.collapse)

theorem manager_maps_agree_witness:
  "\<exists>h m. mgr_reach (h, m) \<and> GetByPubkey [7] m = Some 0 \<and> GetByIndex (ses_localIndex (h ! 0)) m = Some 0"
proof -
  obtain s m where e: "toy_manager = ([s], m)" "m = \<lparr>sm_byIndex = [(1, 0)],
    sm_byPubkey = [([7], 0)], sm_nextIndex = 2\<rparr>" using toy_manager_eq by auto
  have r: "mgr_reach ([s], m)" using toy_manager_reach by (simp add: e(1))
  have "GetByPubkey [7] m = Some 0" by (simp add: e(2) GetByPubkey_def)
  with manager_maps_agree [OF r, of "[7]" 0] r show ?thesis by blast
qed

text \<open>
  C33: the allocation loop ends in every reachable state; creating a session succeeds unless
  every index from 1 to \<open>2 ^ 32 - 1\<close> is taken, and then the new session is found under its
  fresh index and its peer's key, the peer's previous session is gone, and nothing else changed.
\<close>

theorem CreateSession_spec:
  assumes "mgr_reach (h, m)" "length sk = 32" "length rk = 32"
  shows "(\<exists>m'. (\<forall>i. i \<noteq> 0 \<longrightarrow> GetByIndex i m \<noteq> None)
            \<and> CreateSession now pk sk rk h m = Some (Inl ErrNoFreeIndex, h, m'))
     \<or> (\<exists>s m'. CreateSession now pk sk rk h m = Some (Inr (length h), h @ [s], m')
          \<and> ses_localIndex s \<noteq> 0 \<and> GetByIndex (ses_localIndex s) m = None \<and> ses_remotePK s = pk
          \<and> (\<forall>i. GetByIndex i m' =
               (if i = ses_localIndex s then Some (length h)
                else case GetByIndex i m of None \<Rightarrow> None
                     | Some r \<Rightarrow> if ses_remotePK (h ! r) = pk then None else Some r))
          \<and> (\<forall>k. GetByPubkey k m' = (if k = pk then Some (length h) else GetByPubkey k m)))"
proof -
  have inv: "mgr_inv h m" using mgr_reach_inv [OF assms(1)] by simp
  have nz: "sm_nextIndex m \<noteq> 0" using inv by (simp add: mgr_inv_def)
  from nz show ?thesis
  proof (cases rule: allocateIndex_spec)
    case (1 i n)
    let ?cfg = "\<lparr>sc_LocalIndex = i, sc_RemoteIndex = 0, sc_SendKey = sk, sc_RecvKey = rk,
      sc_RemotePK = pk, sc_CipherMode = ''''\<rparr>"
    obtain s where s: "NewSession ?cfg now = Inr s"
      using assms(2,3) by (simp add: NewSession_def NormalizeCipherMode_def NewAEADWithMode_def mode_defs)
    note id = NewSession_identity [OF s]
    let ?m = "replace_session h i pk (length h) (m\<lparr>sm_nextIndex := n\<rparr>)"
    have get: "GetByIndex j (m\<lparr>sm_nextIndex := n\<rparr>) = GetByIndex j m"
      "GetByPubkey k (m\<lparr>sm_nextIndex := n\<rparr>) = GetByPubkey k m" for j k by (simp_all add: get_defs)
    have "(\<exists>q. GetByPubkey pk m = Some q \<and> ses_localIndex (h ! q) = j)
        \<longleftrightarrow> (\<exists>q. GetByIndex j m = Some q \<and> ses_remotePK (h ! q) = pk)" for j
      using mgr_invD [OF inv] by metis
    then have "GetByIndex j ?m = (if j = i then Some (length h)
        else case GetByIndex j m of None \<Rightarrow> None
             | Some r \<Rightarrow> if ses_remotePK (h ! r) = pk then None else Some r)" for j
      by (auto simp: replace_session_get [OF mgr_inv_next [OF inv 1(2)]] get split: option.splits)
    moreover have "GetByPubkey k ?m = (if k = pk then Some (length h) else GetByPubkey k m)" for k
      by (simp add: replace_session_get [OF mgr_inv_next [OF inv 1(2)]] get)
    ultimately have "CreateSession now pk sk rk h m = Some (Inr (length h), h @ [s], ?m)
          \<and> ses_localIndex s \<noteq> 0 \<and> GetByIndex (ses_localIndex s) m = None \<and> ses_remotePK s = pk
          \<and> (\<forall>j. GetByIndex j ?m = (if j = ses_localIndex s then Some (length h)
                else case GetByIndex j m of None \<Rightarrow> None
                     | Some r \<Rightarrow> if ses_remotePK (h ! r) = pk then None else Some r))
          \<and> (\<forall>k. GetByPubkey k ?m = (if k = pk then Some (length h) else GetByPubkey k m))"
      using 1 id s by (simp add: CreateSession_def)
    then show ?thesis by blast
  next
    case (2 n)
    then have "CreateSession now pk sk rk h m = Some (Inl ErrNoFreeIndex, h, m\<lparr>sm_nextIndex := n\<rparr>)"
      by (simp add: CreateSession_def)
    with 2(3) show ?thesis by blast
  qed
qed

theorem CreateSession_spec_witness:
  "\<exists>s m'. CreateSession 5 [9] (replicate 32 1) (replicate 32 2) [] NewSessionManager
      = Some (Inr 0, [s], m') \<and> GetByPubkey [9] m' = Some 0 \<and> GetByIndex (ses_localIndex s) m' = Some 0"
  using CreateSession_spec [OF mgr_reach.start, of "replicate 32 1" "replicate 32 2" 5 "[9]"]
    exI [of "\<lambda>i :: u32. i \<noteq> 0" 1]
  by (auto simp: NewSessionManager_def GetByIndex_def)

text \<open>
  C34: expiry removes exactly the expired sessions, whatever order the map is walked in, and
  reports how many they were.
\<close>

theorem ExpireSessions_exact:
  assumes "mgr_reach (h, m)" "ExpireSessions now h m = (n, m')"
  shows "GetByIndex i m' = (case GetByIndex i m of None \<Rightarrow> None
          | Some r \<Rightarrow> if IsExpired now (h ! r) then None else Some r)
     \<and> n = length (filter (\<lambda>r. IsExpired now (h ! r)) (Sessions m))"
  using ExpireSessions_spec(2,3) [OF mgr_reach_inv [OF assms(1), simplified] assms(2)] by simp

theorem ExpireSessions_exact_witness:
  "\<exists>m'. ExpireSessions (10 ^ 12) (fst toy_manager) (snd toy_manager) = (1, m') \<and> GetByIndex 1 m' = None"
proof -
  obtain s where e: "toy_manager = ([s], \<lparr>sm_byIndex = [(1, 0)], sm_byPubkey = [([7], 0)],
    sm_nextIndex = 2\<rparr>)" "ses_lastReceived s = 0" using toy_manager_eq by auto
  obtain n m' where x: "ExpireSessions (10 ^ 12) (fst toy_manager) (snd toy_manager) = (n, m')"
    by fastforce
  have "mgr_reach (fst toy_manager, snd toy_manager)" using toy_manager_reach by simp
  from ExpireSessions_exact [OF this x, of 1] x show ?thesis
    by (simp add: e GetByIndex_def Sessions_def IsExpired_def SessionTimeout_def)
qed

end
