(* ===== verification/CoreUDP.thy ===== *)
theory CoreUDP
  imports CoreConn CoreServiceMux
begin

text \<open>
  The UDP network of \<^verbatim>\<open>pkgs/giznet/internal/core/udp.go\<close> and the peer handles of \<^verbatim>\<open>peer.go\<close>: a
  table of peers, their Noise sessions and service multiplexers, handshakes in both directions, and
  the way of a packet in and out. Peers, sessions, multiplexers and the \<^verbatim>\<open>done\<close> channels are shared
  by pointer: they live in lists of the state and a pointer is a position. A packet that is sent
  waits for its encryption and its turn at the socket, so \<open>udp_sendPayload\<close> does all of it in one step;
  the receiving goroutines are in \<open>CoreUDPPipe\<close>. The socket is \<open>ue_write\<close>, and \<open>ue_output\<close> is the
  result the output callback of a peer gives to a multiplexer.
\<close>

section \<open>State\<close>

datatype PeerState =
    PeerStateNew
  | PeerStateConnecting
  | PeerStateEstablished
  | PeerStateFailed
  | PeerStateOffline

definition PeerState_String :: "PeerState \<Rightarrow> string" where
  "PeerState_String s =
     (case s of
        PeerStateNew \<Rightarrow> ''new''
      | PeerStateConnecting \<Rightarrow> ''connecting''
      | PeerStateEstablished \<Rightarrow> ''established''
      | PeerStateFailed \<Rightarrow> ''failed''
      | PeerStateOffline \<Rightarrow> ''offline'')"

datatype udp_error =
    ErrClosed
  | ErrPeerNotFound
  | ErrNoEndpoint
  | ErrNoSession
  | ErrHandshakeFailed
  | ErrNoData
  | ErrUdpHandshakeTimeout
  | ErrKeyRequired
  | UdpNoise noise_error
  | UdpMessage message_error
  | UdpPayload payload_error
  | UdpSocket conn_error

record peerState =
  ps_pk :: bytes
  ps_endpoint :: addr
  ps_session :: "nat option"
  ps_previous :: "nat option"
  ps_state :: PeerState
  ps_rxBytes :: u64
  ps_txBytes :: u64
  ps_lastSeen :: gotime
  ps_serviceMux :: "nat option"

record pendingHandshake =
  ph_peer :: nat
  ph_hsState :: HandshakeState
  ph_localIdx :: u32
  ph_done :: nat
  ph_createdAt :: int

record readPacket =
  rp_pk :: bytes
  rp_protocol :: u8
  rp_payload :: bytes

text \<open>A \<^verbatim>\<open>done\<close> channel holds at most one result: the error or nil.\<close>

type_synonym done_channel = "udp_error option option"

record UDP =
  u_localKey :: KeyPair
  u_allowFunc :: "(bytes \<Rightarrow> bool) option"
  u_serviceMuxConfig :: ServiceMuxConfig
  u_cipherMode :: CipherMode
  u_peers :: "(bytes, nat) gomap"
  u_byIndex :: "(u32, nat) gomap"
  u_pending :: "(u32, pendingHandshake) gomap"
  u_readChan :: "readPacket list"
  u_readSize :: nat
  u_totalRx :: u64
  u_totalTx :: u64
  u_lastSeen :: gotime
  u_droppedOutputPackets :: u64
  u_droppedDecryptPackets :: u64
  u_droppedInboundPackets :: u64
  u_rpcRouteErrors :: u64
  u_kcpOutputErrors :: u64
  u_droppedPeerEvents :: u64
  u_onPeerEvent :: "(bytes \<Rightarrow> PeerState \<Rightarrow> nat \<Rightarrow> bool) option"
  u_closing :: bool
  u_closed :: bool
  u_objects :: "peerState list"
  u_sessions :: "Session list"
  u_muxes :: "ServiceMux list"
  u_done :: "done_channel list"
  u_random :: bytes
  u_wire :: "(addr \<times> bytes) list"
  u_events :: "(bytes \<times> PeerState) list"

record udp_env =
  ue_crypto :: crypto
  ue_write :: "addr \<Rightarrow> bytes \<Rightarrow> nat \<Rightarrow> udp_error option"
  ue_output :: "bytes \<Rightarrow> u64 \<Rightarrow> u8 \<Rightarrow> bytes \<Rightarrow> nat \<Rightarrow> kcp_error option"

definition DecryptedChanSize :: nat where "DecryptedChanSize = 256"

text \<open>\<^verbatim>\<open>NewUDP\<close> on a socket that is bound; the workers it starts are not part of the state.\<close>

definition NewUDP ::
  "KeyPair option \<Rightarrow> (bytes \<Rightarrow> bool) option \<Rightarrow> ServiceMuxConfig \<Rightarrow> CipherMode \<Rightarrow> int
   \<Rightarrow> (bytes \<Rightarrow> PeerState \<Rightarrow> nat \<Rightarrow> bool) option \<Rightarrow> bytes \<Rightarrow> udp_error + UDP" where
  "NewUDP key allowFunc muxConfig cipherMode decryptedChanSize onPeerEvent random =
     (case key of
        None \<Rightarrow> Inl ErrKeyRequired
      | Some key \<Rightarrow>
          (case NormalizeCipherMode cipherMode of
             Inl e \<Rightarrow> Inl (UdpNoise e)
           | Inr mode \<Rightarrow>
               let decryptedSize = (if decryptedChanSize \<le> 0 then DecryptedChanSize else nat decryptedChanSize)
               in Inr \<lparr>u_localKey = key, u_allowFunc = allowFunc, u_serviceMuxConfig = muxConfig,
                    u_cipherMode = mode, u_peers = [], u_byIndex = [], u_pending = [],
                    u_readChan = [], u_readSize = decryptedSize, u_totalRx = 0, u_totalTx = 0,
                    u_lastSeen = None, u_droppedOutputPackets = 0, u_droppedDecryptPackets = 0,
                    u_droppedInboundPackets = 0, u_rpcRouteErrors = 0, u_kcpOutputErrors = 0,
                    u_droppedPeerEvents = 0, u_onPeerEvent = onPeerEvent, u_closing = False,
                    u_closed = False, u_objects = [], u_sessions = [], u_muxes = [], u_done = [],
                    u_random = random, u_wire = [], u_events = []\<rparr>))"

definition peer_at :: "nat \<Rightarrow> UDP \<Rightarrow> peerState" where
  "peer_at p u = u_objects u ! p"

definition put_peer :: "nat \<Rightarrow> peerState \<Rightarrow> UDP \<Rightarrow> UDP" where
  "put_peer p ps u = u\<lparr>u_objects := (u_objects u)[p := ps]\<rparr>"

definition write_udp :: "udp_env \<Rightarrow> addr \<Rightarrow> bytes \<Rightarrow> UDP \<Rightarrow> udp_error option \<times> UDP" where
  "write_udp env dst msg u =
     (ue_write env dst msg (length (u_wire u)), u\<lparr>u_wire := u_wire u @ [(dst, msg)]\<rparr>)"

section \<open>Peers\<close>

definition emitPeerEvent :: "bytes \<Rightarrow> PeerState \<Rightarrow> UDP \<Rightarrow> UDP" where
  "emitPeerEvent pk state u =
     (case u_onPeerEvent u of
        None \<Rightarrow> u
      | Some fn \<Rightarrow>
          let consumed = fn pk state (length (u_events u));
              u = u\<lparr>u_events := u_events u @ [(pk, state)]\<rparr>
          in if consumed then u else u\<lparr>u_droppedPeerEvents := u_droppedPeerEvents u + 1\<rparr>)"

definition newPeer :: "bytes \<Rightarrow> peerState" where
  "newPeer pk = \<lparr>ps_pk = pk, ps_endpoint = None, ps_session = None, ps_previous = None,
     ps_state = PeerStateNew, ps_rxBytes = 0, ps_txBytes = 0, ps_lastSeen = None, ps_serviceMux = None\<rparr>"

definition findOrAddPeer :: "bytes \<Rightarrow> UDP \<Rightarrow> nat \<times> UDP" where
  "findOrAddPeer pk u =
     (case map_get (u_peers u) pk of
        Some p \<Rightarrow> (p, u)
      | None \<Rightarrow>
          let p = length (u_objects u)
          in (p, u\<lparr>u_objects := u_objects u @ [newPeer pk], u_peers := map_put pk p (u_peers u)\<rparr>))"

definition SetPeerEndpoint :: "bytes \<Rightarrow> addr \<Rightarrow> UDP \<Rightarrow> UDP" where
  "SetPeerEndpoint pk endpoint u =
     (if u_closed u \<or> u_closing u then u
      else case findOrAddPeer pk u of
        (p, u) \<Rightarrow> put_peer p ((peer_at p u)\<lparr>ps_endpoint := endpoint\<rparr>) u)"

definition GetPeer :: "bytes \<Rightarrow> UDP \<Rightarrow> udp_error + nat" where
  "GetPeer pk u =
     (if u_closed u \<or> u_closing u then Inl ErrClosed
      else case map_get (u_peers u) pk of None \<Rightarrow> Inl ErrPeerNotFound | Some p \<Rightarrow> Inr p)"

text \<open>\<^verbatim>\<open>bytes.Compare(a, b) < 0\<close>\<close>

fun bytes_less :: "bytes \<Rightarrow> bytes \<Rightarrow> bool" where
  "bytes_less [] [] = False"
| "bytes_less [] (b # bs) = True"
| "bytes_less (a # as) [] = False"
| "bytes_less (a # as) (b # bs) = (if a < b then True else if b < a then False else bytes_less as bs)"

definition isKCPClient :: "bytes \<Rightarrow> UDP \<Rightarrow> bool" where
  "isKCPClient remotePK u = bytes_less (kp_Public (u_localKey u)) remotePK"

definition createServiceMux :: "udp_env \<Rightarrow> nat \<Rightarrow> UDP \<Rightarrow> nat \<times> UDP" where
  "createServiceMux env p u =
     (let pk = ps_pk (peer_at p u);
          cfg = (u_serviceMuxConfig u)\<lparr>svc_IsClient := isKCPClient pk u,
                  svc_Output := Some (ue_output env), svc_OnOutputError := True\<rparr>
      in (length (u_muxes u), u\<lparr>u_muxes := u_muxes u @ [NewServiceMux pk cfg]\<rparr>))"

definition ensureServiceMuxLocked :: "udp_env \<Rightarrow> nat \<Rightarrow> UDP \<Rightarrow> bool \<times> UDP" where
  "ensureServiceMuxLocked env p u =
     (case ps_serviceMux (peer_at p u) of
        Some _ \<Rightarrow> (False, u)
      | None \<Rightarrow>
          (case createServiceMux env p u of
             (m, u) \<Rightarrow> (True, put_peer p ((peer_at p u)\<lparr>ps_serviceMux := Some m\<rparr>) u)))"

definition ensureServiceMux :: "udp_env \<Rightarrow> nat \<Rightarrow> UDP \<Rightarrow> (udp_error + nat) \<times> UDP" where
  "ensureServiceMux env p u =
     (let ps = peer_at p u in
      if ps_session ps = None then (Inl ErrNoSession, u)
      else case ps_serviceMux ps of
        Some m \<Rightarrow>
          if \<not> sv_closed (u_muxes u ! m) then (Inr m, u)
          else (case createServiceMux env p u of (m, u) \<Rightarrow>
                  (Inr m, emitPeerEvent (ps_pk ps) PeerStateEstablished
                     (put_peer p ((peer_at p u)\<lparr>ps_serviceMux := Some m, ps_state := PeerStateEstablished\<rparr>) u)))
      | None \<Rightarrow>
          (case createServiceMux env p u of (m, u) \<Rightarrow>
             (Inr m, emitPeerEvent (ps_pk ps) PeerStateEstablished
                (put_peer p ((peer_at p u)\<lparr>ps_serviceMux := Some m, ps_state := PeerStateEstablished\<rparr>) u))))"

section \<open>Sending\<close>

definition udp_sendPayload ::
  "udp_env \<Rightarrow> int \<Rightarrow> nat \<Rightarrow> u8 \<Rightarrow> bytes \<Rightarrow> UDP \<Rightarrow> udp_error option \<times> UDP" where
  "udp_sendPayload env now p protocol payload u =
     (if u_closed u then (Some ErrClosed, u)
      else let ps = peer_at p u in
        if ps_endpoint ps = None then (Some ErrNoEndpoint, u)
        else case ps_session ps of
          None \<Rightarrow> (Some ErrNoSession, u)
        | Some s \<Rightarrow>
            (case Session_Encrypt (ue_crypto env) now (EncodePayload protocol payload) (u_sessions u ! s) of
               (res, session) \<Rightarrow>
                 let u = u\<lparr>u_sessions := (u_sessions u)[s := session]\<rparr> in
                 (case res of
                    Inl e \<Rightarrow> (Some (UdpNoise e), u)
                  | Inr (ciphertext, counter) \<Rightarrow>
                      let msg = BuildTransportMessage (ses_remoteIndex session) counter ciphertext in
                      (case write_udp env (ps_endpoint ps) msg u of
                         (Some e, u) \<Rightarrow> (Some e, u)
                       | (None, u) \<Rightarrow>
                           let n = of_nat (length msg); ps = peer_at p u in
                           (None, put_peer p (ps\<lparr>ps_txBytes := ps_txBytes ps + n\<rparr>)
                              (u\<lparr>u_totalTx := u_totalTx u + n\<rparr>))))))"

definition sendKCP :: "udp_env \<Rightarrow> int \<Rightarrow> nat \<Rightarrow> u64 \<Rightarrow> bytes \<Rightarrow> UDP \<Rightarrow> udp_error option \<times> UDP" where
  "sendKCP env now p service data u =
     (let payload = AppendVarint [] service; payload = payload @ data
      in udp_sendPayload env now p ProtocolKCP payload u)"

text \<open>What a multiplexer has sent since its log had the length \<open>n\<close> goes out through the callback.\<close>

fun output_event :: "udp_env \<Rightarrow> int \<Rightarrow> nat \<Rightarrow> service_event \<Rightarrow> UDP \<Rightarrow> UDP" where
  "output_event env now p (Sent service protocol data) u =
     (if protocol = ProtocolKCP then snd (sendKCP env now p service data u)
      else snd (udp_sendPayload env now p protocol data u))"
| "output_event env now p (OutputError service err) u = u\<lparr>u_kcpOutputErrors := u_kcpOutputErrors u + 1\<rparr>"

definition run_mux :: "udp_env \<Rightarrow> int \<Rightarrow> nat \<Rightarrow> nat \<Rightarrow> ServiceMux \<Rightarrow> UDP \<Rightarrow> UDP" where
  "run_mux env now p m mux u =
     (let new = drop (length (sv_log (u_muxes u ! m))) (sv_log mux)
      in fold (output_event env now p) new (u\<lparr>u_muxes := (u_muxes u)[m := mux]\<rparr>))"

definition WriteTo :: "udp_env \<Rightarrow> int \<Rightarrow> bytes \<Rightarrow> bytes \<Rightarrow> UDP \<Rightarrow> udp_error option \<times> UDP" where
  "WriteTo env now pk data u =
     (if u_closed u \<or> u_closing u then (Some ErrClosed, u)
      else case map_get (u_peers u) pk of
        None \<Rightarrow> (Some ErrPeerNotFound, u)
      | Some p \<Rightarrow> udp_sendPayload env now p 1 data u)"

section \<open>Handshakes\<close>

definition udp_config :: "bool \<Rightarrow> bytes option \<Rightarrow> UDP \<Rightarrow> Config" where
  "udp_config initiator remote u =
     \<lparr>cfg_Pattern = PatternIK, cfg_Initiator = initiator, cfg_LocalStatic = Some (u_localKey u),
      cfg_RemoteStatic = remote, cfg_Prologue = [], cfg_PresharedKey = None,
      cfg_CipherMode = u_cipherMode u\<rparr>"

text \<open>
  The end of both handlers: the new session becomes the current one, the current one the previous
  one, and the index table follows.
\<close>

definition index_of :: "nat option \<Rightarrow> UDP \<Rightarrow> u32 option" where
  "index_of s u = map_option (\<lambda>s. ses_localIndex (u_sessions u ! s)) s"

definition update_index :: "nat \<Rightarrow> nat option \<Rightarrow> nat option \<Rightarrow> u32 \<Rightarrow> UDP \<Rightarrow> UDP" where
  "update_index p oldPrevious oldSession localIdx u =
     (let u = (case index_of oldPrevious u of
                 None \<Rightarrow> u
               | Some i \<Rightarrow>
                   if map_get (u_byIndex u) i = Some p
                   then u\<lparr>u_byIndex := map_del i (u_byIndex u)\<rparr> else u);
          u = (case index_of oldSession u of
                 None \<Rightarrow> u
               | Some i \<Rightarrow> u\<lparr>u_byIndex := map_put i p (u_byIndex u)\<rparr>)
      in u\<lparr>u_byIndex := map_put localIdx p (u_byIndex u)\<rparr>)"

definition install_session ::
  "udp_env \<Rightarrow> int \<Rightarrow> nat \<Rightarrow> addr \<Rightarrow> u32 \<Rightarrow> Session \<Rightarrow> UDP \<Rightarrow> UDP" where
  "install_session env now p from_addr localIdx session u =
     (case ensureServiceMuxLocked env p u of
        (createMux, u) \<Rightarrow>
          let ps = peer_at p u; oldSession = ps_session ps; oldPrevious = ps_previous ps;
              r = length (u_sessions u);
              u = u\<lparr>u_sessions := u_sessions u @ [session]\<rparr>;
              u = put_peer p (ps\<lparr>ps_endpoint := from_addr, ps_session := Some r,
                    ps_previous := oldSession, ps_state := PeerStateEstablished,
                    ps_lastSeen := Some now\<rparr>) u;
              u = update_index p oldPrevious oldSession localIdx u
          in if createMux then emitPeerEvent (ps_pk ps) PeerStateEstablished u else u)"

text \<open>The peer of an initiation: a known one, or a new one that the policy admits.\<close>

definition admitPeer :: "bytes \<Rightarrow> UDP \<Rightarrow> nat option \<times> UDP" where
  "admitPeer remotePK u =
     (case map_get (u_peers u) remotePK of
        Some p \<Rightarrow> (Some p, u)
      | None \<Rightarrow>
          if u_allowFunc u = None \<or> \<not> the (u_allowFunc u) remotePK then (None, u)
          else (case findOrAddPeer remotePK u of (p, u) \<Rightarrow> (Some p, u)))"

definition udp_handleHandshakeInit :: "udp_env \<Rightarrow> int \<Rightarrow> bytes \<Rightarrow> addr \<Rightarrow> UDP \<Rightarrow> UDP" where
  "udp_handleHandshakeInit env now data from_addr u =
     (case ParseHandshakeInit data of
        Inl _ \<Rightarrow> u
      | Inr msg \<Rightarrow>
        (case NewHandshakeState (ue_crypto env) (udp_config False None u) of
           Inl _ \<Rightarrow> u
         | Inr hs \<Rightarrow>
           (case ReadMessage (ue_crypto env) hs (join_message 48 (hi_Ephemeral msg) (hi_Static msg)) of
              (Inl _, hs) \<Rightarrow> u
            | (Inr _, hs) \<Rightarrow>
              let remotePK = hs_remoteStatic hs in
              (case admitPeer remotePK u of
                 (None, u) \<Rightarrow> u
               | (Some p, u) \<Rightarrow>
                 (case GenerateIndex (u_random u) of
                    Inl _ \<Rightarrow> u
                  | Inr (localIdx, random) \<Rightarrow>
                    (case WriteMessage (ue_crypto env) hs [] random of
                       (Inl _, hs, random) \<Rightarrow> u\<lparr>u_random := random\<rparr>
                     | (Inr respPayload, hs, random) \<Rightarrow>
                       let u = u\<lparr>u_random := random\<rparr>;
                           wireMsg = BuildHandshakeResp localIdx (hi_SenderIndex msg) (LocalEphemeral hs)
                                       (drop KeySize respPayload)
                       in (case write_udp env from_addr wireMsg u of
                             (Some _, u) \<Rightarrow> u
                           | (None, u) \<Rightarrow>
                             (case split_session (ue_crypto env) localIdx (hi_SenderIndex msg) remotePK
                                (u_cipherMode u) now hs of
                                Inl _ \<Rightarrow> u
                              | Inr session \<Rightarrow>
                                  install_session env now p from_addr localIdx session u))))))))"

definition send_done :: "nat \<Rightarrow> udp_error option \<Rightarrow> UDP \<Rightarrow> UDP" where
  "send_done d res u = (if u_done u ! d = None then u\<lparr>u_done := (u_done u)[d := Some res]\<rparr> else u)"

definition fail_pending :: "pendingHandshake \<Rightarrow> udp_error \<Rightarrow> UDP \<Rightarrow> UDP" where
  "fail_pending pending err u =
     (let p = ph_peer pending;
          u = put_peer p ((peer_at p u)\<lparr>ps_state := PeerStateFailed\<rparr>) u;
          u = emitPeerEvent (ps_pk (peer_at p u)) PeerStateFailed u
      in send_done (ph_done pending) (Some err) u)"

definition udp_handleHandshakeResp :: "udp_env \<Rightarrow> int \<Rightarrow> bytes \<Rightarrow> addr \<Rightarrow> UDP \<Rightarrow> UDP" where
  "udp_handleHandshakeResp env now data from_addr u =
     (case ParseHandshakeResp data of
        Inl _ \<Rightarrow> u
      | Inr msg \<Rightarrow>
        (case map_get (u_pending u) (hr_ReceiverIndex msg) of
           None \<Rightarrow> u
         | Some pending \<Rightarrow>
           let u = u\<lparr>u_pending := map_del (hr_ReceiverIndex msg) (u_pending u)\<rparr> in
           (case ReadMessage (ue_crypto env) (ph_hsState pending)
               (join_message 16 (hr_Ephemeral msg) (hr_Empty msg)) of
              (Inl _, hs) \<Rightarrow> fail_pending pending ErrHandshakeFailed u
            | (Inr _, hs) \<Rightarrow>
              (case split_session (ue_crypto env) (ph_localIdx pending) (hr_SenderIndex msg)
                  (ps_pk (peer_at (ph_peer pending) u)) (u_cipherMode u) now hs of
                 Inl e \<Rightarrow> fail_pending pending (UdpNoise e) u
               | Inr session \<Rightarrow>
                   send_done (ph_done pending) None
                     (install_session env now (ph_peer pending) from_addr (ph_localIdx pending) session u)))))"

text \<open>
  \<^verbatim>\<open>initiateHandshake\<close> sends the initiation and then waits for its \<^verbatim>\<open>done\<close> channel or five seconds:
  \<open>initiate_start\<close> is the first part and returns the index it waits for, \<open>initiate_done\<close> and
  \<open>initiate_timeout\<close> are the two ways to go on.
\<close>

definition initiate_start ::
  "udp_env \<Rightarrow> int \<Rightarrow> nat \<Rightarrow> UDP \<Rightarrow> (udp_error + u32 \<times> nat) \<times> UDP" where
  "initiate_start env now p u =
     (let endpoint = ps_endpoint (peer_at p u); pk = ps_pk (peer_at p u);
          u = put_peer p ((peer_at p u)\<lparr>ps_state := PeerStateConnecting\<rparr>) u;
          u = emitPeerEvent pk PeerStateConnecting u
      in if endpoint = None then (Inl ErrNoEndpoint, u)
         else case GenerateIndex (u_random u) of
           Inl e \<Rightarrow> (Inl (UdpNoise e), u)
         | Inr (localIdx, random) \<Rightarrow>
           (case NewHandshakeState (ue_crypto env) (udp_config True (Some pk) u) of
              Inl e \<Rightarrow> (Inl (UdpNoise e), u\<lparr>u_random := random\<rparr>)
            | Inr hs \<Rightarrow>
              (case WriteMessage (ue_crypto env) hs [] random of
                 (Inl e, hs, random) \<Rightarrow> (Inl (UdpNoise e), u\<lparr>u_random := random\<rparr>)
               | (Inr msg1, hs, random) \<Rightarrow>
                 let wireMsg = BuildHandshakeInit localIdx (LocalEphemeral hs) (drop KeySize msg1);
                     d = length (u_done u);
                     pending = \<lparr>ph_peer = p, ph_hsState = hs, ph_localIdx = localIdx, ph_done = d,
                                ph_createdAt = now\<rparr>;
                     u = u\<lparr>u_random := random, u_done := u_done u @ [None],
                           u_pending := map_put localIdx pending (u_pending u)\<rparr>
                 in (case write_udp env endpoint wireMsg u of
                       (Some e, u) \<Rightarrow> (Inl e, u\<lparr>u_pending := map_del localIdx (u_pending u)\<rparr>)
                     | (None, u) \<Rightarrow> (Inr (localIdx, d), u)))))"

definition initiate_done :: "nat \<Rightarrow> UDP \<Rightarrow> udp_error option option" where
  "initiate_done d u = u_done u ! d"

definition initiate_timeout :: "nat \<Rightarrow> u32 \<Rightarrow> UDP \<Rightarrow> udp_error option \<times> UDP" where
  "initiate_timeout p localIdx u =
     (let u = u\<lparr>u_pending := map_del localIdx (u_pending u)\<rparr>;
          u = put_peer p ((peer_at p u)\<lparr>ps_state := PeerStateFailed\<rparr>) u
      in (Some ErrUdpHandshakeTimeout, emitPeerEvent (ps_pk (peer_at p u)) PeerStateFailed u))"

definition Connect :: "udp_env \<Rightarrow> int \<Rightarrow> bytes \<Rightarrow> UDP \<Rightarrow> (udp_error + u32 \<times> nat) \<times> UDP" where
  "Connect env now pk u =
     (if u_closed u \<or> u_closing u then (Inl ErrClosed, u)
      else case map_get (u_peers u) pk of
        None \<Rightarrow> (Inl ErrPeerNotFound, u)
      | Some p \<Rightarrow> initiate_start env now p u)"

section \<open>Receiving\<close>

definition transportPeerSession :: "u32 \<Rightarrow> UDP \<Rightarrow> udp_error + nat \<times> nat" where
  "transportPeerSession receiverIndex u =
     (case map_get (u_byIndex u) receiverIndex of
        None \<Rightarrow> Inl ErrPeerNotFound
      | Some p \<Rightarrow>
          let ps = peer_at p u in
          if index_of (ps_session ps) u = Some receiverIndex then Inr (p, the (ps_session ps))
          else if index_of (ps_previous ps) u = Some receiverIndex then Inr (p, the (ps_previous ps))
          else Inl ErrNoSession)"

definition recordTransportActivity :: "int \<Rightarrow> nat \<Rightarrow> addr \<Rightarrow> nat \<Rightarrow> bool \<Rightarrow> UDP \<Rightarrow> UDP" where
  "recordTransportActivity now p from_addr packetLen updateEndpoint u =
     (let ps = peer_at p u;
          ps = (if updateEndpoint \<and> (ps_endpoint ps = None \<or> ps_endpoint ps \<noteq> from_addr)
                then ps\<lparr>ps_endpoint := from_addr\<rparr> else ps)
      in put_peer p (ps\<lparr>ps_rxBytes := ps_rxBytes ps + of_nat packetLen, ps_lastSeen := Some now\<rparr>) u)"

record decoded =
  dp_pk :: bytes
  dp_peer :: nat
  dp_protocol :: u8
  dp_payload :: bytes
  dp_current :: bool

definition ProtocolConnCtrl :: u8 where "ProtocolConnCtrl = 0xFF"

definition closeCtrlPayload :: bytes where "closeCtrlPayload = [1]"

text \<open>
  Between the decryption and the second look at the peer other goroutines may run (a test hooks in
  there): \<open>hook\<close> is what they do.
\<close>

definition decryptTransport ::
  "udp_env \<Rightarrow> int \<Rightarrow> (UDP \<Rightarrow> UDP) \<Rightarrow> bytes \<Rightarrow> addr \<Rightarrow> UDP \<Rightarrow> (udp_error + decoded) \<times> UDP" where
  "decryptTransport env now hook data from_addr u =
     (case ParseTransportMessage data of
        Inl e \<Rightarrow> (Inl (UdpMessage e), u)
      | Inr msg \<Rightarrow>
        (case transportPeerSession (tm_ReceiverIndex msg) u of
           Inl e \<Rightarrow> (Inl e, u)
         | Inr (p, s) \<Rightarrow>
           (case Session_Decrypt (ue_crypto env) now (tm_Ciphertext msg) (tm_Counter msg) (u_sessions u ! s) of
              (res, session) \<Rightarrow>
                let u = u\<lparr>u_sessions := (u_sessions u)[s := session]\<rparr> in
                (case res of
                   Inl e \<Rightarrow> (Inl (UdpNoise e), u)
                 | Inr plaintext \<Rightarrow>
                   let u = hook u;
                       current = (ps_session (peer_at p u) = Some s);
                       u = recordTransportActivity now p from_addr (length data) current u;
                       pk = ps_pk (peer_at p u)
                   in if length plaintext = 0 then (Inl ErrNoData, u)
                      else case DecodePayload plaintext of
                        Inl e \<Rightarrow> (Inl (UdpPayload e), u)
                      | Inr (protocol, payload) \<Rightarrow>
                          if protocol = ProtocolConnCtrl \<and> payload \<noteq> closeCtrlPayload then (Inl ErrNoData, u)
                          else (Inr \<lparr>dp_pk = pk, dp_peer = p, dp_protocol = protocol,
                                  dp_payload = payload, dp_current = current\<rparr>, u)))))"

definition processPacket ::
  "udp_env \<Rightarrow> int \<Rightarrow> (UDP \<Rightarrow> UDP) \<Rightarrow> bytes \<Rightarrow> addr \<Rightarrow> UDP \<Rightarrow> (udp_error + decoded) \<times> UDP" where
  "processPacket env now hook data from_addr u =
     (if length data < 1 then (Inl ErrNoData, u)
      else let msgType = data ! 0 in
        if msgType = MessageTypeHandshakeInit then
          (Inl ErrNoData, udp_handleHandshakeInit env now data from_addr u)
        else if msgType = MessageTypeHandshakeResp then
          (Inl ErrNoData, udp_handleHandshakeResp env now data from_addr u)
        else if msgType = MessageTypeTransport then decryptTransport env now hook data from_addr u
        else (Inl ErrNoData, u))"

text \<open>The counters of the receive loop.\<close>

definition countReceived :: "int \<Rightarrow> nat \<Rightarrow> UDP \<Rightarrow> UDP" where
  "countReceived now n u = u\<lparr>u_totalRx := u_totalRx u + of_nat n, u_lastSeen := Some now\<rparr>"

definition dropOutput :: "UDP \<Rightarrow> UDP" where
  "dropOutput u = u\<lparr>u_droppedOutputPackets := u_droppedOutputPackets u + 1\<rparr>"

definition dropDecrypt :: "UDP \<Rightarrow> UDP" where
  "dropDecrypt u = u\<lparr>u_droppedDecryptPackets := u_droppedDecryptPackets u + 1\<rparr>"

definition dropInbound :: "UDP \<Rightarrow> UDP" where
  "dropInbound u = u\<lparr>u_droppedInboundPackets := u_droppedInboundPackets u + 1\<rparr>"

section \<open>Service generations\<close>

text \<open>Closing a multiplexer sends its last frames.\<close>

definition close_mux :: "udp_env \<Rightarrow> int \<Rightarrow> int \<Rightarrow> nat \<Rightarrow> nat \<Rightarrow> UDP \<Rightarrow> UDP" where
  "close_mux env now later p m u = run_mux env now p m (ServiceMux_Close now later (u_muxes u ! m)) u"

definition CloseServiceMux :: "udp_env \<Rightarrow> int \<Rightarrow> int \<Rightarrow> nat option \<Rightarrow> nat \<Rightarrow> UDP \<Rightarrow> UDP" where
  "CloseServiceMux env now later ifMatch p u =
     (let smux = ps_serviceMux (peer_at p u) in
      if ifMatch \<noteq> None \<and> smux \<noteq> ifMatch then u
      else
        let wasOffline = (ps_state (peer_at p u) = PeerStateOffline);
            u = put_peer p ((peer_at p u)\<lparr>ps_state := PeerStateOffline, ps_serviceMux := None\<rparr>) u;
            u = (case smux of None \<Rightarrow> u | Some m \<Rightarrow> close_mux env now later p m u)
        in if \<not> wasOffline then emitPeerEvent (ps_pk (peer_at p u)) PeerStateOffline u else u)"

definition ClosePeerServiceMux :: "udp_env \<Rightarrow> int \<Rightarrow> int \<Rightarrow> bytes \<Rightarrow> UDP \<Rightarrow> UDP" where
  "ClosePeerServiceMux env now later pk u =
     (case GetPeer pk u of Inl _ \<Rightarrow> u | Inr p \<Rightarrow> CloseServiceMux env now later None p u)"

definition Peer_ServiceMux :: "udp_env \<Rightarrow> nat \<Rightarrow> UDP \<Rightarrow> (udp_error + nat) \<times> UDP" where
  "Peer_ServiceMux env p u =
     (if u_closed u \<or> u_closing u then (Inl ErrClosed, u) else ensureServiceMux env p u)"

definition PeerServiceMux :: "udp_env \<Rightarrow> bytes \<Rightarrow> UDP \<Rightarrow> (udp_error + nat) \<times> UDP" where
  "PeerServiceMux env pk u =
     (case GetPeer pk u of Inl e \<Rightarrow> (Inl e, u) | Inr p \<Rightarrow> Peer_ServiceMux env p u)"

definition OpenServiceMux :: "udp_env \<Rightarrow> int \<Rightarrow> int \<Rightarrow> nat \<Rightarrow> UDP \<Rightarrow> (udp_error + nat) \<times> UDP" where
  "OpenServiceMux env now later p u =
     (if u_closed u \<or> u_closing u then (Inl ErrClosed, u)
      else if ps_session (peer_at p u) = None then (Inl ErrNoSession, u)
      else
        let oldMux = ps_serviceMux (peer_at p u) in
        (case createServiceMux env p u of
           (m, u) \<Rightarrow>
             let u = put_peer p ((peer_at p u)\<lparr>ps_serviceMux := Some m, ps_state := PeerStateEstablished\<rparr>) u;
                 u = (case oldMux of None \<Rightarrow> u | Some old \<Rightarrow> close_mux env now later p old u)
             in (Inr m, emitPeerEvent (ps_pk (peer_at p u)) PeerStateEstablished u)))"

definition OpenPeerServiceMux ::
  "udp_env \<Rightarrow> int \<Rightarrow> int \<Rightarrow> bytes \<Rightarrow> UDP \<Rightarrow> (udp_error + nat \<times> nat) \<times> UDP" where
  "OpenPeerServiceMux env now later pk u =
     (case GetPeer pk u of
        Inl e \<Rightarrow> (Inl e, u)
      | Inr p \<Rightarrow>
          (case OpenServiceMux env now later p u of
             (Inl e, u) \<Rightarrow> (Inl e, u)
           | (Inr m, u) \<Rightarrow> (Inr (p, m), u)))"

definition Peer_Connect :: "udp_env \<Rightarrow> int \<Rightarrow> nat \<Rightarrow> UDP \<Rightarrow> (udp_error + u32 \<times> nat) \<times> UDP" where
  "Peer_Connect env now p u =
     (if u_closed u \<or> u_closing u then (Inl ErrClosed, u) else initiate_start env now p u)"

section \<open>Delivery\<close>

text \<open>The outcomes of \<^verbatim>\<open>InputKCP\<close> are those of the multiplexer.\<close>

definition deliverInboundKCP :: "udp_env \<Rightarrow> int \<Rightarrow> nat \<Rightarrow> bytes \<Rightarrow> UDP \<Rightarrow> UDP list" where
  "deliverInboundKCP env now p payload u =
     (let routeError = (\<lambda>u. u\<lparr>u_rpcRouteErrors := u_rpcRouteErrors u + 1\<rparr>) in
      case DecodeVarint payload of
        Inl _ \<Rightarrow> [routeError u]
      | Inr (service, n) \<Rightarrow>
          (case ensureServiceMux env p u of
             (Inl _, u) \<Rightarrow> [routeError u]
           | (Inr m, u) \<Rightarrow>
               map (\<lambda>(err, mux).
                      let u = run_mux env now p m mux u in if err \<noteq> None then routeError u else u)
                 (InputKCP now service (drop n payload) (u_muxes u ! m))))"

definition deliverInboundDirect :: "udp_env \<Rightarrow> nat \<Rightarrow> bytes \<Rightarrow> u8 \<Rightarrow> bytes \<Rightarrow> UDP \<Rightarrow> UDP" where
  "deliverInboundDirect env p pk protocol payload u =
     (let dropped = (\<lambda>u. u\<lparr>u_droppedInboundPackets := u_droppedInboundPackets u + 1\<rparr>) in
      case ensureServiceMux env p u of
        (Inl _, u) \<Rightarrow> dropped u
      | (Inr m, u) \<Rightarrow>
          (case InputPacket protocol payload (u_muxes u ! m) of
             (err, mux) \<Rightarrow>
               let u = u\<lparr>u_muxes := (u_muxes u)[m := mux]\<rparr>;
                   u = (if err \<noteq> None then dropped u else u)
               in if length (u_readChan u) < u_readSize u
                  then u\<lparr>u_readChan := u_readChan u @ [\<lparr>rp_pk = pk, rp_protocol = protocol, rp_payload = payload\<rparr>]\<rparr>
                  else u\<lparr>u_droppedOutputPackets := u_droppedOutputPackets u + 1\<rparr>))"

definition deliverInbound :: "udp_env \<Rightarrow> int \<Rightarrow> int \<Rightarrow> udp_error + decoded \<Rightarrow> UDP \<Rightarrow> UDP list" where
  "deliverInbound env now later pkt u =
     (case pkt of
        Inl _ \<Rightarrow> [u]
      | Inr d \<Rightarrow>
          if dp_protocol d = ProtocolConnCtrl then
            [if dp_current d \<and> dp_payload d = closeCtrlPayload
             then ClosePeerServiceMux env now later (dp_pk d) u else u]
          else if dp_protocol d = ProtocolKCP then deliverInboundKCP env now (dp_peer d) (dp_payload d) u
          else [deliverInboundDirect env (dp_peer d) (dp_pk d) (dp_protocol d) (dp_payload d) u])"

text \<open>The outcomes of \<^verbatim>\<open>ReadPacket\<close> into a buffer of \<open>buf\<close> bytes; none while it waits.\<close>

definition ReadPacket :: "nat \<Rightarrow> UDP \<Rightarrow> ((udp_error + bytes \<times> u8 \<times> bytes) \<times> UDP) list" where
  "ReadPacket buf u =
     (if u_closed u then [(Inl ErrClosed, u)]
      else case u_readChan u of
        [] \<Rightarrow> []
      | pkt # rest \<Rightarrow>
          [(Inr (rp_pk pkt, rp_protocol pkt, take buf (rp_payload pkt)), u\<lparr>u_readChan := rest\<rparr>)])"

definition ReadFrom :: "nat \<Rightarrow> UDP \<Rightarrow> ((udp_error + bytes \<times> bytes) \<times> UDP) list" where
  "ReadFrom buf u =
     map (\<lambda>(res, u). (case res of Inl e \<Rightarrow> Inl e | Inr (pk, proto, data) \<Rightarrow> Inr (pk, data), u))
       (ReadPacket buf u)"

section \<open>Closing and information\<close>

text \<open>
  \<^verbatim>\<open>Close\<close>: the peers that can be reached are told, then every multiplexer is closed while it can
  still send, then the pointers are dropped and the network is closed.
\<close>

definition UDP_Close :: "udp_env \<Rightarrow> int \<Rightarrow> int \<Rightarrow> UDP \<Rightarrow> UDP" where
  "UDP_Close env now later u =
     (if u_closed u \<or> u_closing u then u
      else
        let u = u\<lparr>u_closing := True\<rparr>;
            peers = map snd (u_peers u);
            closePeers = filter (\<lambda>p. ps_session (peer_at p u) \<noteq> None \<and> ps_endpoint (peer_at p u) \<noteq> None) peers;
            refs = concat (map (\<lambda>p. case ps_serviceMux (peer_at p u) of None \<Rightarrow> [] | Some m \<Rightarrow> [(p, m)]) peers);
            u = fold (\<lambda>p u. snd (udp_sendPayload env now p ProtocolConnCtrl closeCtrlPayload u)) closePeers u;
            u = fold (\<lambda>(p, m) u. close_mux env now later p m u) refs u;
            u = fold (\<lambda>(p, m) u.
                  if ps_serviceMux (peer_at p u) = Some m
                  then put_peer p ((peer_at p u)\<lparr>ps_serviceMux := None\<rparr>) u else u) refs u
        in u\<lparr>u_closed := True\<rparr>)"

definition UDP_IsClosed :: "UDP option \<Rightarrow> bool" where
  "UDP_IsClosed u = (case u of None \<Rightarrow> True | Some u \<Rightarrow> u_closed u \<or> u_closing u)"

record PeerInfo =
  pi_PublicKey :: bytes
  pi_Endpoint :: addr
  pi_State :: PeerState
  pi_RxBytes :: u64
  pi_TxBytes :: u64
  pi_LastSeen :: gotime

definition info_of :: "peerState \<Rightarrow> PeerInfo" where
  "info_of ps = \<lparr>pi_PublicKey = ps_pk ps, pi_Endpoint = ps_endpoint ps, pi_State = ps_state ps,
     pi_RxBytes = ps_rxBytes ps, pi_TxBytes = ps_txBytes ps, pi_LastSeen = ps_lastSeen ps\<rparr>"

definition UDP_PeerInfo :: "bytes \<Rightarrow> UDP \<Rightarrow> PeerInfo option" where
  "UDP_PeerInfo pk u = map_option (\<lambda>p. info_of (peer_at p u)) (map_get (u_peers u) pk)"

definition Peers :: "UDP \<Rightarrow> (nat \<times> PeerInfo) list" where
  "Peers u = map (\<lambda>(pk, p). (p, info_of (peer_at p u))) (u_peers u)"

record HostInfo =
  hi_PublicKey :: bytes
  hi_PeerCount :: nat
  hi_RxBytes :: u64
  hi_TxBytes :: u64
  hi_LastSeen :: gotime
  hi_DroppedOutputPackets :: u64
  hi_DroppedDecryptPackets :: u64
  hi_DroppedInboundPackets :: u64
  hi_RPCRouteErrors :: u64
  hi_KCPOutputErrors :: u64
  hi_DroppedPeerEvents :: u64

definition UDP_HostInfo :: "UDP \<Rightarrow> HostInfo" where
  "UDP_HostInfo u =
     \<lparr>hi_PublicKey = kp_Public (u_localKey u), hi_PeerCount = length (u_peers u),
      hi_RxBytes = u_totalRx u, hi_TxBytes = u_totalTx u, hi_LastSeen = u_lastSeen u,
      hi_DroppedOutputPackets = u_droppedOutputPackets u,
      hi_DroppedDecryptPackets = u_droppedDecryptPackets u,
      hi_DroppedInboundPackets = u_droppedInboundPackets u, hi_RPCRouteErrors = u_rpcRouteErrors u,
      hi_KCPOutputErrors = u_kcpOutputErrors u, hi_DroppedPeerEvents = u_droppedPeerEvents u\<rparr>"

definition Peer_State :: "nat option \<Rightarrow> UDP \<Rightarrow> PeerState" where
  "Peer_State p u = (case p of None \<Rightarrow> PeerStateFailed | Some p \<Rightarrow> ps_state (peer_at p u))"

end
