(* ===== verification/CoreUDPHandshake.thy ===== *)
theory CoreUDPHandshake
  imports CoreUDP CoreRekey CoreServiceMuxThms
begin

text \<open>
  A handshake between two UDP networks over their wire formats, and what it leaves in both peer
  tables; and what an initiation does that is presented a second time.
\<close>

section \<open>Installing a session\<close>

lemma put_peer_at [simp]:
  "p < length (u_objects u) \<Longrightarrow> peer_at p (put_peer p ps u) = ps"
  by (simp add: peer_at_def put_peer_def)

lemma put_peer_other [simp]: "q \<noteq> p \<Longrightarrow> peer_at q (put_peer p ps u) = peer_at q u"
  by (simp add: peer_at_def put_peer_def)

lemma put_peer_fields [simp]:
  "length (u_objects (put_peer p ps u)) = length (u_objects u)"
  "u_sessions (put_peer p ps u) = u_sessions u" "u_byIndex (put_peer p ps u) = u_byIndex u"
  "u_peers (put_peer p ps u) = u_peers u" "u_wire (put_peer p ps u) = u_wire u"
  "u_pending (put_peer p ps u) = u_pending u" "u_done (put_peer p ps u) = u_done u"
  "u_muxes (put_peer p ps u) = u_muxes u" "u_random (put_peer p ps u) = u_random u"
  "u_closed (put_peer p ps u) = u_closed u" "u_closing (put_peer p ps u) = u_closing u"
  "u_localKey (put_peer p ps u) = u_localKey u" "u_cipherMode (put_peer p ps u) = u_cipherMode u"
  "u_allowFunc (put_peer p ps u) = u_allowFunc u" "u_onPeerEvent (put_peer p ps u) = u_onPeerEvent u"
  by (simp_all add: put_peer_def)

lemma emit_fields [simp]:
  "u_objects (emitPeerEvent pk s u) = u_objects u" "peer_at p (emitPeerEvent pk s u) = peer_at p u"
  "u_sessions (emitPeerEvent pk s u) = u_sessions u" "u_byIndex (emitPeerEvent pk s u) = u_byIndex u"
  "u_peers (emitPeerEvent pk s u) = u_peers u" "u_wire (emitPeerEvent pk s u) = u_wire u"
  "u_pending (emitPeerEvent pk s u) = u_pending u" "u_done (emitPeerEvent pk s u) = u_done u"
  "u_muxes (emitPeerEvent pk s u) = u_muxes u" "u_random (emitPeerEvent pk s u) = u_random u"
  "u_closed (emitPeerEvent pk s u) = u_closed u" "u_closing (emitPeerEvent pk s u) = u_closing u"
  "u_localKey (emitPeerEvent pk s u) = u_localKey u" "u_cipherMode (emitPeerEvent pk s u) = u_cipherMode u"
  "u_allowFunc (emitPeerEvent pk s u) = u_allowFunc u"
  by (auto simp: emitPeerEvent_def peer_at_def Let_def split: option.splits)

text \<open>What \<^verbatim>\<open>ensureServiceMuxLocked\<close> leaves alone, whether or not it makes a multiplexer.\<close>

lemma ensure_fields:
  assumes "ensureServiceMuxLocked env p u = (b, u')" "p < length (u_objects u)"
  shows "length (u_objects u') = length (u_objects u)" "u_sessions u' = u_sessions u"
    "u_byIndex u' = u_byIndex u" "u_peers u' = u_peers u" "u_wire u' = u_wire u"
    "u_pending u' = u_pending u" "u_done u' = u_done u" "u_localKey u' = u_localKey u"
    "u_cipherMode u' = u_cipherMode u" "u_closed u' = u_closed u" "u_closing u' = u_closing u"
    "ps_pk (peer_at p u') = ps_pk (peer_at p u)" "ps_session (peer_at p u') = ps_session (peer_at p u)"
    "ps_previous (peer_at p u') = ps_previous (peer_at p u)" "u_allowFunc u' = u_allowFunc u"
    "u_random u' = u_random u"
  using assms
  by (auto simp: ensureServiceMuxLocked_def createServiceMux_def Let_def peer_at_def put_peer_def
      split: option.splits)

lemma update_index_fields [simp]:
  "u_objects (update_index p a b i u) = u_objects u" "peer_at q (update_index p a b i u) = peer_at q u"
  "u_sessions (update_index p a b i u) = u_sessions u" "u_peers (update_index p a b i u) = u_peers u"
  "u_wire (update_index p a b i u) = u_wire u" "u_pending (update_index p a b i u) = u_pending u"
  "u_done (update_index p a b i u) = u_done u" "u_localKey (update_index p a b i u) = u_localKey u"
  "u_cipherMode (update_index p a b i u) = u_cipherMode u" "u_muxes (update_index p a b i u) = u_muxes u"
  "u_closed (update_index p a b i u) = u_closed u" "u_closing (update_index p a b i u) = u_closing u"
  "u_allowFunc (update_index p a b i u) = u_allowFunc u"
  "u_random (update_index p a b i u) = u_random u"
  "map_get (u_byIndex (update_index p a b i u)) i = Some p"
  by (auto simp: update_index_def Let_def peer_at_def split: option.splits)

lemma install_session_result:
  assumes p: "p < length (u_objects u)" and u': "u' = install_session env now p a i s u"
  shows "ps_session (peer_at p u') = Some (length (u_sessions u))"
    "ps_previous (peer_at p u') = ps_session (peer_at p u)"
    "ps_endpoint (peer_at p u') = a" "ps_state (peer_at p u') = PeerStateEstablished"
    "ps_pk (peer_at p u') = ps_pk (peer_at p u)"
    "u_sessions u' = u_sessions u @ [s]" "map_get (u_byIndex u') i = Some p"
    "u_wire u' = u_wire u" "u_pending u' = u_pending u" "u_done u' = u_done u"
    "u_peers u' = u_peers u" "length (u_objects u') = length (u_objects u)"
    "u_localKey u' = u_localKey u" "u_cipherMode u' = u_cipherMode u"
    "u_closed u' = u_closed u" "u_closing u' = u_closing u"
proof -
  obtain b u1 where e: "ensureServiceMuxLocked env p u = (b, u1)" by fastforce
  note f = ensure_fields [OF e p]
  let ?ps = "(peer_at p u1)\<lparr>ps_endpoint := a, ps_session := Some (length (u_sessions u)),
     ps_previous := ps_session (peer_at p u), ps_state := PeerStateEstablished, ps_lastSeen := Some now\<rparr>"
  let ?u2 = "update_index p (ps_previous (peer_at p u)) (ps_session (peer_at p u)) i
     (put_peer p ?ps (u1\<lparr>u_sessions := u_sessions u @ [s]\<rparr>))"
  have "u' = (if b then emitPeerEvent (ps_pk (peer_at p u)) PeerStateEstablished ?u2 else ?u2)"
    unfolding u' install_session_def e by (simp add: Let_def f)
  then show "ps_session (peer_at p u') = Some (length (u_sessions u))"
    "ps_previous (peer_at p u') = ps_session (peer_at p u)"
    "ps_endpoint (peer_at p u') = a" "ps_state (peer_at p u') = PeerStateEstablished"
    "ps_pk (peer_at p u') = ps_pk (peer_at p u)"
    "u_sessions u' = u_sessions u @ [s]" "map_get (u_byIndex u') i = Some p"
    "u_wire u' = u_wire u" "u_pending u' = u_pending u" "u_done u' = u_done u"
    "u_peers u' = u_peers u" "length (u_objects u') = length (u_objects u)"
    "u_localKey u' = u_localKey u" "u_cipherMode u' = u_cipherMode u"
    "u_closed u' = u_closed u" "u_closing u' = u_closing u"
    using f p by simp_all
qed

lemma install_routes:
  assumes "p < length (u_objects u)" "ses_localIndex s = i"
  shows "transportPeerSession i (install_session env now p a i s u) = Inr (p, length (u_sessions u))"
  using install_session_result [OF assms(1) refl, of env now a i s] assms(2)
  by (simp add: transportPeerSession_def index_of_def Let_def)

section \<open>The steps of a handshake\<close>

definition peer_in :: "bytes \<Rightarrow> nat \<Rightarrow> UDP \<Rightarrow> bool" where
  "peer_in pk p u \<longleftrightarrow> map_get (u_peers u) pk = Some p \<and> p < length (u_objects u) \<and> ps_pk (peer_at p u) = pk"

text \<open>The initiation of \<open>pk\<close> is admitted: the peer is known or the policy lets it in.\<close>

definition admitted :: "bytes \<Rightarrow> UDP \<Rightarrow> bool" where
  "admitted pk u \<longleftrightarrow> (\<exists>p. peer_in pk p u)
     \<or> (map_get (u_peers u) pk = None \<and> (\<exists>f. u_allowFunc u = Some f \<and> f pk))"

lemma admitPeer_admitted:
  assumes "admitted pk u"
  obtains q u1 where "admitPeer pk u = (Some q, u1)" "peer_in pk q u1"
    "u_random u1 = u_random u" "u_wire u1 = u_wire u" "u_localKey u1 = u_localKey u"
    "u_cipherMode u1 = u_cipherMode u" "u_sessions u1 = u_sessions u" "u_closed u1 = u_closed u"
    "u_closing u1 = u_closing u" "\<And>p. peer_in pk p u \<Longrightarrow> q = p \<and> u1 = u"
proof (cases "map_get (u_peers u) pk")
  case None
  let ?u = "u\<lparr>u_objects := u_objects u @ [newPeer pk], u_peers := map_put pk (length (u_objects u)) (u_peers u)\<rparr>"
  obtain f where "u_allowFunc u = Some f" "f pk" using assms None by (auto simp: admitted_def peer_in_def)
  then have "admitPeer pk u = (Some (length (u_objects u)), ?u)"
    using None by (simp add: admitPeer_def findOrAddPeer_def Let_def)
  then show thesis using None
    by (intro that [of "length (u_objects u)" ?u]) (auto simp: peer_in_def peer_at_def newPeer_def)
next
  case (Some p)
  then have "peer_in pk p u" using assms by (auto simp: admitted_def peer_in_def)
  then show thesis using Some by (intro that [of p u]) (auto simp: admitPeer_def peer_in_def)
qed

lemma handleInit_answers:
  assumes "ParseHandshakeInit data = Inr m"
    "NewHandshakeState (ue_crypto env) (udp_config False None u) = Inr hs"
    "ReadMessage (ue_crypto env) hs (join_message 48 (hi_Ephemeral m) (hi_Static m)) = (Inr [], hs1)"
    "admitPeer (hs_remoteStatic hs1) u = (Some q, u1)" "u_random u1 = u_random u"
    "u_cipherMode u1 = u_cipherMode u" "4 \<le> length (u_random u)"
    "WriteMessage (ue_crypto env) hs1 [] (drop 4 (u_random u)) = (Inr msg2, hs2, random)"
    "\<And>idx. \<exists>s. split_session (ue_crypto env) idx (hi_SenderIndex m) (hs_remoteStatic hs1) (u_cipherMode u) now hs2 = Inr s"
    "\<And>d m n. ue_write env d m n = None"
  obtains idx s where
    "split_session (ue_crypto env) idx (hi_SenderIndex m) (hs_remoteStatic hs1) (u_cipherMode u) now hs2 = Inr s"
    "udp_handleHandshakeInit env now data a u = install_session env now q a idx s
       (u1\<lparr>u_random := random, u_wire := u_wire u1 @ [(a,
          BuildHandshakeResp idx (hi_SenderIndex m) (LocalEphemeral hs2) (drop KeySize msg2))]\<rparr>)"
proof -
  obtain idx where i: "GenerateIndex (u_random u1) = Inr (idx, drop 4 (u_random u))"
    using assms(5,7) by (simp add: GenerateIndex_def)
  obtain s where s: "split_session (ue_crypto env) idx (hi_SenderIndex m) (hs_remoteStatic hs1) (u_cipherMode u) now hs2 = Inr s"
    using assms(9) by blast
  show thesis
    using assms(1-4,6,8,10) i
    by (intro that [OF s]) (simp add: udp_handleHandshakeInit_def write_udp_def Let_def s)
qed

lemma initiate_sends:
  assumes "p < length (u_objects u)" "ps_endpoint (peer_at p u) = Some e" "4 \<le> length (u_random u)"
    "NewHandshakeState (ue_crypto env) (udp_config True (Some (ps_pk (peer_at p u))) u) = Inr hs"
    "WriteMessage (ue_crypto env) hs [] (drop 4 (u_random u)) = (Inr msg1, hs', random)"
    "\<And>d m n. ue_write env d m n = None"
  obtains idx u' where "initiate_start env now p u = (Inr (idx, length (u_done u)), u')"
    "u_wire u' = u_wire u @ [(Some e, BuildHandshakeInit idx (LocalEphemeral hs') (drop KeySize msg1))]"
    "map_get (u_pending u') idx = Some \<lparr>ph_peer = p, ph_hsState = hs', ph_localIdx = idx,
       ph_done = length (u_done u), ph_createdAt = now\<rparr>"
    "u_done u' = u_done u @ [None]" "u_sessions u' = u_sessions u" "u_peers u' = u_peers u"
    "length (u_objects u') = length (u_objects u)" "u_localKey u' = u_localKey u"
    "u_cipherMode u' = u_cipherMode u" "u_closed u' = u_closed u" "u_closing u' = u_closing u"
    "ps_pk (peer_at p u') = ps_pk (peer_at p u)" "ps_session (peer_at p u') = ps_session (peer_at p u)"
proof -
  obtain idx where i: "GenerateIndex (u_random u) = Inr (idx, drop 4 (u_random u))"
    using assms(3) by (simp add: GenerateIndex_def)
  let ?u = "emitPeerEvent (ps_pk (peer_at p u)) PeerStateConnecting
     (put_peer p ((peer_at p u)\<lparr>ps_state := PeerStateConnecting\<rparr>) u)"
  let ?u' = "?u\<lparr>u_random := random, u_done := u_done u @ [None],
      u_pending := map_put idx \<lparr>ph_peer = p, ph_hsState = hs', ph_localIdx = idx,
        ph_done = length (u_done u), ph_createdAt = now\<rparr> (u_pending u),
      u_wire := u_wire u @ [(Some e, BuildHandshakeInit idx (LocalEphemeral hs') (drop KeySize msg1))]\<rparr>"
  have c: "udp_config True r ?u = udp_config True r u" for r by (simp add: udp_config_def)
  have "initiate_start env now p u = (Inr (idx, length (u_done u)), ?u')"
    using assms(2,4-6) i by (simp add: initiate_start_def write_udp_def Let_def c)
  moreover have "peer_at p ?u' = (peer_at p u)\<lparr>ps_state := PeerStateConnecting\<rparr>"
    using assms(1) by (simp add: peer_at_def put_peer_def)
  ultimately show thesis by (intro that [of idx ?u']) auto
qed

lemma handleResp_completes:
  assumes "ParseHandshakeResp data = Inr m" "map_get (u_pending u) (hr_ReceiverIndex m) = Some h"
    "ReadMessage (ue_crypto env) (ph_hsState h) (join_message 16 (hr_Ephemeral m) (hr_Empty m)) = (Inr [], hs)"
    "split_session (ue_crypto env) (ph_localIdx h) (hr_SenderIndex m) (ps_pk (peer_at (ph_peer h) u)) (u_cipherMode u) now hs = Inr s"
  shows "udp_handleHandshakeResp env now data a u = send_done (ph_done h) None
     (install_session env now (ph_peer h) a (ph_localIdx h) s (u\<lparr>u_pending := map_del (hr_ReceiverIndex m) (u_pending u)\<rparr>))"
proof -
  have "peer_at (ph_peer h) (u\<lparr>u_pending := x\<rparr>) = peer_at (ph_peer h) u" for x by (simp add: peer_at_def)
  then show ?thesis using assms by (simp add: udp_handleHandshakeResp_def Let_def)
qed

section \<open>One packet through both stacks\<close>

lemma fresh_packet:
  assumes "crypto_laws C" "linked C a b" "ses_sendNonce a = 0"
  obtains c a' b' where "Session_Encrypt C now p a = (Inr (c, 0), a')" "16 \<le> length c"
    "ses_remoteIndex a' = ses_localIndex b" "Session_Decrypt C now' c 0 b = (Inr p, b')"
proof -
  have l: "channel C a b" "ses_state a = SessionStateEstablished" "receiving C b []"
    "ses_remoteIndex a = ses_localIndex b"
    using assms(2) by (simp_all add: linked_def)
  obtain c where c: "sealWithAEAD C (ses_cipherMode a) (ses_sendAEAD a) 0 p [] = Inr c" "16 \<le> length c"
    "openWithAEAD C (ses_cipherMode b) (ses_recvAEAD b) 0 c [] = Inr p"
    using channel_seal [OF assms(1) l(1)] by blast
  have e: "Session_Encrypt C now p a = (Inr (c, 0), a\<lparr>ses_sendNonce := 1, ses_lastSent := now\<rparr>)"
    using l(2) assms(3) c(1) by (simp add: Session_Encrypt_def Let_def MaxNonce_def)
  have "fst (CheckAndUpdate 0 (ses_recvNonce b))"
    using tracks_CheckAndUpdate [of "ses_recvNonce b" "{}" 0] l(3) by (simp add: receiving_def)
  then have "\<exists>b'. Session_Decrypt C now' c 0 b = (Inr p, b')"
    using l(3) c(3) by (simp add: Session_Decrypt_def split_beta Let_def receiving_def)
  then show thesis using that [OF e c(2)] l(4) by auto
qed

text \<open>
  A packet that one network sends to a peer whose session is fresh is decrypted by the other, and
  attributed to the peer it belongs to.
\<close>

definition meets :: "crypto \<Rightarrow> nat \<Rightarrow> UDP \<Rightarrow> nat \<Rightarrow> UDP \<Rightarrow> bool" where
  "meets C p ua q ub \<longleftrightarrow> (\<exists>sa sb. ps_session (peer_at p ua) = Some sa \<and> ps_session (peer_at q ub) = Some sb
     \<and> sa < length (u_sessions ua) \<and> sb < length (u_sessions ub)
     \<and> p < length (u_objects ua) \<and> q < length (u_objects ub)
     \<and> linked C (u_sessions ua ! sa) (u_sessions ub ! sb) \<and> ses_sendNonce (u_sessions ua ! sa) = 0
     \<and> transportPeerSession (ses_localIndex (u_sessions ub ! sb)) ub = Inr (q, sb))"

lemma packet_passes:
  assumes laws: "crypto_laws C" and env: "ue_crypto enva = C" "ue_crypto envb = C"
    and w: "\<forall>d m n. ue_write enva d m n = None"
    and m: "meets C p ua q ub" and e: "ps_endpoint (peer_at p ua) = Some dst" "\<not> u_closed ua"
    and proto: "protocol \<noteq> ProtocolConnCtrl \<or> payload = closeCtrlPayload"
  shows "\<exists>ua' packet ub'. udp_sendPayload enva t p protocol payload ua = (None, ua')
     \<and> u_wire ua' = u_wire ua @ [(Some dst, packet)]
     \<and> processPacket envb t' id packet from_addr ub = (Inr \<lparr>dp_pk = ps_pk (peer_at q ub), dp_peer = q,
          dp_protocol = protocol, dp_payload = payload, dp_current = True\<rparr>, ub')"
proof -
  obtain sa sb where s: "ps_session (peer_at p ua) = Some sa" "ps_session (peer_at q ub) = Some sb"
     "sa < length (u_sessions ua)" "sb < length (u_sessions ub)"
     "p < length (u_objects ua)" "q < length (u_objects ub)"
     "linked C (u_sessions ua ! sa) (u_sessions ub ! sb)" "ses_sendNonce (u_sessions ua ! sa) = 0"
     "transportPeerSession (ses_localIndex (u_sessions ub ! sb)) ub = Inr (q, sb)"
    using m by (auto simp: meets_def)
  obtain c a' b' where p: "Session_Encrypt C t (EncodePayload protocol payload) (u_sessions ua ! sa) = (Inr (c, 0), a')"
    "16 \<le> length c" "ses_remoteIndex a' = ses_localIndex (u_sessions ub ! sb)"
    "Session_Decrypt C t' c 0 (u_sessions ub ! sb) = (Inr (EncodePayload protocol payload), b')"
    using fresh_packet [OF laws s(7,8)] by metis
  let ?pk = "BuildTransportMessage (ses_localIndex (u_sessions ub ! sb)) 0 c"
  have send: "\<exists>ua'. udp_sendPayload enva t p protocol payload ua = (None, ua') \<and> u_wire ua' = u_wire ua @ [(Some dst, ?pk)]"
    using e s(1) p(1,3) w env by (simp add: udp_sendPayload_def write_udp_def Let_def)
  have parse: "ParseTransportMessage ?pk = Inr \<lparr>tm_ReceiverIndex = ses_localIndex (u_sessions ub ! sb),
      tm_Counter = 0, tm_Ciphertext = c\<rparr>"
    using p(2) by (simp add: Parse_BuildTransportMessage)
  have ty: "?pk \<noteq> []" "?pk ! 0 = MessageTypeTransport"
    using message_kinds_disjoint(1) [OF parse] by (auto simp: GetMessageType_def Suc_le_eq split: if_splits)
  have pp: "processPacket envb t' id ?pk from_addr ub = decryptTransport envb t' id ?pk from_addr ub"
    using ty by (simp add: processPacket_def message_consts)
  have "\<exists>ub'. decryptTransport envb t' id ?pk from_addr ub = (Inr \<lparr>dp_pk = ps_pk (peer_at q ub), dp_peer = q,
          dp_protocol = protocol, dp_payload = payload, dp_current = True\<rparr>, ub')"
    using parse s p(4) env proto
    by (auto simp: decryptTransport_def Let_def recordTransportActivity_def EncodePayload_eq
        DecodePayload_def peer_at_def put_peer_def)
  then show ?thesis using send unfolding pp [symmetric] by blast
qed

section \<open>The whole handshake\<close>

lemma udp_matching:
  assumes "honest C (u_localKey ua)" "honest C (u_localKey ub)" "u_cipherMode ua = u_cipherMode ub"
    "mode_ok (u_cipherMode ub)"
  shows "matching C (udp_config True (Some (kp_Public (u_localKey ub))) ua) (udp_config False None ub)"
  using assms
  by (auto simp: matching_def udp_config_def validateConfig_def honest_config_def peer_known_def
      PatternIK_def Let_def)

lemma udp_exchange:
  assumes laws: "crypto_laws C" and k: "honest C (u_localKey ua)" "honest C (u_localKey ub)"
    "u_cipherMode ua = u_cipherMode ub" "mode_ok (u_cipherMode ub)"
    and r: "32 \<le> length ri" "32 \<le> length rr"
  obtains hi msg1 hi1 hr hr1 msg2 hr2 hi2 a b where
    "NewHandshakeState C (udp_config True (Some (kp_Public (u_localKey ub))) ua) = Inr hi"
    "WriteMessage C hi [] ri = (Inr msg1, hi1, drop 32 ri)"
    "length msg1 = 80" "take 32 msg1 = LocalEphemeral hi1"
    "NewHandshakeState C (udp_config False None ub) = Inr hr"
    "ReadMessage C hr msg1 = (Inr [], hr1)" "hs_remoteStatic hr1 = kp_Public (u_localKey ua)"
    "WriteMessage C hr1 [] rr = (Inr msg2, hr2, drop 32 rr)"
    "length msg2 = 48" "take 32 msg2 = LocalEphemeral hr2"
    "ReadMessage C hi1 msg2 = (Inr [], hi2)"
    "HandshakeState_Split C hi2 = Inr (a, b)" "HandshakeState_Split C hr2 = Inr (b, a)"
    "length (cs_key a) = 32" "length (cs_key b) = 32"
proof -
  have cfg: "cfg_Pattern (udp_config True (Some (kp_Public (u_localKey ub))) ua) = PatternIK"
    "cfg_LocalStatic (udp_config True (Some (kp_Public (u_localKey ub))) ua) = Some (u_localKey ua)"
    by (simp_all add: udp_config_def)
  show thesis by (rule ik_exchange [OF laws udp_matching [OF k] cfg r]) (rule that)
qed

text \<open>Two networks for the witnesses: a caller that knows the address of the second one, which admits everyone.\<close>

definition toy_udp_env :: udp_env where
  "toy_udp_env = \<lparr>ue_crypto = toy_crypto, ue_write = (\<lambda>_ _ _. None), ue_output = (\<lambda>_ _ _ _ _. None)\<rparr>"

definition toy_udp :: "nat \<Rightarrow> UDP" where
  "toy_udp n = \<lparr>u_localKey = toy_key n, u_allowFunc = Some (\<lambda>_. True),
     u_serviceMuxConfig = toy_service_config False, u_cipherMode = CipherModePlaintext, u_peers = [],
     u_byIndex = [], u_pending = [], u_readChan = [], u_readSize = 256, u_totalRx = 0, u_totalTx = 0,
     u_lastSeen = None, u_droppedOutputPackets = 0, u_droppedDecryptPackets = 0,
     u_droppedInboundPackets = 0, u_rpcRouteErrors = 0, u_kcpOutputErrors = 0,
     u_droppedPeerEvents = 0, u_onPeerEvent = None, u_closing = False, u_closed = False,
     u_objects = [], u_sessions = [], u_muxes = [], u_done = [], u_random = replicate 40 7,
     u_wire = [], u_events = []\<rparr>"

lemma toy_udp_new:
  "NewUDP (Some (toy_key n)) (Some (\<lambda>_. True)) (toy_service_config False) CipherModePlaintext 0 None
     (replicate 40 7) = Inr (toy_udp n)"
  by (simp add: NewUDP_def toy_udp_def NormalizeCipherMode_def DecryptedChanSize_def CipherModePlaintext_def)

definition toy_caller :: UDP where
  "toy_caller = SetPeerEndpoint (kp_Public (toy_key 2)) (Some ''b'') (toy_udp 1)"

lemma toy_caller_eq:
  "toy_caller = (toy_udp 1)\<lparr>u_objects := [(newPeer (kp_Public (toy_key 2)))\<lparr>ps_endpoint := Some ''b''\<rparr>],
     u_peers := [(kp_Public (toy_key 2), 0)]\<rparr>"
  by (simp add: toy_caller_def SetPeerEndpoint_def toy_udp_def findOrAddPeer_def put_peer_def
      peer_at_def newPeer_def)

lemma toy_nodes:
  "ue_crypto toy_udp_env = toy_crypto" "\<forall>d m n. ue_write toy_udp_env d m n = None"
  "honest toy_crypto (u_localKey toy_caller)" "honest toy_crypto (u_localKey (toy_udp n))"
  "u_localKey toy_caller = toy_key 1" "u_localKey (toy_udp n) = toy_key n"
  "u_cipherMode toy_caller = u_cipherMode (toy_udp 2)" "mode_ok (u_cipherMode (toy_udp n))"
  "u_wire toy_caller = []" "u_wire (toy_udp n) = []" "\<not> u_closed toy_caller" "\<not> u_closing toy_caller"
  "\<not> u_closed (toy_udp n)" "36 \<le> length (u_random toy_caller)" "36 \<le> length (u_random (toy_udp n))"
  "peer_in (kp_Public (toy_key 2)) 0 toy_caller" "ps_endpoint (peer_at 0 toy_caller) = Some ''b''"
  "admitted pk (toy_udp n)"
  by (simp_all add: toy_udp_env_def toy_caller_eq toy_udp_def toy_key_honest mode_ok_def
      NormalizeCipherMode_def peer_in_def peer_at_def newPeer_def admitted_def)

text \<open>An initiation that the network \<open>ua\<close> makes for \<open>ub\<close>.\<close>

definition initiation :: "crypto \<Rightarrow> UDP \<Rightarrow> bytes \<Rightarrow> bytes \<Rightarrow> bool" where
  "initiation C ua remotePK data \<longleftrightarrow> (\<exists>hs random msg hs' random' idx. 32 \<le> length random
     \<and> NewHandshakeState C (udp_config True (Some remotePK) ua) = Inr hs
     \<and> WriteMessage C hs [] random = (Inr msg, hs', random')
     \<and> data = BuildHandshakeInit idx (LocalEphemeral hs') (drop KeySize msg))"

text \<open>
  C13: nothing in an initiation is fresh for the responder, so it can be presented again: whenever and
  from wherever a recorded initiation of a known peer arrives, the endpoint of the peer becomes
  the address it came from and its session a new one, which replaces the session in use. What is
  sent to the peer from then on goes to that address, under keys only the original initiator
  could compute with an ephemeral key it has long forgotten.
\<close>

theorem replayed_initiation_takes_over:
  assumes laws: "crypto_laws C" and env: "ue_crypto env = C" "\<forall>d m n. ue_write env d m n = None"
    and k: "honest C (u_localKey ua)" "honest C (u_localKey u)" "u_cipherMode ua = u_cipherMode u"
      "mode_ok (u_cipherMode u)"
    and data: "initiation C ua (kp_Public (u_localKey u)) data"
    and p: "peer_in (kp_Public (u_localKey ua)) p u" and r: "36 \<le> length (u_random u)"
  shows "case processPacket env now hook data attacker u of (res, u') \<Rightarrow>
       ps_endpoint (peer_at p u') = attacker
     \<and> ps_session (peer_at p u') = Some (length (u_sessions u))
     \<and> ps_previous (peer_at p u') = ps_session (peer_at p u)
     \<and> ps_state (peer_at p u') = PeerStateEstablished"
proof -
  obtain hs random msg hs' random' idx where d: "32 \<le> length random"
    "NewHandshakeState C (udp_config True (Some (kp_Public (u_localKey u))) ua) = Inr hs"
    "WriteMessage C hs [] random = (Inr msg, hs', random')"
    "data = BuildHandshakeInit idx (LocalEphemeral hs') (drop KeySize msg)"
    using data by (auto simp: initiation_def)
  have r4: "32 \<le> length (drop 4 (u_random u))" using r by simp
  obtain hi msg1 hi1 hr hr1 msg2 hr2 hi2 x y where h:
    "NewHandshakeState C (udp_config True (Some (kp_Public (u_localKey u))) ua) = Inr hi"
    "WriteMessage C hi [] random = (Inr msg1, hi1, drop 32 random)"
    "length msg1 = 80" "take 32 msg1 = LocalEphemeral hi1"
    "NewHandshakeState C (udp_config False None u) = Inr hr"
    "ReadMessage C hr msg1 = (Inr [], hr1)" "hs_remoteStatic hr1 = kp_Public (u_localKey ua)"
    "WriteMessage C hr1 [] (drop 4 (u_random u)) = (Inr msg2, hr2, drop 32 (drop 4 (u_random u)))"
    "length msg2 = 48" "take 32 msg2 = LocalEphemeral hr2"
    "ReadMessage C hi1 msg2 = (Inr [], hi2)"
    "HandshakeState_Split C hi2 = Inr (x, y)" "HandshakeState_Split C hr2 = Inr (y, x)"
    "length (cs_key x) = 32" "length (cs_key y) = 32"
    using udp_exchange [OF laws k d(1) r4] by metis
  have same: "msg1 = msg" "hi1 = hs'" using d(2,3) h(1,2) by auto
  obtain m where m: "ParseHandshakeInit data = Inr m" "GetMessageType data = Inr MessageTypeHandshakeInit"
    "join_message 48 (hi_Ephemeral m) (hi_Static m) = msg1"
    using init_over_wire [OF h(3,4), of idx] d(4) same by metis
  have sp: "\<exists>s. split_session C i ri pk (u_cipherMode u) now hr2 = Inr s" for i ri pk
    using split_linked [OF h(12-15) k(4)] by metis
  have adm: "admitPeer (hs_remoteStatic hr1) u = (Some p, u)"
    using p by (simp add: admitPeer_def h(7) peer_in_def)
  obtain i s where ins: "udp_handleHandshakeInit env now data attacker u = install_session env now p attacker i s
       (u\<lparr>u_random := drop 32 (drop 4 (u_random u)), u_wire := u_wire u @ [(attacker,
          BuildHandshakeResp i (hi_SenderIndex m) (LocalEphemeral hr2) (drop KeySize msg2))]\<rparr>)"
  proof (rule handleInit_answers [where env = env and u = u, unfolded env(1), OF m(1) h(5) _ adm refl refl _ h(8)])
  qed (use m(3) h(6) r sp env in auto)
  have "p < length (u_objects u)" using p by (simp add: peer_in_def)
  then show ?thesis
    using install_session_result [of p "u\<lparr>u_random := drop 32 (drop 4 (u_random u)), u_wire := u_wire u @ [(attacker,
          BuildHandshakeResp i (hi_SenderIndex m) (LocalEphemeral hr2) (drop KeySize msg2))]\<rparr>", OF _ refl, of env now attacker i s]
      m(1,2) ins
    by (auto simp: processPacket_def Let_def GetMessageType_def peer_at_def split: if_splits)
qed

theorem replayed_initiation_takes_over_witness:
  "\<exists>data. initiation toy_crypto (toy_udp 2) (kp_Public (toy_key 1)) data
     \<and> (case processPacket toy_udp_env 50 id data (Some ''attacker'') (toy_caller) of (res, u') \<Rightarrow>
          ps_endpoint (peer_at 0 u') = Some ''attacker'' \<and> ps_session (peer_at 0 u') = Some 0
        \<and> ps_previous (peer_at 0 u') = None \<and> ps_state (peer_at 0 u') = PeerStateEstablished)"
proof -
  have r: "32 \<le> length (replicate 40 (7::u8))" by simp
  obtain data where d: "initiation toy_crypto (toy_udp 2) (kp_Public (toy_key 1)) data"
  proof (rule udp_exchange [OF toy_crypto_laws toy_nodes(4) toy_nodes(3) toy_nodes(7) [symmetric] _ r r])
    fix hi msg1 hi1
    assume "NewHandshakeState toy_crypto (udp_config True (Some (kp_Public (u_localKey toy_caller))) (toy_udp 2)) = Inr hi"
      "WriteMessage toy_crypto hi [] (replicate 40 7) = (Inr msg1, hi1, drop 32 (replicate 40 7))"
    with r have "initiation toy_crypto (toy_udp 2) (kp_Public (toy_key 1)) (BuildHandshakeInit 0 (LocalEphemeral hi1) (drop KeySize msg1))"
      unfolding initiation_def toy_nodes by blast
    then show thesis by (rule that)
  qed (simp add: toy_nodes)
  have l: "length (u_sessions toy_caller) = 0" "ps_session (peer_at 0 toy_caller) = None"
    by (simp_all add: toy_caller_eq toy_udp_def newPeer_def peer_at_def)
  show ?thesis
    using replayed_initiation_takes_over [OF toy_crypto_laws toy_nodes(1,2,4,3), where data = data and p = 0 and now = 50 and hook = id and attacker = "Some ''attacker''"]
      d toy_nodes l by auto
qed

text \<open>The peer \<open>p\<close> is established at the address \<open>a\<close> with the session \<open>s\<close>, and packets reach it.\<close>

definition joined :: "addr \<Rightarrow> nat \<Rightarrow> Session \<Rightarrow> UDP \<Rightarrow> bool" where
  "joined a p s u \<longleftrightarrow> p < length (u_objects u) \<and> ps_state (peer_at p u) = PeerStateEstablished
     \<and> ps_endpoint (peer_at p u) = a
     \<and> (\<exists>n < length (u_sessions u). ps_session (peer_at p u) = Some n \<and> u_sessions u ! n = s
          \<and> transportPeerSession (ses_localIndex s) u = Inr (p, n))"

lemma install_joined:
  assumes "p < length (u_objects u)" "ses_localIndex s = i"
  shows "joined a p s (install_session env now p a i s u)"
  using install_session_result [OF assms(1) refl, of env now a i s] install_routes [OF assms, of env now a] assms
  by (simp add: joined_def)

lemma send_done_fields [simp]:
  "u_objects (send_done d r u) = u_objects u" "u_sessions (send_done d r u) = u_sessions u"
  "u_byIndex (send_done d r u) = u_byIndex u" "u_wire (send_done d r u) = u_wire u"
  "u_pending (send_done d r u) = u_pending u" "u_closed (send_done d r u) = u_closed u"
  "peer_at p (send_done d r u) = peer_at p u" "u_peers (send_done d r u) = u_peers u"
  by (simp_all add: send_done_def peer_at_def)

lemma send_done_routes [simp]: "transportPeerSession i (send_done d r u) = transportPeerSession i u"
proof (cases "u_done u ! d = None")
  case True
  have "peer_at p (u\<lparr>u_done := x\<rparr>) = peer_at p u" "index_of q (u\<lparr>u_done := x\<rparr>) = index_of q u" for p q x
    by (simp_all add: peer_at_def index_of_def)
  then show ?thesis
    using True by (cases "map_get (u_byIndex u) i") (simp_all add: transportPeerSession_def send_done_def Let_def)
next
  case False
  then have "send_done d r u = u" by (simp only: send_done_def if_False)
  then show ?thesis by simp
qed

lemma send_done_joined: "joined a p s u \<Longrightarrow> joined a p s (send_done d r u)"
  by (simp add: joined_def)

lemma joined_meets:
  assumes "joined a p s u" "joined a' p' s' u'" "linked C s s'" "ses_sendNonce s = 0"
  shows "meets C p u p' u'"
  using assms unfolding joined_def meets_def by blast

lemma udp_answers:
  assumes laws: "crypto_laws C" and env: "ue_crypto env = C" "\<forall>d m n. ue_write env d m n = None"
    and mode: "mode_ok (u_cipherMode u)" and adm: "admitted pk u" "36 \<le> length (u_random u)"
    and msg: "length msg1 = 80" "take 32 msg1 = e" "data = BuildHandshakeInit idx e (drop KeySize msg1)"
    and hs: "NewHandshakeState C (udp_config False None u) = Inr hr" "ReadMessage C hr msg1 = (Inr [], hr1)"
      "hs_remoteStatic hr1 = pk" "WriteMessage C hr1 [] (drop 4 (u_random u)) = (Inr msg2, hr2, random)"
    and sp: "\<And>j. \<exists>s. split_session C j idx pk (u_cipherMode u) now hr2 = Inr s \<and> ses_localIndex s = j"
  obtains q ri sr u' where "processPacket env now hook data a u = (Inl ErrNoData, u')"
    "u_wire u' = u_wire u @ [(a, BuildHandshakeResp ri idx (LocalEphemeral hr2) (drop KeySize msg2))]"
    "split_session C ri idx pk (u_cipherMode u) now hr2 = Inr sr"
    "joined a q sr u'" "peer_in pk q u'" "u_closed u' = u_closed u"
proof -
  obtain m1 where m1: "ParseHandshakeInit data = Inr m1" "GetMessageType data = Inr MessageTypeHandshakeInit"
    "hi_SenderIndex m1 = idx" "join_message 48 (hi_Ephemeral m1) (hi_Static m1) = msg1"
    using init_over_wire [OF msg(1,2)] msg(3) by metis
  obtain q u0 where q: "admitPeer pk u = (Some q, u0)" "peer_in pk q u0"
    "u_random u0 = u_random u" "u_wire u0 = u_wire u" "u_localKey u0 = u_localKey u"
    "u_cipherMode u0 = u_cipherMode u" "u_sessions u0 = u_sessions u" "u_closed u0 = u_closed u"
    by (rule admitPeer_admitted [OF adm(1)])
  have rd: "ReadMessage C hr (join_message 48 (hi_Ephemeral m1) (hi_Static m1)) = (Inr [], hr1)"
    using m1(4) hs(2) by simp
  have adm1: "admitPeer (hs_remoteStatic hr1) u = (Some q, u0)" using hs(3) q(1) by simp
  have r4: "4 \<le> length (u_random u)" using adm(2) by simp
  have sp1: "\<exists>s. split_session C j (hi_SenderIndex m1) (hs_remoteStatic hr1) (u_cipherMode u) now hr2 = Inr s" for j
    using sp [of j] m1(3) hs(3) by auto
  obtain ri sr where sr: "split_session C ri idx pk (u_cipherMode u) now hr2 = Inr sr"
    and ans: "udp_handleHandshakeInit env now data a u = install_session env now q a ri sr
       (u0\<lparr>u_random := random, u_wire := u_wire u0 @ [(a, BuildHandshakeResp ri idx (LocalEphemeral hr2) (drop KeySize msg2))]\<rparr>)"
  proof (rule handleInit_answers [where env = env and u = u, unfolded env(1), OF m1(1) hs(1) rd adm1 q(3,6) r4 hs(4) sp1])
    show "ue_write env d m n = None" for d m n using env(2) by simp
    fix i s
    assume "split_session C i (hi_SenderIndex m1) (hs_remoteStatic hr1) (u_cipherMode u) now hr2 = Inr s"
      "udp_handleHandshakeInit env now data a u = install_session env now q a i s
         (u0\<lparr>u_random := random, u_wire := u_wire u0 @ [(a, BuildHandshakeResp i (hi_SenderIndex m1) (LocalEphemeral hr2) (drop KeySize msg2))]\<rparr>)"
    then show thesis by (intro that [of i s]) (simp_all add: m1(3) hs(3))
  qed
  let ?u = "u0\<lparr>u_random := random, u_wire := u_wire u0 @ [(a, BuildHandshakeResp ri idx (LocalEphemeral hr2) (drop KeySize msg2))]\<rparr>"
  have qo: "q < length (u_objects ?u)" using q(2) by (simp add: peer_in_def)
  have "ses_localIndex sr = ri" using sp [of ri] sr by simp
  note j = install_joined [OF qo this, of a env now]
  note f = install_session_result [OF qo refl, of env now a ri sr]
  have pp: "processPacket env now hook data a u = (Inl ErrNoData, udp_handleHandshakeInit env now data a u)"
    using m1(2) by (auto simp: processPacket_def GetMessageType_def Let_def split: if_splits)
  have "peer_in pk q (install_session env now q a ri sr ?u)"
    using q(2) f(5,11,12) by (simp add: peer_in_def peer_at_def)
  from that [OF pp [unfolded ans] _ sr j this] show thesis using f(8,15) q(4,8) by simp
qed

lemma udp_concludes:
  assumes env: "ue_crypto env = C"
    and msg: "length msg2 = 48" "take 32 msg2 = e" "data = BuildHandshakeResp ri idx e (drop KeySize msg2)"
    and h: "map_get (u_pending u) idx = Some h" "ph_localIdx h = idx" "ph_peer h < length (u_objects u)"
      "ph_done h < length (u_done u)" "u_done u ! ph_done h = None"
    and hs: "ReadMessage C (ph_hsState h) msg2 = (Inr [], hi2)"
    and sp: "split_session C idx ri (ps_pk (peer_at (ph_peer h) u)) (u_cipherMode u) now hi2 = Inr s" "ses_localIndex s = idx"
  obtains u' where "processPacket env now hook data a u = (Inl ErrNoData, u')" "joined a (ph_peer h) s u'"
    "map_get (u_pending u') idx = None" "initiate_done (ph_done h) u' = Some None"
    "u_closed u' = u_closed u" "ps_pk (peer_at (ph_peer h) u') = ps_pk (peer_at (ph_peer h) u)"
proof -
  obtain m where m: "ParseHandshakeResp data = Inr m" "GetMessageType data = Inr MessageTypeHandshakeResp"
    "hr_SenderIndex m = ri" "hr_ReceiverIndex m = idx" "join_message 16 (hr_Ephemeral m) (hr_Empty m) = msg2"
    using resp_over_wire [OF msg(1,2)] msg(3) by metis
  let ?u = "u\<lparr>u_pending := map_del idx (u_pending u)\<rparr>"
  let ?u1 = "install_session env now (ph_peer h) a idx s ?u"
  have o: "ph_peer h < length (u_objects ?u)" using h(3) by simp
  have fin: "udp_handleHandshakeResp env now data a u = send_done (ph_done h) None ?u1"
    using handleResp_completes [OF m(1), of u h env hi2 now s a] m(3-5) h(1,2) hs sp(1) env by simp
  have pp: "processPacket env now hook data a u = (Inl ErrNoData, udp_handleHandshakeResp env now data a u)"
    using m(2) by (auto simp: processPacket_def GetMessageType_def message_consts Let_def split: if_splits)
  note f = install_session_result [OF o refl, of env now a idx s]
  have "u_done ?u1 ! ph_done h = None" "ph_done h < length (u_done ?u1)" using f(10) h(4,5) by simp_all
  then have dn: "initiate_done (ph_done h) (send_done (ph_done h) None ?u1) = Some None"
    by (simp add: initiate_done_def send_done_def)
  show thesis
    by (rule that [OF pp [unfolded fin] send_done_joined [OF install_joined [OF o sp(2)]] _ dn])
      (use f in \<open>simp_all add: peer_at_def\<close>)
qed

text \<open>
  C1: \<^verbatim>\<open>Connect\<close> from one network to another that knows the initiator or admits it: the initiation,
  its handling and the response end with no result pending and \<^verbatim>\<open>Connect\<close> returning nil, with both
  peers established and their endpoints the addresses the packets came from; and then a packet
  sent on either side is decrypted by the other and attributed to the right peer.
\<close>

theorem udp_handshake:
  assumes laws: "crypto_laws C" and env: "ue_crypto enva = C" "ue_crypto envb = C"
    and w: "\<forall>d m n. ue_write enva d m n = None" "\<forall>d m n. ue_write envb d m n = None"
    and k: "honest C (u_localKey ua)" "honest C (u_localKey ub)" "u_cipherMode ua = u_cipherMode ub"
      "mode_ok (u_cipherMode ub)"
    and a: "peer_in (kp_Public (u_localKey ub)) p ua" "ps_endpoint (peer_at p ua) = Some dst"
      "\<not> u_closed ua" "\<not> u_closing ua" "36 \<le> length (u_random ua)"
    and b: "admitted (kp_Public (u_localKey ua)) ub" "\<not> u_closed ub" "36 \<le> length (u_random ub)"
    and proto: "proto \<noteq> ProtocolConnCtrl" "proto' \<noteq> ProtocolConnCtrl"
  shows "\<exists>idx d ua1 init q ub1 resp ua2.
       Connect enva t0 (kp_Public (u_localKey ub)) ua = (Inr (idx, d), ua1)
     \<and> u_wire ua1 = u_wire ua @ [(Some dst, init)]
     \<and> processPacket envb t1 hook init (Some from_a) ub = (Inl ErrNoData, ub1)
     \<and> u_wire ub1 = u_wire ub @ [(Some from_a, resp)]
     \<and> processPacket enva t2 hook resp (Some from_b) ua1 = (Inl ErrNoData, ua2)
     \<and> initiate_done d ua2 = Some None \<and> map_get (u_pending ua2) idx = None
     \<and> peer_in (kp_Public (u_localKey ua)) q ub1
     \<and> ps_state (peer_at p ua2) = PeerStateEstablished \<and> ps_state (peer_at q ub1) = PeerStateEstablished
     \<and> ps_endpoint (peer_at p ua2) = Some from_b \<and> ps_endpoint (peer_at q ub1) = Some from_a
     \<and> (\<exists>ua3 pkt ub2. udp_sendPayload enva t3 p proto payload ua2 = (None, ua3)
          \<and> u_wire ua3 = u_wire ua2 @ [(Some from_b, pkt)]
          \<and> processPacket envb t4 id pkt from_any ub1 = (Inr \<lparr>dp_pk = kp_Public (u_localKey ua), dp_peer = q,
              dp_protocol = proto, dp_payload = payload, dp_current = True\<rparr>, ub2))
     \<and> (\<exists>ub2 pkt ua3. udp_sendPayload envb t3 q proto' payload' ub1 = (None, ub2)
          \<and> u_wire ub2 = u_wire ub1 @ [(Some from_a, pkt)]
          \<and> processPacket enva t4 id pkt from_any ua2 = (Inr \<lparr>dp_pk = kp_Public (u_localKey ub), dp_peer = p,
              dp_protocol = proto', dp_payload = payload', dp_current = True\<rparr>, ua3))"
proof -
  let ?pka = "kp_Public (u_localKey ua)" and ?pkb = "kp_Public (u_localKey ub)"
  have r: "32 \<le> length (drop 4 (u_random ua))" "32 \<le> length (drop 4 (u_random ub))" using a(5) b(3) by auto
  obtain hi msg1 hi1 hr hr1 msg2 hr2 hi2 x y where h:
    "NewHandshakeState C (udp_config True (Some ?pkb) ua) = Inr hi"
    "WriteMessage C hi [] (drop 4 (u_random ua)) = (Inr msg1, hi1, drop 32 (drop 4 (u_random ua)))"
    "length msg1 = 80" "take 32 msg1 = LocalEphemeral hi1"
    "NewHandshakeState C (udp_config False None ub) = Inr hr"
    "ReadMessage C hr msg1 = (Inr [], hr1)" "hs_remoteStatic hr1 = ?pka"
    "WriteMessage C hr1 [] (drop 4 (u_random ub)) = (Inr msg2, hr2, drop 32 (drop 4 (u_random ub)))"
    "length msg2 = 48" "take 32 msg2 = LocalEphemeral hr2"
    "ReadMessage C hi1 msg2 = (Inr [], hi2)"
    "HandshakeState_Split C hi2 = Inr (x, y)" "HandshakeState_Split C hr2 = Inr (y, x)"
    "length (cs_key x) = 32" "length (cs_key y) = 32"
    using udp_exchange [OF laws k r] by metis
  have pa: "p < length (u_objects ua)" "ps_pk (peer_at p ua) = ?pkb" "map_get (u_peers ua) ?pkb = Some p"
    using a(1) by (simp_all add: peer_in_def)
  obtain idx ua1 where i: "initiate_start enva t0 p ua = (Inr (idx, length (u_done ua)), ua1)"
    "u_wire ua1 = u_wire ua @ [(Some dst, BuildHandshakeInit idx (LocalEphemeral hi1) (drop KeySize msg1))]"
    "map_get (u_pending ua1) idx = Some \<lparr>ph_peer = p, ph_hsState = hi1, ph_localIdx = idx,
       ph_done = length (u_done ua), ph_createdAt = t0\<rparr>"
    "u_done ua1 = u_done ua @ [None]" "u_sessions ua1 = u_sessions ua" "u_peers ua1 = u_peers ua"
    "length (u_objects ua1) = length (u_objects ua)" "u_localKey ua1 = u_localKey ua"
    "u_cipherMode ua1 = u_cipherMode ua" "u_closed ua1 = u_closed ua" "u_closing ua1 = u_closing ua"
    "ps_pk (peer_at p ua1) = ?pkb" "ps_session (peer_at p ua1) = ps_session (peer_at p ua)"
  proof (rule initiate_sends [where env = enva and p = p and u = ua, unfolded env pa(2), OF pa(1) a(2) _ h(1,2)])
  qed (use a w in auto)
  have conn: "Connect enva t0 ?pkb ua = (Inr (idx, length (u_done ua)), ua1)"
    using a(3,4) pa(3) i(1) by (simp add: Connect_def)
  have sp: "\<exists>s. split_session C j idx ?pka (u_cipherMode ub) t1 hr2 = Inr s \<and> ses_localIndex s = j" for j
    using split_linked [OF h(12-15) k(4)] by metis
  obtain q ri sr ub1 where u1: "processPacket envb t1 hook (BuildHandshakeInit idx (LocalEphemeral hi1) (drop KeySize msg1))
       (Some from_a) ub = (Inl ErrNoData, ub1)"
    "u_wire ub1 = u_wire ub @ [(Some from_a, BuildHandshakeResp ri idx (LocalEphemeral hr2) (drop KeySize msg2))]"
    "split_session C ri idx ?pka (u_cipherMode ub) t1 hr2 = Inr sr"
    "joined (Some from_a) q sr ub1" "peer_in ?pka q ub1" "u_closed ub1 = u_closed ub"
    by (rule udp_answers [OF laws env(2) w(2) k(4) b(1,3) h(3,4) refl h(5-8) sp])
  obtain si where s: "split_session C idx ri ?pkb (u_cipherMode ub) t2 hi2 = Inr si" "ses_localIndex si = idx"
    "linked C si sr" "linked C sr si" "ses_sendNonce si = 0" "ses_sendNonce sr = 0"
    by (rule split_linked [OF h(12-15) k(4), of idx ri ?pkb t2 ?pka t1]) (use u1(3) in auto)
  obtain ua2 where u2: "processPacket enva t2 hook (BuildHandshakeResp ri idx (LocalEphemeral hr2) (drop KeySize msg2))
       (Some from_b) ua1 = (Inl ErrNoData, ua2)" "joined (Some from_b) p si ua2"
    "map_get (u_pending ua2) idx = None" "initiate_done (length (u_done ua)) ua2 = Some None"
    "u_closed ua2 = u_closed ua1" "ps_pk (peer_at p ua2) = ?pkb"
    by (rule udp_concludes [OF env(1) h(9,10) refl i(3)])
      (use i pa h(11) s(1,2) k(3) in auto)
  have e: "ps_endpoint (peer_at p ua2) = Some from_b" "ps_endpoint (peer_at q ub1) = Some from_a"
    "ps_state (peer_at p ua2) = PeerStateEstablished" "ps_state (peer_at q ub1) = PeerStateEstablished"
    using u1(4) u2(2) by (simp_all add: joined_def)
  have pkq: "ps_pk (peer_at q ub1) = ?pka" using u1(5) by (simp add: peer_in_def)
  have ab: "\<not> u_closed ua2" "\<not> u_closed ub1" using u2(5) i(10) a(3) u1(6) b(2) by simp_all
  note fwd = packet_passes [OF laws env(1,2) w(1) joined_meets [OF u2(2) u1(4) s(3,5)] e(1) ab(1) disjI1 [OF proto(1)],
      where t = t3 and payload = payload and t' = t4 and from_addr = from_any, unfolded pkq]
  note bwd = packet_passes [OF laws env(2,1) w(2) joined_meets [OF u1(4) u2(2) s(4,6)] e(2) ab(2) disjI1 [OF proto(2)],
      where t = t3 and payload = payload' and t' = t4 and from_addr = from_any, unfolded u2(6)]
  from conn i(2) u1(1,2,5) u2(1,3,4) e fwd bwd show ?thesis by blast
qed

theorem udp_handshake_witness:
  "\<exists>idx d ua1 init q ub1 resp ua2.
       Connect toy_udp_env 10 (kp_Public (toy_key 2)) toy_caller = (Inr (idx, d), ua1)
     \<and> u_wire ua1 = [(Some ''b'', init)]
     \<and> processPacket toy_udp_env 20 id init (Some ''a'') (toy_udp 2) = (Inl ErrNoData, ub1)
     \<and> u_wire ub1 = [(Some ''a'', resp)]
     \<and> processPacket toy_udp_env 30 id resp (Some ''b'') ua1 = (Inl ErrNoData, ua2)
     \<and> initiate_done d ua2 = Some None \<and> ps_state (peer_at 0 ua2) = PeerStateEstablished
     \<and> (\<exists>ua3 pkt ub2. udp_sendPayload toy_udp_env 40 0 5 [1, 2, 3] ua2 = (None, ua3)
          \<and> u_wire ua3 = u_wire ua2 @ [(Some ''b'', pkt)]
          \<and> processPacket toy_udp_env 50 id pkt (Some ''c'') ub1 = (Inr \<lparr>dp_pk = kp_Public (toy_key 1), dp_peer = q,
              dp_protocol = 5, dp_payload = [1, 2, 3], dp_current = True\<rparr>, ub2))"
proof -
  have p: "peer_in (kp_Public (u_localKey (toy_udp 2))) 0 toy_caller" by (simp add: toy_nodes)
  have proto: "(5::u8) \<noteq> ProtocolConnCtrl" by (simp add: ProtocolConnCtrl_def)
  show ?thesis
    using udp_handshake [OF toy_crypto_laws toy_nodes(1,1,2,2,3,4,7,8) p toy_nodes(17,11,12,14,18,13,15) proto proto,
        of 10 20 id "''a''" 30 "''b''" 40 "[1, 2, 3]" 50 "Some ''c''" "[]"]
    unfolding toy_nodes append_Nil by blast
qed

end
