(* ===== verification/CoreUDPInv.thy ===== *)
theory CoreUDPInv
  imports CoreUDPHandshake CoreSessionManager
begin

text \<open>
  The UDP network as a state machine: what holds of its peer table, its index table, its pending
  handshakes, its sessions and its multiplexers in every reachable state. One lemma per operation.
\<close>

section \<open>The invariant\<close>

definition peer_ok :: "Session list \<Rightarrow> ServiceMux list \<Rightarrow> peerState \<Rightarrow> bool" where
  "peer_ok ss ms ps \<longleftrightarrow>
     (\<forall>s. ps_session ps = Some s \<or> ps_previous ps = Some s \<longrightarrow> s < length ss \<and> ses_remotePK (ss ! s) = ps_pk ps)
   \<and> (ps_state ps = PeerStateEstablished \<longrightarrow> ps_session ps \<noteq> None)
   \<and> (ps_previous ps \<noteq> None \<longrightarrow> ps_session ps \<noteq> None)
   \<and> (\<forall>m. ps_serviceMux ps = Some m \<longrightarrow> m < length ms \<and> sv_peer (ms ! m) = ps_pk ps \<and> ps_session ps \<noteq> None)"

definition allowed :: "bytes set \<Rightarrow> UDP \<Rightarrow> bytes \<Rightarrow> bool" where
  "allowed N u pk \<longleftrightarrow> pk \<in> N \<or> (\<exists>f. u_allowFunc u = Some f \<and> f pk)"

definition udp_inv :: "bytes set \<Rightarrow> UDP \<Rightarrow> bool" where
  "udp_inv N u \<longleftrightarrow>
     (\<forall>p < length (u_objects u). map_get (u_peers u) (ps_pk (peer_at p u)) = Some p
        \<and> peer_ok (u_sessions u) (u_muxes u) (peer_at p u))
   \<and> (\<forall>pk p. map_get (u_peers u) pk = Some p \<longrightarrow> p < length (u_objects u) \<and> ps_pk (peer_at p u) = pk \<and> allowed N u pk)
   \<and> wf_map (u_peers u)
   \<and> (\<forall>i p. map_get (u_byIndex u) i = Some p \<longrightarrow> p < length (u_objects u))
   \<and> (\<forall>i h. map_get (u_pending u) i = Some h \<longrightarrow> ph_peer h < length (u_objects u) \<and> ph_localIdx h = i
        \<and> ph_done h < length (u_done u) \<and> u_done u ! ph_done h = None)
   \<and> (\<forall>i j h h'. map_get (u_pending u) i = Some h \<longrightarrow> map_get (u_pending u) j = Some h' \<longrightarrow> i \<noteq> j \<longrightarrow> ph_done h \<noteq> ph_done h')
   \<and> (\<forall>m < length (u_muxes u). service_reach (u_muxes u ! m))"

text \<open>What no operation ever takes back.\<close>

definition keeps :: "UDP \<Rightarrow> UDP \<Rightarrow> bool" where
  "keeps u u' \<longleftrightarrow> length (u_objects u) \<le> length (u_objects u')
     \<and> (\<forall>p < length (u_objects u). ps_pk (peer_at p u') = ps_pk (peer_at p u))
     \<and> same_identity (u_sessions u) (u_sessions u') \<and> length (u_muxes u) \<le> length (u_muxes u')
     \<and> u_allowFunc u' = u_allowFunc u \<and> (u_closing u \<longrightarrow> u_closing u') \<and> (u_closed u \<longrightarrow> u_closed u')"

lemma keeps_refl [simp]: "keeps u u"
  by (simp add: keeps_def)

lemma keeps_trans: "keeps u v \<Longrightarrow> keeps v w \<Longrightarrow> keeps u w"
  by (auto simp: keeps_def same_identity_def)

definition udp_ok :: "bytes set \<Rightarrow> UDP \<Rightarrow> UDP \<Rightarrow> bool" where
  "udp_ok N u u' \<longleftrightarrow> udp_inv N u' \<and> keeps u u'"

lemma udp_okD: "udp_ok N u u' \<Longrightarrow> udp_inv N u'" "udp_ok N u u' \<Longrightarrow> keeps u u'"
  by (simp_all add: udp_ok_def)

lemma udp_ok_refl [simp]: "udp_ok N u u = udp_inv N u"
  by (simp add: udp_ok_def)

lemma udp_ok_trans: "udp_ok N u v \<Longrightarrow> (udp_inv N v \<Longrightarrow> udp_ok N v w) \<Longrightarrow> udp_ok N u w"
  using keeps_trans by (auto simp: udp_ok_def)

lemma udp_ok_len: "udp_ok N u v \<Longrightarrow> p < length (u_objects u) \<Longrightarrow> p < length (u_objects v)"
  by (simp add: udp_ok_def keeps_def)

section \<open>Fields outside the invariant\<close>

text \<open>Two states that agree on the fields the invariant speaks of.\<close>

definition same_tables :: "UDP \<Rightarrow> UDP \<Rightarrow> bool" where
  "same_tables u u' \<longleftrightarrow> u_objects u' = u_objects u \<and> u_peers u' = u_peers u \<and> u_byIndex u' = u_byIndex u
     \<and> u_pending u' = u_pending u \<and> u_done u' = u_done u \<and> u_sessions u' = u_sessions u
     \<and> u_muxes u' = u_muxes u \<and> u_allowFunc u' = u_allowFunc u
     \<and> (u_closing u \<longrightarrow> u_closing u') \<and> (u_closed u \<longrightarrow> u_closed u')"

lemma same_tables_ok: "same_tables u u' \<Longrightarrow> udp_inv N u \<Longrightarrow> udp_ok N u u'"
  by (simp add: same_tables_def udp_ok_def udp_inv_def keeps_def peer_at_def allowed_def)

lemma same_tables_refl: "same_tables u u"
  by (simp add: same_tables_def)

lemma same_tables_then: "udp_ok N u v \<Longrightarrow> same_tables v w \<Longrightarrow> udp_ok N u w"
  using same_tables_ok udp_ok_trans by blast

lemma emit_same [simp]: "same_tables u (emitPeerEvent pk s u)"
  by (simp add: same_tables_def emitPeerEvent_def Let_def split: option.splits)

lemma write_udp_same: "same_tables u (snd (write_udp env d m u))"
  by (simp add: same_tables_def write_udp_def)

section \<open>One field at a time\<close>

lemma put_peer_ok:
  assumes "udp_inv N u" "p < length (u_objects u)" "ps_pk ps = ps_pk (peer_at p u)"
    "peer_ok (u_sessions u) (u_muxes u) ps"
  shows "udp_ok N u (put_peer p ps u)"
proof -
  have at: "peer_at q (put_peer p ps u) = (if q = p then ps else peer_at q u)" for q
    using assms(2) by simp
  have "allowed N (put_peer p ps u) = allowed N u" by (simp add: allowed_def fun_eq_iff)
  then show ?thesis using assms unfolding udp_ok_def udp_inv_def keeps_def at by auto
qed

lemma peer_okD:
  assumes "udp_inv N u" "p < length (u_objects u)"
  shows "peer_ok (u_sessions u) (u_muxes u) (peer_at p u)" "map_get (u_peers u) (ps_pk (peer_at p u)) = Some p"
    "allowed N u (ps_pk (peer_at p u))"
  using assms unfolding udp_inv_def by blast+

lemma tableD: "udp_inv N u \<Longrightarrow> map_get (u_peers u) pk = Some p \<Longrightarrow> p < length (u_objects u) \<and> ps_pk (peer_at p u) = pk"
  by (simp add: udp_inv_def)

lemma indexD: "udp_inv N u \<Longrightarrow> map_get (u_byIndex u) i = Some p \<Longrightarrow> p < length (u_objects u)"
  unfolding udp_inv_def by blast

lemma pendingD:
  assumes "udp_inv N u" "map_get (u_pending u) i = Some h"
  shows "ph_peer h < length (u_objects u)" "ph_localIdx h = i" "ph_done h < length (u_done u)" "u_done u ! ph_done h = None"
  using assms unfolding udp_inv_def by blast+

lemma peer_ok_mono:
  assumes "peer_ok ss ms ps" "same_identity ss ss'" "length ms \<le> length ms'" "\<forall>m < length ms. sv_peer (ms' ! m) = sv_peer (ms ! m)"
  shows "peer_ok ss' ms' ps"
  using assms unfolding peer_ok_def same_identity_def by auto

lemma sessions_ok:
  assumes "udp_inv N u" "same_identity (u_sessions u) ss"
  shows "udp_ok N u (u\<lparr>u_sessions := ss\<rparr>)"
proof -
  have "peer_ok ss (u_muxes u) (peer_at p u)" if "p < length (u_objects u)" for p
    using peer_ok_mono [OF peer_okD(1) [OF assms(1) that] assms(2)] by simp
  then show ?thesis using assms unfolding udp_ok_def udp_inv_def keeps_def
    by (simp add: peer_at_def allowed_def)
qed

lemma muxes_ok:
  assumes "udp_inv N u" "length (u_muxes u) \<le> length ms" "\<forall>m < length (u_muxes u). sv_peer (ms ! m) = sv_peer (u_muxes u ! m)"
    "\<forall>m < length ms. service_reach (ms ! m)"
  shows "udp_ok N u (u\<lparr>u_muxes := ms\<rparr>)"
proof -
  have "peer_ok (u_sessions u) ms (peer_at p u)" if "p < length (u_objects u)" for p
    using peer_ok_mono [OF peer_okD(1) [OF assms(1) that] same_identity_refl assms(2,3)] .
  then show ?thesis using assms unfolding udp_ok_def udp_inv_def keeps_def
    by (simp add: peer_at_def allowed_def)
qed

lemma byIndex_ok:
  assumes "udp_inv N u" "\<And>i q. map_get m i = Some q \<Longrightarrow> q < length (u_objects u)"
  shows "udp_ok N u (u\<lparr>u_byIndex := m\<rparr>)"
  using assms unfolding udp_ok_def udp_inv_def keeps_def by (simp add: peer_at_def allowed_def)

lemma pending_del_ok: "udp_inv N u \<Longrightarrow> udp_ok N u (u\<lparr>u_pending := map_del i (u_pending u)\<rparr>)"
  unfolding udp_ok_def udp_inv_def keeps_def by (simp add: peer_at_def allowed_def)

section \<open>Peers\<close>

lemma put_same_peer_ok:
  assumes "udp_inv N u" "p < length (u_objects u)" "ps_pk ps = ps_pk (peer_at p u)"
    "ps_session ps = ps_session (peer_at p u)" "ps_previous ps = ps_previous (peer_at p u)"
    "ps_serviceMux ps = ps_serviceMux (peer_at p u) \<or> ps_serviceMux ps = None"
    "ps_state ps = ps_state (peer_at p u) \<or> ps_state ps \<noteq> PeerStateEstablished"
  shows "udp_ok N u (put_peer p ps u)"
proof (rule put_peer_ok [OF assms(1-3)])
  show "peer_ok (u_sessions u) (u_muxes u) ps"
    using peer_okD(1) [OF assms(1,2)] assms(6,7) unfolding peer_ok_def assms(3-5) by auto
qed

lemma findOrAddPeer_ok:
  assumes inv: "udp_inv N u" and f: "findOrAddPeer pk u = (p, u')" and a: "allowed N u pk"
  shows "udp_ok N u u' \<and> p < length (u_objects u') \<and> ps_pk (peer_at p u') = pk"
proof (cases "map_get (u_peers u) pk")
  case None
  have p: "p = length (u_objects u)"
    and u': "u' = u\<lparr>u_objects := u_objects u @ [newPeer pk], u_peers := map_put pk p (u_peers u)\<rparr>"
    using f None by (auto simp: findOrAddPeer_def Let_def)
  have at: "peer_at q u' = (if q = p then newPeer pk else peer_at q u)" if "q \<le> p" for q
    using that by (simp add: u' p peer_at_def nth_append)
  have fs: "length (u_objects u') = Suc p" "u_peers u' = map_put pk p (u_peers u)" "u_sessions u' = u_sessions u"
    "u_muxes u' = u_muxes u" "u_byIndex u' = u_byIndex u" "u_pending u' = u_pending u" "u_done u' = u_done u"
    "allowed N u' = allowed N u" "u_allowFunc u' = u_allowFunc u" "u_closed u' = u_closed u" "u_closing u' = u_closing u"
    by (simp_all add: u' p allowed_def fun_eq_iff)
  have old: "map_get (u_peers u) (ps_pk (peer_at q u)) = Some q \<and> ps_pk (peer_at q u) \<noteq> pk
     \<and> peer_ok (u_sessions u) (u_muxes u) (peer_at q u)" if "q < p" for q
    using peer_okD [OF inv, of q] that None p by auto
  have new: "peer_ok ss ms (newPeer pk) \<and> ps_pk (newPeer pk) = pk" for ss ms
    by (simp add: newPeer_def peer_ok_def)
  have "udp_inv N u'"
    unfolding udp_inv_def
  proof (intro conjI allI impI)
    fix q assume "q < length (u_objects u')"
    then have q: "q = p \<or> q < p" by (auto simp: fs)
    then show "map_get (u_peers u') (ps_pk (peer_at q u')) = Some q"
      using old [of q] new by (auto simp: at fs)
    show "peer_ok (u_sessions u') (u_muxes u') (peer_at q u')"
      using q old [of q] new by (auto simp: at fs)
  next
    fix k q assume "map_get (u_peers u') k = Some q"
    then have q: "k = pk \<and> q = p \<or> k \<noteq> pk \<and> map_get (u_peers u) k = Some q" by (auto simp: fs split: if_splits)
    have old: "q < p \<and> ps_pk (peer_at q u) = k \<and> allowed N u k" if "map_get (u_peers u) k = Some q"
      using that inv unfolding udp_inv_def p by blast
    show "q < length (u_objects u')" "ps_pk (peer_at q u') = k" "allowed N u' k"
      using q old new a by (auto simp: at fs)
  next
    show "wf_map (u_peers u')" using inv by (simp add: fs udp_inv_def)
  next
    fix i q assume "map_get (u_byIndex u') i = Some q"
    then show "q < length (u_objects u')" using indexD [OF inv, of i q] by (simp add: fs p)
  next
    fix i h assume "map_get (u_pending u') i = Some h"
    then have "map_get (u_pending u) i = Some h" by (simp add: fs)
    then show "ph_peer h < length (u_objects u')" "ph_localIdx h = i" "ph_done h < length (u_done u')" "u_done u' ! ph_done h = None"
      using pendingD [OF inv, of i h] by (simp_all add: fs p)
  next
    fix i j h h' assume "map_get (u_pending u') i = Some h" "map_get (u_pending u') j = Some h'" "i \<noteq> j"
    then show "ph_done h \<noteq> ph_done h'" using inv unfolding fs udp_inv_def by blast
  next
    fix m assume "m < length (u_muxes u')"
    then show "service_reach (u_muxes u' ! m)" using inv by (simp add: fs udp_inv_def)
  qed
  moreover have "keeps u u'" using at fs p by (simp add: keeps_def)
  ultimately show ?thesis using at [of p] new by (simp add: udp_ok_def fs)
next
  case (Some q)
  then show ?thesis using f inv tableD by (auto simp: findOrAddPeer_def)
qed

lemma SetPeerEndpoint_ok:
  assumes "udp_inv N u" "pk \<in> N"
  shows "udp_ok N u (SetPeerEndpoint pk e u)"
proof -
  obtain p u1 where f: "findOrAddPeer pk u = (p, u1)" by fastforce
  note a = findOrAddPeer_ok [OF assms(1) f]
  have "allowed N u pk" using assms(2) by (simp add: allowed_def)
  with a have ok: "udp_ok N u u1" "p < length (u_objects u1)" by blast+
  have "udp_ok N u1 (put_peer p ((peer_at p u1)\<lparr>ps_endpoint := e\<rparr>) u1)"
    using udp_okD(1) [OF ok(1)] ok(2) by (intro put_same_peer_ok) simp_all
  then show ?thesis using f udp_ok_trans [OF ok(1)] assms(1) by (simp add: SetPeerEndpoint_def)
qed

lemma NewServiceMux_peer [simp]: "sv_peer (NewServiceMux pk cfg) = pk"
  by (simp add: NewServiceMux_def Let_def)

lemma createServiceMux_ok:
  assumes inv: "udp_inv N u" and c: "createServiceMux env p u = (m, u')"
  shows "udp_ok N u u'" "m < length (u_muxes u')" "sv_peer (u_muxes u' ! m) = ps_pk (peer_at p u)"
    "\<And>q. peer_at q u' = peer_at q u" "u_objects u' = u_objects u" "u_sessions u' = u_sessions u"
proof -
  obtain cfg where u': "u' = u\<lparr>u_muxes := u_muxes u @ [NewServiceMux (ps_pk (peer_at p u)) cfg]\<rparr>"
    and m: "m = length (u_muxes u)" using c by (auto simp: createServiceMux_def Let_def)
  have "service_reach (NewServiceMux (ps_pk (peer_at p u)) cfg)" by (rule service_reach.new)
  moreover have "\<forall>k < length (u_muxes u). service_reach (u_muxes u ! k)" using inv by (simp add: udp_inv_def)
  ultimately show "udp_ok N u u'" unfolding u'
    by (intro muxes_ok [OF inv]) (auto simp: nth_append less_Suc_eq)
  show "m < length (u_muxes u')" "sv_peer (u_muxes u' ! m) = ps_pk (peer_at p u)"
    "\<And>q. peer_at q u' = peer_at q u" "u_objects u' = u_objects u" "u_sessions u' = u_sessions u"
    by (simp_all add: u' m peer_at_def)
qed

text \<open>A new generation of the multiplexer of an established peer.\<close>

lemma new_generation_ok:
  assumes inv: "udp_inv N u" and c: "createServiceMux env p u = (m, u')" and p: "p < length (u_objects u)"
    and s: "ps_session (peer_at p u) \<noteq> None"
  shows "udp_ok N u (put_peer p ((peer_at p u')\<lparr>ps_serviceMux := Some m, ps_state := PeerStateEstablished\<rparr>) u')"
proof (rule udp_ok_trans)
  note ok = createServiceMux_ok [OF inv c]
  show "udp_ok N u u'" by (rule ok(1))
  assume "udp_inv N u'"
  then show "udp_ok N u' (put_peer p ((peer_at p u')\<lparr>ps_serviceMux := Some m, ps_state := PeerStateEstablished\<rparr>) u')"
    using peer_okD(1) [of N u' p] ok(2-6) p s by (intro put_peer_ok) (auto simp: peer_ok_def)
qed

lemma ensureServiceMux_ok:
  assumes inv: "udp_inv N u" and e: "ensureServiceMux env p u = (res, u')" and p: "p < length (u_objects u)"
  shows "udp_ok N u u'" "\<And>m. res = Inr m \<Longrightarrow> m < length (u_muxes u')"
proof -
  obtain m1 u1 where c: "createServiceMux env p u = (m1, u1)" by fastforce
  let ?g = "put_peer p ((peer_at p u1)\<lparr>ps_serviceMux := Some m1, ps_state := PeerStateEstablished\<rparr>) u1"
  let ?e = "emitPeerEvent (ps_pk (peer_at p u)) PeerStateEstablished ?g"
  have g: "udp_ok N u ?e" if "ps_session (peer_at p u) \<noteq> None"
    using same_tables_then [OF new_generation_ok [OF inv c p that] emit_same] .
  consider "u' = u" "\<forall>m. res = Inr m \<longrightarrow> ps_serviceMux (peer_at p u) = Some m"
    | "u' = ?e" "res = Inr m1" "ps_session (peer_at p u) \<noteq> None"
    using e c by (auto simp: ensureServiceMux_def Let_def split: if_splits option.splits)
  then show "udp_ok N u u'" "\<And>m. res = Inr m \<Longrightarrow> m < length (u_muxes u')"
    using g inv peer_okD(1) [OF inv p] createServiceMux_ok(2) [OF inv c]
    by (cases; auto simp: peer_ok_def)+
qed

section \<open>Sessions\<close>

lemma same_identity_update:
  assumes "ses_localIndex x = ses_localIndex (ss ! s)" "ses_remotePK x = ses_remotePK (ss ! s)"
  shows "same_identity ss (ss[s := x])"
  using assms by (cases "s < length ss") (auto simp: same_identity_def nth_list_update)

lemma Encrypt_identity:
  assumes "Session_Encrypt C now p s = (r, s')"
  shows "ses_localIndex s' = ses_localIndex s" "ses_remotePK s' = ses_remotePK s"
  using assms by (auto elim!: Encrypt_cases)

lemma Decrypt_identity:
  assumes "Session_Decrypt C now c n s = (r, s')"
  shows "ses_localIndex s' = ses_localIndex s" "ses_remotePK s' = ses_remotePK s"
  using assms by (auto elim!: Decrypt_cases)

lemma udp_sendPayload_ok:
  assumes inv: "udp_inv N u" and p: "p < length (u_objects u)"
  shows "udp_ok N u (snd (udp_sendPayload env now p proto d u))" "u_muxes (snd (udp_sendPayload env now p proto d u)) = u_muxes u"
proof -
  let ?u' = "snd (udp_sendPayload env now p proto d u)"
  have "?u' = u \<or> (\<exists>n r x v ps. Session_Encrypt (ue_crypto env) now (EncodePayload proto d) (u_sessions u ! n) = (r, x)
      \<and> v = u\<lparr>u_sessions := (u_sessions u)[n := x]\<rparr>
      \<and> (?u' = v \<or> (\<exists>w. same_tables v w \<and> (?u' = w
           \<or> (\<exists>b. ?u' = put_peer p ((peer_at p w)\<lparr>ps_txBytes := b\<rparr>) w)))))"
  proof (cases "u_closed u \<or> ps_endpoint (peer_at p u) = None \<or> ps_session (peer_at p u) = None")
    case False
    then obtain n where n: "ps_session (peer_at p u) = Some n" by auto
    obtain r x where e: "Session_Encrypt (ue_crypto env) now (EncodePayload proto d) (u_sessions u ! n) = (r, x)" by fastforce
    let ?v = "u\<lparr>u_sessions := (u_sessions u)[n := x]\<rparr>"
    let ?w = "\<lambda>m. ?v\<lparr>u_wire := m\<rparr>" and ?y = "\<lambda>m t. ?v\<lparr>u_wire := m, u_totalTx := t\<rparr>"
    have s: "same_tables ?v (?w m)" "same_tables ?v (?y m t)" for m t by (simp_all add: same_tables_def)
    have at: "peer_at p (?w m) = peer_at p u" "peer_at p (?y m t) = peer_at p u" for m t by (simp_all add: peer_at_def)
    have "?u' = ?v \<or> (\<exists>m. ?u' = ?w m) \<or> (\<exists>m t b. ?u' = put_peer p ((peer_at p (?y m t))\<lparr>ps_txBytes := b\<rparr>) (?y m t))"
      unfolding at using False n e by (auto simp: udp_sendPayload_def write_udp_def Let_def peer_at_def split: sum.splits prod.splits option.splits)
    then show ?thesis using e s by blast
  next
    case True
    then have "?u' = u" by (auto simp: udp_sendPayload_def Let_def split: option.splits)
    then show ?thesis by blast
  qed
  then consider "?u' = u" | n r x v w where
      "Session_Encrypt (ue_crypto env) now (EncodePayload proto d) (u_sessions u ! n) = (r, x)"
      "v = u\<lparr>u_sessions := (u_sessions u)[n := x]\<rparr>" "same_tables v w"
      "?u' = w \<or> (\<exists>b. ?u' = put_peer p ((peer_at p w)\<lparr>ps_txBytes := b\<rparr>) w)"
    using same_tables_refl by metis
  then show "udp_ok N u ?u'"
  proof cases
    case (2 n r x v w)
    have "udp_ok N u v"
      unfolding 2(2) by (rule sessions_ok [OF inv same_identity_update [OF Encrypt_identity [OF 2(1)]]])
    then have w: "udp_ok N u w" by (rule same_tables_then [OF _ 2(3)])
    have "udp_ok N w (put_peer p ((peer_at p w)\<lparr>ps_txBytes := b\<rparr>) w)" for b
      using udp_okD(1) [OF w] udp_ok_len [OF w p] by (intro put_same_peer_ok) simp_all
    then show ?thesis using 2(4) w udp_ok_trans [OF w] by auto
  qed (simp add: inv)
  show "u_muxes ?u' = u_muxes u"
    by (auto simp: udp_sendPayload_def write_udp_def Let_def split: sum.splits prod.splits option.splits)
qed

lemma output_event_ok:
  assumes "udp_inv N u" "p < length (u_objects u)"
  shows "udp_ok N u (output_event env now p ev u)"
proof (cases ev)
  case (OutputError s e)
  have "same_tables u (output_event env now p ev u)" by (simp add: OutputError same_tables_def)
  then show ?thesis by (rule same_tables_ok [OF _ assms(1)])
qed (use udp_sendPayload_ok(1) [OF assms] in \<open>simp add: sendKCP_def Let_def\<close>)

lemma fold_ok:
  assumes "\<And>x v. x \<in> set xs \<Longrightarrow> udp_inv N v \<Longrightarrow> keeps u v \<Longrightarrow> udp_ok N v (f x v)" "udp_inv N u"
  shows "udp_ok N u (fold f xs u)"
proof -
  have "udp_ok N v (fold f ys v)" if "udp_inv N v" "keeps u v" "set ys \<subseteq> set xs" for v ys
    using that
  proof (induction ys arbitrary: v)
    case (Cons y ys)
    have ok: "udp_ok N v (f y v)" using assms(1) Cons.prems by simp
    have "keeps u (f y v)" using keeps_trans Cons.prems(2) udp_okD(2) [OF ok] by blast
    then have "udp_ok N (f y v) (fold f ys (f y v))" using Cons.IH udp_okD(1) [OF ok] Cons.prems(3) by simp
    then show ?case using udp_ok_trans [OF ok] by simp
  qed simp
  then show ?thesis using assms(2) by simp
qed

lemma keeps_len: "keeps u v \<Longrightarrow> p < length (u_objects u) \<Longrightarrow> p < length (u_objects v)"
  by (simp add: keeps_def)

lemma service_step_peer:
  assumes "service_step m m'" "service_reach m"
  shows "sv_peer m' = sv_peer m"
proof -
  have close: "sv_peer (ServiceMux_Close now until m) = sv_peer m" for now until m
  proof -
    have "sv_peer (fold (\<lambda>state m. case sst_mux state of None \<Rightarrow> m
        | Some r \<Rightarrow> set_mux r (Close (service_env m) now until (sv_muxes m ! r)) m) xs v) = sv_peer v" for xs v
      by (induction xs arbitrary: v) (auto split: option.splits)
    from this [of "map snd (sv_services m)"
        "m\<lparr>sv_closeOnce := True, sv_closed := True, sv_closeCh := True, sv_services := []\<rparr>"]
    show ?thesis by (simp add: ServiceMux_Close_def Let_def)
  qed
  have inv: "sv_inv m" by (rule service_reach_inv [OF assms(2)])
  from assms(1) show ?thesis
  proof cases
    case (call_step op s)
    then show ?thesis using service_call_ok [OF inv] by (auto simp: only_def)
  next
    case (direct_read_step hook now until x n)
    then show ?thesis using close by (auto simp: ServiceMux_Read_def Let_def split: if_splits list.splits)
  next
    case (direct_write_step p d)
    have "sv_peer (reportOutputError 0 e (log_event ev m)) = sv_peer m" for e ev
      using reportOutputError_same(1) [of "log_event ev m" 0 e] by (simp add: same_state_def log_event_def)
    then show ?thesis using direct_write_step
      by (auto simp: ServiceMux_Write_def log_event_def split: option.splits)
  qed (auto simp: close InputPacket_def)
qed

lemma set_mux_ok:
  assumes inv: "udp_inv N u" and m: "m < length (u_muxes u)" and st: "service_step (u_muxes u ! m) mux"
  shows "udp_ok N u (u\<lparr>u_muxes := (u_muxes u)[m := mux]\<rparr>)"
proof -
  have r: "\<forall>k < length (u_muxes u). service_reach (u_muxes u ! k)" using inv by (simp add: udp_inv_def)
  then have "service_reach mux" "sv_peer mux = sv_peer (u_muxes u ! m)"
    using service_reach.step [OF _ st] service_step_peer [OF st] m by auto
  then show ?thesis using r by (intro muxes_ok [OF inv]) (auto simp: m nth_list_update)
qed

lemma run_mux_ok:
  assumes inv: "udp_inv N u" and m: "m < length (u_muxes u)" and st: "service_step (u_muxes u ! m) mux"
    and p: "p < length (u_objects u)"
  shows "udp_ok N u (run_mux env now p m mux u)"
proof -
  let ?v = "u\<lparr>u_muxes := (u_muxes u)[m := mux]\<rparr>"
  have ok: "udp_ok N u ?v" by (rule set_mux_ok [OF inv m st])
  have "udp_ok N ?v (fold (output_event env now p) xs ?v)" for xs
  proof (rule fold_ok)
    show "udp_inv N ?v" by (rule udp_okD(1) [OF ok])
    show "udp_ok N w (output_event env now p x w)" if "udp_inv N w" "keeps ?v w" for x w
      using output_event_ok [OF that(1)] keeps_len [OF that(2)] p by simp
  qed
  then show ?thesis using udp_ok_trans [OF ok] by (simp add: run_mux_def Let_def)
qed

lemma close_mux_ok:
  assumes "udp_inv N u" "m < length (u_muxes u)" "p < length (u_objects u)"
  shows "udp_ok N u (close_mux env now until p m u)"
  unfolding close_mux_def by (rule run_mux_ok [OF assms(1,2) service_step.close_all_step assms(3)])

section \<open>Handshakes\<close>

lemma put_peer_twice [simp]: "put_peer p a (put_peer p b u) = put_peer p a u"
  by (simp add: put_peer_def)

lemma put_peer_sessions: "(put_peer p a u)\<lparr>u_sessions := ss\<rparr> = put_peer p a (u\<lparr>u_sessions := ss\<rparr>)"
  by (simp add: put_peer_def)

lemma ensureLocked_cases:
  assumes "ensureServiceMuxLocked env p u = (b, u')" "p < length (u_objects u)" "udp_inv N u"
  obtains m u1 where "udp_ok N u u1" "u_sessions u1 = u_sessions u" "peer_at p u1 = peer_at p u"
    "m < length (u_muxes u1)" "sv_peer (u_muxes u1 ! m) = ps_pk (peer_at p u)"
    "u' = put_peer p ((peer_at p u1)\<lparr>ps_serviceMux := Some m\<rparr>) u1"
proof (cases "ps_serviceMux (peer_at p u)")
  case (Some m)
  have "(peer_at p u)\<lparr>ps_serviceMux := Some m\<rparr> = peer_at p u" using Some by (cases "peer_at p u") simp
  then have same: "put_peer p ((peer_at p u)\<lparr>ps_serviceMux := Some m\<rparr>) u = u"
    by (simp only:) (simp add: put_peer_def peer_at_def)
  have "u' = u" using assms(1) Some by (simp add: ensureServiceMuxLocked_def)
  with same show thesis using Some assms(3) peer_okD(1) [OF assms(3,2)]
    by (intro that [of u m]) (simp_all add: peer_ok_def)
next
  case None
  obtain m u1 where c: "createServiceMux env p u = (m, u1)" by fastforce
  show thesis using that [of u1 m] createServiceMux_ok [OF assms(3) c] None c assms(1)
    by (simp add: ensureServiceMuxLocked_def)
qed

lemma update_index_ok:
  assumes "udp_inv N u" "p < length (u_objects u)"
  shows "udp_ok N u (update_index p a b i u)"
proof -
  let ?m = "u_byIndex (update_index p a b i u)"
  have eq: "update_index p a b i u = u\<lparr>u_byIndex := ?m\<rparr>"
    by (simp add: update_index_def Let_def split: option.splits)
  have "q = p \<or> map_get (u_byIndex u) j = Some q" if "map_get ?m j = Some q" for j q
    using that by (simp add: update_index_def Let_def split: option.splits if_splits)
  then have "udp_ok N u (u\<lparr>u_byIndex := ?m\<rparr>)"
    using indexD [OF assms(1)] assms(2) by (intro byIndex_ok [OF assms(1)]) blast
  then show ?thesis unfolding eq [symmetric] .
qed

lemma install_session_ok:
  assumes inv: "udp_inv N u" and p: "p < length (u_objects u)" and s: "ses_remotePK s = ps_pk (peer_at p u)"
  shows "udp_ok N u (install_session env now p a i s u)"
proof -
  obtain b u' where e: "ensureServiceMuxLocked env p u = (b, u')" by fastforce
  obtain m u1 where u1: "udp_ok N u u1" "u_sessions u1 = u_sessions u" "peer_at p u1 = peer_at p u"
    "m < length (u_muxes u1)" "sv_peer (u_muxes u1 ! m) = ps_pk (peer_at p u)"
    "u' = put_peer p ((peer_at p u1)\<lparr>ps_serviceMux := Some m\<rparr>) u1"
    by (rule ensureLocked_cases [OF e p inv])
  have p1: "p < length (u_objects u1)" by (rule udp_ok_len [OF u1(1) p])
  let ?ss = "u_sessions u @ [s]" and ?r = "length (u_sessions u)"
  let ?u2 = "u1\<lparr>u_sessions := ?ss\<rparr>"
  let ?ps = "(peer_at p u)\<lparr>ps_serviceMux := Some m, ps_endpoint := a, ps_session := Some ?r,
     ps_previous := ps_session (peer_at p u), ps_state := PeerStateEstablished, ps_lastSeen := Some now\<rparr>"
  let ?u3 = "put_peer p ?ps ?u2"
  let ?u4 = "update_index p (ps_previous (peer_at p u)) (ps_session (peer_at p u)) i ?u3"
  have inst: "install_session env now p a i s u = (if b then emitPeerEvent (ps_pk (peer_at p u)) PeerStateEstablished ?u4 else ?u4)"
    unfolding install_session_def e by (simp add: Let_def u1(2,3,6) p1 put_peer_sessions)
  have id: "same_identity (u_sessions u1) ?ss" by (simp add: u1(2) same_identity_def nth_append)
  have ok2: "udp_ok N u ?u2"
    by (rule udp_ok_trans [OF u1(1)]) (use sessions_ok [OF _ id] in simp)
  have "peer_ok ?ss (u_muxes u1) ?ps"
    using peer_okD(1) [OF inv p] u1(4,5) s by (auto simp: peer_ok_def nth_append)
  then have ok3: "udp_ok N u ?u3"
    using p1 u1(3) udp_okD(1) [OF ok2]
    by (intro udp_ok_trans [OF ok2] put_peer_ok) (simp_all add: peer_at_def)
  have "udp_ok N u ?u4"
    by (rule udp_ok_trans [OF ok3 update_index_ok]) (use p1 in simp_all)
  then show ?thesis unfolding inst by (auto intro: same_tables_then)
qed

lemma split_session_remote: "split_session C li ri pk mode now hs = Inr s \<Longrightarrow> ses_remotePK s = pk"
  by (auto simp: split_session_def dest: NewSession_identity split: sum.splits prod.splits)

lemma admitPeer_ok:
  assumes inv: "udp_inv N u" and a: "admitPeer pk u = (q, u')"
  shows "udp_ok N u u' \<and> (\<forall>p. q = Some p \<longrightarrow> p < length (u_objects u') \<and> ps_pk (peer_at p u') = pk)"
proof (cases "map_get (u_peers u) pk")
  case None
  show ?thesis
  proof (cases "u_allowFunc u = None \<or> \<not> the (u_allowFunc u) pk")
    case True
    then show ?thesis using a None inv by (auto simp: admitPeer_def)
  next
    case False
    obtain p where "findOrAddPeer pk u = (p, u')" "q = Some p"
      using a None False by (auto simp: admitPeer_def split: prod.splits)
    moreover have "allowed N u pk" using False by (auto simp: allowed_def)
    ultimately show ?thesis using findOrAddPeer_ok [OF inv] by blast
  qed
next
  case (Some p)
  then show ?thesis using a inv tableD [OF inv Some] by (auto simp: admitPeer_def)
qed

text \<open>A handler that answers: the state changes outside the tables, then perhaps a session is installed.\<close>

lemma udp_handleHandshakeInit_ok:
  assumes inv: "udp_inv N u"
  shows "udp_ok N u (udp_handleHandshakeInit env now data a u)"
proof -
  let ?u' = "udp_handleHandshakeInit env now data a u"
  have "?u' = u \<or> (\<exists>pk q v. admitPeer pk u = (q, v) \<and> (?u' = v \<or> (\<exists>p w i s. q = Some p \<and> same_tables v w
      \<and> (?u' = w \<or> ses_remotePK s = pk \<and> ?u' = install_session env now p a i s w))))"
  proof (cases "ParseHandshakeInit data")
    case (Inr m)
    show ?thesis
    proof (cases "NewHandshakeState (ue_crypto env) (udp_config False None u)")
      case hs: (Inr hs)
      obtain r hs1 where r: "ReadMessage (ue_crypto env) hs (join_message 48 (hi_Ephemeral m) (hi_Static m)) = (r, hs1)" by fastforce
      obtain q v where q: "admitPeer (hs_remoteStatic hs1) u = (q, v)" by fastforce
      show ?thesis
      proof (cases "isl r \<or> q = None \<or> isl (GenerateIndex (u_random v))")
        case False
        then obtain x p i rnd where f: "r = Inr x" "q = Some p" "GenerateIndex (u_random v) = Inr (i, rnd)"
          by (cases r; cases "GenerateIndex (u_random v)") auto
        obtain res hs2 rnd2 where w: "WriteMessage (ue_crypto env) hs1 [] rnd = (res, hs2, rnd2)" by (cases "WriteMessage (ue_crypto env) hs1 [] rnd")
        let ?w = "\<lambda>x. v\<lparr>u_random := rnd2, u_wire := x\<rparr>"
        have same: "same_tables v (v\<lparr>u_random := rnd2\<rparr>)" "same_tables v (?w x)" for x by (simp_all add: same_tables_def)
        have "?u' = v\<lparr>u_random := rnd2\<rparr> \<or> (\<exists>x. ?u' = ?w x
            \<or> (\<exists>s. ses_remotePK s = hs_remoteStatic hs1 \<and> ?u' = install_session env now p a i s (?w x)))"
        proof (cases res)
          case (Inr msg2)
          let ?wm = "BuildHandshakeResp i (hi_SenderIndex m) (LocalEphemeral hs2) (drop KeySize msg2)"
          let ?x = "u_wire v @ [(a, ?wm)]"
          have "?u' = ?w ?x \<or> (\<exists>s. split_session (ue_crypto env) i (hi_SenderIndex m) (hs_remoteStatic hs1) (u_cipherMode v) now hs2 = Inr s
              \<and> ?u' = install_session env now p a i s (?w ?x))"
            using Inr w f q r hs \<open>ParseHandshakeInit data = Inr m\<close>
            by (simp add: udp_handleHandshakeInit_def write_udp_def Let_def split: option.splits sum.splits)
          then show ?thesis using split_session_remote by blast
        qed (use w f q r hs Inr in \<open>simp add: udp_handleHandshakeInit_def Let_def\<close>)
        then show ?thesis using q f(2) same by blast
      next
        case True
        then have "?u' = u \<or> ?u' = v" using q r hs Inr
          by (cases r; cases q; cases "GenerateIndex (u_random v)") (simp_all add: udp_handleHandshakeInit_def Let_def)
        then show ?thesis using q by blast
      qed
    qed (use Inr in \<open>simp add: udp_handleHandshakeInit_def\<close>)
  qed (simp add: udp_handleHandshakeInit_def)
  then show ?thesis
  proof (elim disjE exE conjE)
    fix pk q v assume q: "admitPeer pk u = (q, v)"
    note ad = admitPeer_ok [OF inv q]
    show ?thesis if "?u' = v" using ad that by simp
    fix p w i s assume w: "q = Some p" "same_tables v w"
    note ok = same_tables_then [OF conjunct1 [OF ad] w(2)]
    show ?thesis if "?u' = w" using ok that by simp
    have "p < length (u_objects w)" "ps_pk (peer_at p w) = pk"
      using ad w by (simp_all add: same_tables_def peer_at_def)
    then show ?thesis if "ses_remotePK s = pk" "?u' = install_session env now p a i s w"
      using udp_ok_trans [OF ok install_session_ok] that by simp
  qed (simp add: inv)
qed

text \<open>A result is sent to a \<^verbatim>\<open>done\<close> channel that no pending handshake owns any more.\<close>

lemma send_done_ok:
  assumes inv: "udp_inv N u" and d: "\<And>j h. map_get (u_pending u) j = Some h \<Longrightarrow> ph_done h \<noteq> d"
  shows "udp_ok N u (send_done d r u)"
proof -
  have l: "length (u_done (send_done d r u)) = length (u_done u)"
    and n: "k \<noteq> d \<Longrightarrow> u_done (send_done d r u) ! k = u_done u ! k" for k
    by (simp_all add: send_done_def)
  have "u_muxes (send_done d r u) = u_muxes u" "u_allowFunc (send_done d r u) = u_allowFunc u"
    "u_closing (send_done d r u) = u_closing u"
    by (simp_all add: send_done_def)
  then show ?thesis using inv d n unfolding udp_ok_def udp_inv_def keeps_def allowed_def l by simp
qed

lemma put_state_ok:
  assumes "udp_inv N u" "p < length (u_objects u)" "s \<noteq> PeerStateEstablished"
  shows "udp_ok N u (put_peer p ((peer_at p u)\<lparr>ps_state := s\<rparr>) u)"
  using assms by (intro put_same_peer_ok) simp_all

lemma fail_pending_ok:
  assumes inv: "udp_inv N u" and h: "ph_peer h < length (u_objects u)"
    and d: "\<And>j h'. map_get (u_pending u) j = Some h' \<Longrightarrow> ph_done h' \<noteq> ph_done h"
  shows "udp_ok N u (fail_pending h e u)"
proof -
  let ?v = "put_peer (ph_peer h) ((peer_at (ph_peer h) u)\<lparr>ps_state := PeerStateFailed\<rparr>) u"
  let ?w = "emitPeerEvent (ps_pk (peer_at (ph_peer h) ?v)) PeerStateFailed ?v"
  have v: "udp_ok N u ?v" by (rule put_state_ok [OF inv h]) simp
  have w: "udp_ok N u ?w" by (rule same_tables_then [OF v emit_same])
  have "udp_ok N ?w (send_done (ph_done h) (Some e) ?w)"
    by (rule send_done_ok [OF udp_okD(1) [OF w]]) (use d in simp)
  then show ?thesis using udp_ok_trans [OF w] by (simp add: fail_pending_def Let_def)
qed

lemma install_pending: "p < length (u_objects u) \<Longrightarrow> u_pending (install_session env now p a i s u) = u_pending u"
  by (rule install_session_result(9) [OF _ refl])

lemma udp_handleHandshakeResp_ok:
  assumes inv: "udp_inv N u"
  shows "udp_ok N u (udp_handleHandshakeResp env now data a u)"
proof -
  let ?u' = "udp_handleHandshakeResp env now data a u"
  have "?u' = u \<or> (\<exists>i h v. map_get (u_pending u) i = Some h \<and> v = u\<lparr>u_pending := map_del i (u_pending u)\<rparr>
     \<and> ((\<exists>e. ?u' = fail_pending h e v) \<or> (\<exists>s. ses_remotePK s = ps_pk (peer_at (ph_peer h) v)
        \<and> ?u' = send_done (ph_done h) None (install_session env now (ph_peer h) a (ph_localIdx h) s v))))"
  proof (cases "ParseHandshakeResp data")
    case (Inr m)
    show ?thesis
    proof (cases "map_get (u_pending u) (hr_ReceiverIndex m)")
      case (Some h)
      let ?v = "u\<lparr>u_pending := map_del (hr_ReceiverIndex m) (u_pending u)\<rparr>"
      obtain r hs where r: "ReadMessage (ue_crypto env) (ph_hsState h) (join_message 16 (hr_Ephemeral m) (hr_Empty m)) = (r, hs)"
        by fastforce
      have "(\<exists>e. ?u' = fail_pending h e ?v) \<or> (\<exists>s. split_session (ue_crypto env) (ph_localIdx h) (hr_SenderIndex m)
            (ps_pk (peer_at (ph_peer h) ?v)) (u_cipherMode ?v) now hs = Inr s
          \<and> ?u' = send_done (ph_done h) None (install_session env now (ph_peer h) a (ph_localIdx h) s ?v))"
        using Inr Some r by (cases r) (auto simp: udp_handleHandshakeResp_def Let_def split: sum.splits)
      then have "(\<exists>e. ?u' = fail_pending h e ?v) \<or> (\<exists>s. ses_remotePK s = ps_pk (peer_at (ph_peer h) ?v)
        \<and> ?u' = send_done (ph_done h) None (install_session env now (ph_peer h) a (ph_localIdx h) s ?v))"
      proof (elim disjE exE conjE)
        fix s
        assume "split_session (ue_crypto env) (ph_localIdx h) (hr_SenderIndex m)
            (ps_pk (peer_at (ph_peer h) ?v)) (u_cipherMode ?v) now hs = Inr s"
          "?u' = send_done (ph_done h) None (install_session env now (ph_peer h) a (ph_localIdx h) s ?v)"
        then show ?thesis using split_session_remote by (intro disjI2 exI conjI)
      qed (rule disjI1, rule exI)
      with Some show ?thesis by (simp only: ex_simps simp_thms) (rule disjI2, rule exI [of _ "hr_ReceiverIndex m"], rule exI [of _ h], simp)
    qed (use Inr in \<open>simp add: udp_handleHandshakeResp_def\<close>)
  qed (simp add: udp_handleHandshakeResp_def)
  then show ?thesis
  proof (elim disjE[where P = "?u' = u"] exE conjE)
    fix i h v assume h: "map_get (u_pending u) i = Some h" and v: "v = u\<lparr>u_pending := map_del i (u_pending u)\<rparr>"
      and alt: "(\<exists>e. ?u' = fail_pending h e v) \<or> (\<exists>s. ses_remotePK s = ps_pk (peer_at (ph_peer h) v)
        \<and> ?u' = send_done (ph_done h) None (install_session env now (ph_peer h) a (ph_localIdx h) s v))"
    have ok: "udp_ok N u v" unfolding v by (rule pending_del_ok [OF inv])
    note iv = udp_okD(1) [OF ok]
    have p: "ph_peer h < length (u_objects v)" using pendingD(1) [OF inv h] v by simp
    have d: "map_get (u_pending v) j = Some h' \<Longrightarrow> ph_done h' \<noteq> ph_done h" for j h'
      using inv h unfolding v udp_inv_def by (auto split: if_splits)
    have i: "udp_ok N v (send_done (ph_done h) None (install_session env now (ph_peer h) a (ph_localIdx h) s v))"
      if "ses_remotePK s = ps_pk (peer_at (ph_peer h) v)" for s
    proof (rule udp_ok_trans [OF install_session_ok [OF iv p that]])
      let ?w = "install_session env now (ph_peer h) a (ph_localIdx h) s v"
      assume "udp_inv N ?w"
      then show "udp_ok N ?w (send_done (ph_done h) None ?w)"
        using d install_pending [OF p] by (intro send_done_ok) simp_all
    qed
    from alt show ?thesis
    proof (elim disjE exE conjE)
      fix e assume "?u' = fail_pending h e v"
      then show ?thesis using udp_ok_trans [OF ok] fail_pending_ok [OF iv p d] by simp
    next
      fix s assume "ses_remotePK s = ps_pk (peer_at (ph_peer h) v)"
        "?u' = send_done (ph_done h) None (install_session env now (ph_peer h) a (ph_localIdx h) s v)"
      then show ?thesis using udp_ok_trans [OF ok] i by simp
    qed
  qed (simp add: inv)
qed

lemma new_pending_ok:
  assumes inv: "udp_inv N u" and p: "p < length (u_objects u)"
    and u': "u' = u\<lparr>u_random := rnd, u_done := u_done u @ [None], u_pending := map_put i
      \<lparr>ph_peer = p, ph_hsState = hs, ph_localIdx = i, ph_done = length (u_done u), ph_createdAt = now\<rparr> (u_pending u)\<rparr>"
  shows "udp_ok N u u'"
proof -
  have old: "ph_done h < length (u_done u)" "(u_done u @ [x]) ! ph_done h = None" "ph_peer h < length (u_objects u)"
    "ph_localIdx h = j" if "map_get (u_pending u) j = Some h" for j h x
    using pendingD [OF inv that] by (simp_all add: nth_append)
  have al: "allowed N u' = allowed N u" by (simp add: allowed_def u' fun_eq_iff)
  have fs: "u_objects u' = u_objects u" "u_peers u' = u_peers u" "u_sessions u' = u_sessions u" "u_muxes u' = u_muxes u"
    "u_byIndex u' = u_byIndex u" "u_done u' = u_done u @ [None]" "peer_at q u' = peer_at q u" "u_allowFunc u' = u_allowFunc u"
    "u_closed u' = u_closed u" "u_closing u' = u_closing u"
    "map_get (u_pending u') = (map_get (u_pending u))(i \<mapsto> \<lparr>ph_peer = p, ph_hsState = hs, ph_localIdx = i,
       ph_done = length (u_done u), ph_createdAt = now\<rparr>)" for q
    by (simp_all add: u' peer_at_def fun_eq_iff)
  have ne: "ph_done h \<noteq> length (u_done u)" if "map_get (u_pending u) j = Some h" for j h using old(1) [OF that] by simp
  have "udp_inv N u'"
    using inv unfolding udp_inv_def al fs
    by (intro conjI) (auto simp: less_SucI p old(2) dest: ne)
  then show ?thesis by (simp add: udp_ok_def keeps_def fs)
qed

lemma initiate_start_ok:
  assumes inv: "udp_inv N u" and p: "p < length (u_objects u)"
  shows "udp_ok N u (snd (initiate_start env now p u))"
proof -
  let ?v = "put_peer p ((peer_at p u)\<lparr>ps_state := PeerStateConnecting\<rparr>) u"
  let ?w = "emitPeerEvent (ps_pk (peer_at p u)) PeerStateConnecting ?v"
  let ?u' = "snd (initiate_start env now p u)"
  have w: "udp_ok N u ?w" by (rule same_tables_then [OF put_state_ok [OF inv p] emit_same]) simp
  have p': "p < length (u_objects ?w)" using p by simp
  have "same_tables ?w ?u' \<or> (\<exists>rnd i hs x z. x = ?w\<lparr>u_random := rnd, u_done := u_done ?w @ [None], u_pending := map_put i
      \<lparr>ph_peer = p, ph_hsState = hs, ph_localIdx = i, ph_done = length (u_done ?w), ph_createdAt = now\<rparr> (u_pending ?w)\<rparr>
      \<and> same_tables x z \<and> (?u' = z \<or> ?u' = z\<lparr>u_pending := map_del i (u_pending z)\<rparr>))"
  proof (cases "ps_endpoint (peer_at p u) = None \<or> isl (GenerateIndex (u_random ?w))
      \<or> isl (NewHandshakeState (ue_crypto env) (udp_config True (Some (ps_pk (peer_at p u))) ?w))")
    case False
    then obtain e i rnd hs where f: "ps_endpoint (peer_at p u) = Some e" "GenerateIndex (u_random ?w) = Inr (i, rnd)"
      "NewHandshakeState (ue_crypto env) (udp_config True (Some (ps_pk (peer_at p u))) ?w) = Inr hs"
      by (cases "GenerateIndex (u_random ?w)";
          cases "NewHandshakeState (ue_crypto env) (udp_config True (Some (ps_pk (peer_at p u))) ?w)") auto
    obtain res hs2 rnd2 where w: "WriteMessage (ue_crypto env) hs [] rnd = (res, hs2, rnd2)" by (cases "WriteMessage (ue_crypto env) hs [] rnd")
    show ?thesis
    proof (cases res)
      case (Inl e)
      then have "?u' = ?w\<lparr>u_random := rnd2\<rparr>" using f w by (simp add: initiate_start_def Let_def)
      then show ?thesis by (simp add: same_tables_def)
    next
      case (Inr msg1)
      let ?x = "?w\<lparr>u_random := rnd2, u_done := u_done ?w @ [None], u_pending := map_put i
        \<lparr>ph_peer = p, ph_hsState = hs2, ph_localIdx = i, ph_done = length (u_done ?w), ph_createdAt = now\<rparr> (u_pending ?w)\<rparr>"
      let ?z = "snd (write_udp env (Some e) (BuildHandshakeInit i (LocalEphemeral hs2) (drop KeySize msg1)) ?x)"
      have "?u' = ?z \<or> ?u' = ?z\<lparr>u_pending := map_del i (u_pending ?z)\<rparr>"
        using f w Inr by (simp add: initiate_start_def write_udp_def Let_def split: option.splits)
      then show ?thesis using write_udp_same by blast
    qed
  next
    case True
    then consider "ps_endpoint (peer_at p u) = None"
      | e x where "ps_endpoint (peer_at p u) = Some e" "GenerateIndex (u_random ?w) = Inl x"
      | e i rnd x where "ps_endpoint (peer_at p u) = Some e" "GenerateIndex (u_random ?w) = Inr (i, rnd)"
        "NewHandshakeState (ue_crypto env) (udp_config True (Some (ps_pk (peer_at p u))) ?w) = Inl x"
      unfolding isl_def by (metis old.sum.exhaust option.exhaust prod.exhaust)
    then have "same_tables ?w ?u'"
      by cases (simp_all add: initiate_start_def Let_def same_tables_def)
    then show ?thesis by blast
  qed
  then show ?thesis
  proof (elim disjE[where P = "same_tables ?w ?u'"] exE conjE)
    assume "same_tables ?w ?u'"
    then show ?thesis by (rule same_tables_then [OF w])
  next
    fix rnd i hs x z
    assume x: "x = ?w\<lparr>u_random := rnd, u_done := u_done ?w @ [None], u_pending := map_put i
      \<lparr>ph_peer = p, ph_hsState = hs, ph_localIdx = i, ph_done = length (u_done ?w), ph_createdAt = now\<rparr> (u_pending ?w)\<rparr>"
      and z: "same_tables x z" and u': "?u' = z \<or> ?u' = z\<lparr>u_pending := map_del i (u_pending z)\<rparr>"
    have "udp_ok N u z"
      by (rule udp_ok_trans [OF w]) (rule same_tables_then [OF new_pending_ok [OF _ p' x] z])
    then show ?thesis using u' udp_ok_trans pending_del_ok by metis
  qed
qed

lemma initiate_timeout_ok:
  assumes "udp_inv N u" "p < length (u_objects u)"
  shows "udp_ok N u (snd (initiate_timeout p i u))"
proof -
  let ?v = "u\<lparr>u_pending := map_del i (u_pending u)\<rparr>"
  have v: "udp_ok N u ?v" by (rule pending_del_ok [OF assms(1)])
  have "udp_ok N ?v (put_peer p ((peer_at p ?v)\<lparr>ps_state := PeerStateFailed\<rparr>) ?v)"
    by (rule put_state_ok [OF udp_okD(1) [OF v]]) (use assms(2) in simp_all)
  from same_tables_then [OF udp_ok_trans [OF v this] emit_same] show ?thesis
    by (simp add: initiate_timeout_def Let_def)
qed

section \<open>Receiving\<close>

lemma transportPeerSession_ok:
  assumes "udp_inv N u" "transportPeerSession i u = Inr (p, s)"
  shows "p < length (u_objects u) \<and> s < length (u_sessions u) \<and> ses_localIndex (u_sessions u ! s) = i
    \<and> ses_remotePK (u_sessions u ! s) = ps_pk (peer_at p u)
    \<and> (ps_session (peer_at p u) = Some s \<or> ps_previous (peer_at p u) = Some s)"
proof (cases "map_get (u_byIndex u) i")
  case (Some q)
  have q: "q < length (u_objects u)" by (rule indexD [OF assms(1) Some])
  from assms(2) Some have "q = p" "ps_session (peer_at p u) = Some s \<or> ps_previous (peer_at p u) = Some s"
    "ses_localIndex (u_sessions u ! s) = i"
    by (auto simp: transportPeerSession_def index_of_def Let_def split: if_splits)
  then show ?thesis using q peer_okD(1) [OF assms(1) q] by (auto simp: peer_ok_def)
qed (use assms in \<open>simp add: transportPeerSession_def\<close>)

lemma recordTransportActivity_ok:
  assumes "udp_inv N u" "p < length (u_objects u)"
  shows "udp_ok N u (recordTransportActivity now p a n b u)"
  unfolding recordTransportActivity_def Let_def
  by (rule put_same_peer_ok [OF assms]) simp_all

text \<open>
  What a packet can do, and whom its payload is attributed to: the peer whose session decrypted it.
\<close>

definition attributed :: "bytes set \<Rightarrow> UDP \<Rightarrow> decoded \<Rightarrow> bool" where
  "attributed N u d \<longleftrightarrow> map_get (u_peers u) (dp_pk d) = Some (dp_peer d) \<and> allowed N u (dp_pk d)
     \<and> (\<exists>s < length (u_sessions u). ses_remotePK (u_sessions u ! s) = dp_pk d)"

lemma decryptTransport_ok:
  assumes inv: "udp_inv N u" and hook: "\<And>v. udp_inv N v \<Longrightarrow> udp_ok N v (hook v)"
    and dt: "decryptTransport env now hook data a u = (res, u')"
  shows "udp_ok N u u' \<and> (\<forall>d. res = Inr d \<longrightarrow> attributed N u' d \<and> dp_peer d < length (u_objects u'))"
proof -
  consider "u' = u" "isl res" | (decrypt) msg p s r x where "transportPeerSession (tm_ReceiverIndex (msg::TransportMessage)) u = Inr (p, s)"
      "Session_Decrypt (ue_crypto env) now (tm_Ciphertext msg) (tm_Counter msg) (u_sessions u ! s) = (r, x)"
      "isl r \<and> isl res \<and> u' = u\<lparr>u_sessions := (u_sessions u)[s := x]\<rparr>
       \<or> (\<exists>b. u' = recordTransportActivity now p a (length data) b (hook (u\<lparr>u_sessions := (u_sessions u)[s := x]\<rparr>))
          \<and> (\<forall>d. res = Inr d \<longrightarrow> dp_peer d = p \<and> dp_pk d = ps_pk (peer_at p u')))"
  proof (cases "ParseTransportMessage data")
    case (Inr msg)
    show thesis
    proof (cases "transportPeerSession (tm_ReceiverIndex msg) u")
      case i: (Inr ps)
      obtain p s where ps: "ps = (p, s)" by fastforce
      obtain r x where r: "Session_Decrypt (ue_crypto env) now (tm_Ciphertext msg) (tm_Counter msg) (u_sessions u ! s) = (r, x)"
        by fastforce
      show thesis
        by (rule that(2) [OF i [unfolded ps] r], cases r)
          (use dt Inr i ps r in \<open>auto simp: decryptTransport_def Let_def split: if_splits sum.splits\<close>)
    next
      case (Inl e)
      then have "(res, u') = (Inl e, u)" using dt Inr by (simp add: decryptTransport_def)
      then show thesis by (intro that(1)) simp_all
    qed
  next
    case (Inl e)
    then have "(res, u') = (Inl (UdpMessage e), u)" using dt by (simp add: decryptTransport_def)
    then show thesis by (intro that(1)) simp_all
  qed
  then show ?thesis
  proof cases
    case (decrypt msg p s r x)
    note t = transportPeerSession_ok [OF inv decrypt(1)]
    let ?v = "u\<lparr>u_sessions := (u_sessions u)[s := x]\<rparr>"
    have v: "udp_ok N u ?v"
      by (rule sessions_ok [OF inv same_identity_update [OF Decrypt_identity [OF decrypt(2)]]])
    have h: "udp_ok N u (hook ?v)" by (rule udp_ok_trans [OF v hook])
    have p: "p < length (u_objects (hook ?v))" using udp_ok_len [OF h] t by blast
    have w: "udp_ok N u (recordTransportActivity now p a n b (hook ?v))" for n b
      by (rule udp_ok_trans [OF h recordTransportActivity_ok [OF _ p]])
    have att: "attributed N u' d \<and> dp_peer d < length (u_objects u')"
      if "u' = recordTransportActivity now p a n b (hook ?v)" "dp_peer d = p" "dp_pk d = ps_pk (peer_at p u')" for n b d
    proof -
      have ok: "udp_ok N u u'" using w that(1) by simp
      have p': "p < length (u_objects u')" using udp_ok_len [OF ok] t by blast
      have "ps_pk (peer_at p u') = ps_pk (peer_at p u)" "same_identity (u_sessions u) (u_sessions u')"
        using ok t by (simp_all add: udp_ok_def keeps_def)
      then have "s < length (u_sessions u')" "ses_remotePK (u_sessions u' ! s) = dp_pk d"
        using t that(3) by (auto simp: same_identity_def)
      then show ?thesis using that(2,3) peer_okD(2,3) [OF udp_okD(1) [OF ok] p'] p' by (auto simp: attributed_def)
    qed
    from decrypt(3) show ?thesis
    proof (elim disjE exE conjE)
      assume "isl res" "u' = ?v"
      then show ?thesis using v by auto
    next
      fix b assume b: "u' = recordTransportActivity now p a (length data) b (hook ?v)"
        and d: "\<forall>d. res = Inr d \<longrightarrow> dp_peer d = p \<and> dp_pk d = ps_pk (peer_at p u')"
      have "udp_ok N u u'" unfolding b by (rule w)
      then show ?thesis using att [OF b] d by blast
    qed
  qed (use inv in auto)
qed

lemma processPacket_ok:
  assumes inv: "udp_inv N u" and hook: "\<And>v. udp_inv N v \<Longrightarrow> udp_ok N v (hook v)"
    and pp: "processPacket env now hook data a u = (res, u')"
  shows "udp_ok N u u' \<and> (\<forall>d. res = Inr d \<longrightarrow> attributed N u' d \<and> dp_peer d < length (u_objects u'))"
proof -
  consider "u' = u" "isl res" | "u' = udp_handleHandshakeInit env now data a u" "isl res"
    | "u' = udp_handleHandshakeResp env now data a u" "isl res"
    | "decryptTransport env now hook data a u = (res, u')"
    using pp by (auto simp: processPacket_def Let_def split: if_splits)
  then show ?thesis
    by cases (use inv udp_handleHandshakeInit_ok [OF inv] udp_handleHandshakeResp_ok [OF inv]
        decryptTransport_ok [OF inv hook] in auto)
qed

section \<open>Service generations and delivery\<close>

lemma CloseServiceMux_ok:
  assumes inv: "udp_inv N u" and p: "p < length (u_objects u)"
  shows "udp_ok N u (CloseServiceMux env now until m p u)"
proof (cases "m \<noteq> None \<and> ps_serviceMux (peer_at p u) \<noteq> m")
  case False
  let ?v = "put_peer p ((peer_at p u)\<lparr>ps_state := PeerStateOffline, ps_serviceMux := None\<rparr>) u"
  let ?w = "case ps_serviceMux (peer_at p u) of None \<Rightarrow> ?v | Some m \<Rightarrow> close_mux env now until p m ?v"
  have v: "udp_ok N u ?v" by (rule put_same_peer_ok [OF inv p]) simp_all
  have "udp_ok N ?v (close_mux env now until p m ?v)" if "ps_serviceMux (peer_at p u) = Some m" for m
    using peer_okD(1) [OF inv p] that p by (intro close_mux_ok [OF udp_okD(1) [OF v]]) (auto simp: peer_ok_def)
  then have w: "udp_ok N u ?w" using v udp_ok_trans [OF v] by (cases "ps_serviceMux (peer_at p u)") auto
  show ?thesis using w same_tables_then [OF w emit_same] False by (auto simp: CloseServiceMux_def Let_def)
qed (use inv in \<open>simp add: CloseServiceMux_def\<close>)

lemma GetPeer_ok: "udp_inv N u \<Longrightarrow> GetPeer pk u = Inr p \<Longrightarrow> p < length (u_objects u) \<and> ps_pk (peer_at p u) = pk"
  using tableD by (auto simp: GetPeer_def split: if_splits option.splits)

lemma ClosePeerServiceMux_ok: "udp_inv N u \<Longrightarrow> udp_ok N u (ClosePeerServiceMux env now until pk u)"
  using CloseServiceMux_ok GetPeer_ok by (auto simp: ClosePeerServiceMux_def split: sum.splits)

lemma Peer_ServiceMux_ok:
  assumes "udp_inv N u" "p < length (u_objects u)"
  shows "udp_ok N u (snd (Peer_ServiceMux env p u))"
  using assms ensureServiceMux_ok(1) [OF assms(1) prod.collapse [symmetric] assms(2)]
  by (simp add: Peer_ServiceMux_def)

lemma OpenServiceMux_ok:
  assumes inv: "udp_inv N u" and p: "p < length (u_objects u)"
  shows "udp_ok N u (snd (OpenServiceMux env now until p u))"
proof (cases "u_closed u \<or> u_closing u \<or> ps_session (peer_at p u) = None")
  case False
  obtain m u1 where c: "createServiceMux env p u = (m, u1)" by fastforce
  let ?v = "put_peer p ((peer_at p u1)\<lparr>ps_serviceMux := Some m, ps_state := PeerStateEstablished\<rparr>) u1"
  let ?w = "case ps_serviceMux (peer_at p u) of None \<Rightarrow> ?v | Some old \<Rightarrow> close_mux env now until p old ?v"
  have v: "udp_ok N u ?v" using new_generation_ok [OF inv c p] False by simp
  have "old < length (u_muxes ?v)" if "ps_serviceMux (peer_at p u) = Some old" for old
    using peer_okD(1) [OF inv p] that udp_okD(2) [OF v] by (auto simp: peer_ok_def keeps_def)
  then have "udp_ok N ?v (close_mux env now until p old ?v)" if "ps_serviceMux (peer_at p u) = Some old" for old
    using udp_ok_len [OF v p] that by (intro close_mux_ok [OF udp_okD(1) [OF v]]) auto
  then have w: "udp_ok N u ?w" using v udp_ok_trans [OF v] by (cases "ps_serviceMux (peer_at p u)") auto
  have nc: "\<not> u_closed u" "\<not> u_closing u" "ps_session (peer_at p u) \<noteq> None" using False by simp_all
  show ?thesis using same_tables_then [OF w emit_same] nc c by (simp only: OpenServiceMux_def Let_def) simp
qed (use inv in \<open>auto simp: OpenServiceMux_def\<close>)

text \<open>A multiplexer that the application uses: its frames go out through the peer it belongs to.\<close>

lemma mux_call_ok:
  assumes inv: "udp_inv N u" and p: "p < length (u_objects u)" and m: "m < length (u_muxes u)"
    and c: "service_step (u_muxes u ! m) mux"
  shows "udp_ok N u (run_mux env now p m mux u)"
  by (rule run_mux_ok [OF inv m c p])

lemma count_same: "same_tables u (u\<lparr>u_rpcRouteErrors := a\<rparr>)" "same_tables u (u\<lparr>u_droppedInboundPackets := a\<rparr>)"
    "same_tables u (u\<lparr>u_droppedOutputPackets := a\<rparr>)" "same_tables u (u\<lparr>u_readChan := q\<rparr>)"
    "same_tables u (u\<lparr>u_closing := True\<rparr>)" "same_tables u (u\<lparr>u_closed := True\<rparr>)"
  by (simp_all add: same_tables_def)

lemma deliverInboundKCP_ok:
  assumes inv: "udp_inv N u" and p: "p < length (u_objects u)" and d: "u' \<in> set (deliverInboundKCP env now p payload u)"
  shows "udp_ok N u u'"
proof (cases "DecodeVarint payload")
  case (Inl e)
  then show ?thesis using d inv count_same by (auto simp: deliverInboundKCP_def intro: same_tables_ok)
next
  case (Inr sn)
  obtain service n where sn: "sn = (service, n)" by fastforce
  obtain res v where e: "ensureServiceMux env p u = (res, v)" by fastforce
  note v = ensureServiceMux_ok [OF inv e p]
  show ?thesis
  proof (cases res)
    case (Inl x)
    then have "u' = v\<lparr>u_rpcRouteErrors := u_rpcRouteErrors v + 1\<rparr>"
      using d Inr sn e by (simp add: deliverInboundKCP_def)
    then show ?thesis using same_tables_then [OF v(1) count_same(1)] by simp
  next
    case (Inr m)
    obtain err mux where i: "(err, mux) \<in> set (InputKCP now service (drop n payload) (u_muxes v ! m))"
      and u': "u' = run_mux env now p m mux v \<or> u' = (run_mux env now p m mux v)\<lparr>u_rpcRouteErrors := u_rpcRouteErrors (run_mux env now p m mux v) + 1\<rparr>"
      using d \<open>DecodeVarint payload = Inr sn\<close> sn e Inr by (auto simp: deliverInboundKCP_def Let_def split: if_splits)
    have "mux \<in> set (service_call (InputOp now (drop n payload)) service (u_muxes v ! m))"
      using i by force
    then have "udp_ok N v (run_mux env now p m mux v)"
      by (rule run_mux_ok [OF udp_okD(1) [OF v(1)] v(2) [OF Inr] service_step.call_step udp_ok_len [OF v(1) p]])
    then have r: "udp_ok N u (run_mux env now p m mux v)" using udp_ok_trans [OF v(1)] by simp
    from u' show ?thesis using r same_tables_then [OF r count_same(1)] by auto
  qed
qed

lemma deliverInboundDirect_ok:
  assumes inv: "udp_inv N u" and p: "p < length (u_objects u)"
  shows "udp_ok N u (deliverInboundDirect env p pk proto payload u)"
proof -
  obtain res v where e: "ensureServiceMux env p u = (res, v)" by fastforce
  note v = ensureServiceMux_ok [OF inv e p]
  show ?thesis
  proof (cases res)
    case (Inl x)
    then show ?thesis using same_tables_then [OF v(1) count_same(2)] e by (simp add: deliverInboundDirect_def)
  next
    case (Inr m)
    obtain err mux where i: "InputPacket proto payload (u_muxes v ! m) = (err, mux)" by fastforce
    let ?w = "v\<lparr>u_muxes := (u_muxes v)[m := mux]\<rparr>"
    have "service_step (u_muxes v ! m) mux" using service_step.packet_step [of "u_muxes v ! m" proto payload] i by simp
    then have "udp_ok N v ?w" by (rule set_mux_ok [OF udp_okD(1) [OF v(1)] v(2) [OF Inr]])
    then have w: "udp_ok N u ?w" by (intro udp_ok_trans [OF v(1)])
    have "same_tables ?w (deliverInboundDirect env p pk proto payload u)"
      using Inr e i by (simp add: deliverInboundDirect_def Let_def same_tables_def)
    then show ?thesis by (rule same_tables_then [OF w])
  qed
qed

lemma deliverInbound_ok:
  assumes inv: "udp_inv N u" and d: "\<And>d. pkt = Inr d \<Longrightarrow> dp_peer d < length (u_objects u)"
    and u': "u' \<in> set (deliverInbound env now until pkt u)"
  shows "udp_ok N u u'"
  using u' inv d ClosePeerServiceMux_ok deliverInboundKCP_ok [OF inv] deliverInboundDirect_ok [OF inv]
  by (auto simp: deliverInbound_def split: sum.splits if_splits)

lemma ReadPacket_ok: "udp_inv N u \<Longrightarrow> (x, u') \<in> set (ReadPacket n u) \<Longrightarrow> udp_ok N u u'"
  using same_tables_ok count_same(4) by (auto simp: ReadPacket_def split: if_splits list.splits)

section \<open>Closing\<close>

lemma UDP_Close_ok:
  assumes inv: "udp_inv N u"
  shows "udp_ok N u (UDP_Close env now until u)"
proof (cases "u_closed u \<or> u_closing u")
  case False
  let ?v = "u\<lparr>u_closing := True\<rparr>" and ?peers = "map snd (u_peers u)"
  let ?tell = "filter (\<lambda>p. ps_session (peer_at p ?v) \<noteq> None \<and> ps_endpoint (peer_at p ?v) \<noteq> None) ?peers"
  let ?refs = "concat (map (\<lambda>p. case ps_serviceMux (peer_at p ?v) of None \<Rightarrow> [] | Some m \<Rightarrow> [(p, m)]) ?peers)"
  let ?send = "\<lambda>p u. snd (udp_sendPayload env now p ProtocolConnCtrl closeCtrlPayload u)"
  let ?close = "\<lambda>(p, m) u. close_mux env now until p m u"
  let ?forget = "\<lambda>(p, m) u. if ps_serviceMux (peer_at p u) = Some m then put_peer p ((peer_at p u)\<lparr>ps_serviceMux := None\<rparr>) u else u"
  have v: "udp_ok N u ?v" by (rule same_tables_ok [OF count_same(5) inv])
  have "p < length (u_objects u)" if "p \<in> set ?peers" for p
    using that inv by (force simp: udp_inv_def wf_map_mem)
  then have refs: "p < length (u_objects ?v) \<and> m < length (u_muxes ?v)" if "(p, m) \<in> set ?refs" for p m
    using that peer_okD(1) [OF udp_okD(1) [OF v], of p] by (force simp: peer_ok_def split: option.splits)
  have tell: "p < length (u_objects ?v)" if "p \<in> set ?tell" for p
    using that inv by (force simp: udp_inv_def wf_map_mem)
  let ?a = "fold ?send ?tell ?v" let ?b = "fold ?close ?refs ?a" let ?c = "fold ?forget ?refs ?b"
  have a: "udp_ok N ?v ?a"
    by (rule fold_ok [OF _ udp_okD(1) [OF v]]) (use tell keeps_len udp_sendPayload_ok(1) in blast)
  have keep: "p < length (u_objects x) \<and> m < length (u_muxes x)" if "(p, m) \<in> set ?refs" "keeps ?v x" for p m x
    using refs [OF that(1)] that(2) by (auto simp: keeps_def)
  have b: "udp_ok N ?a ?b"
  proof (rule fold_ok [OF _ udp_okD(1) [OF a]])
    fix r x assume r: "r \<in> set ?refs" "udp_inv N x" "keeps ?a x"
    obtain p m where rr: "r = (p, m)" by fastforce
    have "p < length (u_objects x)" "m < length (u_muxes x)"
      using keep [OF _ keeps_trans [OF udp_okD(2) [OF a] r(3)], of p m] r(1) rr by simp_all
    then have "udp_ok N x (close_mux env now until p m x)" by (intro close_mux_ok [OF r(2)])
    then show "udp_ok N x (?close r x)" by (simp add: rr)
  qed
  have ab: "keeps ?v ?b" by (rule keeps_trans [OF udp_okD(2) [OF a] udp_okD(2) [OF b]])
  have c: "udp_ok N ?b ?c"
  proof (rule fold_ok [OF _ udp_okD(1) [OF b]])
    fix r x assume r: "r \<in> set ?refs" "udp_inv N x" "keeps ?b x"
    obtain p m where rr: "r = (p, m)" by fastforce
    have "p < length (u_objects x)" using keep [OF _ keeps_trans [OF ab r(3)], of p m] r(1) rr by simp
    then have "udp_ok N x (put_peer p ((peer_at p x)\<lparr>ps_serviceMux := None\<rparr>) x)"
      by (intro put_same_peer_ok [OF r(2)]) simp_all
    then show "udp_ok N x (?forget r x)" using r(2) rr by simp
  qed
  have "udp_ok N u ?c"
    using udp_ok_trans [OF v] udp_ok_trans [OF a] udp_ok_trans [OF b] c by blast
  from same_tables_then [OF this count_same(6)] False show ?thesis
    by (simp add: UDP_Close_def Let_def)
qed (use inv in \<open>auto simp: UDP_Close_def\<close>)

end
