(* ===== verification/CoreUDPThms.thy ===== *)
theory CoreUDPThms
  imports CoreUDPInv
begin

text \<open>
  The runs of a UDP network, with any interleaving of its API, its timeouts, the packets it receives
  and the calls its multiplexers serve, and what holds in every state they reach.
\<close>

definition from_peer :: "UDP \<Rightarrow> decoded \<Rightarrow> bool" where
  "from_peer u d \<longleftrightarrow> dp_peer d < length (u_objects u) \<and> ps_pk (peer_at (dp_peer d) u) = dp_pk d"

text \<open>
  \<open>N\<close> are the keys the application itself names with \<^verbatim>\<open>SetPeerEndpoint\<close>. A packet is decoded by a
  worker, in the middle of which anything may happen, and delivered later.
\<close>

inductive udp_runs :: "udp_env \<Rightarrow> bytes set \<Rightarrow> UDP \<Rightarrow> UDP \<Rightarrow> bool" for env N where
  start: "udp_runs env N u u"
| endpoint_step: "udp_runs env N u v \<Longrightarrow> pk \<in> N \<Longrightarrow> udp_runs env N u (SetPeerEndpoint pk e v)"
| connect_step: "udp_runs env N u v \<Longrightarrow> udp_runs env N u (snd (Connect env now pk v))"
| handle_connect_step: "udp_runs env N u v \<Longrightarrow> p < length (u_objects v) \<Longrightarrow>
    udp_runs env N u (snd (Peer_Connect env now p v))"
| timeout_step: "udp_runs env N u v \<Longrightarrow> p < length (u_objects v) \<Longrightarrow>
    udp_runs env N u (snd (initiate_timeout p i v))"
| packet_step: "udp_runs env N u v \<Longrightarrow> (\<forall>x. udp_runs env N x (hook x)) \<Longrightarrow>
    udp_runs env N u (snd (processPacket env now hook data a v))"
| deliver_step: "udp_runs env N u v \<Longrightarrow> (\<forall>d. pkt = Inr d \<longrightarrow> from_peer v d) \<Longrightarrow>
    v' \<in> set (deliverInbound env now until pkt v) \<Longrightarrow> udp_runs env N u v'"
| send_step: "udp_runs env N u v \<Longrightarrow> p < length (u_objects v) \<Longrightarrow>
    udp_runs env N u (snd (udp_sendPayload env now p proto d v))"
| write_step: "udp_runs env N u v \<Longrightarrow> udp_runs env N u (snd (WriteTo env now pk d v))"
| read_step: "udp_runs env N u v \<Longrightarrow> (x, v') \<in> set (ReadPacket n v) \<Longrightarrow> udp_runs env N u v'"
| mux_step: "udp_runs env N u v \<Longrightarrow> p < length (u_objects v) \<Longrightarrow>
    udp_runs env N u (snd (Peer_ServiceMux env p v))"
| open_mux_step: "udp_runs env N u v \<Longrightarrow> p < length (u_objects v) \<Longrightarrow>
    udp_runs env N u (snd (OpenServiceMux env now until p v))"
| close_mux_step: "udp_runs env N u v \<Longrightarrow> p < length (u_objects v) \<Longrightarrow>
    udp_runs env N u (CloseServiceMux env now until m p v)"
| mux_call_step: "udp_runs env N u v \<Longrightarrow> p < length (u_objects v) \<Longrightarrow> m < length (u_muxes v) \<Longrightarrow>
    sv_peer (u_muxes v ! m) = ps_pk (peer_at p v) \<Longrightarrow> service_step (u_muxes v ! m) mux \<Longrightarrow>
    udp_runs env N u (run_mux env now p m mux v)"
| count_step: "udp_runs env N u v \<Longrightarrow>
    v' = countReceived now n v \<or> v' = dropOutput v \<or> v' = dropDecrypt v \<or> v' = dropInbound v \<Longrightarrow>
    udp_runs env N u v'"
| close_step: "udp_runs env N u v \<Longrightarrow> udp_runs env N u (UDP_Close env now until v)"

lemma Connect_ok: "udp_inv N u \<Longrightarrow> udp_ok N u (snd (Connect env now pk u))"
  using initiate_start_ok tableD by (auto simp: Connect_def split: option.splits)

lemma WriteTo_ok: "udp_inv N u \<Longrightarrow> udp_ok N u (snd (WriteTo env now pk d u))"
  using udp_sendPayload_ok(1) tableD by (auto simp: WriteTo_def split: option.splits)

lemma udp_runs_ok: "udp_runs env N u v \<Longrightarrow> udp_inv N u \<Longrightarrow> udp_ok N u v"
proof (induction rule: udp_runs.induct)
  case (packet_step u v hook now data a)
  have h: "udp_inv N x \<Longrightarrow> udp_ok N x (hook x)" for x using packet_step(3) by blast
  note v = packet_step(2) [OF packet_step(4)]
  show ?case using udp_ok_trans [OF v] processPacket_ok [OF _ h prod.collapse [symmetric]] by blast
next
  case (deliver_step u v pkt v' now until)
  have v: "udp_ok N u v" using deliver_step by blast
  have "udp_ok N v v'"
    using deliver_step(2,3) by (intro deliverInbound_ok [OF udp_okD(1) [OF v]]) (auto simp: from_peer_def)
  then show ?case using udp_ok_trans [OF v] by blast
next
  case (mux_call_step u v p m mux now)
  note v = mux_call_step(6) [OF mux_call_step(7)]
  show ?case using udp_ok_trans [OF v] run_mux_ok mux_call_step(2-5) by blast
next
  case (endpoint_step u v pk e)
  then show ?case using udp_ok_trans SetPeerEndpoint_ok by blast
next
  case (connect_step u v now pk)
  then show ?case using udp_ok_trans Connect_ok by blast
next
  case (handle_connect_step u v p now)
  then show ?case using udp_ok_trans initiate_start_ok by (auto simp: Peer_Connect_def)
next
  case (timeout_step u v p i)
  then show ?case using udp_ok_trans initiate_timeout_ok by blast
next
  case (send_step u v p now proto d)
  then show ?case using udp_ok_trans udp_sendPayload_ok(1) by blast
next
  case (write_step u v now pk d)
  then show ?case using udp_ok_trans WriteTo_ok by blast
next
  case (read_step u v x v' n)
  then show ?case using udp_ok_trans ReadPacket_ok by blast
next
  case (mux_step u v p)
  then show ?case using udp_ok_trans Peer_ServiceMux_ok by blast
next
  case (open_mux_step u v p now until)
  then show ?case using udp_ok_trans OpenServiceMux_ok by blast
next
  case (close_mux_step u v p now until m)
  then show ?case using udp_ok_trans CloseServiceMux_ok by blast
next
  case (close_step u v now until)
  then show ?case using udp_ok_trans UDP_Close_ok by blast
next
  case (count_step u v v' now n)
  then have "same_tables v v'"
    by (auto simp: countReceived_def dropOutput_def dropDecrypt_def dropInbound_def same_tables_def)
  then show ?case using count_step same_tables_then by blast
qed simp

lemma NewUDP_inv: "NewUDP key allow cfg mode chan ev rnd = Inr u \<Longrightarrow> udp_inv N u"
  by (auto simp: NewUDP_def Let_def udp_inv_def split: option.splits sum.splits)

lemma from_peer_later: "from_peer u d \<Longrightarrow> udp_ok N u v \<Longrightarrow> from_peer v d"
  by (simp add: from_peer_def udp_ok_def keeps_def)

lemma processPacket_from_peer:
  assumes "udp_inv N u" "\<forall>x. udp_runs env N x (hook x)" "processPacket env now hook data a u = (Inr d, u')"
  shows "from_peer u' d"
proof -
  have h: "udp_inv N x \<Longrightarrow> udp_ok N x (hook x)" for x using assms(2) udp_runs_ok by blast
  have "attributed N u' d" "udp_inv N u'" using processPacket_ok [OF assms(1) h assms(3)] by (auto simp: udp_ok_def)
  then show ?thesis using tableD by (auto simp: from_peer_def attributed_def)
qed

lemma NewUDP_allow: "NewUDP key allow cfg mode chan ev rnd = Inr u \<Longrightarrow> u_allowFunc u = allow"
  by (auto simp: NewUDP_def Let_def split: option.splits sum.splits)

text \<open>
  C3: in every state a network reaches, the peer table and the peers agree, both sessions of a peer
  were negotiated with its key, an established peer has a session, the index table and the pending
  handshakes point to peers, the result of a pending handshake has not been sent, so that sending
  it never blocks, and every multiplexer is one of its peer's and in a reachable state of its own.
\<close>

theorem udp_reachable_sound:
  assumes "NewUDP key allow cfg mode chan ev rnd = Inr u0" "udp_runs env N u0 u"
  shows "(\<forall>pk p. map_get (u_peers u) pk = Some p \<longleftrightarrow> p < length (u_objects u) \<and> ps_pk (peer_at p u) = pk)
    \<and> (\<forall>p < length (u_objects u). \<forall>s. ps_session (peer_at p u) = Some s \<or> ps_previous (peer_at p u) = Some s \<longrightarrow>
         s < length (u_sessions u) \<and> ses_remotePK (u_sessions u ! s) = ps_pk (peer_at p u))
    \<and> (\<forall>p < length (u_objects u). ps_state (peer_at p u) = PeerStateEstablished \<longrightarrow> ps_session (peer_at p u) \<noteq> None)
    \<and> (\<forall>p < length (u_objects u). \<forall>m. ps_serviceMux (peer_at p u) = Some m \<longrightarrow>
         service_reach (u_muxes u ! m) \<and> sv_peer (u_muxes u ! m) = ps_pk (peer_at p u) \<and> ps_session (peer_at p u) \<noteq> None)
    \<and> (\<forall>i p. map_get (u_byIndex u) i = Some p \<longrightarrow> p < length (u_objects u))
    \<and> (\<forall>i h. map_get (u_pending u) i = Some h \<longrightarrow> ph_localIdx h = i \<and> ph_peer h < length (u_objects u)
         \<and> u_done u ! ph_done h = None)"
proof -
  have inv: "udp_inv N u" by (rule udp_okD(1) [OF udp_runs_ok [OF assms(2) NewUDP_inv [OF assms(1)]]])
  have ok: "peer_ok (u_sessions u) (u_muxes u) (peer_at p u) \<and> map_get (u_peers u) (ps_pk (peer_at p u)) = Some p"
    if "p < length (u_objects u)" for p
    using peer_okD [OF inv that] by blast
  have m: "m < length (u_muxes u) \<Longrightarrow> service_reach (u_muxes u ! m)" for m using inv by (simp add: udp_inv_def)
  show ?thesis
    using ok m tableD [OF inv] indexD [OF inv] pendingD [OF inv]
    by (intro conjI allI impI) (auto simp: peer_ok_def)
qed

lemma toy_caller_runs: "udp_runs env {kp_Public (toy_key 2)} (toy_udp 1) toy_caller"
  unfolding toy_caller_def by (rule udp_runs.endpoint_step [OF udp_runs.start]) simp

theorem udp_reachable_sound_witness:
  "(\<forall>pk p. map_get (u_peers toy_caller) pk = Some p
      \<longleftrightarrow> p < length (u_objects toy_caller) \<and> ps_pk (peer_at p toy_caller) = pk)
    \<and> map_get (u_peers toy_caller) (kp_Public (toy_key 2)) = Some 0"
  using udp_reachable_sound [OF toy_udp_new toy_caller_runs] by (simp add: toy_caller_eq)


definition toy_private :: UDP where
  "toy_private = (toy_udp 1)\<lparr>u_allowFunc := Some (\<lambda>pk. pk = [9])\<rparr>"

lemma toy_private_new:
  "NewUDP (Some (toy_key 1)) (Some (\<lambda>pk. pk = [9])) (toy_service_config False) CipherModePlaintext 0 None
     (replicate 40 7) = Inr toy_private"
  by (simp add: NewUDP_def toy_private_def toy_udp_def NormalizeCipherMode_def DecryptedChanSize_def CipherModePlaintext_def)




end
