(* ===== verification/CoreUDPPipe.thy ===== *)
theory CoreUDPPipe
  imports CoreUDPThms
begin

text \<open>
  The inbound pipeline of \<^verbatim>\<open>udp.go\<close>: \<^verbatim>\<open>ioLoop\<close> fills packets from a pool and puts each into the output
  queue and into the decryption queue, workers decrypt in parallel, and one loop delivers in the
  order of arrival, waiting for each packet to become ready. A packet goes back to the pool when the
  last of its references is dropped.

  Each goroutine is a state and the moves between two of its channel operations or atomic
  operations are one step, so that the runs are all the interleavings. A packet that was released
  stays in the state under its number, so that touching it again would be visible.
\<close>

section \<open>State\<close>

record inbound =
  ib_data :: bytes
  ib_from :: addr
  ib_result :: "(udp_error + decoded) option"
  ib_refs :: int
  ib_released :: bool
  ib_ready :: bool

text \<open>Where the receive loop is, and where a worker is that holds a packet.\<close>

datatype io_state =
    IoIdle
  | IoReading "nat list"
  | IoDispatch "nat list"
  | IoQueued nat bool "nat list"
  | IoUnref nat "nat list"
  | IoExit

datatype job_stage = JobTaken | JobDone | JobUnref

datatype recv_state = RecvIdle | RecvWait nat | RecvUnref nat | RecvExit

record pipe =
  pp_udp :: UDP
  pp_packets :: "inbound list"
  pp_decrypt :: "nat list"
  pp_decryptCap :: nat
  pp_output :: "nat list"
  pp_outputCap :: nat
  pp_batch :: bool
  pp_io :: io_state
  pp_idle :: nat
  pp_jobs :: "(nat \<times> job_stage) list"
  pp_exited :: nat
  pp_recv :: recv_state
  pp_outstanding :: int
  pp_closeChan :: bool
  pp_panic :: bool
  pp_arrived :: "nat list"
  pp_handled :: "nat list"

section \<open>Packets\<close>

definition newInbound :: inbound where
  "newInbound = \<lparr>ib_data = [], ib_from = None, ib_result = None, ib_refs = 0, ib_released = False, ib_ready = False\<rparr>"

fun acquirePackets :: "nat \<Rightarrow> pipe \<Rightarrow> nat list \<times> pipe" where
  "acquirePackets 0 s = ([], s)"
| "acquirePackets (Suc n) s =
     (case acquirePackets n (s\<lparr>pp_packets := pp_packets s @ [newInbound], pp_outstanding := pp_outstanding s + 1\<rparr>) of
        (ps, s') \<Rightarrow> (length (pp_packets s) # ps, s'))"

definition update_packet :: "nat \<Rightarrow> (inbound \<Rightarrow> inbound) \<Rightarrow> pipe \<Rightarrow> pipe" where
  "update_packet p f s = s\<lparr>pp_packets := (pp_packets s)[p := f (pp_packets s ! p)]\<rparr>"

definition releasePacket :: "nat \<Rightarrow> pipe \<Rightarrow> pipe" where
  "releasePacket p s =
     (if ib_released (pp_packets s ! p) then s
      else let s = update_packet p (\<lambda>k. k\<lparr>ib_released := True\<rparr>) s
           in s\<lparr>pp_outstanding := pp_outstanding s - 1\<rparr>)"

definition unrefPacket :: "nat \<Rightarrow> pipe \<Rightarrow> pipe" where
  "unrefPacket p s =
     (let s = update_packet p (\<lambda>k. k\<lparr>ib_refs := ib_refs k - 1\<rparr>) s
      in if ib_refs (pp_packets s ! p) = 0 then releasePacket p s else s)"

text \<open>\<^verbatim>\<open>close(pkt.ready)\<close> panics when the channel is closed already.\<close>

definition closeReady :: "nat \<Rightarrow> pipe \<Rightarrow> pipe" where
  "closeReady p s =
     (if ib_ready (pp_packets s ! p) then s\<lparr>pp_panic := True\<rparr>
      else update_packet p (\<lambda>k. k\<lparr>ib_ready := True\<rparr>) s)"

definition setResult :: "nat \<Rightarrow> udp_error + decoded \<Rightarrow> pipe \<Rightarrow> pipe" where
  "setResult p r s = update_packet p (\<lambda>k. k\<lparr>ib_result := Some r\<rparr>) s"

text \<open>\<^verbatim>\<open>newBatchConn\<close> decides between \<^verbatim>\<open>recvmmsg\<close> with a batch and single reads.\<close>

definition DefaultBatchSize :: nat where "DefaultBatchSize = 64"

definition batchSize :: "bool \<Rightarrow> nat" where
  "batchSize batch = (if batch then DefaultBatchSize else 1)"

section \<open>The receive loop\<close>

definition io_acquire :: "pipe \<Rightarrow> pipe" where
  "io_acquire s =
     (if u_closed (pp_udp s) then s\<lparr>pp_io := IoExit\<rparr>
      else case acquirePackets (batchSize (pp_batch s)) s of (ps, s) \<Rightarrow> s\<lparr>pp_io := IoReading ps\<rparr>)"

definition io_read_error :: "nat list \<Rightarrow> pipe \<Rightarrow> pipe" where
  "io_read_error ps s =
     (let s = fold releasePacket ps s
      in if u_closed (pp_udp s) then s\<lparr>pp_io := IoExit\<rparr> else s\<lparr>pp_io := IoIdle\<rparr>)"

text \<open>The datagrams that one read returned, at most one for each packet; the rest is released.\<close>

definition io_read :: "nat list \<Rightarrow> (bytes \<times> addr) list \<Rightarrow> pipe \<Rightarrow> pipe" where
  "io_read ps dgrams s =
     (if \<not> pp_batch s \<and> u_closed (pp_udp s) then (fold releasePacket ps s)\<lparr>pp_io := IoExit\<rparr>
      else
      let n = length dgrams;
          s = fold releasePacket (drop n ps) s;
          s = fold (\<lambda>(p, data, from_addr). update_packet p (\<lambda>k. k\<lparr>ib_data := data, ib_from := from_addr\<rparr>))
                (zip (take n ps) dgrams) s
      in s\<lparr>pp_io := IoDispatch (take n ps)\<rparr>)"

text \<open>
  \<^verbatim>\<open>dispatchToChannels\<close> up to the attempt to queue for delivery, and the attempt to queue for
  decryption. When the network is closing, \<open>c\<close> and \<open>b\<close> say what the first look at \<^verbatim>\<open>closeChan\<close> saw and
  which of the ready alternatives of the \<^verbatim>\<open>select\<close> was taken.
\<close>

definition io_queue_output :: "int \<Rightarrow> bool \<Rightarrow> bool \<Rightarrow> nat \<Rightarrow> nat list \<Rightarrow> pipe \<Rightarrow> pipe" where
  "io_queue_output now c b p rest s =
     (let k = pp_packets s ! p in
      if length (ib_data k) < 1 \<or> ib_from k = None then (releasePacket p s)\<lparr>pp_io := IoDispatch rest\<rparr>
      else
        let s = s\<lparr>pp_udp := countReceived now (length (ib_data k)) (pp_udp s)\<rparr> in
        if pp_closeChan s \<and> c then (releasePacket p s)\<lparr>pp_io := IoDispatch rest\<rparr>
        else
          let s = update_packet p (\<lambda>k. k\<lparr>ib_refs := 2\<rparr>) s in
          if length (pp_output s) < pp_outputCap s \<and> \<not> (pp_closeChan s \<and> b) then
            s\<lparr>pp_output := pp_output s @ [p], pp_arrived := pp_arrived s @ [p], pp_io := IoQueued p True rest\<rparr>
          else if pp_closeChan s then
            (unrefPacket p (unrefPacket p s))\<lparr>pp_io := IoDispatch rest\<rparr>
          else
            (unrefPacket p (s\<lparr>pp_udp := dropOutput (pp_udp s)\<rparr>))\<lparr>pp_io := IoQueued p False rest\<rparr>)"

definition io_queue_decrypt :: "bool \<Rightarrow> nat \<Rightarrow> bool \<Rightarrow> nat list \<Rightarrow> pipe \<Rightarrow> pipe" where
  "io_queue_decrypt b p outputQueued rest s =
     (if length (pp_decrypt s) < pp_decryptCap s \<and> \<not> (pp_closeChan s \<and> b) then
        s\<lparr>pp_decrypt := pp_decrypt s @ [p], pp_io := IoDispatch rest\<rparr>
      else
        let s = (if pp_closeChan s then s else s\<lparr>pp_udp := dropDecrypt (pp_udp s)\<rparr>);
            s = (if outputQueued then closeReady p (setResult p (Inl ErrNoData) s) else s)
        in s\<lparr>pp_io := IoUnref p rest\<rparr>)"

section \<open>The workers and the delivery loop\<close>

definition work :: "udp_env \<Rightarrow> int \<Rightarrow> (UDP \<Rightarrow> UDP) \<Rightarrow> nat \<Rightarrow> pipe \<Rightarrow> pipe" where
  "work env now hook p s =
     (let k = pp_packets s ! p in
      case processPacket env now hook (ib_data k) (ib_from k) (pp_udp s) of
        (res, u) \<Rightarrow> setResult p res (s\<lparr>pp_udp := u\<rparr>))"

text \<open>The network after the delivery of a packet: what the \<^verbatim>\<open>switch\<close> of \<^verbatim>\<open>deliverInbound\<close> may do.\<close>

definition deliveries :: "udp_env \<Rightarrow> int \<Rightarrow> int \<Rightarrow> nat \<Rightarrow> pipe \<Rightarrow> UDP list" where
  "deliveries env now until p s =
     (case ib_result (pp_packets s ! p) of
        None \<Rightarrow> [dropInbound (pp_udp s)]
      | Some r \<Rightarrow> deliverInbound env now until r (pp_udp s))"

inductive pipe_step :: "udp_env \<Rightarrow> bytes set \<Rightarrow> pipe \<Rightarrow> pipe \<Rightarrow> bool" for env N where
  acquire: "pp_io s = IoIdle \<Longrightarrow> pipe_step env N s (io_acquire s)"
| read_error: "pp_io s = IoReading ps \<Longrightarrow> pipe_step env N s (io_read_error ps s)"
| read: "pp_io s = IoReading ps \<Longrightarrow> length dgrams \<le> length ps \<Longrightarrow> pipe_step env N s (io_read ps dgrams s)"
| dispatched: "pp_io s = IoDispatch [] \<Longrightarrow> pipe_step env N s (s\<lparr>pp_io := IoIdle\<rparr>)"
| queue_output: "pp_io s = IoDispatch (p # rest) \<Longrightarrow> pipe_step env N s (io_queue_output now c b p rest s)"
| queue_decrypt: "pp_io s = IoQueued p queued rest \<Longrightarrow> pipe_step env N s (io_queue_decrypt b p queued rest s)"
| io_unref: "pp_io s = IoUnref p rest \<Longrightarrow> pipe_step env N s ((unrefPacket p s)\<lparr>pp_io := IoDispatch rest\<rparr>)"
| take_job: "pp_idle s = Suc n \<Longrightarrow> pp_decrypt s = p # ps \<Longrightarrow>
    pipe_step env N s (s\<lparr>pp_idle := n, pp_decrypt := ps, pp_jobs := pp_jobs s @ [(p, JobTaken)]\<rparr>)"
| process_job: "pp_jobs s = a @ (p, JobTaken) # c \<Longrightarrow> (\<forall>x. udp_runs env N x (hook x)) \<Longrightarrow>
    pipe_step env N s ((work env now hook p s)\<lparr>pp_jobs := a @ (p, JobDone) # c\<rparr>)"
| ready_job: "pp_jobs s = a @ (p, JobDone) # c \<Longrightarrow>
    pipe_step env N s ((closeReady p s)\<lparr>pp_jobs := a @ (p, JobUnref) # c\<rparr>)"
| unref_job: "pp_jobs s = a @ (p, JobUnref) # c \<Longrightarrow>
    pipe_step env N s ((unrefPacket p s)\<lparr>pp_jobs := a @ c, pp_idle := pp_idle s + 1\<rparr>)"
| worker_exit: "pp_idle s = Suc n \<Longrightarrow> pp_closeChan s \<Longrightarrow>
    pipe_step env N s (s\<lparr>pp_idle := n, pp_exited := pp_exited s + 1\<rparr>)"
| take_output: "pp_recv s = RecvIdle \<Longrightarrow> pp_output s = p # ps \<Longrightarrow>
    pipe_step env N s (s\<lparr>pp_output := ps, pp_recv := RecvWait p\<rparr>)"
| deliver: "pp_recv s = RecvWait p \<Longrightarrow> ib_ready (pp_packets s ! p) \<Longrightarrow> u' \<in> set (deliveries env now until p s) \<Longrightarrow>
    pipe_step env N s (s\<lparr>pp_udp := u', pp_recv := RecvUnref p, pp_handled := pp_handled s @ [p]\<rparr>)"
| deliver_closed: "pp_recv s = RecvWait p \<Longrightarrow> pp_closeChan s \<Longrightarrow>
    pipe_step env N s (s\<lparr>pp_recv := RecvUnref p, pp_handled := pp_handled s @ [p]\<rparr>)"
| recv_unref: "pp_recv s = RecvUnref p \<Longrightarrow> pipe_step env N s ((unrefPacket p s)\<lparr>pp_recv := RecvIdle\<rparr>)"
| recv_exit: "pp_recv s = RecvIdle \<Longrightarrow> pp_closeChan s \<Longrightarrow> pipe_step env N s (s\<lparr>pp_recv := RecvExit\<rparr>)"
| api: "udp_runs env N (pp_udp s) u' \<Longrightarrow> pipe_step env N s (s\<lparr>pp_udp := u'\<rparr>)"
| close_channel: "u_closed (pp_udp s) \<Longrightarrow> pipe_step env N s (s\<lparr>pp_closeChan := True\<rparr>)"

text \<open>The pipeline that \<^verbatim>\<open>NewUDP\<close> starts.\<close>

definition startPipe :: "UDP \<Rightarrow> nat \<Rightarrow> nat \<Rightarrow> nat \<Rightarrow> bool \<Rightarrow> pipe" where
  "startPipe u rawSize decryptedSize workers batch =
     \<lparr>pp_udp = u, pp_packets = [], pp_decrypt = [], pp_decryptCap = rawSize, pp_output = [],
      pp_outputCap = decryptedSize, pp_batch = batch, pp_io = IoIdle, pp_idle = workers, pp_jobs = [], pp_exited = 0,
      pp_recv = RecvIdle, pp_outstanding = 0, pp_closeChan = False, pp_panic = False,
      pp_arrived = [], pp_handled = []\<rparr>"

inductive pipe_run :: "udp_env \<Rightarrow> bytes set \<Rightarrow> pipe \<Rightarrow> pipe \<Rightarrow> bool" for env N where
  start: "pipe_run env N s s"
| step: "pipe_run env N s t \<Longrightarrow> pipe_step env N t v \<Longrightarrow> pipe_run env N s v"

end
