(* ===== verification/CoreUDPPipeInv.thy ===== *)
theory CoreUDPPipeInv
  imports CoreUDPPipe "HOL-Library.Multiset"
begin

text \<open>
  The bookkeeping of the pipeline: which goroutine or queue owns which reference of a packet. The
  invariant is stated over lists of owners, and every operation on a packet has one lemma that says
  how it moves a packet from one list to another.
\<close>

section \<open>Owners of references\<close>

text \<open>
  \<open>own\<close>: packets the receive loop holds without a reference; \<open>dec\<close> and \<open>out\<close>: the owners of a
  decryption and of a delivery reference; \<open>unr\<close>: packets whose channel \<^verbatim>\<open>ready\<close> someone will close;
  \<open>dn\<close>: packets that have their result.
\<close>

definition refs_ok ::
  "nat list \<Rightarrow> nat list \<Rightarrow> nat list \<Rightarrow> nat list \<Rightarrow> nat list \<Rightarrow> inbound list \<Rightarrow> int \<Rightarrow> bool" where
  "refs_ok own dec out unr dn ks n \<longleftrightarrow>
     distinct (own @ dec) \<and> distinct (own @ out) \<and> distinct unr
   \<and> set own \<union> set dec \<union> set out \<subseteq> {..<length ks} \<and> set unr \<subseteq> set dec
   \<and> (\<forall>p < length ks. ib_released (ks ! p) = (p \<notin> set own \<and> p \<notin> set dec \<and> p \<notin> set out)
        \<and> ib_refs (ks ! p) = of_bool (p \<in> set dec) + of_bool (p \<in> set out)
        \<and> (p \<in> set own \<union> set unr \<longrightarrow> \<not> ib_ready (ks ! p))
        \<and> (p \<in> set out \<longrightarrow> ib_ready (ks ! p) \<or> p \<in> set unr)
        \<and> (ib_ready (ks ! p) \<longrightarrow> ib_result (ks ! p) \<noteq> None))
   \<and> (\<forall>p \<in> set dn. p \<in> set unr \<and> ib_result (ks ! p) \<noteq> None)
   \<and> n = (\<Sum>k\<leftarrow>ks. of_bool (\<not> ib_released k))"

lemma mset_distinct: "mset xs = mset ys \<Longrightarrow> distinct xs = distinct ys"
  using mset_eq_setD [of xs ys] by (simp add: distinct_count_atmost_1)

lemma sum_update:
  fixes f :: "'a \<Rightarrow> int"
  assumes "p < length ks"
  shows "(\<Sum>k\<leftarrow>ks[p := x]. f k) = (\<Sum>k\<leftarrow>ks. f k) - f (ks ! p) + f x"
  using assms by (induction ks arbitrary: p) (auto split: nat.splits)

lemma refs_ok_perm:
  assumes "refs_ok own dec out unr dn ks n" "mset dec' = mset dec" "mset out' = mset out"
    "mset unr' = mset unr" "mset own' = mset own" "set dn' \<subseteq> set dn"
  shows "refs_ok own' dec' out' unr' dn' ks n"
proof -
  have d: "distinct (own' @ dec') = distinct (own @ dec)" "distinct (own' @ out') = distinct (own @ out)"
    "distinct unr' = distinct unr"
    by (rule mset_distinct; simp add: assms(2-5))+
  have s: "set dec' = set dec" "set out' = set out" "set unr' = set unr" "set own' = set own"
    using assms(2-5) by (auto dest: mset_eq_setD)
  show ?thesis using assms(1,6) unfolding refs_ok_def d s by blast
qed

lemma refs_ok_acquire:
  assumes "refs_ok own dec out unr dn ks n"
  shows "refs_ok (own @ [length ks]) dec out unr dn (ks @ [newInbound]) (n + 1)"
  using assms unfolding refs_ok_def
  by (auto simp: newInbound_def nth_append less_Suc_eq subset_iff)

lemma refs_ok_release:
  assumes "refs_ok (a @ p # b) dec out unr dn ks n"
  shows "\<not> ib_released (ks ! p)" "refs_ok (a @ b) dec out unr dn (ks[p := (ks ! p)\<lparr>ib_released := True\<rparr>]) (n - 1)"
proof -
  have p: "p < length ks" using assms by (auto simp: refs_ok_def)
  then show r: "\<not> ib_released (ks ! p)" using assms by (auto simp: refs_ok_def)
  have "(\<Sum>k\<leftarrow>ks[p := (ks ! p)\<lparr>ib_released := True\<rparr>]. of_bool (\<not> ib_released k)) = n - 1"
    using p r assms by (simp add: sum_update refs_ok_def)
  then show "refs_ok (a @ b) dec out unr dn (ks[p := (ks ! p)\<lparr>ib_released := True\<rparr>]) (n - 1)"
    using assms p unfolding refs_ok_def by (auto simp: nth_list_update)
qed

lemma refs_ok_frame:
  assumes "refs_ok own dec out unr dn ks n" "ib_released k = ib_released (ks ! p)" "ib_refs k = ib_refs (ks ! p)"
    "ib_ready k = ib_ready (ks ! p)" "ib_result k = ib_result (ks ! p) \<or> ib_result k \<noteq> None"
  shows "refs_ok own dec out unr dn (ks[p := k]) n"
proof (cases "p < length ks")
  case True
  have "(\<Sum>k\<leftarrow>ks[p := k]. of_bool (\<not> ib_released k)) = n"
    using True assms by (simp add: sum_update refs_ok_def)
  moreover have "ib_released (ks[p := k] ! q) = ib_released (ks ! q)" "ib_refs (ks[p := k] ! q) = ib_refs (ks ! q)"
    "ib_ready (ks[p := k] ! q) = ib_ready (ks ! q)" "ib_result (ks ! q) \<noteq> None \<Longrightarrow> ib_result (ks[p := k] ! q) \<noteq> None" for q
    using assms(2-5) True by (auto simp: nth_list_update)
  ultimately show ?thesis using assms(1) unfolding refs_ok_def by simp
next
  case False
  then show ?thesis using assms(1) by (simp add: list_update_beyond)
qed

lemma refs_ok_done:
  assumes "refs_ok own dec out unr dn ks n" "p \<in> set unr" "ib_result (ks ! p) \<noteq> None"
  shows "refs_ok own dec out unr (p # dn) ks n"
  using assms by (simp add: refs_ok_def)

lemma refs_ok_reserve:
  assumes "refs_ok (p # own) dec out unr dn ks n"
  shows "refs_ok own (p # dec) (p # out) (p # unr) dn (ks[p := (ks ! p)\<lparr>ib_refs := 2\<rparr>]) n"
proof -
  have p: "p < length ks" "p \<notin> set own" "p \<notin> set dec" "p \<notin> set out" "p \<notin> set unr"
    using assms by (auto simp: refs_ok_def)
  have "(\<Sum>k\<leftarrow>ks[p := (ks ! p)\<lparr>ib_refs := 2\<rparr>]. of_bool (\<not> ib_released k)) = n"
    using p assms by (simp add: sum_update refs_ok_def)
  then show ?thesis using assms p unfolding refs_ok_def by (auto simp: nth_list_update)
qed

text \<open>Dropping a reference, in one piece: the packet is released with the last one.\<close>

definition unref :: "inbound \<Rightarrow> inbound" where
  "unref k = k\<lparr>ib_refs := ib_refs k - 1, ib_released := ib_released k \<or> ib_refs k = 1\<rparr>"

lemma live_update: "\<not> ib_released k \<Longrightarrow> k\<lparr>ib_refs := x, ib_released := False\<rparr> = k\<lparr>ib_refs := x\<rparr>"
  by (cases k) simp

lemma unrefPacket_eq:
  assumes "p < length (pp_packets s)" "\<not> ib_released (pp_packets s ! p)"
  shows "unrefPacket p s = s\<lparr>pp_packets := (pp_packets s)[p := unref (pp_packets s ! p)],
     pp_outstanding := pp_outstanding s - of_bool (ib_refs (pp_packets s ! p) = 1)\<rparr>"
  using assms by (auto simp: unrefPacket_def update_packet_def releasePacket_def unref_def Let_def live_update)

lemma unref_fields [simp]:
  "ib_refs (unref k) = ib_refs k - 1" "ib_ready (unref k) = ib_ready k" "ib_result (unref k) = ib_result k"
  "ib_released (unref k) = (ib_released k \<or> ib_refs k = 1)"
  by (simp_all add: unref_def)

lemma refs_ok_unref:
  assumes "refs_ok own dec out unr dn ks n" and p: "p < length ks" "\<not> ib_released (ks ! p)"
    and d: "mset dec = (if b then add_mset p (mset dec') else mset dec')" "b \<Longrightarrow> p \<notin> set unr"
      "mset out = (if b then mset out' else add_mset p (mset out'))"
  shows "refs_ok own dec' out' unr dn (ks[p := unref (ks ! p)]) (n - of_bool (ib_refs (ks ! p) = 1))"
proof -
  let ?ks = "ks[p := unref (ks ! p)]"
  have s: "set dec = (if b then insert p (set dec') else set dec')" "set out = (if b then set out' else insert p (set out'))"
    using d(1,3) by (auto dest!: arg_cong [where f = set_mset] split: if_splits)
  have "distinct dec" "distinct out" using assms(1) by (simp_all add: refs_ok_def)
  then have "distinct (if b then p # dec' else dec')" "distinct (if b then out' else p # out')"
    using mset_distinct [of dec "if b then p # dec' else dec'"]
      mset_distinct [of out "if b then out' else p # out'"] d(1,3) by (auto split: if_splits)
  then have di: "distinct dec'" "distinct out'" "b \<Longrightarrow> p \<notin> set dec'" "\<not> b \<Longrightarrow> p \<notin> set out'"
    by (auto split: if_splits)
  have "(\<Sum>k\<leftarrow>?ks. of_bool (\<not> ib_released k)) = n - of_bool (ib_refs (ks ! p) = 1)"
    using p assms(1) by (simp add: sum_update refs_ok_def)
  then show ?thesis
    using assms(1) p di d(2) unfolding refs_ok_def s
    by (cases b) (auto simp: nth_list_update s)
qed

lemma refs_ok_not_ready:
  assumes "refs_ok own dec out (p # unr) dn ks n"
  shows "\<not> ib_ready (ks ! p)" "p < length ks" "p \<in> set dec" "p \<notin> set unr" "\<not> ib_released (ks ! p)"
  using assms by (auto simp: refs_ok_def)

lemma refs_ok_ready:
  assumes "refs_ok own dec out (p # unr) dn ks n" "ib_result (ks ! p) \<noteq> None" "set dn' \<subseteq> set dn - {p}"
  shows "refs_ok own dec out unr dn' (ks[p := (ks ! p)\<lparr>ib_ready := True\<rparr>]) n"
proof -
  note p = refs_ok_not_ready [OF assms(1)]
  have "(\<Sum>k\<leftarrow>ks[p := (ks ! p)\<lparr>ib_ready := True\<rparr>]. of_bool (\<not> ib_released k)) = n"
    using p assms by (simp add: sum_update refs_ok_def)
  then show ?thesis using assms p unfolding refs_ok_def by (auto simp: nth_list_update)
qed

text \<open>A packet that is not queued for delivery need not become ready.\<close>

lemma refs_ok_forget:
  assumes "refs_ok own dec out (p # unr) dn ks n" "p \<notin> set out" "p \<notin> set dn"
  shows "refs_ok own dec out unr dn ks n"
  using assms unfolding refs_ok_def by auto

section \<open>The invariant\<close>

fun io_own :: "io_state \<Rightarrow> nat list" where
  "io_own (IoReading ps) = ps"
| "io_own (IoDispatch ps) = ps"
| "io_own (IoQueued p queued rest) = rest"
| "io_own (IoUnref p rest) = rest"
| "io_own _ = []"

fun io_ref :: "io_state \<Rightarrow> nat list" where
  "io_ref (IoQueued p queued rest) = [p]"
| "io_ref (IoUnref p rest) = [p]"
| "io_ref _ = []"

fun io_pending :: "io_state \<Rightarrow> nat list" where
  "io_pending (IoQueued p queued rest) = [p]"
| "io_pending _ = []"

fun recv_wait :: "recv_state \<Rightarrow> nat list" where
  "recv_wait (RecvWait p) = [p]"
| "recv_wait _ = []"

fun recv_ref :: "recv_state \<Rightarrow> nat list" where
  "recv_ref (RecvWait p) = [p]"
| "recv_ref (RecvUnref p) = [p]"
| "recv_ref _ = []"

definition dec_refs :: "pipe \<Rightarrow> nat list" where
  "dec_refs s = pp_decrypt s @ map fst (pp_jobs s) @ io_ref (pp_io s)"

definition out_refs :: "pipe \<Rightarrow> nat list" where
  "out_refs s = pp_output s @ recv_ref (pp_recv s)"

definition unready :: "pipe \<Rightarrow> nat list" where
  "unready s = pp_decrypt s @ map fst (filter (\<lambda>j. snd j \<noteq> JobUnref) (pp_jobs s)) @ io_pending (pp_io s)"

definition finished :: "pipe \<Rightarrow> nat list" where
  "finished s = map fst (filter (\<lambda>j. snd j = JobDone) (pp_jobs s))"

lemmas owner_defs = dec_refs_def out_refs_def unready_def finished_def

abbreviation owners_ok :: "pipe \<Rightarrow> bool" where
  "owners_ok s \<equiv> refs_ok (io_own (pp_io s)) (dec_refs s) (out_refs s) (unready s) (finished s)
     (pp_packets s) (pp_outstanding s)"

definition order_ok :: "pipe \<Rightarrow> bool" where
  "order_ok s \<longleftrightarrow> pp_handled s @ recv_wait (pp_recv s) @ pp_output s = pp_arrived s
     \<and> sorted_wrt (<) (pp_arrived s @ io_own (pp_io s)) \<and> set (pp_arrived s) \<subseteq> {..<length (pp_packets s)}"

definition pipe_inv :: "pipe \<Rightarrow> bool" where
  "pipe_inv s \<longleftrightarrow> owners_ok s \<and> order_ok s \<and> \<not> pp_panic s
     \<and> (\<forall>p rest. pp_io s = IoQueued p False rest \<longrightarrow> p \<notin> set (out_refs s))"

text \<open>An operation that touches packets only.\<close>

definition packets_only :: "pipe \<Rightarrow> pipe \<Rightarrow> bool" where
  "packets_only s s' \<longleftrightarrow> pp_udp s' = pp_udp s \<and> pp_decrypt s' = pp_decrypt s \<and> pp_decryptCap s' = pp_decryptCap s
     \<and> pp_output s' = pp_output s \<and> pp_outputCap s' = pp_outputCap s \<and> pp_batch s' = pp_batch s
     \<and> pp_io s' = pp_io s \<and> pp_idle s' = pp_idle s \<and> pp_jobs s' = pp_jobs s \<and> pp_exited s' = pp_exited s
     \<and> pp_recv s' = pp_recv s \<and> pp_closeChan s' = pp_closeChan s \<and> pp_panic s' = pp_panic s
     \<and> pp_arrived s' = pp_arrived s \<and> pp_handled s' = pp_handled s
     \<and> length (pp_packets s) \<le> length (pp_packets s')"

lemma packets_only_refl [simp]: "packets_only s s"
  by (simp add: packets_only_def)

lemma packets_only_trans: "packets_only s t \<Longrightarrow> packets_only t v \<Longrightarrow> packets_only s v"
  by (simp add: packets_only_def)

lemma packets_only_update [simp]: "packets_only s (update_packet p f s)"
  by (simp add: packets_only_def update_packet_def)

lemma packets_only_release [simp]: "packets_only s (releasePacket p s)"
  by (simp add: packets_only_def update_packet_def releasePacket_def Let_def)

lemma packets_only_unref [simp]: "packets_only s (unrefPacket p s)"
  by (simp add: packets_only_def update_packet_def releasePacket_def unrefPacket_def Let_def)

lemma packets_only_fields:
  assumes "packets_only s s'"
  shows "pp_udp s' = pp_udp s" "pp_decrypt s' = pp_decrypt s" "pp_decryptCap s' = pp_decryptCap s"
    "pp_output s' = pp_output s" "pp_outputCap s' = pp_outputCap s" "pp_batch s' = pp_batch s"
    "pp_io s' = pp_io s" "pp_idle s' = pp_idle s" "pp_jobs s' = pp_jobs s" "pp_exited s' = pp_exited s"
    "pp_recv s' = pp_recv s" "pp_closeChan s' = pp_closeChan s" "pp_panic s' = pp_panic s"
    "pp_arrived s' = pp_arrived s" "pp_handled s' = pp_handled s"
  using assms by (simp_all add: packets_only_def)

lemmas packet_op_fields [simp] =
  packets_only_fields [OF packets_only_update] packets_only_fields [OF packets_only_release]
  packets_only_fields [OF packets_only_unref]

lemma packet_op_length [simp]:
  "length (pp_packets (update_packet p f s)) = length (pp_packets s)"
  "length (pp_packets (releasePacket p s)) = length (pp_packets s)"
  "length (pp_packets (unrefPacket p s)) = length (pp_packets s)"
  by (simp_all add: update_packet_def releasePacket_def unrefPacket_def Let_def)

lemma acquirePackets_ok:
  assumes "acquirePackets n s = (ps, s')" "refs_ok own dec out unr dn (pp_packets s) (pp_outstanding s)"
  shows "packets_only s s' \<and> refs_ok (own @ ps) dec out unr dn (pp_packets s') (pp_outstanding s')
    \<and> sorted_wrt (<) ps \<and> (\<forall>q \<in> set ps. length (pp_packets s) \<le> q)"
  using assms
proof (induction n arbitrary: s own ps)
  case (Suc n)
  let ?t = "s\<lparr>pp_packets := pp_packets s @ [newInbound], pp_outstanding := pp_outstanding s + 1\<rparr>"
  obtain qs where a: "acquirePackets n ?t = (qs, s')" "ps = length (pp_packets s) # qs"
    using Suc.prems(1) by (auto split: prod.splits)
  have "refs_ok (own @ [length (pp_packets s)]) dec out unr dn (pp_packets ?t) (pp_outstanding ?t)"
    using refs_ok_acquire [OF Suc.prems(2)] by simp
  from Suc.IH [OF a(1) this] a(2) show ?case by (fastforce simp: packets_only_def)
qed simp

lemma release_one:
  assumes "refs_ok (own @ p # ps) dec out unr dn (pp_packets s) (pp_outstanding s)"
  shows "refs_ok (own @ ps) dec out unr dn (pp_packets (releasePacket p s)) (pp_outstanding (releasePacket p s))"
  using refs_ok_release [OF assms] by (simp add: releasePacket_def update_packet_def)

lemma release_all:
  assumes "refs_ok (own @ ps) dec out unr dn (pp_packets s) (pp_outstanding s)"
  shows "packets_only s (fold releasePacket ps s)
    \<and> refs_ok own dec out unr dn (pp_packets (fold releasePacket ps s)) (pp_outstanding (fold releasePacket ps s))"
  using assms
proof (induction ps arbitrary: s)
  case (Cons p ps)
  from Cons.IH [OF release_one [OF Cons.prems]] show ?case
    using packets_only_trans [OF packets_only_release [where s = s and p = p]] by simp
qed simp

text \<open>Filling a packet changes nothing that the bookkeeping looks at.\<close>

lemma fill_ok:
  assumes "refs_ok own dec out unr dn (pp_packets s) (pp_outstanding s)"
  defines "fill \<equiv> \<lambda>(p, data, from_addr). update_packet p (\<lambda>k. k\<lparr>ib_data := data, ib_from := from_addr\<rparr>)"
  shows "packets_only s (fold fill xs s)
    \<and> refs_ok own dec out unr dn (pp_packets (fold fill xs s)) (pp_outstanding (fold fill xs s))"
  using assms(1)
proof (induction xs arbitrary: s)
  case (Cons x xs)
  obtain p d f where x: "x = (p, d, f)" by (cases x)
  have "refs_ok own dec out unr dn (pp_packets (fill x s)) (pp_outstanding (fill x s))"
    using refs_ok_frame [OF Cons.prems] by (simp add: x fill_def update_packet_def)
  from Cons.IH [OF this] show ?case
    using packets_only_trans [OF packets_only_update [where s = s and p = p and f = "\<lambda>k. k\<lparr>ib_data := d, ib_from := f\<rparr>"]] by (simp add: x fill_def)
qed simp

lemma unref_one:
  assumes "refs_ok own dec out unr dn (pp_packets s) (pp_outstanding s)" "p \<in> set dec \<union> set out"
    and "mset dec = (if b then add_mset p (mset dec') else mset dec')" "b \<Longrightarrow> p \<notin> set unr"
      "mset out = (if b then mset out' else add_mset p (mset out'))"
  shows "refs_ok own dec' out' unr dn (pp_packets (unrefPacket p s)) (pp_outstanding (unrefPacket p s))"
proof -
  have p: "p < length (pp_packets s)" "\<not> ib_released (pp_packets s ! p)"
    using assms(1,2) unfolding refs_ok_def by auto
  show ?thesis unfolding unrefPacket_eq [OF p] using refs_ok_unref [OF assms(1) p assms(3-5)] by simp
qed

section \<open>Every step keeps it\<close>

lemma pipe_invI:
  assumes "owners_ok s" "order_ok s" "\<not> pp_panic s" "\<And>p rest. pp_io s = IoQueued p False rest \<Longrightarrow> p \<notin> set (out_refs s)"
  shows "pipe_inv s"
  using assms by (simp add: pipe_inv_def)

lemma pipe_invD:
  assumes "pipe_inv s"
  shows "owners_ok s" "order_ok s" "\<not> pp_panic s"
  using assms by (simp_all add: pipe_inv_def)

lemma inv_start: "pipe_inv (startPipe u raw dec workers batch)"
  by (simp add: pipe_inv_def startPipe_def owner_defs refs_ok_def order_ok_def)

text \<open>The receive loop moves on without holding a reference.\<close>

lemma inv_io:
  assumes inv: "pipe_inv s" and po: "packets_only s v"
    and io: "io_ref (pp_io s) = []" "io_pending (pp_io s) = []" "io_ref io' = []" "io_pending io' = []"
    and r: "refs_ok (io_own io') (dec_refs s) (out_refs s) (unready s) (finished s) (pp_packets v) (pp_outstanding v)"
    and o: "sorted_wrt (<) (pp_arrived s @ io_own io')"
  shows "pipe_inv (v\<lparr>pp_io := io'\<rparr>)"
proof (rule pipe_invI)
  let ?v = "v\<lparr>pp_io := io'\<rparr>"
  have "dec_refs ?v = dec_refs s" "out_refs ?v = out_refs s" "unready ?v = unready s" "finished ?v = finished s"
    using po io by (simp_all add: owner_defs packets_only_def)
  then show "owners_ok ?v" using r by simp
  show "order_ok ?v" using pipe_invD(2) [OF inv] o po by (auto simp: order_ok_def packets_only_def)
  show "\<not> pp_panic ?v" using pipe_invD(3) [OF inv] po by (simp add: packets_only_def)
  show "p \<notin> set (out_refs ?v)" if "pp_io ?v = IoQueued p False rest" for p rest using that io(3) by simp
qed

lemma sorted_prefix: "sorted_wrt (<) (xs @ ys @ zs) \<Longrightarrow> sorted_wrt (<) (xs @ ys)" for xs :: "nat list"
  by (simp add: sorted_wrt_append)

lemma inv_sorted: "pipe_inv s \<Longrightarrow> sorted_wrt (<) (pp_arrived s @ io_own (pp_io s))"
  by (simp add: pipe_inv_def order_ok_def)

lemma inv_acquire:
  assumes inv: "pipe_inv s" and io: "pp_io s = IoIdle"
  shows "pipe_inv (io_acquire s)"
proof (cases "u_closed (pp_udp s)")
  case True
  then show ?thesis using inv io by (simp add: pipe_inv_def io_acquire_def owner_defs order_ok_def)
next
  case False
  obtain ps t where a: "acquirePackets (batchSize (pp_batch s)) s = (ps, t)" by fastforce
  have t: "packets_only s t" "refs_ok ps (dec_refs s) (out_refs s) (unready s) (finished s) (pp_packets t) (pp_outstanding t)"
    "sorted_wrt (<) ps" "\<forall>q \<in> set ps. length (pp_packets s) \<le> q"
    using acquirePackets_ok [OF a pipe_invD(1) [OF inv]] by (simp_all add: io)
  have "pipe_inv (t\<lparr>pp_io := IoReading ps\<rparr>)"
    using pipe_invD(2) [OF inv] t
    by (intro inv_io [OF inv t(1)]) (fastforce simp: io order_ok_def sorted_wrt_append)+
  then show ?thesis using False a by (simp add: io_acquire_def)
qed

lemma inv_release_all:
  assumes inv: "pipe_inv s" and io: "pp_io s = IoReading (as @ bs)"
  shows "packets_only s (fold releasePacket bs s)"
    "refs_ok as (dec_refs s) (out_refs s) (unready s) (finished s) (pp_packets (fold releasePacket bs s)) (pp_outstanding (fold releasePacket bs s))"
    "sorted_wrt (<) (pp_arrived s @ as)"
  using release_all pipe_invD(1) [OF inv] sorted_prefix [of "pp_arrived s" as bs] inv_sorted [OF inv]
  unfolding io io_own.simps by blast+

lemma inv_released:
  assumes inv: "pipe_inv s" and io: "pp_io s = IoReading ps" and io': "io' = IoIdle \<or> io' = IoExit"
  shows "pipe_inv ((fold releasePacket ps s)\<lparr>pp_io := io'\<rparr>)"
  using inv_release_all [OF inv, of "[]" ps] io io' by (intro inv_io [OF inv]) auto

lemma inv_read_error: "pipe_inv s \<Longrightarrow> pp_io s = IoReading ps \<Longrightarrow> pipe_inv (io_read_error ps s)"
  using inv_released by (simp add: io_read_error_def Let_def)

lemma inv_read:
  assumes inv: "pipe_inv s" and io: "pp_io s = IoReading ps"
  shows "pipe_inv (io_read ps dgrams s)"
proof -
  let ?n = "length dgrams"
  have "pp_io s = IoReading (take ?n ps @ drop ?n ps)" using io by simp
  note t = inv_release_all [OF inv this]
  note v = fill_ok [OF t(2), of "zip (take ?n ps) dgrams"]
  have "pipe_inv ((fold (\<lambda>(p, data, from_addr). update_packet p (\<lambda>k. k\<lparr>ib_data := data, ib_from := from_addr\<rparr>))
      (zip (take ?n ps) dgrams) (fold releasePacket (drop ?n ps) s))\<lparr>pp_io := IoDispatch (take ?n ps)\<rparr>)"
    using v t(3) by (intro inv_io [OF inv packets_only_trans [OF t(1)]]) (simp_all add: io)
  then show ?thesis using inv_released [OF inv io] by (simp add: io_read_def Let_def)
qed

lemma inv_queue_output:
  assumes inv: "pipe_inv s" and io: "pp_io s = IoDispatch (p # rest)"
  shows "pipe_inv (io_queue_output now c b p rest s)"
proof -
  let ?u = "countReceived now (length (ib_data (pp_packets s ! p))) (pp_udp s)"
  let ?s1 = "s\<lparr>pp_udp := ?u\<rparr>" and ?s2 = "update_packet p (\<lambda>k. k\<lparr>ib_refs := 2\<rparr>) (s\<lparr>pp_udp := ?u\<rparr>)"
  note ow = pipe_invD(1) [OF inv, unfolded io io_own.simps]
  have ord: "pp_handled s @ recv_wait (pp_recv s) @ pp_output s = pp_arrived s"
    "sorted_wrt (<) (pp_arrived s @ p # rest)" "set (pp_arrived s) \<subseteq> {..<length (pp_packets s)}"
    using pipe_invD(2) [OF inv] by (simp_all add: order_ok_def io)
  have p: "p < length (pp_packets s)" "p \<notin> set (out_refs s)" "p \<notin> set (finished s)" using ow by (auto simp: refs_ok_def)
  have io': "dec_refs s = pp_decrypt s @ map fst (pp_jobs s)"
    "unready s = pp_decrypt s @ map fst (filter (\<lambda>j. snd j \<noteq> JobUnref) (pp_jobs s))" by (simp_all add: owner_defs io)
  text \<open>not dispatched\<close>
  have drop: "pipe_inv ((releasePacket p v)\<lparr>pp_io := IoDispatch rest\<rparr>)"
    if v: "v = s \<or> v = ?s1" for v
  proof -
    have io_v: "pp_io v = pp_io s" using v by auto
    have "refs_ok ([] @ p # rest) (dec_refs s) (out_refs s) (unready s) (finished s) (pp_packets v) (pp_outstanding v)"
      using ow v by auto
    from release_one [OF this] show ?thesis
      using v ord pipe_invD(3) [OF inv] io by (intro pipe_invI) (auto simp: owner_defs order_ok_def sorted_wrt_append)
  qed
  text \<open>both references reserved\<close>
  have r: "refs_ok rest (p # dec_refs s) (p # out_refs s) (p # unready s) (finished s) (pp_packets ?s2) (pp_outstanding ?s2)"
    using refs_ok_reserve [OF ow] by (simp add: update_packet_def)
  let ?q = "?s2\<lparr>pp_output := pp_output ?s2 @ [p], pp_arrived := pp_arrived ?s2 @ [p], pp_io := IoQueued p True rest\<rparr>"
  have "refs_ok rest (dec_refs ?q) (out_refs ?q) (unready ?q) (finished ?q) (pp_packets ?s2) (pp_outstanding ?s2)"
    by (rule refs_ok_perm [OF r]) (simp_all add: owner_defs io)
  then have queued: "pipe_inv ?q"
    using ord p pipe_invD(3) [OF inv] by (intro pipe_invI) (auto simp: order_ok_def sorted_wrt_append)
  text \<open>the delivery reference dropped again\<close>
  have out: "refs_ok rest (p # dec_refs s) (out_refs s) (p # unready s) (finished s)
      (pp_packets (unrefPacket p v)) (pp_outstanding (unrefPacket p v))"
    if "pp_packets v = pp_packets ?s2" "pp_outstanding v = pp_outstanding ?s2" for v
    by (rule unref_one [where b = False and dec = "p # dec_refs s" and out = "p # out_refs s"]) (use r that in simp_all)
  have dropped: "pipe_inv ((unrefPacket p (?s2\<lparr>pp_udp := w\<rparr>))\<lparr>pp_io := IoQueued p False rest\<rparr>)" (is "pipe_inv ?d") for w
  proof -
    let ?w = "unrefPacket p (?s2\<lparr>pp_udp := w\<rparr>)"
    have "refs_ok rest (dec_refs ?d) (out_refs ?d) (unready ?d) (finished ?d) (pp_packets ?w) (pp_outstanding ?w)"
      by (rule refs_ok_perm [OF out]) (simp_all add: owner_defs io)
    then show ?thesis
      using ord p pipe_invD(3) [OF inv] by (intro pipe_invI) (auto simp: order_ok_def sorted_wrt_append out_refs_def)
  qed
  text \<open>both references dropped again\<close>
  have "refs_ok rest (dec_refs s) (out_refs s) (unready s) (finished s)
      (pp_packets (unrefPacket p (unrefPacket p ?s2))) (pp_outstanding (unrefPacket p (unrefPacket p ?s2)))"
    by (rule unref_one [OF refs_ok_forget [OF out [of ?s2]], where b = True]) (use p ow in \<open>auto simp: refs_ok_def\<close>)
  then have closed: "pipe_inv ((unrefPacket p (unrefPacket p ?s2))\<lparr>pp_io := IoDispatch rest\<rparr>)"
    using ord pipe_invD(3) [OF inv] packets_only_unref [of ?s2 p] packets_only_unref [of "unrefPacket p ?s2" p]
    by (intro pipe_invI) (auto simp: owner_defs order_ok_def io sorted_wrt_append)
  show ?thesis
    unfolding io_queue_output_def Let_def using drop [of s] drop [of ?s1] queued dropped closed
    by (simp add: update_packet_def)
qed

lemma closeReady_ok:
  assumes "refs_ok own dec out (p # unr) dn (pp_packets s) n"
  shows "closeReady p s = update_packet p (\<lambda>k. k\<lparr>ib_ready := True\<rparr>) s"
  using refs_ok_not_ready(1) [OF assms] by (simp add: closeReady_def)

lemma inv_queue_decrypt:
  assumes inv: "pipe_inv s" and io: "pp_io s = IoQueued p queued rest"
  shows "pipe_inv (io_queue_decrypt b p queued rest s)"
proof -
  note ow = pipe_invD(1) [OF inv, unfolded io io_own.simps]
  have ord: "pp_handled s @ recv_wait (pp_recv s) @ pp_output s = pp_arrived s"
    "sorted_wrt (<) (pp_arrived s @ rest)" "set (pp_arrived s) \<subseteq> {..<length (pp_packets s)}"
    using pipe_invD(2) [OF inv] by (simp_all add: order_ok_def io)
  have un: "unready s = (pp_decrypt s @ map fst (filter (\<lambda>j. snd j \<noteq> JobUnref) (pp_jobs s))) @ [p]"
    "dec_refs s = (pp_decrypt s @ map fst (pp_jobs s)) @ [p]"
    by (simp_all add: owner_defs io)
  let ?un = "pp_decrypt s @ map fst (filter (\<lambda>j. snd j \<noteq> JobUnref) (pp_jobs s))"
  have r: "refs_ok rest (dec_refs s) (out_refs s) (p # ?un) (finished s) (pp_packets s) (pp_outstanding s)"
    by (rule refs_ok_perm [OF ow]) (simp_all add: un)
  have pd: "p \<notin> set (finished s)" "p < length (pp_packets s)"
    using ow unfolding un by (auto simp: refs_ok_def finished_def)
  let ?q = "s\<lparr>pp_decrypt := pp_decrypt s @ [p], pp_io := IoDispatch rest\<rparr>"
  have "refs_ok rest (dec_refs ?q) (out_refs ?q) (unready ?q) (finished ?q) (pp_packets s) (pp_outstanding s)"
    by (rule refs_ok_perm [OF ow]) (simp_all add: owner_defs io)
  then have q: "pipe_inv ?q"
    using ord pipe_invD(3) [OF inv] by (intro pipe_invI) (simp_all add: order_ok_def)
  have un': "pipe_inv (v\<lparr>pp_io := IoUnref p rest\<rparr>)"
    if v: "v = s\<lparr>pp_udp := u, pp_packets := ks\<rparr>" "length ks = length (pp_packets s)"
      "refs_ok rest (dec_refs s) (out_refs s) ?un (finished s) ks (pp_outstanding s)" for v u ks
    using v ord pipe_invD(3) [OF inv] io by (intro pipe_invI) (simp_all add: owner_defs order_ok_def)
  have done1: "pipe_inv (s\<lparr>pp_udp := u, pp_io := IoUnref p rest\<rparr>)" if "\<not> queued" for u
  proof -
    have "p \<notin> set (out_refs s)" using inv io that by (simp add: pipe_inv_def)
    from un' [OF _ _ refs_ok_forget [OF r this pd(1)], of "s\<lparr>pp_udp := u\<rparr>" u] show ?thesis by simp
  qed
  have done2: "pipe_inv ((closeReady p (setResult p (Inl ErrNoData) (s\<lparr>pp_udp := u\<rparr>)))\<lparr>pp_io := IoUnref p rest\<rparr>)" for u
  proof -
    let ?v = "setResult p (Inl ErrNoData) (s\<lparr>pp_udp := u\<rparr>)"
    have v: "refs_ok rest (dec_refs s) (out_refs s) (p # ?un) (finished s) (pp_packets ?v) (pp_outstanding s)"
      using refs_ok_frame [OF r] by (simp add: setResult_def update_packet_def)
    let ?ks = "(pp_packets ?v)[p := (pp_packets ?v ! p)\<lparr>ib_ready := True\<rparr>]"
    have "refs_ok rest (dec_refs s) (out_refs s) ?un (finished s) ?ks (pp_outstanding s)"
      by (rule refs_ok_ready [OF v]) (use pd in \<open>auto simp: setResult_def update_packet_def\<close>)
    from un' [OF refl _ this, of u] show ?thesis
      unfolding closeReady_ok [OF v] by (simp add: setResult_def update_packet_def)
  qed
  show ?thesis
    unfolding io_queue_decrypt_def Let_def
    using q done1 [of "pp_udp s"] done1 done2 [of "pp_udp s"] done2 by simp
qed

lemma inv_io_unref:
  assumes inv: "pipe_inv s" and io: "pp_io s = IoUnref p rest"
  shows "pipe_inv ((unrefPacket p s)\<lparr>pp_io := IoDispatch rest\<rparr>)" (is "pipe_inv ?t")
proof (rule pipe_invI)
  note ow = pipe_invD(1) [OF inv]
  have "p \<notin> set (unready s)" using ow unfolding refs_ok_def by (auto simp: owner_defs io)
  then show "owners_ok ?t"
    using unref_one [OF ow, where b = True and p = p and dec' = "pp_decrypt s @ map fst (pp_jobs s)" and out' = "out_refs s"]
    by (simp add: owner_defs io)
qed (use inv io in \<open>auto simp: pipe_inv_def order_ok_def\<close>)

text \<open>The workers.\<close>

lemma inv_take_job:
  assumes inv: "pipe_inv s" and d: "pp_decrypt s = p # ps"
  shows "pipe_inv (s\<lparr>pp_idle := n, pp_decrypt := ps, pp_jobs := pp_jobs s @ [(p, JobTaken)]\<rparr>)" (is "pipe_inv ?t")
proof (rule pipe_invI)
  have "refs_ok (io_own (pp_io s)) (dec_refs ?t) (out_refs ?t) (unready ?t) (finished ?t) (pp_packets s) (pp_outstanding s)"
    by (rule refs_ok_perm [OF pipe_invD(1) [OF inv]]) (simp_all add: owner_defs d)
  then show "owners_ok ?t" by simp
qed (use inv in \<open>auto simp: pipe_inv_def order_ok_def out_refs_def\<close>)

lemma inv_process_job:
  assumes inv: "pipe_inv s" and j: "pp_jobs s = a @ (p, JobTaken) # c"
  shows "pipe_inv ((work env now hook p s)\<lparr>pp_jobs := a @ (p, JobDone) # c\<rparr>)" (is "pipe_inv ?t")
proof -
  note ow = pipe_invD(1) [OF inv]
  obtain res u where w: "work env now hook p s = setResult p res (s\<lparr>pp_udp := u\<rparr>)"
    by (cases "processPacket env now hook (ib_data (pp_packets s ! p)) (ib_from (pp_packets s ! p)) (pp_udp s)")
      (simp add: work_def)
  let ?ks = "(pp_packets s)[p := (pp_packets s ! p)\<lparr>ib_result := Some res\<rparr>]"
  have t: "?t = s\<lparr>pp_udp := u, pp_packets := ?ks, pp_jobs := a @ (p, JobDone) # c\<rparr>"
    unfolding w by (simp add: setResult_def update_packet_def)
  have u: "p \<in> set (unready s)" by (simp add: owner_defs j)
  then have p: "p < length (pp_packets s)" using ow unfolding refs_ok_def by auto
  have f: "refs_ok (io_own (pp_io s)) (dec_refs s) (out_refs s) (unready s) (finished s) ?ks (pp_outstanding s)"
    by (rule refs_ok_frame [OF ow]) simp_all
  have "refs_ok (io_own (pp_io s)) (dec_refs ?t) (out_refs ?t) (unready ?t) (finished ?t) ?ks (pp_outstanding s)"
    by (rule refs_ok_perm [OF refs_ok_done [OF f u]]) (use p in \<open>auto simp: owner_defs j t\<close>)
  then show ?thesis using inv unfolding t by (intro pipe_invI) (auto simp: pipe_inv_def order_ok_def out_refs_def)
qed

lemma inv_ready_job:
  assumes inv: "pipe_inv s" and j: "pp_jobs s = a @ (p, JobDone) # c"
  shows "pipe_inv ((closeReady p s)\<lparr>pp_jobs := a @ (p, JobUnref) # c\<rparr>)" (is "pipe_inv ?t")
proof -
  note ow = pipe_invD(1) [OF inv]
  let ?un = "pp_decrypt s @ map fst (filter (\<lambda>j. snd j \<noteq> JobUnref) (a @ c)) @ io_pending (pp_io s)"
  have r: "refs_ok (io_own (pp_io s)) (dec_refs s) (out_refs s) (p # ?un) (finished s) (pp_packets s) (pp_outstanding s)"
    by (rule refs_ok_perm [OF ow]) (simp_all add: owner_defs j)
  let ?ks = "(pp_packets s)[p := (pp_packets s ! p)\<lparr>ib_ready := True\<rparr>]"
  have t: "?t = s\<lparr>pp_packets := ?ks, pp_jobs := a @ (p, JobUnref) # c\<rparr>"
    unfolding closeReady_ok [OF r] by (simp add: update_packet_def)
  have res: "ib_result (pp_packets s ! p) \<noteq> None" using ow by (auto simp: refs_ok_def finished_def j)
  have "p \<notin> set (map fst (filter (\<lambda>j. snd j = JobDone) (a @ c)))"
  proof -
    have "p \<notin> set ?un" using r by (simp add: refs_ok_def)
    then show ?thesis by auto
  qed
  then have "refs_ok (io_own (pp_io s)) (dec_refs s) (out_refs s) ?un (finished ?t) ?ks (pp_outstanding s)"
    by (intro refs_ok_ready [OF r res]) (auto simp: finished_def j t)
  then have "refs_ok (io_own (pp_io s)) (dec_refs ?t) (out_refs ?t) (unready ?t) (finished ?t) ?ks (pp_outstanding s)"
    by (rule refs_ok_perm) (simp_all add: owner_defs j t)
  then show ?thesis using inv unfolding t by (intro pipe_invI) (auto simp: pipe_inv_def order_ok_def out_refs_def)
qed

lemma inv_unref_job:
  assumes inv: "pipe_inv s" and j: "pp_jobs s = a @ (p, JobUnref) # c"
  shows "pipe_inv ((unrefPacket p s)\<lparr>pp_jobs := a @ c, pp_idle := n\<rparr>)" (is "pipe_inv ?t")
proof (rule pipe_invI)
  note ow = pipe_invD(1) [OF inv]
  have "distinct (dec_refs s)" using ow by (simp add: refs_ok_def)
  then have "p \<notin> set (unready s)" by (cases "pp_io s") (auto simp: owner_defs j)
  then show "owners_ok ?t"
    using unref_one [OF ow, where b = True and p = p and dec' = "pp_decrypt s @ map fst (a @ c) @ io_ref (pp_io s)" and out' = "out_refs s"]
    by (simp add: owner_defs j)
qed (use inv in \<open>auto simp: pipe_inv_def order_ok_def out_refs_def\<close>)

text \<open>The delivery loop.\<close>

lemma inv_take_output:
  assumes inv: "pipe_inv s" and r: "pp_recv s = RecvIdle" and d: "pp_output s = p # ps"
  shows "pipe_inv (s\<lparr>pp_output := ps, pp_recv := RecvWait p\<rparr>)" (is "pipe_inv ?t")
proof (rule pipe_invI)
  have "refs_ok (io_own (pp_io s)) (dec_refs ?t) (out_refs ?t) (unready ?t) (finished ?t) (pp_packets s) (pp_outstanding s)"
    by (rule refs_ok_perm [OF pipe_invD(1) [OF inv]]) (simp_all add: owner_defs d r)
  then show "owners_ok ?t" by simp
qed (use inv r d in \<open>auto simp: pipe_inv_def order_ok_def out_refs_def\<close>)

lemma inv_handled:
  assumes inv: "pipe_inv s" and r: "pp_recv s = RecvWait p"
  shows "pipe_inv (s\<lparr>pp_udp := u, pp_recv := RecvUnref p, pp_handled := pp_handled s @ [p]\<rparr>)"
  using inv r by (auto simp: pipe_inv_def order_ok_def owner_defs)

lemma inv_recv_unref:
  assumes inv: "pipe_inv s" and r: "pp_recv s = RecvUnref p"
  shows "pipe_inv ((unrefPacket p s)\<lparr>pp_recv := RecvIdle\<rparr>)" (is "pipe_inv ?t")
proof (rule pipe_invI)
  show "owners_ok ?t"
    using unref_one [OF pipe_invD(1) [OF inv], where b = False and p = p and dec' = "dec_refs s" and out' = "pp_output s"]
    by (simp add: owner_defs r)
qed (use inv r in \<open>auto simp: pipe_inv_def order_ok_def out_refs_def\<close>)

lemma pipe_step_inv:
  assumes "pipe_step env N s t" "pipe_inv s"
  shows "pipe_inv t"
  using assms(1)
proof cases
  case (deliver p u' now until)
  then show ?thesis using inv_handled [OF assms(2)] by blast
next
  case (deliver_closed p)
  have "s = s\<lparr>pp_udp := pp_udp s\<rparr>" by simp
  then show ?thesis using inv_handled [OF assms(2), of p "pp_udp s"] deliver_closed by simp
next
  case acquire
  then show ?thesis using inv_acquire [OF assms(2)] by simp
next
  case (read_error ps)
  then show ?thesis using inv_read_error [OF assms(2)] by simp
next
  case (read ps dgrams)
  then show ?thesis using inv_read [OF assms(2)] by simp
next
  case (queue_output p rest now c b)
  then show ?thesis using inv_queue_output [OF assms(2)] by simp
next
  case (queue_decrypt p queued rest b)
  then show ?thesis using inv_queue_decrypt [OF assms(2)] by simp
next
  case (io_unref p rest)
  then show ?thesis using inv_io_unref [OF assms(2)] by simp
next
  case (take_job n p ps)
  then show ?thesis using inv_take_job [OF assms(2)] by simp
next
  case (process_job a p c hook now)
  then show ?thesis using inv_process_job [OF assms(2)] by simp
next
  case (ready_job a p c)
  then show ?thesis using inv_ready_job [OF assms(2)] by simp
next
  case (unref_job a p c)
  then show ?thesis using inv_unref_job [OF assms(2)] by simp
next
  case (take_output p ps)
  then show ?thesis using inv_take_output [OF assms(2)] by simp
next
  case (recv_unref p)
  then show ?thesis using inv_recv_unref [OF assms(2)] by simp
qed (use assms(2) in \<open>simp_all add: pipe_inv_def order_ok_def owner_defs\<close>)

lemma pipe_run_inv: "pipe_run env N s t \<Longrightarrow> pipe_inv s \<Longrightarrow> pipe_inv t"
  by (induction rule: pipe_run.induct) (auto intro: pipe_step_inv)

end
