(* ===== verification/CoreUDPPipeThms.thy ===== *)
theory CoreUDPPipeThms
  imports CoreUDPPipeInv
begin

text \<open>What the inbound pipeline guarantees in every interleaving of its goroutines.\<close>

section \<open>References and order\<close>

text \<open>
  C5: in every interleaving no packet is used after it went back to the pool: everything that is in a
  queue or in the hands of a goroutine is unreleased, a packet is released exactly when its last
  holder lets go of it, its channel \<^verbatim>\<open>ready\<close> is never closed twice, a packet the delivery loop waits
  for is ready or in the hands of someone who will make it ready, the number of outstanding packets
  is right, and nothing is outstanding once the queues are empty and the goroutines idle.
\<close>

theorem pipeline_bookkeeping:
  assumes "pipe_run env N (startPipe u raw dec workers batch) s"
  shows "\<not> pp_panic s
    \<and> (\<forall>p. p \<in> set (pp_decrypt s) \<union> set (pp_output s) \<union> fst ` set (pp_jobs s) \<union> set (recv_ref (pp_recv s))
          \<union> set (io_own (pp_io s)) \<union> set (io_ref (pp_io s)) \<longrightarrow>
          p < length (pp_packets s) \<and> \<not> ib_released (pp_packets s ! p))
    \<and> (\<forall>p < length (pp_packets s). ib_released (pp_packets s ! p) \<longrightarrow> ib_refs (pp_packets s ! p) = 0)
    \<and> (\<forall>p. pp_recv s = RecvWait p \<longrightarrow> ib_ready (pp_packets s ! p) \<and> ib_result (pp_packets s ! p) \<noteq> None
          \<or> p \<in> set (pp_decrypt s) \<union> fst ` {j \<in> set (pp_jobs s). snd j \<noteq> JobUnref} \<union> set (io_pending (pp_io s)))
    \<and> pp_outstanding s = int (length (filter (\<lambda>k. \<not> ib_released k) (pp_packets s)))
    \<and> (pp_decrypt s = [] \<and> pp_output s = [] \<and> pp_jobs s = [] \<and> recv_ref (pp_recv s) = []
        \<and> io_own (pp_io s) = [] \<and> io_ref (pp_io s) = [] \<longrightarrow> pp_outstanding s = 0)"
proof -
  have inv: "pipe_inv s" by (rule pipe_run_inv [OF assms inv_start])
  note ow = pipe_invD(1) [OF inv]
  have len: "(\<Sum>k\<leftarrow>ks. of_bool (\<not> ib_released k)) = int (length (filter (\<lambda>k. \<not> ib_released k) ks))" for ks
    by (induction ks) simp_all
  have n: "pp_outstanding s = int (length (filter (\<lambda>k. \<not> ib_released k) (pp_packets s)))"
    using ow unfolding refs_ok_def len by blast
  have rel: "\<forall>p < length (pp_packets s). ib_released (pp_packets s ! p)
      = (p \<notin> set (io_own (pp_io s)) \<and> p \<notin> set (dec_refs s) \<and> p \<notin> set (out_refs s))"
    and lt: "set (io_own (pp_io s)) \<union> set (dec_refs s) \<union> set (out_refs s) \<subseteq> {..<length (pp_packets s)}"
    using ow unfolding refs_ok_def by blast+
  have zero: "pp_outstanding s = 0" if "io_own (pp_io s) = []" "dec_refs s = []" "out_refs s = []"
    unfolding n using rel that by (auto simp: filter_empty_conv in_set_conv_nth)
  have wait: "ib_ready (pp_packets s ! p) \<and> ib_result (pp_packets s ! p) \<noteq> None \<or> p \<in> set (unready s)"
    if "pp_recv s = RecvWait p" for p
  proof -
    have "p \<in> set (out_refs s)" "p < length (pp_packets s)" using that lt by (auto simp: out_refs_def)
    then show ?thesis using ow unfolding refs_ok_def by blast
  qed
  have hold: "p < length (pp_packets s) \<and> \<not> ib_released (pp_packets s ! p)"
    if "p \<in> set (io_own (pp_io s)) \<union> set (dec_refs s) \<union> set (out_refs s)" for p
    using that rel lt by auto
  have r0: "ib_refs (pp_packets s ! p) = 0" if "p < length (pp_packets s)" "ib_released (pp_packets s ! p)" for p
    using ow that unfolding refs_ok_def by auto
  show ?thesis
    using pipe_invD(3) [OF inv] hold r0 wait n zero
    by (intro conjI allI impI) (auto simp: owner_defs)
qed

text \<open>
  A run for the witnesses: one datagram of an unknown kind is read, dispatched, processed by a worker
  and handled by the delivery loop, and the packet is back in the pool.
\<close>

definition toy_pipe :: pipe where
  "toy_pipe = startPipe (toy_udp 1) 4 4 1 False"

definition toy_packet :: inbound where
  "toy_packet = \<lparr>ib_data = [9], ib_from = Some ''x'', ib_result = None, ib_refs = 2, ib_released = False, ib_ready = False\<rparr>"

definition toy_pipe_at :: "inbound \<Rightarrow> pipe" where
  "toy_pipe_at k = toy_pipe\<lparr>pp_udp := countReceived 5 1 (toy_udp 1), pp_packets := [k], pp_outstanding := 1, pp_arrived := [0]\<rparr>"

lemma toy_pipe_run:
  "pipe_run toy_udp_env {} toy_pipe ((toy_pipe_at (toy_packet\<lparr>ib_result := Some (Inl ErrNoData), ib_refs := 0,
      ib_released := True, ib_ready := True\<rparr>))\<lparr>pp_outstanding := 0, pp_handled := [0]\<rparr>)"
  (is "pipe_run _ _ _ ?end")
proof -
  let ?run = "pipe_run toy_udp_env {} toy_pipe"
  note defs = toy_pipe_at_def toy_packet_def toy_pipe_def startPipe_def
  let ?r = "toy_packet\<lparr>ib_result := Some (Inl ErrNoData)\<rparr>" and ?y = "toy_packet\<lparr>ib_result := Some (Inl ErrNoData), ib_ready := True\<rparr>"
  have c: "u_closed (toy_udp n) = False" for n by (simp add: toy_udp_def)
  let ?s1 = "toy_pipe\<lparr>pp_packets := [newInbound], pp_outstanding := 1, pp_io := IoReading [0]\<rparr>"
  have "io_acquire toy_pipe = ?s1" by (simp add: io_acquire_def batchSize_def defs c)
  then have 1: "?run ?s1"
    using pipe_run.step [OF pipe_run.start pipe_step.acquire [of toy_pipe]] by (simp add: defs)
  let ?s2 = "toy_pipe\<lparr>pp_packets := [newInbound\<lparr>ib_data := [9], ib_from := Some ''x''\<rparr>], pp_outstanding := 1, pp_io := IoDispatch [0]\<rparr>"
  have "io_read [0] [([9], Some ''x'')] ?s1 = ?s2" by (simp add: io_read_def update_packet_def defs c)
  then have 2: "?run ?s2" using pipe_run.step [OF 1 pipe_step.read, of "[0]" "[([9], Some ''x'')]"] by simp
  let ?s3 = "(toy_pipe_at toy_packet)\<lparr>pp_output := [0], pp_io := IoQueued 0 True []\<rparr>"
  have "io_queue_output 5 False False 0 [] ?s2 = ?s3" by (simp add: io_queue_output_def update_packet_def newInbound_def defs)
  then have 3: "?run ?s3" using pipe_run.step [OF 2 pipe_step.queue_output, of 0 "[]" 5 False False] by simp
  let ?s4 = "(toy_pipe_at toy_packet)\<lparr>pp_output := [0], pp_decrypt := [0], pp_io := IoDispatch []\<rparr>"
  have "io_queue_decrypt False 0 True [] ?s3 = ?s4" by (simp add: io_queue_decrypt_def defs)
  then have 4: "?run ?s4" using pipe_run.step [OF 3 pipe_step.queue_decrypt, of 0 True "[]" False] by simp
  let ?s5 = "(toy_pipe_at toy_packet)\<lparr>pp_output := [0], pp_decrypt := [0]\<rparr>"
  have 5: "?run ?s5" using pipe_run.step [OF 4 pipe_step.dispatched] by (simp add: defs)
  let ?s6 = "(toy_pipe_at toy_packet)\<lparr>pp_output := [0], pp_idle := 0, pp_jobs := [(0, JobTaken)]\<rparr>"
  have 6: "?run ?s6" using pipe_run.step [OF 5 pipe_step.take_job, of 0 0 "[]"] by (simp add: defs)
  have "processPacket toy_udp_env 5 id [9] (Some ''x'') u = (Inl ErrNoData, u)" for u
    by (simp add: processPacket_def message_consts)
  then have w: "work toy_udp_env 5 id 0 ?s6 = (toy_pipe_at ?r)\<lparr>pp_output := [0], pp_idle := 0, pp_jobs := [(0, JobTaken)]\<rparr>"
    by (simp add: work_def setResult_def update_packet_def defs)
  let ?s7 = "(toy_pipe_at ?r)\<lparr>pp_output := [0], pp_idle := 0, pp_jobs := [(0, JobDone)]\<rparr>"
  have 7: "?run ?s7"
    using pipe_run.step [OF 6 pipe_step.process_job [where a = "[]" and p = 0 and c = "[]" and hook = id and now = 5]] w
    by (simp add: udp_runs.start)
  let ?s8 = "(toy_pipe_at ?y)\<lparr>pp_output := [0], pp_idle := 0, pp_jobs := [(0, JobUnref)]\<rparr>"
  have 8: "?run ?s8"
    using pipe_run.step [OF 7 pipe_step.ready_job [where a = "[]" and p = 0 and c = "[]"]]
    by (simp add: closeReady_def update_packet_def defs)
  let ?s9 = "(toy_pipe_at ?y)\<lparr>pp_idle := 0, pp_jobs := [(0, JobUnref)], pp_recv := RecvWait 0\<rparr>"
  have 9: "?run ?s9" using pipe_run.step [OF 8 pipe_step.take_output, of 0 "[]"] by (simp add: defs)
  let ?s10 = "(toy_pipe_at ?y)\<lparr>pp_idle := 0, pp_jobs := [(0, JobUnref)], pp_recv := RecvUnref 0, pp_handled := [0]\<rparr>"
  have 10: "?run ?s10"
    using pipe_run.step [OF 9 pipe_step.deliver, of 0 "countReceived 5 1 (toy_udp 1)" 5 5]
    by (simp add: deliveries_def deliverInbound_def defs)
  let ?s11 = "(toy_pipe_at (?y\<lparr>ib_refs := 1\<rparr>))\<lparr>pp_recv := RecvUnref 0, pp_handled := [0]\<rparr>"
  have 11: "?run ?s11"
    using pipe_run.step [OF 10 pipe_step.unref_job [where a = "[]" and p = 0 and c = "[]"]]
    by (simp add: unrefPacket_def update_packet_def defs)
  show ?thesis
    using pipe_run.step [OF 11 pipe_step.recv_unref, of 0]
    by (simp add: unrefPacket_def releasePacket_def update_packet_def defs)
qed

theorem pipeline_bookkeeping_witness:
  "\<exists>s. pipe_run toy_udp_env {} toy_pipe s \<and> pp_handled s = [0] \<and> pp_outstanding s = 0 \<and> \<not> pp_panic s"
  using pipeline_bookkeeping [OF toy_pipe_run [unfolded toy_pipe_def]] toy_pipe_run
  by (intro exI conjI) (rule toy_pipe_run, simp_all add: toy_pipe_at_def)

text \<open>
  C6: packets are delivered in the order in which they arrived and each at most once, however the
  workers overtake each other: what the delivery loop has handled, the packet it waits for and the
  output queue are together the packets that were queued, which are numbered in the order of
  arrival.
\<close>

theorem pipeline_delivers_in_order:
  assumes "pipe_run env N (startPipe u raw dec workers batch) s"
  shows "pp_handled s @ recv_wait (pp_recv s) @ pp_output s = pp_arrived s
    \<and> sorted_wrt (<) (pp_arrived s @ io_own (pp_io s))"
  using pipe_invD(2) [OF pipe_run_inv [OF assms inv_start]] by (simp add: order_ok_def)

theorem pipeline_delivers_in_order_witness:
  "\<exists>s. pipe_run toy_udp_env {} toy_pipe s \<and> pp_handled s @ recv_wait (pp_recv s) @ pp_output s = [0] \<and> pp_arrived s = [0]"
  using pipeline_delivers_in_order [OF toy_pipe_run [unfolded toy_pipe_def]]
  by (intro exI conjI) (rule toy_pipe_run, simp_all add: toy_pipe_at_def)

section \<open>The pipeline runs the network\<close>

lemma udp_runs_trans: "udp_runs env N v w \<Longrightarrow> udp_runs env N u v \<Longrightarrow> udp_runs env N u w"
proof (induction rule: udp_runs.induct)
  case deliver_step
  then show ?case by (blast intro: udp_runs.deliver_step)
next
  case endpoint_step
  then show ?case by (blast intro: udp_runs.endpoint_step)
next
  case connect_step
  then show ?case by (blast intro: udp_runs.connect_step)
next
  case handle_connect_step
  then show ?case by (blast intro: udp_runs.handle_connect_step)
next
  case timeout_step
  then show ?case by (blast intro: udp_runs.timeout_step)
next
  case packet_step
  then show ?case by (blast intro: udp_runs.packet_step)
next
  case send_step
  then show ?case by (blast intro: udp_runs.send_step)
next
  case write_step
  then show ?case by (blast intro: udp_runs.write_step)
next
  case read_step
  then show ?case by (blast intro: udp_runs.read_step)
next
  case mux_step
  then show ?case by (blast intro: udp_runs.mux_step)
next
  case open_mux_step
  then show ?case by (blast intro: udp_runs.open_mux_step)
next
  case close_mux_step
  then show ?case by (blast intro: udp_runs.close_mux_step)
next
  case mux_call_step
  then show ?case by (blast intro: udp_runs.mux_call_step)
next
  case count_step
  then show ?case by (blast intro: udp_runs.count_step)
next
  case close_step
  then show ?case by (blast intro: udp_runs.close_step)
qed simp

definition traced :: "udp_env \<Rightarrow> bytes set \<Rightarrow> UDP \<Rightarrow> pipe \<Rightarrow> bool" where
  "traced env N u s \<longleftrightarrow> udp_runs env N u (pp_udp s)
     \<and> (\<forall>k \<in> set (pp_packets s). \<forall>d. ib_result k = Some (Inr d) \<longrightarrow>
          (\<exists>w hook now data a w'. udp_runs env N u w \<and> (\<forall>x. udp_runs env N x (hook x))
             \<and> processPacket env now hook data a w = (Inr d, w') \<and> udp_runs env N w' (pp_udp s)))"

definition no_new_results :: "pipe \<Rightarrow> pipe \<Rightarrow> bool" where
  "no_new_results s t \<longleftrightarrow> (\<forall>k \<in> set (pp_packets t). \<forall>d. ib_result k = Some (Inr d) \<longrightarrow>
     (\<exists>k' \<in> set (pp_packets s). ib_result k' = Some (Inr d)))"

lemma traced_step:
  assumes "traced env N u s" "udp_runs env N (pp_udp s) (pp_udp t)" "no_new_results s t"
  shows "traced env N u t"
  unfolding traced_def
proof (intro conjI ballI allI impI)
  show "udp_runs env N u (pp_udp t)" using assms(1,2) udp_runs_trans by (auto simp: traced_def)
  fix k d assume "k \<in> set (pp_packets t)" "ib_result k = Some (Inr d)"
  then obtain k' where "k' \<in> set (pp_packets s)" "ib_result k' = Some (Inr d)"
    using assms(3) unfolding no_new_results_def by blast
  then obtain w hook now data a w' where "udp_runs env N u w" "\<forall>x. udp_runs env N x (hook x)"
    "processPacket env now hook data a w = (Inr d, w')" "udp_runs env N w' (pp_udp s)"
    using assms(1) unfolding traced_def by blast
  then show "\<exists>w hook now data a w'. udp_runs env N u w \<and> (\<forall>x. udp_runs env N x (hook x))
     \<and> processPacket env now hook data a w = (Inr d, w') \<and> udp_runs env N w' (pp_udp t)"
    using udp_runs_trans [OF assms(2)] by blast
qed

lemma no_new_refl: "pp_packets t = pp_packets s \<Longrightarrow> no_new_results s t"
  by (auto simp: no_new_results_def)

lemma no_new_fields [simp]:
  "no_new_results s (v\<lparr>pp_io := x0\<rparr>) = no_new_results s v"
  "no_new_results s (v\<lparr>pp_decrypt := x1\<rparr>) = no_new_results s v"
  "no_new_results s (v\<lparr>pp_output := x2\<rparr>) = no_new_results s v"
  "no_new_results s (v\<lparr>pp_arrived := x3\<rparr>) = no_new_results s v"
  "no_new_results s (v\<lparr>pp_udp := x4\<rparr>) = no_new_results s v"
  "no_new_results s (v\<lparr>pp_jobs := x5\<rparr>) = no_new_results s v"
  "no_new_results s (v\<lparr>pp_idle := x6\<rparr>) = no_new_results s v"
  "no_new_results s (v\<lparr>pp_recv := x7\<rparr>) = no_new_results s v"
  "no_new_results s (v\<lparr>pp_handled := x8\<rparr>) = no_new_results s v"
  "no_new_results s (v\<lparr>pp_exited := x9\<rparr>) = no_new_results s v"
  "no_new_results s (v\<lparr>pp_closeChan := x10\<rparr>) = no_new_results s v"
  "no_new_results s (v\<lparr>pp_outstanding := x11\<rparr>) = no_new_results s v"
  by (simp_all add: no_new_results_def)

lemma no_new_trans: "no_new_results s t \<Longrightarrow> no_new_results t v \<Longrightarrow> no_new_results s v"
  by (fastforce simp: no_new_results_def)

lemma no_new_set:
  assumes "pp_packets t = (pp_packets s)[p := k]" "\<And>d. ib_result k = Some (Inr d) \<Longrightarrow> ib_result (pp_packets s ! p) = Some (Inr d)"
  shows "no_new_results s t"
proof (cases "p < length (pp_packets s)")
  case True
  then show ?thesis using assms set_update_subset_insert [of "pp_packets s" p k] unfolding no_new_results_def
    by (metis insertE nth_mem subsetD)
next
  case False
  then show ?thesis using assms(1) by (intro no_new_refl) (simp add: list_update_beyond)
qed

lemma no_new_update:
  assumes "\<And>k d. ib_result (f k) = Some (Inr d) \<Longrightarrow> ib_result k = Some (Inr d)"
  shows "no_new_results s (update_packet p f s)"
proof (rule no_new_set)
  show "pp_packets (update_packet p f s) = (pp_packets s)[p := f (pp_packets s ! p)]" by (simp add: update_packet_def)
qed (rule assms)

lemma no_new_release: "no_new_results s (releasePacket p s)"
proof -
  have "no_new_results s (update_packet p (\<lambda>k. k\<lparr>ib_released := True\<rparr>) s)" by (rule no_new_update) simp
  then show ?thesis by (auto simp: releasePacket_def Let_def no_new_results_def)
qed

lemma no_new_unref: "no_new_results s (unrefPacket p s)"
proof -
  let ?t = "update_packet p (\<lambda>k. k\<lparr>ib_refs := ib_refs k - 1\<rparr>) s"
  have "no_new_results s ?t" by (rule no_new_update) simp
  then show ?thesis using no_new_trans no_new_release unfolding unrefPacket_def Let_def by auto
qed

lemma no_new_ready: "no_new_results s (closeReady p s)"
proof -
  have "no_new_results s (update_packet p (\<lambda>k. k\<lparr>ib_ready := True\<rparr>) s)" by (rule no_new_update) simp
  then show ?thesis by (simp add: closeReady_def no_new_refl)
qed

lemma no_new_error: "no_new_results s (setResult p (Inl e) s)"
  unfolding setResult_def by (rule no_new_update) simp

lemma no_new_with: "no_new_results s t \<Longrightarrow> pp_packets v = pp_packets t \<Longrightarrow> no_new_results s v"
  by (simp add: no_new_results_def)

lemma no_new_from: "no_new_results s' t \<Longrightarrow> pp_packets s' = pp_packets s \<Longrightarrow> no_new_results s t"
  by (simp add: no_new_results_def)

lemma no_new_releases: "no_new_results s (fold releasePacket ps s)"
  by (induction ps arbitrary: s) (auto intro: no_new_refl no_new_trans [OF no_new_release])

lemma no_new_fill:
  "no_new_results s (fold (\<lambda>(p, data, from_addr). update_packet p (\<lambda>k. k\<lparr>ib_data := data, ib_from := from_addr\<rparr>)) xs s)"
proof (induction xs arbitrary: s)
  case (Cons x xs)
  obtain p d f where x: "x = (p, d, f)" by (cases x)
  have "no_new_results s (update_packet p (\<lambda>k. k\<lparr>ib_data := d, ib_from := f\<rparr>) s)"
    by (rule no_new_update) simp
  from no_new_trans [OF this Cons.IH] show ?case by (simp add: x)
qed (simp add: no_new_refl)

lemma no_new_acquire: "acquirePackets n s = (ps, t) \<Longrightarrow> no_new_results s t"
proof (induction n arbitrary: s ps)
  case (Suc n)
  let ?v = "s\<lparr>pp_packets := pp_packets s @ [newInbound], pp_outstanding := pp_outstanding s + 1\<rparr>"
  have "no_new_results s ?v" by (auto simp: no_new_results_def newInbound_def)
  moreover obtain qs where "acquirePackets n ?v = (qs, t)" using Suc.prems by (auto split: prod.splits)
  ultimately show ?case using Suc.IH no_new_trans by blast
qed (simp add: no_new_refl)

lemma run_from_udp: "v = dropOutput u \<or> v = dropDecrypt u \<or> v = dropInbound u \<or> v = countReceived now n u \<Longrightarrow> udp_runs env N u v"
  by (rule udp_runs.count_step [OF udp_runs.start]) blast

lemma io_steps_udp:
  "pp_udp (io_acquire s) = pp_udp s" "pp_udp (io_read_error ps s) = pp_udp s" "pp_udp (io_read ps dgrams s) = pp_udp s"
proof -
  have r: "pp_udp (fold releasePacket xs s) = pp_udp s" for xs s by (induction xs arbitrary: s) simp_all
  have f: "pp_udp (fold (\<lambda>(p, data, from_addr). update_packet p (\<lambda>k. k\<lparr>ib_data := data, ib_from := from_addr\<rparr>)) xs s) = pp_udp s"
    for xs s by (induction xs arbitrary: s) auto
  have a: "pp_udp (snd (acquirePackets n s)) = pp_udp s" for n s
    by (induction n arbitrary: s) (auto split: prod.splits simp: prod_eq_iff)
  show "pp_udp (io_acquire s) = pp_udp s" using a [of "batchSize (pp_batch s)" s]
    by (auto simp: io_acquire_def split: prod.splits)
  show "pp_udp (io_read_error ps s) = pp_udp s" "pp_udp (io_read ps dgrams s) = pp_udp s"
    by (simp_all add: io_read_error_def io_read_def Let_def r f)
qed

lemma io_steps_results:
  "no_new_results s (io_acquire s)" "no_new_results s (io_read_error ps s)" "no_new_results s (io_read ps dgrams s)"
proof -
  obtain qs t where a: "acquirePackets (batchSize (pp_batch s)) s = (qs, t)" by fastforce
  show "no_new_results s (io_acquire s)"
    using no_new_with [OF no_new_acquire [OF a]] a by (simp add: io_acquire_def no_new_refl)
  show "no_new_results s (io_read_error ps s)"
    by (rule no_new_with [OF no_new_releases [of s ps]]) (simp add: io_read_error_def Let_def)
  have "no_new_results s (fold (\<lambda>(p, data, from_addr). update_packet p (\<lambda>k. k\<lparr>ib_data := data, ib_from := from_addr\<rparr>))
      (zip (take n ps) dgrams) (fold releasePacket (drop n ps) s))" for n
    by (rule no_new_trans [OF no_new_releases no_new_fill])
  then show "no_new_results s (io_read ps dgrams s)"
    using no_new_releases [of s ps] by (simp add: io_read_def Let_def)
qed

lemma queue_output_traced:
  "udp_runs env N (pp_udp s) (pp_udp (io_queue_output now c b p rest s))" "no_new_results s (io_queue_output now c b p rest s)"
proof -
  let ?s1 = "s\<lparr>pp_udp := countReceived now (length (ib_data (pp_packets s ! p))) (pp_udp s)\<rparr>"
  let ?s2 = "update_packet p (\<lambda>k. k\<lparr>ib_refs := 2\<rparr>) ?s1"
  have c: "udp_runs env N (pp_udp s) (pp_udp ?s1)" by (rule run_from_udp) auto
  have d: "udp_runs env N (pp_udp s) (dropOutput (pp_udp ?s1))"
    by (rule udp_runs_trans [OF run_from_udp c]) blast
  show "udp_runs env N (pp_udp s) (pp_udp (io_queue_output now c b p rest s))"
    using c d udp_runs.start by (simp add: io_queue_output_def Let_def)
  have n1: "no_new_results s ?s1" by (rule no_new_refl) simp
  have n2: "no_new_results s ?s2" by (rule no_new_trans [OF n1 no_new_update]) simp
  have n3: "no_new_results s (?s2\<lparr>pp_udp := w\<rparr>)" for w by (rule no_new_with [OF n2]) simp
  have "no_new_results s (unrefPacket p (?s2\<lparr>pp_udp := w\<rparr>))" for w by (rule no_new_trans [OF n3 no_new_unref])
  moreover have "no_new_results s (unrefPacket p (unrefPacket p ?s2))"
    by (rule no_new_trans [OF no_new_trans [OF n2 no_new_unref] no_new_unref])
  moreover have "no_new_results s (releasePacket p s)" "no_new_results s (releasePacket p ?s1)"
    by (rule no_new_release, rule no_new_trans [OF n1 no_new_release])
  ultimately show "no_new_results s (io_queue_output now c b p rest s)"
    using n2 unfolding io_queue_output_def Let_def by (auto intro: no_new_with)
qed

lemma queue_decrypt_traced:
  "udp_runs env N (pp_udp s) (pp_udp (io_queue_decrypt b p queued rest s))" "no_new_results s (io_queue_decrypt b p queued rest s)"
proof -
  have u: "pp_udp (closeReady p v) = pp_udp v" "pp_udp (setResult p r v) = pp_udp v" for v r
    by (simp_all add: closeReady_def setResult_def)
  have d: "udp_runs env N (pp_udp s) (dropDecrypt (pp_udp s))" by (rule run_from_udp) blast
  then show "udp_runs env N (pp_udp s) (pp_udp (io_queue_decrypt b p queued rest s))"
    using udp_runs.start by (simp add: io_queue_decrypt_def Let_def u)
  have n: "no_new_results s (s\<lparr>pp_udp := w\<rparr>)" for w by (rule no_new_refl) simp
  have "no_new_results v (closeReady p (setResult p (Inl ErrNoData) v))" for v
    by (rule no_new_trans [OF no_new_error no_new_ready])
  then show "no_new_results s (io_queue_decrypt b p queued rest s)"
    using n no_new_trans [OF n] no_new_refl [of s s] unfolding io_queue_decrypt_def Let_def by auto
qed

lemma work_traced:
  assumes t: "traced env N u s" and h: "\<forall>x. udp_runs env N x (hook x)"
  shows "traced env N u (work env now hook p s)"
proof -
  let ?k = "pp_packets s ! p"
  obtain r w' where pp: "processPacket env now hook (ib_data ?k) (ib_from ?k) (pp_udp s) = (r, w')" by fastforce
  have w: "work env now hook p s = setResult p r (s\<lparr>pp_udp := w'\<rparr>)" by (simp add: work_def pp)
  have run: "udp_runs env N (pp_udp s) w'"
    using udp_runs.packet_step [OF udp_runs.start h, of "pp_udp s" now "ib_data ?k" "ib_from ?k"] pp by simp
  have u: "udp_runs env N u (pp_udp s)" using t by (simp add: traced_def)
  have "traced env N u (s\<lparr>pp_udp := w'\<rparr>)"
    by (rule traced_step [OF t]) (use run in \<open>auto intro: no_new_refl\<close>)
  moreover have "set (pp_packets (work env now hook p s)) \<subseteq> insert (?k\<lparr>ib_result := Some r\<rparr>) (set (pp_packets s))"
    unfolding w by (simp add: setResult_def update_packet_def set_update_subset_insert)
  moreover have w': "pp_udp (work env now hook p s) = w'" unfolding w by (simp add: setResult_def)
  moreover have "\<exists>w hook now data a v. udp_runs env N u w \<and> (\<forall>x. udp_runs env N x (hook x))
     \<and> processPacket env now hook data a w = (Inr d, v) \<and> udp_runs env N v w'" if "r = Inr d" for d
    using u h pp udp_runs.start [of env N w'] that by blast
  moreover have "k \<in> set (pp_packets s) \<or> k = ?k\<lparr>ib_result := Some r\<rparr>" if "k \<in> set (pp_packets (work env now hook p s))" for k
    using calculation(2) that by blast
  ultimately show ?thesis unfolding traced_def w' by (auto dest: bspec)
qed

lemma pipe_step_traced:
  assumes "pipe_step env N s t" "traced env N u s" "pipe_inv s" and inv: "udp_inv N u"
  shows "traced env N u t"
proof -
  note st = traced_step [OF assms(2)]
  note refl = udp_runs.start [of env N "pp_udp s"]
  from assms(1) show ?thesis
  proof cases
    case acquire
    then show ?thesis using st [OF _ io_steps_results(1)] refl by (simp add: io_steps_udp)
  next
    case (read_error ps)
    then show ?thesis using st [OF _ io_steps_results(2)] refl by (simp add: io_steps_udp)
  next
    case (read ps dgrams)
    then show ?thesis using st [OF _ io_steps_results(3)] refl by (simp add: io_steps_udp)
  next
    case (queue_output p rest now c b)
    then show ?thesis using st [OF queue_output_traced] by simp
  next
    case (queue_decrypt p queued rest b)
    then show ?thesis using st [OF queue_decrypt_traced] by simp
  next
    case (process_job a p c hook now)
    have w: "traced env N u (work env now hook p s)" by (rule work_traced [OF assms(2) process_job(3)])
    show ?thesis unfolding process_job(1) by (rule traced_step [OF w]) (simp_all add: udp_runs.start no_new_refl)
  next
    case (ready_job a p c)
    have "pp_udp (closeReady p s) = pp_udp s" by (simp add: closeReady_def)
    then show ?thesis using ready_job no_new_ready by (intro st) (simp_all add: refl)
  next
    case (deliver p u' now until)
    have "p \<in> set (out_refs s)" using deliver(2) by (simp add: out_refs_def)
    then have p: "pp_packets s ! p \<in> set (pp_packets s)" using assms(3) unfolding pipe_inv_def refs_ok_def by auto
    have "udp_runs env N (pp_udp s) u'"
    proof (cases "ib_result (pp_packets s ! p)")
      case None
      then show ?thesis using deliver(4) run_from_udp by (simp add: deliveries_def)
    next
      case (Some r)
      then have d: "u' \<in> set (deliverInbound env now until r (pp_udp s))" using deliver(4) by (simp add: deliveries_def)
      show ?thesis
      proof (cases r)
        case (Inl e)
        then show ?thesis using d refl by (simp add: deliverInbound_def)
      next
        case (Inr x)
        obtain w hook n data a w' where w: "udp_runs env N u w" "\<forall>x. udp_runs env N x (hook x)"
          "processPacket env n hook data a w = (Inr x, w')" "udp_runs env N w' (pp_udp s)"
          using assms(2) p Some Inr unfolding traced_def by blast
        have "from_peer (pp_udp s) x"
        proof (rule from_peer_later)
          have "udp_inv N w" by (rule udp_okD(1) [OF udp_runs_ok [OF w(1) inv]])
          then show "from_peer w' x" by (rule processPacket_from_peer [OF _ w(2,3)])
          have "udp_inv N x \<Longrightarrow> udp_ok N x (hook x)" for x using w(2) udp_runs_ok by blast
          then have "udp_inv N w'" using processPacket_ok [OF \<open>udp_inv N w\<close> _ w(3)] udp_okD(1) by blast
          then show "udp_ok N w' (pp_udp s)" by (rule udp_runs_ok [OF w(4)])
        qed
        then show ?thesis using d Inr by (intro udp_runs.deliver_step [OF refl]) auto
      qed
    qed
    then show ?thesis using deliver(1) by (intro st) (simp_all add: no_new_refl)
  next
    case (api u')
    then show ?thesis by (intro st) (simp_all add: no_new_refl)
  qed (auto intro!: st simp: refl no_new_unref no_new_refl [OF HOL.refl])
qed



end
