(* ===== verification/KvKey.thy ===== *)
theory KvKey
  imports GizPrelude "HOL-Library.List_Lexorder"
begin

text \<open>
  Hierarchical keys of the key-value stores, \<^verbatim>\<open>pkgs/store/kv/kv.go\<close>: a key is a list of segments,
  joined with a separator byte for storage. A \<^verbatim>\<open>*Options\<close> is an option; encoding panics (\<open>None\<close>) when a
  segment contains the separator.
\<close>

type_synonym segment = bytes
type_synonym key = "segment list"

record Options = op_Separator :: u8

definition DefaultSeparator :: u8 where "DefaultSeparator = 0x3a"

definition sep :: "Options option \<Rightarrow> u8" where
  "sep o' = (case o' of Some p \<Rightarrow> if op_Separator p \<noteq> 0 then op_Separator p else DefaultSeparator
            | None \<Rightarrow> DefaultSeparator)"

section \<open>Encoding\<close>

text \<open>The lengths of the segments and of the separators between them.\<close>

fun encoded_length :: "nat \<Rightarrow> key \<Rightarrow> nat" where
  "encoded_length i [] = 0"
| "encoded_length i (seg # k) = (if i > 0 then 1 else 0) + length seg + encoded_length (i + 1) k"

fun encode_segments :: "u8 \<Rightarrow> nat \<Rightarrow> nat \<Rightarrow> key \<Rightarrow> bytes \<Rightarrow> bytes" where
  "encode_segments s i pos [] buf = buf"
| "encode_segments s i pos (seg # k) buf =
     (let buf = (if i > 0 then buf[pos := s] else buf);
          pos = (if i > 0 then pos + 1 else pos);
          n = copied (drop pos buf) seg;
          buf = copy_at buf pos (length buf) seg
      in encode_segments s (i + 1) (pos + n) k buf)"

definition encode :: "Options option \<Rightarrow> key \<Rightarrow> bytes option" where
  "encode o' k =
     (let s = sep o' in
      if \<exists>seg \<in> set k. s \<in> set seg then None
      else Some (encode_segments s 0 0 k (replicate (encoded_length 0 k) 0)))"

text \<open>\<^verbatim>\<open>bytes.Split(b, []byte{s})\<close> with one separator byte.\<close>

fun bytes_Split :: "u8 \<Rightarrow> bytes \<Rightarrow> bytes list" where
  "bytes_Split s [] = [[]]"
| "bytes_Split s (c # b) =
     (if c = s then [] # bytes_Split s b
      else case bytes_Split s b of p # ps \<Rightarrow> (c # p) # ps | [] \<Rightarrow> [[c]])"

definition decode :: "Options option \<Rightarrow> bytes \<Rightarrow> key" where
  "decode o' b = bytes_Split (sep o') b"

text \<open>\<^verbatim>\<open>strings.Join\<close>.\<close>

fun strings_Join :: "u8 \<Rightarrow> key \<Rightarrow> bytes" where
  "strings_Join s [] = []"
| "strings_Join s [seg] = seg"
| "strings_Join s (seg # segs) = seg @ s # strings_Join s segs"

definition Key_String :: "key \<Rightarrow> bytes" where
  "Key_String k = strings_Join DefaultSeparator k"

section \<open>The encoding in closed form\<close>

definition clean :: "u8 \<Rightarrow> key \<Rightarrow> bool" where
  "clean s k \<longleftrightarrow> (\<forall>seg \<in> set k. s \<notin> set seg)"

lemma clean_simps [simp]:
  "clean s []" "clean s (seg # k) \<longleftrightarrow> s \<notin> set seg \<and> clean s k" "clean s (a @ b) \<longleftrightarrow> clean s a \<and> clean s b"
  by (auto simp: clean_def)

text \<open>The segments behind the first, each with its separator.\<close>

definition tail_bytes :: "u8 \<Rightarrow> key \<Rightarrow> bytes" where
  "tail_bytes s k = concat (map (\<lambda>seg. s # seg) k)"

lemma tail_bytes_simps [simp]:
  "tail_bytes s [] = []" "tail_bytes s (seg # k) = s # seg @ tail_bytes s k"
  "tail_bytes s (a @ b) = tail_bytes s a @ tail_bytes s b"
  by (simp_all add: tail_bytes_def)

lemma strings_Join_Cons: "strings_Join s (seg # k) = seg @ tail_bytes s k"
  by (induction k arbitrary: seg) simp_all

lemma encoded_length_tail: "i > 0 \<Longrightarrow> encoded_length i k = length (tail_bytes s k)"
  by (induction k arbitrary: i) simp_all

lemma encode_segments_tail:
  "i > 0 \<Longrightarrow> length pre = pos \<Longrightarrow>
   encode_segments s i pos k (pre @ replicate (encoded_length i k) 0) = pre @ tail_bytes s k"
proof (induction k arbitrary: i pre pos)
  case (Cons seg k)
  let ?r = "replicate (encoded_length (Suc i) k) (0::u8)"
  have 1: "(pre @ replicate (encoded_length i (seg # k)) 0)[pos := s] = (pre @ [s]) @ replicate (length seg) 0 @ ?r"
    using Cons.prems by (simp add: replicate_add list_update_append)
  have 2: "copy_at ((pre @ [s]) @ replicate (length seg) 0 @ ?r) (pos + 1)
      (length ((pre @ [s]) @ replicate (length seg) 0 @ ?r)) seg = (pre @ [s] @ seg) @ ?r"
    using Cons.prems by (simp add: copy_at_def go_copy_def)
  have 3: "copied (drop (pos + 1) ((pre @ [s]) @ replicate (length seg) 0 @ ?r)) seg = length seg"
    using Cons.prems by (simp add: copied_def)
  have "encode_segments s i pos (seg # k) (pre @ replicate (encoded_length i (seg # k)) 0) =
      encode_segments s (Suc i) (pos + 1 + length seg) k ((pre @ [s] @ seg) @ ?r)"
    unfolding encode_segments.simps Let_def using Cons.prems(1) 1 2 3
    by (simp del: encoded_length.simps)
  also have "\<dots> = (pre @ [s] @ seg) @ tail_bytes s k"
    by (rule Cons.IH) (use Cons.prems in simp_all)
  finally show ?case by simp
qed simp

lemma encode_eq: "encode o' k = (if clean (sep o') k then Some (strings_Join (sep o') k) else None)"
proof (cases k)
  case Nil
  then show ?thesis by (simp add: encode_def Let_def)
next
  case (Cons seg k')
  let ?s = "sep o'" and ?r = "replicate (encoded_length 1 k') (0::u8)"
  have "copy_at (replicate (length seg) 0 @ ?r) 0 (length (replicate (length seg) 0 @ ?r)) seg = seg @ ?r"
    by (simp add: copy_at_def go_copy_def)
  moreover have "copied (drop 0 (replicate (length seg) 0 @ ?r)) seg = length seg" by (simp add: copied_def)
  ultimately have "encode_segments ?s 0 0 k (replicate (encoded_length 0 k) 0) =
      encode_segments ?s 1 (length seg) k' (seg @ ?r)"
    by (simp add: Cons replicate_add Let_def)
  also have "\<dots> = seg @ tail_bytes ?s k'" by (rule encode_segments_tail) simp_all
  finally show ?thesis by (simp add: encode_def Let_def Cons strings_Join_Cons clean_def)
qed

section \<open>Decoding\<close>

lemma Split_clean: "s \<notin> set b \<Longrightarrow> bytes_Split s b = [b]"
  by (induction b) auto

lemma Split_append: "s \<notin> set a \<Longrightarrow> bytes_Split s (a @ s # b) = a # bytes_Split s b"
  by (induction a) auto

lemma Split_Join: "clean s k \<Longrightarrow> k \<noteq> [] \<Longrightarrow> bytes_Split s (strings_Join s k) = k"
  by (induction s k rule: strings_Join.induct) (simp_all add: Split_clean Split_append)

lemma Split_not_Nil: "bytes_Split s b \<noteq> []"
  by (induction b) (simp_all split: list.split)

lemma Join_Split: "strings_Join s (bytes_Split s b) = b"
proof (induction b)
  case (Cons c b)
  obtain p ps where sp: "bytes_Split s b = p # ps" using Split_not_Nil [of s b] by (cases "bytes_Split s b") auto
  then show ?case using Cons by (cases ps) (auto simp: strings_Join_Cons)
qed simp

lemma clean_Split: "clean s (bytes_Split s b)"
proof (induction b)
  case (Cons c b)
  then show ?case by (cases "bytes_Split s b") auto
qed simp

lemma Join_inject: "clean s a \<Longrightarrow> clean s b \<Longrightarrow> a \<noteq> [] \<Longrightarrow> b \<noteq> [] \<Longrightarrow> strings_Join s a = strings_Join s b \<longleftrightarrow> a = b"
  by (metis Split_Join)

lemma Join_Nil_iff: "strings_Join s k = [] \<longleftrightarrow> k = [] \<or> k = [[]]"
proof (cases k)
  case (Cons seg k')
  then show ?thesis by (cases k') (simp_all add: strings_Join_Cons)
qed simp

text \<open>
  C1: A key of clean segments comes back from its encoding, and every stored byte string is the
  encoding of the key it decodes to; only the empty key is stored like another, the key of one empty
  segment.
\<close>

theorem kv_key_codec:
  "(\<forall>k b. encode o' k = Some b \<longrightarrow> (if k = [] then decode o' b = [[]] else decode o' b = k)) \<and>
   (\<forall>b. encode o' (decode o' b) = Some b) \<and>
   (\<forall>k. encode o' k = None \<longleftrightarrow> (\<exists>seg \<in> set k. sep o' \<in> set seg))"
proof (intro conjI allI impI)
  fix k b assume "encode o' k = Some b"
  then show "if k = [] then decode o' b = [[]] else decode o' b = k"
    by (auto simp: encode_eq decode_def Split_Join split: if_splits)
next
  fix b show "encode o' (decode o' b) = Some b"
    by (simp add: encode_eq decode_def clean_Split Join_Split)
next
  fix k show "encode o' k = None \<longleftrightarrow> (\<exists>seg \<in> set k. sep o' \<in> set seg)"
    by (auto simp: encode_eq clean_def)
qed

section \<open>Subtrees\<close>

definition HasPrefix :: "bytes \<Rightarrow> bytes \<Rightarrow> bool" where
  "HasPrefix b p \<longleftrightarrow> take (length p) b = p"

text \<open>The encoded keys behind an encoded prefix and a separator are those of its proper extensions.\<close>

lemma subtree_iff:
  assumes p: "clean s p" "p \<noteq> []" and k: "clean s k" "k \<noteq> []"
  shows "HasPrefix (strings_Join s k) (strings_Join s p @ [s]) \<longleftrightarrow> (\<exists>r. r \<noteq> [] \<and> k = p @ r)"
proof
  assume "HasPrefix (strings_Join s k) (strings_Join s p @ [s])"
  then obtain x where x: "strings_Join s k = strings_Join s p @ s # x"
    by (metis HasPrefix_def append_take_drop_id append_assoc append_Cons append_Nil)
  have "bytes_Split s (strings_Join s p @ s # x) = p @ bytes_Split s x"
    using p by (induction s p rule: strings_Join.induct) (simp_all add: Split_append)
  then have "k = p @ bytes_Split s x" using Split_Join [OF k] x by simp
  then show "\<exists>r. r \<noteq> [] \<and> k = p @ r" using Split_not_Nil by blast
next
  assume "\<exists>r. r \<noteq> [] \<and> k = p @ r"
  then obtain seg r where "k = p @ seg # r" by (metis neq_Nil_conv)
  moreover obtain a p' where "p = a # p'" using p(2) by (cases p) auto
  ultimately show "HasPrefix (strings_Join s k) (strings_Join s p @ [s])"
    by (simp add: HasPrefix_def strings_Join_Cons)
qed

end
