(* ===== verification/KvStore.thy ===== *)
theory KvStore
  imports KvKey
begin

text \<open>
  The key-value store interface of \<^verbatim>\<open>pkgs/store/kv/kv.go\<close>, its in-memory implementation
  (\<^verbatim>\<open>memory.go\<close>) and the view of a store under a prefix (\<^verbatim>\<open>prefix.go\<close>). The interface is a record of
  functions on the state of the store. Each call has an environment: the results of the successive
  calls of \<^verbatim>\<open>ctx.Err()\<close> and the two times \<^verbatim>\<open>Get\<close> may look at the clock. The result \<open>EncodePanic\<close>
  stands for the panic of encoding a key that is not clean.
\<close>

datatype kv_error = KvNotFound | ErrInvalidDeadline | ErrContext nat | ErrOutsidePrefix key key | EncodePanic

record Entry =
  en_Key :: key
  en_Value :: bytes
  en_Deadline :: gotime

record kv_call =
  kc_err :: "nat \<Rightarrow> kv_error option"
  kc_now :: int
  kc_now2 :: int

text \<open>The environment after one call of \<^verbatim>\<open>ctx.Err()\<close>.\<close>

definition asked :: "kv_call \<Rightarrow> kv_call" where
  "asked c = c\<lparr>kc_err := \<lambda>n. kc_err c (Suc n)\<rparr>"

text \<open>What an iterator yields to a consumer that does not stop: entries or errors.\<close>

type_synonym yields = "(kv_error + Entry) list"

record 's Store =
  st_Get :: "kv_call \<Rightarrow> key \<Rightarrow> 's \<Rightarrow> (kv_error + bytes) \<times> 's"
  st_Set :: "kv_call \<Rightarrow> key \<Rightarrow> bytes \<Rightarrow> 's \<Rightarrow> kv_error option \<times> 's"
  st_Delete :: "kv_call \<Rightarrow> key \<Rightarrow> 's \<Rightarrow> kv_error option \<times> 's"
  st_List :: "kv_call \<Rightarrow> key \<Rightarrow> 's \<Rightarrow> yields"
  st_BatchSet :: "kv_call \<Rightarrow> Entry list \<Rightarrow> 's \<Rightarrow> kv_error option \<times> 's"
  st_BatchDelete :: "kv_call \<Rightarrow> key list \<Rightarrow> 's \<Rightarrow> kv_error option \<times> 's"
  st_ListAfter :: "(kv_call \<Rightarrow> key \<Rightarrow> key \<Rightarrow> int \<Rightarrow> 's \<Rightarrow> kv_error + Entry list) option"

text \<open>The zero \<^verbatim>\<open>Entry\<close> with a key and a value.\<close>

definition entry :: "key \<Rightarrow> bytes \<Rightarrow> Entry" where
  "entry k v = \<lparr>en_Key = k, en_Value = v, en_Deadline = None\<rparr>"

section \<open>Paging\<close>

text \<open>
  The loop that both paging functions have over a listing: entries up to \<open>after\<close> are skipped, in the
  order of the display form of keys, and \<open>limit\<close> entries are collected.
\<close>

fun after_loop :: "key \<Rightarrow> nat \<Rightarrow> Entry list \<Rightarrow> yields \<Rightarrow> kv_error + Entry list" where
  "after_loop after limit entries [] = Inr entries"
| "after_loop after limit entries (Inl err # ys) = Inl err"
| "after_loop after limit entries (Inr e # ys) =
     (if length after > 0 \<and> Key_String (en_Key e) \<le> Key_String after then after_loop after limit entries ys
      else
        let entries = entries @ [e] in
        if length entries \<ge> limit then Inr entries else after_loop after limit entries ys)"

definition ListAfter :: "'s Store \<Rightarrow> kv_call \<Rightarrow> key \<Rightarrow> key \<Rightarrow> int \<Rightarrow> 's \<Rightarrow> kv_error + Entry list" where
  "ListAfter store c prefix after limit s =
     (if limit \<le> 0 then Inr []
      else case kc_err c 0 of Some err \<Rightarrow> Inl err
        | None \<Rightarrow>
          (case st_ListAfter store of
             Some pager \<Rightarrow> pager (asked c) prefix after limit s
           | None \<Rightarrow> after_loop after (nat limit) [] (st_List store (asked c) prefix s)))"

section \<open>The in-memory store\<close>

record memoryEntry =
  me_value :: bytes
  me_expiresAt :: gotime

record Memory =
  ms_data :: "(bytes, memoryEntry) gomap"
  ms_opts :: "Options option"

definition NewMemory :: "Options option \<Rightarrow> Memory" where
  "NewMemory opts = \<lparr>ms_data = [], ms_opts = opts\<rparr>"

definition expired :: "memoryEntry \<Rightarrow> int \<Rightarrow> bool" where
  "expired e now = (case me_expiresAt e of None \<Rightarrow> False | Some t \<Rightarrow> t \<le> now)"

text \<open>\<open>others\<close> is what happens between the read lock and the write lock.\<close>

definition Memory_Get :: "(Memory \<Rightarrow> Memory) \<Rightarrow> kv_call \<Rightarrow> key \<Rightarrow> Memory \<Rightarrow> (kv_error + bytes) \<times> Memory" where
  "Memory_Get others c key m =
     (case kc_err c 0 of Some err \<Rightarrow> (Inl err, m)
      | None \<Rightarrow>
        (case encode (ms_opts m) key of None \<Rightarrow> (Inl EncodePanic, m)
         | Some k \<Rightarrow>
           (case map_get (ms_data m) k of
              None \<Rightarrow> (Inl KvNotFound, m)
            | Some e \<Rightarrow>
                if expired e (kc_now c) then
                  (let m = others m in
                   (Inl KvNotFound,
                    case map_get (ms_data m) k of
                      Some current \<Rightarrow>
                        if expired current (kc_now2 c) then m\<lparr>ms_data := map_del k (ms_data m)\<rparr> else m
                    | None \<Rightarrow> m))
                else (Inr (me_value e), m))))"

definition Memory_Set :: "kv_call \<Rightarrow> key \<Rightarrow> bytes \<Rightarrow> Memory \<Rightarrow> kv_error option \<times> Memory" where
  "Memory_Set c key value m =
     (case kc_err c 0 of Some err \<Rightarrow> (Some err, m)
      | None \<Rightarrow>
        (case encode (ms_opts m) key of None \<Rightarrow> (Some EncodePanic, m)
         | Some k \<Rightarrow>
           (None, m\<lparr>ms_data := map_put k \<lparr>me_value = value, me_expiresAt = None\<rparr> (ms_data m)\<rparr>)))"

definition Memory_Delete :: "kv_call \<Rightarrow> key \<Rightarrow> Memory \<Rightarrow> kv_error option \<times> Memory" where
  "Memory_Delete c key m =
     (case kc_err c 0 of Some err \<Rightarrow> (Some err, m)
      | None \<Rightarrow>
        (case encode (ms_opts m) key of None \<Rightarrow> (Some EncodePanic, m)
         | Some k \<Rightarrow> (None, m\<lparr>ms_data := map_del k (ms_data m)\<rparr>)))"

text \<open>The yields of \<^verbatim>\<open>List\<close>, the context being asked before each.\<close>

fun yield_matches :: "Options option \<Rightarrow> (nat \<Rightarrow> kv_error option) \<Rightarrow> nat \<Rightarrow> (bytes \<times> bytes) list \<Rightarrow> yields" where
  "yield_matches opts errs i [] = []"
| "yield_matches opts errs i ((k, v) # ms) =
     (case errs i of Some err \<Rightarrow> [Inl err]
      | None \<Rightarrow> Inr (entry (decode opts k) v) # yield_matches opts errs (i + 1) ms)"

definition Memory_List :: "kv_call \<Rightarrow> key \<Rightarrow> Memory \<Rightarrow> yields" where
  "Memory_List c prefix m =
     (case kc_err c 0 of Some err \<Rightarrow> [Inl err]
      | None \<Rightarrow>
        (case encode (ms_opts m) prefix of None \<Rightarrow> [Inl EncodePanic]
         | Some p \<Rightarrow>
           let prefixBytes = (if length p > 0 then p @ [sep (ms_opts m)] else []);
               matches = map (\<lambda>(k, e). (k, me_value e))
                 (filter (\<lambda>(k, e). \<not> expired e (kc_now c) \<and> (length prefixBytes = 0 \<or> HasPrefix k prefixBytes))
                   (ms_data m))
           in yield_matches (ms_opts m) (kc_err c) 1 (sort_key fst matches)))"

definition Memory_ListAfter :: "kv_call \<Rightarrow> key \<Rightarrow> key \<Rightarrow> int \<Rightarrow> Memory \<Rightarrow> kv_error + Entry list" where
  "Memory_ListAfter c prefix after limit m =
     (if limit \<le> 0 then Inr []
      else case kc_err c 0 of Some err \<Rightarrow> Inl err
        | None \<Rightarrow> after_loop after (nat limit) [] (Memory_List (asked c) prefix m))"

fun prepare_batch :: "Options option \<Rightarrow> int \<Rightarrow> Entry list \<Rightarrow> kv_error + (bytes \<times> memoryEntry) list" where
  "prepare_batch opts now [] = Inr []"
| "prepare_batch opts now (e # es) =
     (if (case en_Deadline e of None \<Rightarrow> False | Some d \<Rightarrow> d \<le> now) then Inl ErrInvalidDeadline
      else case encode opts (en_Key e) of None \<Rightarrow> Inl EncodePanic
        | Some k \<Rightarrow>
          (case prepare_batch opts now es of Inl err \<Rightarrow> Inl err
           | Inr prepared \<Rightarrow> Inr ((k, \<lparr>me_value = en_Value e, me_expiresAt = en_Deadline e\<rparr>) # prepared)))"

definition Memory_BatchSet :: "kv_call \<Rightarrow> Entry list \<Rightarrow> Memory \<Rightarrow> kv_error option \<times> Memory" where
  "Memory_BatchSet c entries m =
     (case kc_err c 0 of Some err \<Rightarrow> (Some err, m)
      | None \<Rightarrow>
        (case prepare_batch (ms_opts m) (kc_now c) entries of
           Inl err \<Rightarrow> (Some err, m)
         | Inr prepared \<Rightarrow> (None, m\<lparr>ms_data := fold (\<lambda>(k, e). map_put k e) prepared (ms_data m)\<rparr>)))"

fun delete_keys :: "key list \<Rightarrow> Memory \<Rightarrow> kv_error option \<times> Memory" where
  "delete_keys [] m = (None, m)"
| "delete_keys (key # keys) m =
     (case encode (ms_opts m) key of None \<Rightarrow> (Some EncodePanic, m)
      | Some k \<Rightarrow> delete_keys keys (m\<lparr>ms_data := map_del k (ms_data m)\<rparr>))"

definition Memory_BatchDelete :: "kv_call \<Rightarrow> key list \<Rightarrow> Memory \<Rightarrow> kv_error option \<times> Memory" where
  "Memory_BatchDelete c keys m =
     (case kc_err c 0 of Some err \<Rightarrow> (Some err, m) | None \<Rightarrow> delete_keys keys m)"

definition Memory_Store :: "(Memory \<Rightarrow> Memory) \<Rightarrow> Memory Store" where
  "Memory_Store others =
     \<lparr>st_Get = Memory_Get others, st_Set = Memory_Set, st_Delete = Memory_Delete, st_List = Memory_List,
      st_BatchSet = Memory_BatchSet, st_BatchDelete = Memory_BatchDelete, st_ListAfter = Some Memory_ListAfter\<rparr>"

section \<open>The view of a store under a prefix\<close>

definition prefixedKey :: "key \<Rightarrow> key \<Rightarrow> key" where
  "prefixedKey prefix key = prefix @ key"

fun hasKeyPrefix :: "key \<Rightarrow> key \<Rightarrow> bool" where
  "hasKeyPrefix k [] = True"
| "hasKeyPrefix [] (seg # p) = False"
| "hasKeyPrefix (x # k) (seg # p) = (x = seg \<and> hasKeyPrefix k p)"

definition localKey :: "key \<Rightarrow> key \<Rightarrow> kv_error + key" where
  "localKey prefix key =
     (if \<not> hasKeyPrefix key prefix then Inl (ErrOutsidePrefix key prefix) else Inr (drop (length prefix) key))"

definition localEntry :: "key \<Rightarrow> Entry \<Rightarrow> kv_error + Entry" where
  "localEntry prefix e =
     (case localKey prefix (en_Key e) of Inl err \<Rightarrow> Inl err | Inr k \<Rightarrow> Inr (e\<lparr>en_Key := k\<rparr>))"

fun localEntries :: "key \<Rightarrow> Entry list \<Rightarrow> kv_error + Entry list" where
  "localEntries prefix [] = Inr []"
| "localEntries prefix (e # es) =
     (case localEntry prefix e of Inl err \<Rightarrow> Inl err
      | Inr e \<Rightarrow> (case localEntries prefix es of Inl err \<Rightarrow> Inl err | Inr es \<Rightarrow> Inr (e # es)))"

definition prefixed_List :: "'s Store \<Rightarrow> key \<Rightarrow> kv_call \<Rightarrow> key \<Rightarrow> 's \<Rightarrow> yields" where
  "prefixed_List base pre c prefix s =
     map (\<lambda>y. case y of Inl err \<Rightarrow> Inl err | Inr e \<Rightarrow> localEntry pre e)
       (st_List base c (prefixedKey pre prefix) s)"

definition prefixed_ListAfter ::
  "'s Store \<Rightarrow> key \<Rightarrow> kv_call \<Rightarrow> key \<Rightarrow> key \<Rightarrow> int \<Rightarrow> 's \<Rightarrow> kv_error + Entry list" where
  "prefixed_ListAfter base pre c prefix after limit s =
     (let globalAfter = (if length after > 0 then prefixedKey pre after else []) in
      case ListAfter base c (prefixedKey pre prefix) globalAfter limit s of
        Inl err \<Rightarrow> Inl err
      | Inr entries \<Rightarrow> localEntries pre entries)"

definition prefixed_BatchSet :: "'s Store \<Rightarrow> key \<Rightarrow> kv_call \<Rightarrow> Entry list \<Rightarrow> 's \<Rightarrow> kv_error option \<times> 's" where
  "prefixed_BatchSet base pre c entries s =
     st_BatchSet base c (map (\<lambda>e. e\<lparr>en_Key := prefixedKey pre (en_Key e)\<rparr>) entries) s"

definition prefixed_BatchDelete :: "'s Store \<Rightarrow> key \<Rightarrow> kv_call \<Rightarrow> key list \<Rightarrow> 's \<Rightarrow> kv_error option \<times> 's" where
  "prefixed_BatchDelete base pre c keys s = st_BatchDelete base c (map (prefixedKey pre) keys) s"

definition Prefixed :: "'s Store \<Rightarrow> key \<Rightarrow> 's Store" where
  "Prefixed base pre =
     \<lparr>st_Get = (\<lambda>c key. st_Get base c (prefixedKey pre key)),
      st_Set = (\<lambda>c key. st_Set base c (prefixedKey pre key)),
      st_Delete = (\<lambda>c key. st_Delete base c (prefixedKey pre key)),
      st_List = prefixed_List base pre, st_BatchSet = prefixed_BatchSet base pre,
      st_BatchDelete = prefixed_BatchDelete base pre, st_ListAfter = Some (prefixed_ListAfter base pre)\<rparr>"

end
