(* ===== verification/KvThms.thy ===== *)
theory KvThms
  imports KvStore
begin

text \<open>
  What a key-value store promises, as a locale: on keys and calls that the store accepts it behaves as
  a map from keys to values, and a listing is the ordered subtree of its prefix. The in-memory store
  keeps the promise, and so does the view under a prefix of any store that keeps it.
\<close>

section \<open>The contract\<close>

definition no_err :: "kv_call \<Rightarrow> bool" where
  "no_err c \<longleftrightarrow> (\<forall>n. kc_err c n = None)"

text \<open>The entries of the subtree of a prefix in the order of \<open>rank\<close>.\<close>

definition lists :: "(key \<Rightarrow> bytes) \<Rightarrow> (key \<rightharpoonup> bytes) \<Rightarrow> key \<Rightarrow> Entry list \<Rightarrow> bool" where
  "lists rank m p es \<longleftrightarrow>
     sorted_wrt (\<lambda>a b. rank (en_Key a) < rank (en_Key b)) es \<and>
     set es = {e. \<exists>r v. r \<noteq> [] \<and> m (p @ r) = Some v \<and> e = entry (p @ r) v}"

locale kv_store =
  fixes store :: "'s Store" and view :: "'s \<Rightarrow> key \<Rightarrow> bytes option" and inv :: "'s \<Rightarrow> bool"
    and ok :: "key \<Rightarrow> bool" and okp :: "key \<Rightarrow> bool" and rank :: "key \<Rightarrow> bytes"
  assumes get: "inv s \<Longrightarrow> ok k \<Longrightarrow> no_err c \<Longrightarrow>
      st_Get store c k s = (case view s k of None \<Rightarrow> Inl KvNotFound | Some v \<Rightarrow> Inr v, s)"
    and set: "inv s \<Longrightarrow> ok k \<Longrightarrow> no_err c \<Longrightarrow>
      \<exists>s'. st_Set store c k v s = (None, s') \<and> inv s' \<and> view s' = (view s)(k \<mapsto> v)"
    and delete: "inv s \<Longrightarrow> ok k \<Longrightarrow> no_err c \<Longrightarrow>
      \<exists>s'. st_Delete store c k s = (None, s') \<and> inv s' \<and> view s' = (view s)(k := None)"
    and batch_set: "inv s \<Longrightarrow> \<forall>e \<in> set es. ok (en_Key e) \<and> en_Deadline e = None \<Longrightarrow> no_err c \<Longrightarrow>
      \<exists>s'. st_BatchSet store c es s = (None, s') \<and> inv s' \<and>
        view s' = fold (\<lambda>e m. m(en_Key e \<mapsto> en_Value e)) es (view s)"
    and batch_delete: "inv s \<Longrightarrow> \<forall>k \<in> set ks. ok k \<Longrightarrow> no_err c \<Longrightarrow>
      \<exists>s'. st_BatchDelete store c ks s = (None, s') \<and> inv s' \<and>
        view s' = fold (\<lambda>k m. m(k := None)) ks (view s)"
    and list: "inv s \<Longrightarrow> okp p \<Longrightarrow> no_err c \<Longrightarrow>
      \<exists>es. st_List store c p s = map Inr es \<and> lists rank (view s) p es"
    and view_ok: "view s k \<noteq> None \<Longrightarrow> ok k"

section \<open>Runs of a store\<close>

datatype kv_op =
    OpGet key | OpSet key bytes | OpDelete key | OpBatchSet "Entry list" | OpBatchDelete "key list" | OpList key

datatype kv_result = RGet "kv_error + bytes" | RDone "kv_error option" | RList yields

fun kv_exec :: "'s Store \<Rightarrow> kv_call \<Rightarrow> kv_op \<Rightarrow> 's \<Rightarrow> kv_result \<times> 's" where
  "kv_exec st c (OpGet k) s = (case st_Get st c k s of (r, s) \<Rightarrow> (RGet r, s))"
| "kv_exec st c (OpSet k v) s = (case st_Set st c k v s of (r, s) \<Rightarrow> (RDone r, s))"
| "kv_exec st c (OpDelete k) s = (case st_Delete st c k s of (r, s) \<Rightarrow> (RDone r, s))"
| "kv_exec st c (OpBatchSet es) s = (case st_BatchSet st c es s of (r, s) \<Rightarrow> (RDone r, s))"
| "kv_exec st c (OpBatchDelete ks) s = (case st_BatchDelete st c ks s of (r, s) \<Rightarrow> (RDone r, s))"
| "kv_exec st c (OpList p) s = (RList (st_List st c p s), s)"

fun kv_run :: "'s Store \<Rightarrow> (kv_call \<times> kv_op) list \<Rightarrow> 's \<Rightarrow> kv_result list \<times> 's" where
  "kv_run st [] s = ([], s)"
| "kv_run st ((c, op) # ops) s =
     (case kv_exec st c op s of (r, s) \<Rightarrow> (case kv_run st ops s of (rs, s) \<Rightarrow> (r # rs, s)))"

text \<open>What a map answers.\<close>

fun kv_spec :: "(key \<Rightarrow> bytes) \<Rightarrow> kv_op \<Rightarrow> (key \<rightharpoonup> bytes) \<Rightarrow> kv_result \<Rightarrow> (key \<rightharpoonup> bytes) \<Rightarrow> bool" where
  "kv_spec rank (OpGet k) m r m' \<longleftrightarrow>
     m' = m \<and> r = RGet (case m k of None \<Rightarrow> Inl KvNotFound | Some v \<Rightarrow> Inr v)"
| "kv_spec rank (OpSet k v) m r m' \<longleftrightarrow> m' = m(k \<mapsto> v) \<and> r = RDone None"
| "kv_spec rank (OpDelete k) m r m' \<longleftrightarrow> m' = m(k := None) \<and> r = RDone None"
| "kv_spec rank (OpBatchSet es) m r m' \<longleftrightarrow>
     m' = fold (\<lambda>e m. m(en_Key e \<mapsto> en_Value e)) es m \<and> r = RDone None"
| "kv_spec rank (OpBatchDelete ks) m r m' \<longleftrightarrow> m' = fold (\<lambda>k m. m(k := None)) ks m \<and> r = RDone None"
| "kv_spec rank (OpList p) m r m' \<longleftrightarrow> m' = m \<and> (\<exists>es. r = RList (map Inr es) \<and> lists rank m p es)"

fun kv_spec_run ::
  "(key \<Rightarrow> bytes) \<Rightarrow> kv_op list \<Rightarrow> (key \<rightharpoonup> bytes) \<Rightarrow> kv_result list \<Rightarrow> (key \<rightharpoonup> bytes) \<Rightarrow> bool" where
  "kv_spec_run rank [] m rs m' \<longleftrightarrow> rs = [] \<and> m' = m"
| "kv_spec_run rank (op # ops) m rs m' \<longleftrightarrow>
     (\<exists>r rs' m1. rs = r # rs' \<and> kv_spec rank op m r m1 \<and> kv_spec_run rank ops m1 rs' m')"

fun op_ok :: "(key \<Rightarrow> bool) \<Rightarrow> (key \<Rightarrow> bool) \<Rightarrow> kv_op \<Rightarrow> bool" where
  "op_ok ok okp (OpGet k) = ok k"
| "op_ok ok okp (OpSet k v) = ok k"
| "op_ok ok okp (OpDelete k) = ok k"
| "op_ok ok okp (OpBatchSet es) = (\<forall>e \<in> set es. ok (en_Key e) \<and> en_Deadline e = None)"
| "op_ok ok okp (OpBatchDelete ks) = (\<forall>k \<in> set ks. ok k)"
| "op_ok ok okp (OpList p) = okp p"

context kv_store begin

lemma exec_ok:
  "inv s \<Longrightarrow> no_err c \<Longrightarrow> op_ok ok okp op \<Longrightarrow>
   \<exists>r s'. kv_exec store c op s = (r, s') \<and> inv s' \<and> kv_spec rank op (view s) r (view s')"
proof (cases op)
  case (OpGet k)
  then show "inv s \<Longrightarrow> no_err c \<Longrightarrow> op_ok ok okp op \<Longrightarrow> ?thesis" using get [of s k c] by simp
next
  case (OpSet k v)
  then show "inv s \<Longrightarrow> no_err c \<Longrightarrow> op_ok ok okp op \<Longrightarrow> ?thesis" using set [of s k c v] by auto
next
  case (OpDelete k)
  then show "inv s \<Longrightarrow> no_err c \<Longrightarrow> op_ok ok okp op \<Longrightarrow> ?thesis" using delete [of s k c] by auto
next
  case (OpBatchSet es)
  then show "inv s \<Longrightarrow> no_err c \<Longrightarrow> op_ok ok okp op \<Longrightarrow> ?thesis" using batch_set [of s es c] by auto
next
  case (OpBatchDelete ks)
  then show "inv s \<Longrightarrow> no_err c \<Longrightarrow> op_ok ok okp op \<Longrightarrow> ?thesis" using batch_delete [of s ks c] by auto
next
  case (OpList p)
  then show "inv s \<Longrightarrow> no_err c \<Longrightarrow> op_ok ok okp op \<Longrightarrow> ?thesis" using list [of s p c] by auto
qed

lemma run_ok:
  "inv s \<Longrightarrow> \<forall>(c, op) \<in> set ops. no_err c \<and> op_ok ok okp op \<Longrightarrow> kv_run store ops s = (rs, s') \<Longrightarrow>
   inv s' \<and> kv_spec_run rank (map snd ops) (view s) rs (view s')"
proof (induction ops arbitrary: s rs)
  case (Cons a ops)
  obtain c op where a: "a = (c, op)" by (cases a)
  obtain r s1 where e: "kv_exec store c op s = (r, s1)" "inv s1" "kv_spec rank op (view s) r (view s1)"
    using exec_ok [of s c op] Cons.prems a by auto
  obtain rs' where r: "kv_run store ops s1 = (rs', s')" "rs = r # rs'"
    using Cons.prems(3) e(1) a by (auto split: prod.splits)
  show ?case using Cons.IH [OF e(2) _ r(1)] Cons.prems(2) e(3) r(2) a by auto
qed simp

end

section \<open>The view under a prefix\<close>

locale prefixed_kv = kv_store +
  fixes pre :: key

lemma hasKeyPrefix_append [simp]: "hasKeyPrefix (p @ k) p"
  by (induction p) simp_all

lemma localEntry_entry [simp]: "localEntry p (entry (p @ k) v) = Inr (entry k v)"
  by (simp add: localEntry_def localKey_def entry_def)

lemma fold_upd_prefix:
  "(\<lambda>k. fold (\<lambda>e m. m(en_Key e \<mapsto> en_Value e)) (map (\<lambda>e. e\<lparr>en_Key := prefixedKey pre (en_Key e)\<rparr>) es) m (pre @ k)) =
   fold (\<lambda>e m. m(en_Key e \<mapsto> en_Value e)) es (\<lambda>k. m (pre @ k))" for es :: "Entry list"
  by (induction es arbitrary: m) (simp_all add: prefixedKey_def fun_upd_def cong: if_cong)

lemma fold_del_prefix:
  "(\<lambda>k. fold (\<lambda>k m. m(k := None)) (map (prefixedKey pre) ks) m (pre @ k)) =
   fold (\<lambda>k m. m(k := None)) ks (\<lambda>k. m (pre @ k))"
  by (induction ks arbitrary: m) (simp_all add: prefixedKey_def fun_upd_def)

lemma lists_prefix:
  assumes "lists rank m (pre @ p) es"
  shows "\<exists>es'. map (\<lambda>y. case y of Inl err \<Rightarrow> Inl err | Inr e \<Rightarrow> localEntry pre e) (map Inr es) = map Inr es' \<and>
    lists (\<lambda>k. rank (pre @ k)) (\<lambda>k. m (pre @ k)) p es'"
proof -
  let ?cut = "\<lambda>e. e\<lparr>en_Key := drop (length pre) (en_Key e)\<rparr>"
  have es: "set es = {e. \<exists>r v. r \<noteq> [] \<and> m ((pre @ p) @ r) = Some v \<and> e = entry ((pre @ p) @ r) v}"
    and ord: "sorted_wrt (\<lambda>a b. rank (en_Key a) < rank (en_Key b)) es"
    using assms by (auto simp: lists_def)
  have shape: "\<exists>k v. e = entry (pre @ k) v" if "e \<in> set es" for e
    using that es by auto
  have "map (\<lambda>y. case y of Inl err \<Rightarrow> Inl err | Inr e \<Rightarrow> localEntry pre e) (map Inr es) = map Inr (map ?cut es)"
  proof -
    have "localEntry pre e = Inr (?cut e)" if e: "e \<in> set es" for e
    proof -
      obtain k v where "e = entry (pre @ k) v" using shape [OF e] by blast
      then show ?thesis by (simp add: entry_def localEntry_def localKey_def)
    qed
    then show ?thesis by simp
  qed
  moreover have "lists (\<lambda>k. rank (pre @ k)) (\<lambda>k. m (pre @ k)) p (map ?cut es)"
    unfolding lists_def
  proof
    show "sorted_wrt (\<lambda>a b. rank (pre @ en_Key a) < rank (pre @ en_Key b)) (map ?cut es)"
      unfolding sorted_wrt_map
      by (rule sorted_wrt_mono_rel [OF _ ord]) (auto dest!: shape simp: entry_def)
    show "set (map ?cut es) = {e. \<exists>r v. r \<noteq> [] \<and> m (pre @ p @ r) = Some v \<and> e = entry (p @ r) v}"
    proof (intro equalityI subsetI)
      fix e assume "e \<in> set (map ?cut es)"
      then show "e \<in> {e. \<exists>r v. r \<noteq> [] \<and> m (pre @ p @ r) = Some v \<and> e = entry (p @ r) v}"
        by (auto simp: es entry_def)
    next
      fix e assume "e \<in> {e. \<exists>r v. r \<noteq> [] \<and> m (pre @ p @ r) = Some v \<and> e = entry (p @ r) v}"
      then obtain r v where r: "r \<noteq> []" "m (pre @ p @ r) = Some v" "e = entry (p @ r) v" by blast
      then have "entry ((pre @ p) @ r) v \<in> set es" unfolding es by auto
      moreover have "?cut (entry ((pre @ p) @ r) v) = e" by (simp add: r(3) entry_def)
      ultimately show "e \<in> set (map ?cut es)" unfolding set_map by (rule rev_image_eqI [OF _ sym])
    qed
  qed
  ultimately show ?thesis by blast
qed

sublocale prefixed_kv \<subseteq> px: kv_store "Prefixed store pre" "\<lambda>s k. view s (pre @ k)" inv "\<lambda>k. ok (pre @ k)"
  "\<lambda>p. okp (pre @ p)" "\<lambda>k. rank (pre @ k)"
proof
  fix s k c v
  assume s: "inv s" and c: "no_err c"
  show "ok (pre @ k) \<Longrightarrow> st_Get (Prefixed store pre) c k s =
      (case view s (pre @ k) of None \<Rightarrow> Inl KvNotFound | Some v \<Rightarrow> Inr v, s)"
    using get [OF s _ c] by (simp add: Prefixed_def prefixedKey_def)
  show "ok (pre @ k) \<Longrightarrow> \<exists>s'. st_Set (Prefixed store pre) c k v s = (None, s') \<and> inv s' \<and>
      (\<lambda>k. view s' (pre @ k)) = (\<lambda>k. view s (pre @ k))(k \<mapsto> v)"
    using set [OF s _ c, of "pre @ k" v] by (auto simp: Prefixed_def prefixedKey_def fun_upd_def)
  show "ok (pre @ k) \<Longrightarrow> \<exists>s'. st_Delete (Prefixed store pre) c k s = (None, s') \<and> inv s' \<and>
      (\<lambda>k. view s' (pre @ k)) = (\<lambda>k. view s (pre @ k))(k := None)"
    using delete [OF s _ c, of "pre @ k"] by (auto simp: Prefixed_def prefixedKey_def fun_upd_def)
next
  fix s and es :: "Entry list" and c
  assume s: "inv s" and es: "\<forall>e \<in> set es. ok (pre @ en_Key e) \<and> en_Deadline e = None" and c: "no_err c"
  show "\<exists>s'. st_BatchSet (Prefixed store pre) c es s = (None, s') \<and> inv s' \<and>
      (\<lambda>k. view s' (pre @ k)) = fold (\<lambda>e m. m(en_Key e \<mapsto> en_Value e)) es (\<lambda>k. view s (pre @ k))"
    using batch_set [OF s _ c, of "map (\<lambda>e. e\<lparr>en_Key := prefixedKey pre (en_Key e)\<rparr>) es"] es
    by (auto simp: Prefixed_def prefixed_BatchSet_def prefixedKey_def fold_upd_prefix [unfolded prefixedKey_def])
next
  fix s ks c
  assume s: "inv s" and ks: "\<forall>k \<in> set ks. ok (pre @ k)" and c: "no_err c"
  show "\<exists>s'. st_BatchDelete (Prefixed store pre) c ks s = (None, s') \<and> inv s' \<and>
      (\<lambda>k. view s' (pre @ k)) = fold (\<lambda>k m. m(k := None)) ks (\<lambda>k. view s (pre @ k))"
    using batch_delete [OF s _ c, of "map (prefixedKey pre) ks"] ks
    by (auto simp: Prefixed_def prefixed_BatchDelete_def prefixedKey_def fold_del_prefix)
next
  fix s p c
  assume s: "inv s" and p: "okp (pre @ p)" and c: "no_err c"
  show "\<exists>es. st_List (Prefixed store pre) c p s = map Inr es \<and>
      lists (\<lambda>k. rank (pre @ k)) (\<lambda>k. view s (pre @ k)) p es"
    using list [OF s p c] lists_prefix [of rank "view s" pre p]
    by (auto simp: Prefixed_def prefixed_List_def prefixedKey_def)
next
  fix s k
  show "view s (pre @ k) \<noteq> None \<Longrightarrow> ok (pre @ k)" by (rule view_ok)
qed

end
