(* ===== verification/GraphKv.thy ===== *)
theory GraphKv
  imports KvThms
begin

text \<open>
  The entity-relation graph over a key-value store, \<^verbatim>\<open>pkgs/store/graph/graph.go\<close> and \<^verbatim>\<open>kvgraph.go\<close>:
  entities under one prefix, every relation under two keys, one index for each direction. The
  package \<^verbatim>\<open>encoding/json\<close> is a parameter. Operations that make several calls of the store take the
  environment of each; that no other goroutine writes between them is part of the model.
\<close>

datatype graph_error = GraphNotFound | ErrInvalidLabel bytes bytes | GraphStore kv_error | GraphJson nat

type_synonym 'v attrs = "(bytes, 'v) gomap option"

record 'v Entity =
  ge_Label :: bytes
  ge_Attrs :: "'v attrs"

record Relation =
  rl_From :: bytes
  rl_To :: bytes
  rl_RelType :: bytes

record 'v json =
  js_Marshal :: "'v attrs \<Rightarrow> nat + bytes"
  js_Unmarshal :: "bytes \<Rightarrow> nat + 'v attrs"

record KVGraph =
  kg_prefix :: key
  kg_sep :: u8

definition NewKVGraph :: "key \<Rightarrow> u8 list \<Rightarrow> KVGraph" where
  "NewKVGraph prefix seps =
     (let s = DefaultSeparator; s = (if length seps > 0 then seps ! 0 else s)
      in \<lparr>kg_prefix = prefix, kg_sep = s\<rparr>)"

text \<open>
  \<^verbatim>\<open>string(g.sep)\<close> makes a string of the character with that number, which takes two bytes from \<^verbatim>\<open>0x80\<close> on.
\<close>

definition sep_string :: "KVGraph \<Rightarrow> bytes" where
  "sep_string g =
     (if kg_sep g < 0x80 then [kg_sep g]
      else [0xC0 OR drop_bit 6 (kg_sep g), 0x80 OR (kg_sep g AND 0x3F)])"

fun strings_Contains :: "bytes \<Rightarrow> bytes \<Rightarrow> bool" where
  "strings_Contains [] p = (p = [])"
| "strings_Contains (c # s) p = (take (length p) (c # s) = p \<or> strings_Contains s p)"

fun validateSegments :: "KVGraph \<Rightarrow> bytes list \<Rightarrow> graph_error option" where
  "validateSegments g [] = None"
| "validateSegments g (s # segs) =
     (if strings_Contains s (sep_string g) then Some (ErrInvalidLabel s (sep_string g))
      else validateSegments g segs)"

section \<open>Keys\<close>

definition tag_e :: bytes where "tag_e = [0x65]"
definition tag_r :: bytes where "tag_r = [0x72]"
definition tag_ri :: bytes where "tag_ri = [0x72, 0x69]"

definition entityKey :: "KVGraph \<Rightarrow> bytes \<Rightarrow> key" where
  "entityKey g label = kg_prefix g @ [tag_e, label]"

definition entityPrefix :: "KVGraph \<Rightarrow> key" where
  "entityPrefix g = kg_prefix g @ [tag_e]"

definition fwdKey :: "KVGraph \<Rightarrow> bytes \<Rightarrow> bytes \<Rightarrow> bytes \<Rightarrow> key" where
  "fwdKey g src relType to = kg_prefix g @ [tag_r, src, relType, to]"

definition fwdPrefix :: "KVGraph \<Rightarrow> bytes \<Rightarrow> key" where
  "fwdPrefix g src = kg_prefix g @ [tag_r, src]"

definition revKey :: "KVGraph \<Rightarrow> bytes \<Rightarrow> bytes \<Rightarrow> bytes \<Rightarrow> key" where
  "revKey g to relType src = kg_prefix g @ [tag_ri, to, relType, src]"

definition revPrefix :: "KVGraph \<Rightarrow> bytes \<Rightarrow> key" where
  "revPrefix g to = kg_prefix g @ [tag_ri, to]"

section \<open>Entities\<close>

definition GetEntity ::
  "'v json \<Rightarrow> 's Store \<Rightarrow> KVGraph \<Rightarrow> kv_call \<Rightarrow> bytes \<Rightarrow> 's \<Rightarrow> (graph_error + 'v Entity) \<times> 's" where
  "GetEntity js st g c label s =
     (case validateSegments g [label] of Some err \<Rightarrow> (Inl err, s)
      | None \<Rightarrow>
        (case st_Get st c (entityKey g label) s of
           (Inl err, s) \<Rightarrow> (Inl (if err = KvNotFound then GraphNotFound else GraphStore err), s)
         | (Inr data, s) \<Rightarrow>
             if length data > 0 then
               (case js_Unmarshal js data of
                  Inl err \<Rightarrow> (Inl (GraphJson err), s)
                | Inr attrs \<Rightarrow> (Inr \<lparr>ge_Label = label, ge_Attrs = attrs\<rparr>, s))
             else (Inr \<lparr>ge_Label = label, ge_Attrs = None\<rparr>, s)))"

definition SetEntity ::
  "'v json \<Rightarrow> 's Store \<Rightarrow> KVGraph \<Rightarrow> kv_call \<Rightarrow> 'v Entity \<Rightarrow> 's \<Rightarrow> graph_error option \<times> 's" where
  "SetEntity js st g c e s =
     (case validateSegments g [ge_Label e] of Some err \<Rightarrow> (Some err, s)
      | None \<Rightarrow>
        (case js_Marshal js (ge_Attrs e) of
           Inl err \<Rightarrow> (Some (GraphJson err), s)
         | Inr data \<Rightarrow>
             (case st_Set st c (entityKey g (ge_Label e)) data s of
                (err, s) \<Rightarrow> (map_option GraphStore err, s))))"

definition MergeAttrs ::
  "'v json \<Rightarrow> 's Store \<Rightarrow> KVGraph \<Rightarrow> (nat \<Rightarrow> kv_call) \<Rightarrow> bytes \<Rightarrow> (bytes, 'v) gomap \<Rightarrow> 's \<Rightarrow>
   graph_error option \<times> 's" where
  "MergeAttrs js st g cs label attrs s =
     (case validateSegments g [label] of Some err \<Rightarrow> (Some err, s)
      | None \<Rightarrow>
        (case GetEntity js st g (cs 0) label s of
           (Inl err, s) \<Rightarrow> (Some err, s)
         | (Inr e, s) \<Rightarrow>
             let old = (case ge_Attrs e of None \<Rightarrow> [] | Some a \<Rightarrow> a);
                 e = e\<lparr>ge_Attrs := Some (fold (\<lambda>(k, v). map_put k v) attrs old)\<rparr>
             in SetEntity js st g (cs 1) e s))"

definition hasPrefix :: "bytes \<Rightarrow> bytes \<Rightarrow> bool" where
  "hasPrefix s prefix \<longleftrightarrow> length prefix \<le> length s \<and> take (length prefix) s = prefix"

text \<open>What \<^verbatim>\<open>ListEntities\<close> yields; an error of the store ends it, one of the decoder does not.\<close>

fun entity_yields :: "'v json \<Rightarrow> bytes \<Rightarrow> yields \<Rightarrow> (graph_error + 'v Entity) list" where
  "entity_yields js prefix [] = []"
| "entity_yields js prefix (Inl err # ys) = [Inl (GraphStore err)]"
| "entity_yields js prefix (Inr e # ys) =
     (let label = last (en_Key e) in
      if prefix \<noteq> [] \<and> \<not> hasPrefix label prefix then entity_yields js prefix ys
      else if length (en_Value e) > 0 then
        (case js_Unmarshal js (en_Value e) of
           Inl err \<Rightarrow> Inl (GraphJson err) # entity_yields js prefix ys
         | Inr attrs \<Rightarrow> Inr \<lparr>ge_Label = label, ge_Attrs = attrs\<rparr> # entity_yields js prefix ys)
      else Inr \<lparr>ge_Label = label, ge_Attrs = None\<rparr> # entity_yields js prefix ys)"

definition ListEntities ::
  "'v json \<Rightarrow> 's Store \<Rightarrow> KVGraph \<Rightarrow> kv_call \<Rightarrow> bytes \<Rightarrow> 's \<Rightarrow> (graph_error + 'v Entity) list" where
  "ListEntities js st g c prefix s = entity_yields js prefix (st_List st c (entityPrefix g) s)"

section \<open>Relations\<close>

definition AddRelation :: "'s Store \<Rightarrow> KVGraph \<Rightarrow> kv_call \<Rightarrow> Relation \<Rightarrow> 's \<Rightarrow> graph_error option \<times> 's" where
  "AddRelation st g c r s =
     (case validateSegments g [rl_From r, rl_To r, rl_RelType r] of Some err \<Rightarrow> (Some err, s)
      | None \<Rightarrow>
        (case st_BatchSet st c
                [entry (fwdKey g (rl_From r) (rl_RelType r) (rl_To r)) [],
                 entry (revKey g (rl_To r) (rl_RelType r) (rl_From r)) []] s of
           (err, s) \<Rightarrow> (map_option GraphStore err, s)))"

definition RemoveRelation ::
  "'s Store \<Rightarrow> KVGraph \<Rightarrow> kv_call \<Rightarrow> bytes \<Rightarrow> bytes \<Rightarrow> bytes \<Rightarrow> 's \<Rightarrow> graph_error option \<times> 's" where
  "RemoveRelation st g c src to relType s =
     (case validateSegments g [src, to, relType] of Some err \<Rightarrow> (Some err, s)
      | None \<Rightarrow>
        (case st_BatchDelete st c [fwdKey g src relType to, revKey g to relType src] s of
           (err, s) \<Rightarrow> (map_option GraphStore err, s)))"

fun forward_relations :: "nat \<Rightarrow> yields \<Rightarrow> graph_error + Relation list" where
  "forward_relations plen [] = Inr []"
| "forward_relations plen (Inl err # ys) = Inl (GraphStore err)"
| "forward_relations plen (Inr e # ys) =
     (let k = en_Key e in
      case forward_relations plen ys of Inl err \<Rightarrow> Inl err
      | Inr rels \<Rightarrow>
          if length k \<noteq> plen + 4 then Inr rels
          else Inr (\<lparr>rl_From = k ! (plen + 1), rl_To = k ! (plen + 3), rl_RelType = k ! (plen + 2)\<rparr> # rels))"

fun reverse_relations :: "nat \<Rightarrow> bytes \<Rightarrow> yields \<Rightarrow> graph_error + Relation list" where
  "reverse_relations plen label [] = Inr []"
| "reverse_relations plen label (Inl err # ys) = Inl (GraphStore err)"
| "reverse_relations plen label (Inr e # ys) =
     (let k = en_Key e in
      case reverse_relations plen label ys of Inl err \<Rightarrow> Inl err
      | Inr rels \<Rightarrow>
          if length k \<noteq> plen + 4 then Inr rels
          else
            let src = k ! (plen + 3) in
            if src = label then Inr rels
            else Inr (\<lparr>rl_From = src, rl_To = k ! (plen + 1), rl_RelType = k ! (plen + 2)\<rparr> # rels))"

definition Relations :: "'s Store \<Rightarrow> KVGraph \<Rightarrow> (nat \<Rightarrow> kv_call) \<Rightarrow> bytes \<Rightarrow> 's \<Rightarrow> graph_error + Relation list" where
  "Relations st g cs label s =
     (case validateSegments g [label] of Some err \<Rightarrow> Inl err
      | None \<Rightarrow>
        let plen = length (kg_prefix g) in
        (case forward_relations plen (st_List st (cs 0) (fwdPrefix g label) s) of Inl err \<Rightarrow> Inl err
         | Inr rels \<Rightarrow>
           (case reverse_relations plen label (st_List st (cs 1) (revPrefix g label) s) of Inl err \<Rightarrow> Inl err
            | Inr more_rels \<Rightarrow> Inr (rels @ more_rels))))"

definition DeleteEntity ::
  "'s Store \<Rightarrow> KVGraph \<Rightarrow> (nat \<Rightarrow> kv_call) \<Rightarrow> bytes \<Rightarrow> 's \<Rightarrow> graph_error option \<times> 's" where
  "DeleteEntity st g cs label s =
     (case validateSegments g [label] of Some err \<Rightarrow> (Some err, s)
      | None \<Rightarrow>
        (case Relations st g cs label s of Inl err \<Rightarrow> (Some err, s)
         | Inr rels \<Rightarrow>
           let keys = entityKey g label #
                 concat (map (\<lambda>r. [fwdKey g (rl_From r) (rl_RelType r) (rl_To r),
                                   revKey g (rl_To r) (rl_RelType r) (rl_From r)]) rels) in
           (case st_BatchDelete st (cs 2) keys s of (err, s) \<Rightarrow> (map_option GraphStore err, s))))"

section \<open>Traversal\<close>

text \<open>
  One of the two loops of \<^verbatim>\<open>Neighbors\<close>; the other end of a relation is the last segment in both indexes.
  \<^verbatim>\<open>seen\<close> and \<^verbatim>\<open>typeSet\<close> are lists without repetitions.
\<close>

fun see_neighbors :: "nat \<Rightarrow> bytes list \<Rightarrow> yields \<Rightarrow> bytes list \<Rightarrow> graph_error + bytes list" where
  "see_neighbors plen typeSet [] seen = Inr seen"
| "see_neighbors plen typeSet (Inl err # ys) seen = Inl (GraphStore err)"
| "see_neighbors plen typeSet (Inr e # ys) seen =
     (let k = en_Key e in
      if length k \<noteq> plen + 4 then see_neighbors plen typeSet ys seen
      else if length typeSet > 0 \<and> k ! (plen + 2) \<notin> set typeSet then see_neighbors plen typeSet ys seen
      else see_neighbors plen typeSet ys (List.insert (k ! (plen + 3)) seen))"

definition Neighbors ::
  "'s Store \<Rightarrow> KVGraph \<Rightarrow> (nat \<Rightarrow> kv_call) \<Rightarrow> bytes \<Rightarrow> bytes list \<Rightarrow> 's \<Rightarrow> graph_error + bytes list" where
  "Neighbors st g cs label relTypes s =
     (case validateSegments g [label] of Some err \<Rightarrow> Inl err
      | None \<Rightarrow>
        (case validateSegments g relTypes of Some err \<Rightarrow> Inl err
         | None \<Rightarrow>
           let plen = length (kg_prefix g); typeSet = remdups relTypes in
           (case see_neighbors plen typeSet (st_List st (cs 0) (fwdPrefix g label) s) [] of Inl err \<Rightarrow> Inl err
            | Inr seen \<Rightarrow>
              (case see_neighbors plen typeSet (st_List st (cs 1) (revPrefix g label) s) seen of Inl err \<Rightarrow> Inl err
               | Inr seen \<Rightarrow> Inr (sort seen)))))"

text \<open>The inner loops of \<^verbatim>\<open>Expand\<close>: the neighbours of one label, and the labels of a frontier.\<close>

fun visit_new :: "bytes list \<Rightarrow> bytes list \<times> bytes list \<Rightarrow> bytes list \<times> bytes list" where
  "visit_new [] (visited, next_labels) = (visited, next_labels)"
| "visit_new (n # ns) (visited, next_labels) =
     (if n \<in> set visited then visit_new ns (visited, next_labels)
      else visit_new ns (visited @ [n], next_labels @ [n]))"

fun expand_frontier ::
  "'s Store \<Rightarrow> KVGraph \<Rightarrow> (nat \<Rightarrow> nat \<Rightarrow> kv_call) \<Rightarrow> bytes list \<Rightarrow> 's \<Rightarrow> bytes list \<times> bytes list \<Rightarrow>
   graph_error + bytes list \<times> bytes list" where
  "expand_frontier st g cs [] s acc = Inr acc"
| "expand_frontier st g cs (label # labels) s acc =
     (case Neighbors st g (cs 0) label [] s of Inl err \<Rightarrow> Inl err
      | Inr ns \<Rightarrow> expand_frontier st g (\<lambda>i. cs (i + 1)) labels s (visit_new ns acc))"

fun expand_hops ::
  "'s Store \<Rightarrow> KVGraph \<Rightarrow> (nat \<Rightarrow> nat \<Rightarrow> nat \<Rightarrow> kv_call) \<Rightarrow> nat \<Rightarrow> bytes list \<Rightarrow> 's \<Rightarrow> bytes list \<Rightarrow>
   graph_error + bytes list" where
  "expand_hops st g cs 0 frontier s visited = Inr visited"
| "expand_hops st g cs (Suc hops) frontier s visited =
     (if frontier = [] then Inr visited
      else case expand_frontier st g (cs 0) frontier s (visited, []) of Inl err \<Rightarrow> Inl err
        | Inr (visited, next_labels) \<Rightarrow> expand_hops st g (\<lambda>i. cs (i + 1)) hops next_labels s visited)"

definition Expand ::
  "'s Store \<Rightarrow> KVGraph \<Rightarrow> (nat \<Rightarrow> nat \<Rightarrow> nat \<Rightarrow> kv_call) \<Rightarrow> bytes list \<Rightarrow> int \<Rightarrow> 's \<Rightarrow> graph_error + bytes list" where
  "Expand st g cs labels hops s =
     (case validateSegments g labels of Some err \<Rightarrow> Inl err
      | None \<Rightarrow>
        (case expand_hops st g cs (nat hops) labels s (remdups labels) of Inl err \<Rightarrow> Inl err
         | Inr visited \<Rightarrow> Inr (sort visited)))"

end
