(* ===== verification/KvMemory.thy ===== *)
theory KvMemory
  imports KvThms
begin

text \<open>
  The in-memory store keeps the contract of a store, and so do views of it under prefixes; and how
  paging through a listing fares.
\<close>

section \<open>The contract\<close>

text \<open>
  The keys the store tells apart: clean, and not one of the two keys that are stored as the empty
  string. A listing may start from the empty prefix, too. Deadlines are left out here.
\<close>

definition mem_ok :: "Options option \<Rightarrow> key \<Rightarrow> bool" where
  "mem_ok o' k \<longleftrightarrow> clean (sep o') k \<and> k \<noteq> [] \<and> k \<noteq> [[]]"

definition mem_okp :: "Options option \<Rightarrow> key \<Rightarrow> bool" where
  "mem_okp o' p \<longleftrightarrow> p = [] \<or> mem_ok o' p"

definition mem_inv :: "Options option \<Rightarrow> Memory \<Rightarrow> bool" where
  "mem_inv o' m \<longleftrightarrow> ms_opts m = o' \<and> wf_map (ms_data m) \<and>
     (\<forall>(b, e) \<in> set (ms_data m). b \<noteq> [] \<and> me_expiresAt e = None)"

definition mem_rank :: "Options option \<Rightarrow> key \<Rightarrow> bytes" where
  "mem_rank o' k = strings_Join (sep o') k"

definition mem_view :: "Options option \<Rightarrow> Memory \<Rightarrow> key \<Rightarrow> bytes option" where
  "mem_view o' m k =
     (if mem_ok o' k then map_option me_value (map_get (ms_data m) (mem_rank o' k)) else None)"

lemma mem_ok_encode: "mem_ok o' k \<Longrightarrow> encode o' k = Some (mem_rank o' k)"
  by (simp add: mem_ok_def mem_rank_def encode_eq)

lemma mem_rank_inject: "mem_ok o' a \<Longrightarrow> mem_ok o' b \<Longrightarrow> mem_rank o' a = mem_rank o' b \<longleftrightarrow> a = b"
  by (simp add: mem_ok_def mem_rank_def Join_inject)

lemma mem_rank_not_Nil: "mem_ok o' k \<Longrightarrow> mem_rank o' k \<noteq> []"
  by (simp add: mem_ok_def mem_rank_def Join_Nil_iff)

lemma mem_ok_decode: "b \<noteq> [] \<Longrightarrow> mem_ok o' (decode o' b) \<and> mem_rank o' (decode o' b) = b"
  using Join_Split [of "sep o'" b]
  by (auto simp: mem_ok_def mem_rank_def decode_def clean_Split Split_not_Nil)

lemma mem_inv_alt:
  "mem_inv o' m \<longleftrightarrow> ms_opts m = o' \<and> wf_map (ms_data m) \<and>
     (\<forall>b e. map_get (ms_data m) b = Some e \<longrightarrow> b \<noteq> [] \<and> me_expiresAt e = None)"
proof -
  have "(\<forall>(b, e) \<in> set d. P b e) \<longleftrightarrow> (\<forall>b e. (b, e) \<in> set d \<longrightarrow> P b e)" for d :: "(bytes, memoryEntry) gomap" and P
    by auto
  then show ?thesis by (cases "wf_map (ms_data m)") (simp_all add: mem_inv_def wf_map_mem)
qed

lemma mem_inv_New: "mem_inv o' (NewMemory o')"
  by (simp add: mem_inv_def NewMemory_def)

lemma mem_view_New: "mem_view o' (NewMemory o') = Map.empty"
  by (simp add: mem_view_def NewMemory_def fun_eq_iff)

lemma mem_inv_get: "mem_inv o' m \<Longrightarrow> map_get (ms_data m) b = Some e \<Longrightarrow> b \<noteq> [] \<and> \<not> expired e t"
  by (auto simp: mem_inv_def expired_def dest!: map_of_SomeD)

lemma mem_inv_put:
  assumes "mem_inv o' m" "mem_ok o' k"
  shows "mem_inv o' (m\<lparr>ms_data := map_put (mem_rank o' k) \<lparr>me_value = v, me_expiresAt = None\<rparr> (ms_data m)\<rparr>)"
    "mem_view o' (m\<lparr>ms_data := map_put (mem_rank o' k) \<lparr>me_value = v, me_expiresAt = None\<rparr> (ms_data m)\<rparr>) =
       (mem_view o' m)(k \<mapsto> v)"
proof -
  show "mem_inv o' (m\<lparr>ms_data := map_put (mem_rank o' k) \<lparr>me_value = v, me_expiresAt = None\<rparr> (ms_data m)\<rparr>)"
    using assms mem_rank_not_Nil [OF assms(2)]
    by (auto simp: mem_inv_alt)
  show "mem_view o' (m\<lparr>ms_data := map_put (mem_rank o' k) \<lparr>me_value = v, me_expiresAt = None\<rparr> (ms_data m)\<rparr>) =
       (mem_view o' m)(k \<mapsto> v)"
    using assms(2) by (auto simp: mem_view_def fun_eq_iff mem_rank_inject)
qed

lemma mem_inv_del:
  assumes "mem_inv o' m" "mem_ok o' k"
  shows "mem_inv o' (m\<lparr>ms_data := map_del (mem_rank o' k) (ms_data m)\<rparr>)"
    "mem_view o' (m\<lparr>ms_data := map_del (mem_rank o' k) (ms_data m)\<rparr>) = (mem_view o' m)(k := None)"
proof -
  show "mem_inv o' (m\<lparr>ms_data := map_del (mem_rank o' k) (ms_data m)\<rparr>)"
    using assms by (auto simp: mem_inv_alt)
  show "mem_view o' (m\<lparr>ms_data := map_del (mem_rank o' k) (ms_data m)\<rparr>) = (mem_view o' m)(k := None)"
    using assms(2) by (auto simp: mem_view_def fun_eq_iff mem_rank_inject)
qed

lemma prepare_batch_ok:
  "\<forall>e \<in> set es. mem_ok o' (en_Key e) \<and> en_Deadline e = None \<Longrightarrow>
   prepare_batch o' now es =
     Inr (map (\<lambda>e. (mem_rank o' (en_Key e), \<lparr>me_value = en_Value e, me_expiresAt = None\<rparr>)) es)"
  by (induction es) (simp_all add: mem_ok_encode)

lemma batch_set_ok:
  "mem_inv o' m \<Longrightarrow> \<forall>e \<in> set es. mem_ok o' (en_Key e) \<and> en_Deadline e = None \<Longrightarrow>
   mem_inv o' (m\<lparr>ms_data := fold (\<lambda>(k, e). map_put k e)
      (map (\<lambda>e. (mem_rank o' (en_Key e), \<lparr>me_value = en_Value e, me_expiresAt = None\<rparr>)) es) (ms_data m)\<rparr>) \<and>
   mem_view o' (m\<lparr>ms_data := fold (\<lambda>(k, e). map_put k e)
      (map (\<lambda>e. (mem_rank o' (en_Key e), \<lparr>me_value = en_Value e, me_expiresAt = None\<rparr>)) es) (ms_data m)\<rparr>) =
     fold (\<lambda>e m. m(en_Key e \<mapsto> en_Value e)) es (mem_view o' m)"
proof (induction es arbitrary: m)
  case (Cons e es)
  let ?m = "m\<lparr>ms_data := map_put (mem_rank o' (en_Key e)) \<lparr>me_value = en_Value e, me_expiresAt = None\<rparr> (ms_data m)\<rparr>"
  have "mem_inv o' ?m" "mem_view o' ?m = (mem_view o' m)(en_Key e \<mapsto> en_Value e)"
    using mem_inv_put [of o' m "en_Key e" "en_Value e"] Cons.prems by simp_all
  then show ?case using Cons.IH [of ?m] Cons.prems(2) by simp
qed simp

lemma delete_keys_ok:
  "mem_inv o' m \<Longrightarrow> \<forall>k \<in> set ks. mem_ok o' k \<Longrightarrow>
   \<exists>m'. delete_keys ks m = (None, m') \<and> mem_inv o' m' \<and>
     mem_view o' m' = fold (\<lambda>k m. m(k := None)) ks (mem_view o' m)"
proof (induction ks arbitrary: m)
  case (Cons k ks)
  let ?m = "m\<lparr>ms_data := map_del (mem_rank o' k) (ms_data m)\<rparr>"
  have "mem_inv o' ?m" "mem_view o' ?m = (mem_view o' m)(k := None)"
    using mem_inv_del [of o' m k] Cons.prems by simp_all
  moreover have "ms_opts m = o'" using Cons.prems(1) by (simp add: mem_inv_def)
  ultimately show ?case using Cons.IH [of ?m] Cons.prems(2) by (simp add: mem_ok_encode)
qed simp

lemma yield_matches_ok:
  "no_err c \<Longrightarrow> yield_matches o' (kc_err c) i ms = map Inr (map (\<lambda>(k, v). entry (decode o' k) v) ms)"
  by (induction ms arbitrary: i) (auto simp: no_err_def)

lemma sorted_keys_strict:
  assumes "distinct (map fst xs)"
  shows "sorted_wrt (\<lambda>a b. fst a < fst b) (sort_key fst xs)"
proof -
  have "sorted_wrt (<) (map fst (sort_key fst xs))"
    unfolding strict_sorted_iff using assms by (simp add: distinct_map)
  then show ?thesis by (simp add: sorted_wrt_map)
qed

lemma distinct_keys_filter:
  "distinct (map fst xs) \<Longrightarrow> distinct (map fst (map (\<lambda>(k, e). (k, f e)) (filter P xs)))"
  by (induction xs) force+

lemma Memory_List_lists:
  assumes m: "mem_inv o' m" and p: "mem_okp o' p" and c: "no_err c"
  shows "\<exists>es. Memory_List c p m = map Inr es \<and> lists (mem_rank o') (mem_view o' m) p es"
proof -
  let ?s = "sep o'"
  let ?pb = "if length (strings_Join ?s p) > 0 then strings_Join ?s p @ [?s] else []"
  let ?ms = "map (\<lambda>(k, e). (k, me_value e)) (filter (\<lambda>(k, e). \<not> expired e (kc_now c) \<and>
      (length ?pb = 0 \<or> HasPrefix k ?pb)) (ms_data m))"
  let ?es = "map (\<lambda>(k, v). entry (decode o' k) v) (sort_key fst ?ms)"
  have opts: "ms_opts m = o'" and wf: "distinct (map fst (ms_data m))"
    using m by (simp_all add: mem_inv_def wf_map_def)
  have cl: "clean ?s p" using p by (auto simp: mem_okp_def mem_ok_def)
  have "Memory_List c p m = map Inr ?es"
  proof -
    have "Memory_List c p m = yield_matches o' (kc_err c) 1 (sort_key fst ?ms)"
      using c cl by (simp add: Memory_List_def opts encode_eq Let_def no_err_def)
    also have "\<dots> = map Inr ?es" by (rule yield_matches_ok [OF c])
    finally show ?thesis .
  qed
  moreover have "lists (mem_rank o') (mem_view o' m) p ?es"
    unfolding lists_def
  proof
    have nn: "fst x \<noteq> []" if x: "x \<in> set (sort_key fst ?ms)" for x
    proof -
      obtain b e where "(b, e) \<in> set (ms_data m)" "fst x = b" using x by auto
      then show ?thesis using m by (auto simp: mem_inv_def)
    qed
    have "distinct (map fst ?ms)"
      using wf by (rule distinct_keys_filter)
    then have "sorted_wrt (\<lambda>a b. fst a < fst b) (sort_key fst ?ms)" by (rule sorted_keys_strict)
    then show "sorted_wrt (\<lambda>a b. mem_rank o' (en_Key a) < mem_rank o' (en_Key b)) ?es"
      unfolding sorted_wrt_map
    proof (rule sorted_wrt_mono_rel [rotated])
      fix x y assume xy: "x \<in> set (sort_key fst ?ms)" "y \<in> set (sort_key fst ?ms)" and lt: "fst x < fst y"
      have key: "mem_rank o' (en_Key (case z of (k, v) \<Rightarrow> entry (decode o' k) v)) = fst z"
        if "z \<in> set (sort_key fst ?ms)" for z
        using mem_ok_decode [OF nn [OF that], of o'] by (cases z) (simp add: entry_def)
      show "mem_rank o' (en_Key (case x of (k, v) \<Rightarrow> entry (decode o' k) v)) <
          mem_rank o' (en_Key (case y of (k, v) \<Rightarrow> entry (decode o' k) v))"
        unfolding key [OF xy(1)] key [OF xy(2)] by (rule lt)
    qed
    have sub: "length ?pb = 0 \<or> HasPrefix b ?pb \<longleftrightarrow> (\<exists>r. r \<noteq> [] \<and> decode o' b = p @ r)" if "b \<noteq> []" for b
    proof (cases "p = []")
      case True
      then show ?thesis using Split_not_Nil [of ?s b] by (simp add: decode_def)
    next
      case False
      then have "strings_Join ?s p \<noteq> []" using p by (auto simp: mem_okp_def mem_ok_def Join_Nil_iff)
      then show ?thesis
        using subtree_iff [OF cl False clean_Split Split_not_Nil, of b] by (simp add: decode_def Join_Split)
    qed
    have view: "mem_view o' m k = Some v \<longleftrightarrow>
        mem_ok o' k \<and> (\<exists>e. (mem_rank o' k, e) \<in> set (ms_data m) \<and> v = me_value e)" for k v
      using wf_map_mem [of "ms_data m"] wf by (auto simp: mem_view_def wf_map_def)
    show "set ?es = {e. \<exists>r v. r \<noteq> [] \<and> mem_view o' m (p @ r) = Some v \<and> e = entry (p @ r) v}"
    proof (intro equalityI subsetI)
      fix x assume "x \<in> set ?es"
      then obtain b e where be: "(b, e) \<in> set (ms_data m)" "length ?pb = 0 \<or> HasPrefix b ?pb"
        and x: "x = entry (decode o' b) (me_value e)" by auto
      have b: "b \<noteq> []" using be(1) m by (auto simp: mem_inv_def)
      obtain r where "r \<noteq> []" "decode o' b = p @ r" using sub [OF b] be(2) by blast
      then show "x \<in> {e. \<exists>r v. r \<noteq> [] \<and> mem_view o' m (p @ r) = Some v \<and> e = entry (p @ r) v}"
        using x be(1) mem_ok_decode [OF b, of o'] view [of "decode o' b" "me_value e"] by auto
    next
      fix x assume "x \<in> {e. \<exists>r v. r \<noteq> [] \<and> mem_view o' m (p @ r) = Some v \<and> e = entry (p @ r) v}"
      then obtain r v e where r: "r \<noteq> []" "mem_ok o' (p @ r)" "(mem_rank o' (p @ r), e) \<in> set (ms_data m)"
        and x: "x = entry (p @ r) (me_value e)" unfolding view by blast
      let ?b = "mem_rank o' (p @ r)"
      have b: "?b \<noteq> []" using r(2) by (rule mem_rank_not_Nil)
      have d: "decode o' ?b = p @ r" using r(2) by (simp add: decode_def mem_rank_def mem_ok_def Split_Join)
      have "length ?pb = 0 \<or> HasPrefix ?b ?pb" unfolding sub [OF b] using r(1) d by blast
      moreover have "\<not> expired e (kc_now c)" using m r(3) by (auto simp: mem_inv_def expired_def)
      ultimately have "(?b, me_value e) \<in> set ?ms" using r(3) by (auto simp: image_iff)
      then show "x \<in> set ?es" using d x by (force simp: image_iff)
    qed
  qed
  ultimately show ?thesis by blast
qed

interpretation mem: kv_store "Memory_Store others" "mem_view o'" "mem_inv o'" "mem_ok o'" "mem_okp o'" "mem_rank o'"
  for others o'
proof
  fix m k c v
  assume m: "mem_inv o' m" and c: "no_err c"
  have o: "ms_opts m = o'" using m by (simp add: mem_inv_def)
  show "mem_ok o' k \<Longrightarrow> st_Get (Memory_Store others) c k m =
      (case mem_view o' m k of None \<Rightarrow> Inl KvNotFound | Some v \<Rightarrow> Inr v, m)"
    using c o mem_inv_get [OF m, of "mem_rank o' k"]
    by (auto simp: Memory_Store_def Memory_Get_def no_err_def mem_ok_encode mem_view_def split: option.split)
  show "mem_ok o' k \<Longrightarrow> \<exists>s'. st_Set (Memory_Store others) c k v m = (None, s') \<and> mem_inv o' s' \<and>
      mem_view o' s' = (mem_view o' m)(k \<mapsto> v)"
    using c o mem_inv_put [OF m, of k v] by (auto simp: Memory_Store_def Memory_Set_def no_err_def mem_ok_encode)
  show "mem_ok o' k \<Longrightarrow> \<exists>s'. st_Delete (Memory_Store others) c k m = (None, s') \<and> mem_inv o' s' \<and>
      mem_view o' s' = (mem_view o' m)(k := None)"
    using c o mem_inv_del [OF m, of k] by (auto simp: Memory_Store_def Memory_Delete_def no_err_def mem_ok_encode)
next
  fix m and es :: "Entry list" and c
  assume m: "mem_inv o' m" and es: "\<forall>e \<in> set es. mem_ok o' (en_Key e) \<and> en_Deadline e = None" and c: "no_err c"
  have o: "ms_opts m = o'" using m by (simp add: mem_inv_def)
  show "\<exists>s'. st_BatchSet (Memory_Store others) c es m = (None, s') \<and> mem_inv o' s' \<and>
      mem_view o' s' = fold (\<lambda>e m. m(en_Key e \<mapsto> en_Value e)) es (mem_view o' m)"
    using c batch_set_ok [OF m es] prepare_batch_ok [OF es]
    by (auto simp: Memory_Store_def Memory_BatchSet_def no_err_def o)
next
  fix m ks c
  assume m: "mem_inv o' m" and ks: "\<forall>k \<in> set ks. mem_ok o' k" and c: "no_err c"
  show "\<exists>s'. st_BatchDelete (Memory_Store others) c ks m = (None, s') \<and> mem_inv o' s' \<and>
      mem_view o' s' = fold (\<lambda>k m. m(k := None)) ks (mem_view o' m)"
    using c delete_keys_ok [OF m ks] by (simp add: Memory_Store_def Memory_BatchDelete_def no_err_def)
next
  fix m p c
  assume "mem_inv o' m" "mem_okp o' p" "no_err c"
  then show "\<exists>es. st_List (Memory_Store others) c p m = map Inr es \<and> lists (mem_rank o') (mem_view o' m) p es"
    using Memory_List_lists by (simp add: Memory_Store_def)
next
  fix m k
  show "mem_view o' m k \<noteq> None \<Longrightarrow> mem_ok o' k" by (simp add: mem_view_def split: if_splits)
qed

section \<open>Properties\<close>

text \<open>
  C1: Whatever sequence of calls a store in memory has served, with keys it tells apart and contexts
  that are not cancelled, its answers are those of a map from keys to values, and every listing is the
  subtree of its prefix, each key once, in the order of the stored keys.
\<close>

theorem kv_memory_refines_map:
  assumes "\<forall>(c, op) \<in> set ops. no_err c \<and> op_ok (mem_ok o') (mem_okp o') op"
    and "kv_run (Memory_Store others) ops (NewMemory o') = (rs, m)"
  shows "kv_spec_run (mem_rank o') (map snd ops) Map.empty rs (mem_view o' m)"
  using mem.run_ok [OF mem_inv_New assms] by (simp add: mem_view_New)

definition quiet_call :: kv_call where "quiet_call = \<lparr>kc_err = \<lambda>_. None, kc_now = 0, kc_now2 = 0\<rparr>"

lemma quiet_call: "no_err quiet_call"
  by (simp add: no_err_def quiet_call_def)

definition sample_ops :: "(kv_call \<times> kv_op) list" where
  "sample_ops = map (Pair quiet_call)
     [OpSet [[1], [2]] [9], OpSet [[1], [3]] [8], OpDelete [[1], [2]], OpList [[1]], OpGet [[1], [2]]]"

theorem kv_memory_refines_map_witness:
  "kv_spec_run (mem_rank None) (map snd sample_ops) Map.empty
     (fst (kv_run (Memory_Store id) sample_ops (NewMemory None)))
     (mem_view None (snd (kv_run (Memory_Store id) sample_ops (NewMemory None))))"
  by (rule kv_memory_refines_map [of _ _ id])
    (simp_all add: sample_ops_def quiet_call mem_ok_def mem_okp_def sep_def DefaultSeparator_def)

interpretation pmem: prefixed_kv "Memory_Store others" "mem_view o'" "mem_inv o'" "mem_ok o'" "mem_okp o'" "mem_rank o'" pre
  for others o' pre
  by unfold_locales

lemma fold_upd_other:
  "\<nexists>r. k = pre @ r \<Longrightarrow>
   fold (\<lambda>e m. m(en_Key e \<mapsto> en_Value e)) (map (\<lambda>e. e\<lparr>en_Key := prefixedKey pre (en_Key e)\<rparr>) es) m k = m k"
  for es :: "Entry list"
  by (induction es arbitrary: m) (auto simp: prefixedKey_def)

lemma fold_del_other:
  "\<nexists>r. k = pre @ r \<Longrightarrow> fold (\<lambda>k m. m(k := None)) (map (prefixedKey pre) ks) m k = m k"
  by (induction ks arbitrary: m) (auto simp: prefixedKey_def)

context prefixed_kv begin

lemma exec_frame:
  assumes s: "inv s" and c: "no_err c" and op: "op_ok (\<lambda>k. ok (pre @ k)) (\<lambda>p. okp (pre @ p)) op"
    and e: "kv_exec (Prefixed store pre) c op s = (r, s')" and k: "\<nexists>r. k = pre @ r"
  shows "view s' k = view s k"
proof (cases op)
  case (OpGet q)
  then show ?thesis using get [OF s _ c, of "pre @ q"] op e by (simp add: Prefixed_def prefixedKey_def)
next
  case (OpSet q v)
  then show ?thesis using set [OF s _ c, of "pre @ q" v] op e k by (auto simp: Prefixed_def prefixedKey_def)
next
  case (OpDelete q)
  then show ?thesis using delete [OF s _ c, of "pre @ q"] op e k by (auto simp: Prefixed_def prefixedKey_def)
next
  case (OpBatchSet es)
  let ?es = "map (\<lambda>e. e\<lparr>en_Key := prefixedKey pre (en_Key e)\<rparr>) es"
  have "\<forall>e \<in> List.set ?es. ok (en_Key e) \<and> en_Deadline e = None"
    using op OpBatchSet by (simp add: prefixedKey_def)
  from batch_set [OF s this c] obtain s1 where "st_BatchSet store c ?es s = (None, s1)"
    "view s1 = fold (\<lambda>e m. m(en_Key e \<mapsto> en_Value e)) ?es (view s)" by blast
  then show ?thesis using e OpBatchSet fold_upd_other [OF k] by (auto simp: Prefixed_def prefixed_BatchSet_def)
next
  case (OpBatchDelete ks)
  have "\<forall>k \<in> List.set (map (prefixedKey pre) ks). ok k"
    using op OpBatchDelete by (simp add: prefixedKey_def)
  from batch_delete [OF s this c] obtain s1 where "st_BatchDelete store c (map (prefixedKey pre) ks) s = (None, s1)"
    "view s1 = fold (\<lambda>k m. m(k := None)) (map (prefixedKey pre) ks) (view s)" by blast
  then show ?thesis
    using e OpBatchDelete fold_del_other [OF k] by (auto simp: Prefixed_def prefixed_BatchDelete_def)
next
  case (OpList p)
  then show ?thesis using e by simp
qed

lemma run_frame:
  "inv s \<Longrightarrow> \<forall>(c, op) \<in> List.set ops. no_err c \<and> op_ok (\<lambda>k. ok (pre @ k)) (\<lambda>p. okp (pre @ p)) op \<Longrightarrow>
   kv_run (Prefixed store pre) ops s = (rs, s') \<Longrightarrow> \<nexists>r. k = pre @ r \<Longrightarrow> view s' k = view s k"
proof (induction ops arbitrary: s rs)
  case (Cons a ops)
  obtain c op where a: "a = (c, op)" by (cases a)
  obtain r s1 where e: "kv_exec (Prefixed store pre) c op s = (r, s1)" "inv s1"
    using px.exec_ok [of s c op] Cons.prems a by auto
  obtain rs' where r: "kv_run (Prefixed store pre) ops s1 = (rs', s')"
    using Cons.prems(3) e(1) a by (auto split: prod.splits)
  have "view s1 k = view s k"
    using exec_frame [OF Cons.prems(1) _ _ e(1) Cons.prems(4)] Cons.prems(2) a by auto
  then show ?case using Cons.IH [OF e(2) _ r Cons.prems(4)] Cons.prems(2) by simp
qed simp

end

text \<open>
  C2: A view under a prefix behaves as a map of its own, and nothing done through it shows outside
  the prefix.
\<close>

theorem kv_prefix_isolation:
  assumes "mem_inv o' m"
    and "\<forall>(c, op) \<in> set ops. no_err c \<and> op_ok (\<lambda>k. mem_ok o' (pre @ k)) (\<lambda>p. mem_okp o' (pre @ p)) op"
    and "kv_run (Prefixed (Memory_Store others) pre) ops m = (rs, m')"
  shows "kv_spec_run (\<lambda>k. mem_rank o' (pre @ k)) (map snd ops) (\<lambda>k. mem_view o' m (pre @ k)) rs
       (\<lambda>k. mem_view o' m' (pre @ k)) \<and>
     (\<forall>k. (\<nexists>r. k = pre @ r) \<longrightarrow> mem_view o' m' k = mem_view o' m k)"
  using pmem.px.run_ok [OF assms] pmem.run_frame [OF assms] by blast

theorem kv_prefix_isolation_witness:
  "kv_spec_run (\<lambda>k. mem_rank None ([[7]] @ k)) (map snd sample_ops) (\<lambda>k. mem_view None (NewMemory None) ([[7]] @ k))
       (fst (kv_run (Prefixed (Memory_Store id) [[7]]) sample_ops (NewMemory None)))
       (\<lambda>k. mem_view None (snd (kv_run (Prefixed (Memory_Store id) [[7]]) sample_ops (NewMemory None))) ([[7]] @ k)) \<and>
   (\<forall>k. (\<nexists>r. k = [[7]] @ r) \<longrightarrow>
      mem_view None (snd (kv_run (Prefixed (Memory_Store id) [[7]]) sample_ops (NewMemory None))) k =
      mem_view None (NewMemory None) k)"
  by (rule kv_prefix_isolation [where others = id and ops = sample_ops and pre = "[[7]]"])
    (simp_all add: mem_inv_New sample_ops_def quiet_call mem_ok_def mem_okp_def sep_def DefaultSeparator_def)

section \<open>Paging\<close>

lemma after_loop_eq:
  "length acc < limit \<Longrightarrow> after_loop after limit acc (map Inr es) =
     Inr (acc @ take (limit - length acc) (filter (\<lambda>e. \<not> (after \<noteq> [] \<and> Key_String (en_Key e) \<le> Key_String after)) es))"
proof (induction es arbitrary: acc)
  case (Cons e es)
  show ?case
  proof (cases "after \<noteq> [] \<and> Key_String (en_Key e) \<le> Key_String after")
    case True
    then show ?thesis using Cons by auto
  next
    case False
    show ?thesis
    proof (cases "length acc + 1 = limit")
      case True
      then show ?thesis using False by (auto simp: Let_def)
    next
      case F2: False
      then have "limit - length acc = Suc (limit - length (acc @ [e]))" using Cons.prems by simp
      then show ?thesis using False F2 Cons.prems Cons.IH [of "acc @ [e]"] by (auto simp: Let_def)
    qed
  qed
qed simp

lemma filter_behind:
  fixes f :: "'a \<Rightarrow> 'b::linorder"
  assumes "sorted_wrt (\<lambda>a b. f a < f b) es" and "i < length es"
  shows "filter (\<lambda>e. \<not> f e \<le> f (es ! i)) es = drop (Suc i) es"
proof -
  have es: "es = take i es @ es ! i # drop (Suc i) es" using assms(2) by (rule id_take_nth_drop)
  have lt: "f (es ! j) < f (es ! k)" if "j < k" "k < length es" for j k
    using assms(1) that by (simp add: sorted_wrt_iff_nth_less)
  have "filter (\<lambda>e. \<not> f e \<le> f (es ! i)) (take i es) = []"
    using lt assms(2) by (auto simp: filter_empty_conv in_set_conv_nth less_imp_le)
  moreover have "filter (\<lambda>e. \<not> f e \<le> f (es ! i)) (drop (Suc i) es) = drop (Suc i) es"
    using lt assms(2) by (auto simp: filter_id_conv in_set_conv_nth not_le)
  ultimately show ?thesis by (subst es) simp
qed

text \<open>
  C3: With the default separator, the page after the \<open>i\<close>-th entry of a listing is made of the entries
  that follow it, as many as asked for: paging with the last key of each page visits the whole listing.
\<close>

theorem kv_pages_complete:
  assumes m: "mem_inv o' m" and s: "sep o' = DefaultSeparator" and p: "mem_okp o' p" and c: "no_err c"
    and es: "Memory_List (asked c) p m = map Inr es" and limit: "0 < limit"
  shows "Memory_ListAfter c p [] limit m = Inr (take (nat limit) es) \<and>
    (\<forall>i < length es. Memory_ListAfter c p (en_Key (es ! i)) limit m = Inr (take (nat limit) (drop (Suc i) es)))"
proof -
  have c': "no_err (asked c)" "kc_err c 0 = None" using c by (simp_all add: no_err_def asked_def)
  obtain es' where "Memory_List (asked c) p m = map Inr es'" and l: "lists (mem_rank o') (mem_view o' m) p es'"
    using Memory_List_lists [OF m p c'(1)] by blast
  then have "es' = es" using es by (simp add: inj_map_eq_map inj_def)
  then have ord: "sorted_wrt (\<lambda>a b. Key_String (en_Key a) < Key_String (en_Key b)) es"
    and keys: "\<forall>e \<in> set es. en_Key e \<noteq> []"
    using l by (auto simp: lists_def mem_rank_def Key_String_def s entry_def)
  have "0 < nat limit" using limit by simp
  then show ?thesis
    using limit c'(2) keys filter_behind [OF ord]
    by (simp add: Memory_ListAfter_def es after_loop_eq)
qed

definition two_plain :: Memory where
  "two_plain = snd (Memory_Set quiet_call [[0x61, 0x30]] [2] (snd (Memory_Set quiet_call [[0x61], [0x62]] [1] (NewMemory None))))"

lemma two_plain_eq:
  "two_plain = \<lparr>ms_data = [([0x61, 0x3a, 0x62], \<lparr>me_value = [1], me_expiresAt = None\<rparr>),
      ([0x61, 0x30], \<lparr>me_value = [2], me_expiresAt = None\<rparr>)], ms_opts = None\<rparr>"
  by (simp add: two_plain_def Memory_Set_def quiet_call_def encode_eq sep_def DefaultSeparator_def NewMemory_def clean_def)

theorem kv_pages_complete_witness:
  "Memory_ListAfter quiet_call [] [] 1 two_plain = Inr (take 1 [entry [[0x61, 0x30]] [2], entry [[0x61], [0x62]] [1]]) \<and>
   (\<forall>i < 2. Memory_ListAfter quiet_call [] (en_Key ([entry [[0x61, 0x30]] [2], entry [[0x61], [0x62]] [1]] ! i)) 1 two_plain =
      Inr (take 1 (drop (Suc i) [entry [[0x61, 0x30]] [2], entry [[0x61], [0x62]] [1]])))"
proof -
  let ?es = "[entry [[0x61, 0x30]] [2], entry [[0x61], [0x62]] [1]]"
  have "mem_inv None two_plain" by (simp add: mem_inv_def two_plain_eq wf_map_def)
  moreover have "asked quiet_call = quiet_call" by (simp add: asked_def quiet_call_def)
  then have "Memory_List (asked quiet_call) [] two_plain = map Inr ?es"
    by (simp add: two_plain_eq Memory_List_def quiet_call_def encode_eq sep_def expired_def decode_def DefaultSeparator_def)
  ultimately show ?thesis
    using kv_pages_complete [of None two_plain "[]" quiet_call ?es 1]
    by (simp add: sep_def mem_okp_def quiet_call)
qed

definition slash :: "Options option" where "slash = Some \<lparr>op_Separator = 0x2f\<rparr>"

definition two_keys :: Memory where
  "two_keys = snd (Memory_Set quiet_call [[0x61, 0x30]] [2] (snd (Memory_Set quiet_call [[0x61], [0x62]] [1] (NewMemory slash))))"

lemma two_keys_eq:
  "two_keys = \<lparr>ms_data = [([0x61, 0x2f, 0x62], \<lparr>me_value = [1], me_expiresAt = None\<rparr>),
      ([0x61, 0x30], \<lparr>me_value = [2], me_expiresAt = None\<rparr>)], ms_opts = slash\<rparr>"
  by (simp add: two_keys_def Memory_Set_def quiet_call_def encode_eq slash_def sep_def NewMemory_def clean_def)

lemma two_keys_listed:
  "Memory_List quiet_call [] two_keys = [Inr (entry [[0x61], [0x62]] [1]), Inr (entry [[0x61, 0x30]] [2])]"
  by (simp add: two_keys_eq Memory_List_def quiet_call_def encode_eq slash_def sep_def expired_def decode_def)

text \<open>
  C4: With another separator the order of the listing is not the order in which paging compares keys:
  the store holds two keys, the listing has both, and the page after the first is empty.
\<close>

theorem kv_pages_skip:
  "Memory_List quiet_call [] two_keys = [Inr (entry [[0x61], [0x62]] [1]), Inr (entry [[0x61, 0x30]] [2])] \<and>
   Memory_ListAfter quiet_call [] [] 1 two_keys = Inr [entry [[0x61], [0x62]] [1]] \<and>
   Memory_ListAfter quiet_call [] [[0x61], [0x62]] 1 two_keys = Inr []"
proof -
  have "asked quiet_call = quiet_call" "kc_err quiet_call 0 = None" by (simp_all add: asked_def quiet_call_def)
  then have "Memory_ListAfter quiet_call [] after 1 two_keys =
      after_loop after 1 [] [Inr (entry [[0x61], [0x62]] [1]), Inr (entry [[0x61, 0x30]] [2])]" for after
    by (simp add: Memory_ListAfter_def two_keys_listed)
  then show ?thesis by (simp add: two_keys_listed entry_def Key_String_def DefaultSeparator_def)
qed

section \<open>Deadlines\<close>

text \<open>
  C5: A value stored with a deadline is returned before the deadline and not found from it on, and what
  another goroutine stores between the two locks of \<^verbatim>\<open>Get\<close> survives unless it has expired, too.
\<close>

theorem memory_deadline:
  fixes v :: bytes
  assumes e: "encode (ms_opts m) k = Some b" and d: "kc_now c < d" and c: "no_err c" "no_err c'"
  defines "m1 \<equiv> snd (Memory_BatchSet c [\<lparr>en_Key = k, en_Value = v, en_Deadline = Some d\<rparr>] m)"
  shows "fst (Memory_Get others c' k m1) = (if kc_now c' < d then Inr v else Inl KvNotFound) \<and>
    (\<forall>e. d \<le> kc_now c' \<longrightarrow> map_get (ms_data (others m1)) b = Some e \<longrightarrow>
       map_get (ms_data (snd (Memory_Get others c' k m1))) b = (if expired e (kc_now2 c') then None else Some e))"
proof -
  have "m1 = m\<lparr>ms_data := map_put b \<lparr>me_value = v, me_expiresAt = Some d\<rparr> (ms_data m)\<rparr>"
    using c(1) d e by (simp add: m1_def Memory_BatchSet_def no_err_def)
  then show ?thesis
    using c(2) e by (auto simp: Memory_Get_def no_err_def expired_def Let_def split: option.split)
qed

theorem memory_deadline_witness:
  "fst (Memory_Get id (quiet_call\<lparr>kc_now := 5\<rparr>) [[1]]
      (snd (Memory_BatchSet quiet_call [\<lparr>en_Key = [[1]], en_Value = [9], en_Deadline = Some 5\<rparr>] (NewMemory None)))) =
    (if kc_now (quiet_call\<lparr>kc_now := 5\<rparr>) < 5 then Inr [9] else Inl KvNotFound)"
  using memory_deadline [of "NewMemory None" "[[1]]" "[1]" quiet_call 5 "quiet_call\<lparr>kc_now := 5\<rparr>" id "[9]"]
  by (simp add: NewMemory_def encode_eq sep_def DefaultSeparator_def quiet_call no_err_def quiet_call_def)

end
