(* ===== verification/GraphThms.thy ===== *)
theory GraphThms
  imports GraphKv KvMemory
begin

text \<open>
  The graph over any store that keeps the contract: its two indexes stay mirror images of each other,
  and it behaves as a table of entities and a set of relations.
\<close>

section \<open>The abstract graph\<close>

record 'v agraph =
  ag_ents :: "bytes \<rightharpoonup> 'v attrs"
  ag_rels :: "(bytes \<times> bytes \<times> bytes) set"

text \<open>A relation is the triple of its source, its type and its target.\<close>

definition decoded_attrs :: "'v json \<Rightarrow> bytes \<Rightarrow> 'v attrs" where
  "decoded_attrs js d = (if d = [] then None else case js_Unmarshal js d of Inr a \<Rightarrow> a | Inl _ \<Rightarrow> None)"

definition graph_of :: "'v json \<Rightarrow> KVGraph \<Rightarrow> (key \<rightharpoonup> bytes) \<Rightarrow> 'v agraph" where
  "graph_of js g m =
     \<lparr>ag_ents = (\<lambda>l. map_option (decoded_attrs js) (m (entityKey g l))),
      ag_rels = {(f, t, d). m (fwdKey g f t d) \<noteq> None}\<rparr>"

definition graph_inv :: "'v json \<Rightarrow> KVGraph \<Rightarrow> (key \<rightharpoonup> bytes) \<Rightarrow> bool" where
  "graph_inv js g m \<longleftrightarrow>
     (\<forall>f t d. m (fwdKey g f t d) \<noteq> None \<longleftrightarrow> m (revKey g d t f) \<noteq> None) \<and>
     (\<forall>l d. m (entityKey g l) = Some d \<longrightarrow> d = [] \<or> (\<exists>a. js_Unmarshal js d = Inr a)) \<and>
     (\<forall>r. m (entityPrefix g @ r) \<noteq> None \<longrightarrow> length r \<le> 1)"

lemma graph_inv_mirror: "graph_inv js g m \<Longrightarrow> m (fwdKey g f t d) \<noteq> None \<longleftrightarrow> m (revKey g d t f) \<noteq> None"
  unfolding graph_inv_def by (elim conjE) (erule allE)+

lemma key_inject [simp]:
  "entityKey g a = entityKey g b \<longleftrightarrow> a = b"
  "fwdKey g f t d = fwdKey g f' t' d' \<longleftrightarrow> f = f' \<and> t = t' \<and> d = d'"
  "revKey g f t d = revKey g f' t' d' \<longleftrightarrow> f = f' \<and> t = t' \<and> d = d'"
  "entityKey g a \<noteq> fwdKey g f t d" "fwdKey g f t d \<noteq> entityKey g a"
  "entityKey g a \<noteq> revKey g f t d" "revKey g f t d \<noteq> entityKey g a"
  "fwdKey g f t d \<noteq> revKey g f' t' d'" "revKey g f' t' d' \<noteq> fwdKey g f t d"
  "entityPrefix g @ r \<noteq> fwdKey g f t d" "entityPrefix g @ r \<noteq> revKey g f t d"
  "entityPrefix g @ r = entityKey g a \<longleftrightarrow> r = [a]"
  by (auto simp: entityKey_def fwdKey_def revKey_def entityPrefix_def tag_e_def tag_r_def tag_ri_def)

text \<open>The operations that change the graph, in the code and on the abstract graph.\<close>

datatype 'v graph_op =
    GSet "'v Entity" | GDelete bytes | GMerge bytes "(bytes, 'v) gomap" | GAdd Relation | GRemove bytes bytes bytes

fun graph_exec ::
  "'v json \<Rightarrow> 's Store \<Rightarrow> KVGraph \<Rightarrow> (nat \<Rightarrow> kv_call) \<Rightarrow> 'v graph_op \<Rightarrow> 's \<Rightarrow> graph_error option \<times> 's" where
  "graph_exec js st g cs (GSet e) s = SetEntity js st g (cs 0) e s"
| "graph_exec js st g cs (GDelete l) s = DeleteEntity st g cs l s"
| "graph_exec js st g cs (GMerge l a) s = MergeAttrs js st g cs l a s"
| "graph_exec js st g cs (GAdd r) s = AddRelation st g (cs 0) r s"
| "graph_exec js st g cs (GRemove f d t) s = RemoveRelation st g (cs 0) f d t s"

text \<open>An entity holds what decoding gives back of the attributes that were set.\<close>

definition put_entity :: "'v json \<Rightarrow> bytes \<Rightarrow> 'v attrs \<Rightarrow> 'v agraph \<Rightarrow> graph_error option \<times> 'v agraph" where
  "put_entity js l a G =
     (case js_Marshal js a of Inl err \<Rightarrow> (Some (GraphJson err), G)
      | Inr d \<Rightarrow> (None, G\<lparr>ag_ents := (ag_ents G)(l \<mapsto> decoded_attrs js d)\<rparr>))"

definition merged :: "(bytes, 'v) gomap \<Rightarrow> 'v attrs \<Rightarrow> 'v attrs" where
  "merged attrs old = Some (fold (\<lambda>(k, v). map_put k v) attrs (case old of None \<Rightarrow> [] | Some a \<Rightarrow> a))"

definition checked :: "KVGraph \<Rightarrow> bytes list \<Rightarrow> graph_error option \<times> 'v agraph \<Rightarrow> 'v agraph \<Rightarrow> graph_error option \<times> 'v agraph" where
  "checked g segs r G = (case validateSegments g segs of Some err \<Rightarrow> (Some err, G) | None \<Rightarrow> r)"

fun agraph_exec :: "'v json \<Rightarrow> KVGraph \<Rightarrow> 'v graph_op \<Rightarrow> 'v agraph \<Rightarrow> graph_error option \<times> 'v agraph" where
  "agraph_exec js g (GSet e) G = checked g [ge_Label e] (put_entity js (ge_Label e) (ge_Attrs e) G) G"
| "agraph_exec js g (GDelete l) G =
     checked g [l] (None, \<lparr>ag_ents = (ag_ents G)(l := None), ag_rels = {(f, t, d) \<in> ag_rels G. f \<noteq> l \<and> d \<noteq> l}\<rparr>) G"
| "agraph_exec js g (GMerge l a) G =
     checked g [l] (case ag_ents G l of None \<Rightarrow> (Some GraphNotFound, G) | Some old \<Rightarrow> put_entity js l (merged a old) G) G"
| "agraph_exec js g (GAdd r) G =
     checked g [rl_From r, rl_To r, rl_RelType r]
       (None, G\<lparr>ag_rels := insert (rl_From r, rl_RelType r, rl_To r) (ag_rels G)\<rparr>) G"
| "agraph_exec js g (GRemove f d t) G = checked g [f, d, t] (None, G\<lparr>ag_rels := ag_rels G - {(f, t, d)}\<rparr>) G"

section \<open>The graph as a client of the store\<close>

locale kv_graph = kv_store +
  fixes good :: "KVGraph \<Rightarrow> bool"
  assumes sep_low: "good g \<Longrightarrow> kg_sep g < 0x80"
    and tags: "good g \<Longrightarrow> clean (kg_sep g) [tag_e, tag_r, tag_ri]"
    and seg_ok: "good g \<Longrightarrow> k \<noteq> [] \<Longrightarrow> hd k \<noteq> [] \<Longrightarrow> ok (kg_prefix g @ k) \<longleftrightarrow> clean (kg_sep g) k"
    and seg_okp: "good g \<Longrightarrow> k \<noteq> [] \<Longrightarrow> hd k \<noteq> [] \<Longrightarrow> clean (kg_sep g) k \<Longrightarrow> okp (kg_prefix g @ k)"

lemma distinct_ranked: "sorted_wrt (\<lambda>a b. f (k a) < f (k b)) xs \<Longrightarrow> distinct (map k xs)"
  for f :: "'b \<Rightarrow> 'c::linorder"
  by (induction xs) force+

lemma Contains_single: "strings_Contains s [c] \<longleftrightarrow> c \<in> set s"
  by (induction s) auto

text \<open>
  The relations of an entity, the neighbours of a label, one round of a breadth-first search and what
  lies within a number of steps.
\<close>

definition touching :: "bytes \<Rightarrow> (bytes \<times> bytes \<times> bytes) set \<Rightarrow> Relation set" where
  "touching l R = {\<lparr>rl_From = f, rl_To = d, rl_RelType = t\<rparr> | f t d. (f, t, d) \<in> R \<and> (f = l \<or> d = l)}"

definition adjacent :: "(bytes \<Rightarrow> bool) \<Rightarrow> (bytes \<times> bytes \<times> bytes) set \<Rightarrow> bytes \<Rightarrow> bytes set" where
  "adjacent T R l = {x. \<exists>t. T t \<and> ((l, t, x) \<in> R \<or> (x, t, l) \<in> R)}"

definition round_of :: "(bytes \<times> bytes \<times> bytes) set \<Rightarrow> bytes set \<Rightarrow> bytes set" where
  "round_of R V = V \<union> (\<Union>l \<in> V. adjacent (\<lambda>_. True) R l)"

definition within :: "(bytes \<times> bytes \<times> bytes) set \<Rightarrow> nat \<Rightarrow> bytes set \<Rightarrow> bytes set" where
  "within R n S = {x. \<exists>l \<in> S. \<exists>k \<le> n. (l, x) \<in> {(a, b). b \<in> adjacent (\<lambda>_. True) R a} ^^ k}"

context kv_graph begin

lemma validate_iff: "good g \<Longrightarrow> validateSegments g segs = None \<longleftrightarrow> clean (kg_sep g) segs"
  by (induction segs) (auto simp: sep_string_def sep_low Contains_single)

lemma tags_clean: "good g \<Longrightarrow> kg_sep g \<notin> set tag_e \<and> kg_sep g \<notin> set tag_r \<and> kg_sep g \<notin> set tag_ri"
  using tags [of g] by simp

lemma tag_not_Nil [simp]: "tag_e \<noteq> []" "tag_r \<noteq> []" "tag_ri \<noteq> []"
  by (simp_all add: tag_e_def tag_r_def tag_ri_def)

lemma keys_ok:
  assumes g: "good g"
  shows "ok (entityKey g l) \<longleftrightarrow> clean (kg_sep g) [l]"
    "ok (fwdKey g f t d) \<longleftrightarrow> clean (kg_sep g) [f, t, d]"
    "ok (revKey g d t f) \<longleftrightarrow> clean (kg_sep g) [d, t, f]"
    "okp (entityPrefix g)"
    "clean (kg_sep g) [l] \<Longrightarrow> okp (fwdPrefix g l)" "clean (kg_sep g) [l] \<Longrightarrow> okp (revPrefix g l)"
  using seg_ok [OF g, of "[tag_e, l]"] seg_ok [OF g, of "[tag_r, f, t, d]"] seg_ok [OF g, of "[tag_ri, d, t, f]"]
    seg_okp [OF g, of "[tag_e]"] seg_okp [OF g, of "[tag_r, l]"] seg_okp [OF g, of "[tag_ri, l]"] tags_clean [OF g]
  by (simp_all add: entityKey_def fwdKey_def revKey_def entityPrefix_def fwdPrefix_def revPrefix_def)

lemma rel_clean: "good g \<Longrightarrow> view s (fwdKey g f t d) \<noteq> None \<Longrightarrow> clean (kg_sep g) [f, t, d]"
  using view_ok keys_ok(2) by blast

text \<open>Listing one side of an index.\<close>

lemma list_index:
  assumes good: "good g" and s: "inv s" and c: "no_err c" and l: "clean (kg_sep g) [l]"
    and p: "p = fwdPrefix g l \<or> p = revPrefix g l"
  obtains es where "st_List store c p s = map Inr es"
    "distinct (map en_Key (filter (\<lambda>e. length (en_Key e) = length (kg_prefix g) + 4) es))"
    "set (map en_Key (filter (\<lambda>e. length (en_Key e) = length (kg_prefix g) + 4) es)) =
       {p @ [t, x] | t x. view s (p @ [t, x]) \<noteq> None}"
proof -
  have okp: "okp p" using p l keys_ok(5,6) [OF good] by auto
  obtain es where es: "st_List store c p s = map Inr es" "lists rank (view s) p es"
    using list [OF s okp c] by blast
  have plen: "length p = length (kg_prefix g) + 2" using p by (auto simp: fwdPrefix_def revPrefix_def)
  have d: "distinct (map en_Key (filter P es))" for P
    using es(2) by (intro distinct_ranked [where f = rank] sorted_wrt_filter) (simp add: lists_def)
  have k: "set (map en_Key (filter (\<lambda>e. length (en_Key e) = length (kg_prefix g) + 4) es)) =
       {p @ [t, x] | t x. view s (p @ [t, x]) \<noteq> None}"
  proof (intro equalityI subsetI)
    fix k assume "k \<in> set (map en_Key (filter (\<lambda>e. length (en_Key e) = length (kg_prefix g) + 4) es))"
    then obtain r v where r: "k = p @ r" "view s (p @ r) = Some v" "length (p @ r) = length (kg_prefix g) + 4"
      using es(2) by (auto simp: lists_def entry_def)
    then obtain t x where "r = [t, x]" using plen by (auto simp: length_Suc_conv eval_nat_numeral)
    then show "k \<in> {p @ [t, x] | t x. view s (p @ [t, x]) \<noteq> None}" using r by auto
  next
    fix k assume "k \<in> {p @ [t, x] | t x. view s (p @ [t, x]) \<noteq> None}"
    then obtain t x v where k: "k = p @ [t, x]" "view s (p @ [t, x]) = Some v" by blast
    then have "entry (p @ [t, x]) v \<in> set es" using es(2) by (auto simp: lists_def)
    then show "k \<in> set (map en_Key (filter (\<lambda>e. length (en_Key e) = length (kg_prefix g) + 4) es))"
      using k plen by (force simp: entry_def)
  qed
  show thesis using that es(1) d k by blast
qed

lemma forward_relations_eq:
  "forward_relations plen (map Inr es) =
     Inr (map (\<lambda>k. \<lparr>rl_From = k ! (plen + 1), rl_To = k ! (plen + 3), rl_RelType = k ! (plen + 2)\<rparr>)
       (map en_Key (filter (\<lambda>e. length (en_Key e) = plen + 4) es)))"
  by (induction es) (simp_all add: Let_def)

lemma reverse_relations_eq:
  "reverse_relations plen label (map Inr es) =
     Inr (map (\<lambda>k. \<lparr>rl_From = k ! (plen + 3), rl_To = k ! (plen + 1), rl_RelType = k ! (plen + 2)\<rparr>)
       (filter (\<lambda>k. k ! (plen + 3) \<noteq> label) (map en_Key (filter (\<lambda>e. length (en_Key e) = plen + 4) es))))"
  by (induction es) (simp_all add: Let_def)

lemma Relations_ok:
  assumes good: "good g" and s: "inv s" and c: "\<And>i. no_err (cs i)" and l: "clean (kg_sep g) [l]" and g: "graph_inv js g (view s)"
  shows "\<exists>rels. Relations store g cs l s = Inr rels \<and> distinct rels \<and>
    set rels = touching l (ag_rels (graph_of js g (view s)))"
proof -
  let ?n = "length (kg_prefix g)" and ?R = "ag_rels (graph_of js g (view s))"
  let ?F = "\<lambda>e. length (en_Key e) = ?n + 4"
  obtain es where es: "st_List store (cs 0) (fwdPrefix g l) s = map Inr es" "distinct (map en_Key (filter ?F es))"
    "set (map en_Key (filter ?F es)) = {fwdPrefix g l @ [t, x] | t x. view s (fwdPrefix g l @ [t, x]) \<noteq> None}"
    using list_index [OF good s c l] by blast
  obtain fs where fs: "st_List store (cs 1) (revPrefix g l) s = map Inr fs" "distinct (map en_Key (filter ?F fs))"
    "set (map en_Key (filter ?F fs)) = {revPrefix g l @ [t, x] | t x. view s (revPrefix g l @ [t, x]) \<noteq> None}"
    using list_index [OF good s c l] by blast
  let ?f = "\<lambda>k::key. \<lparr>rl_From = k ! (?n + 1), rl_To = k ! (?n + 3), rl_RelType = k ! (?n + 2)\<rparr>"
  let ?r = "\<lambda>k::key. \<lparr>rl_From = k ! (?n + 3), rl_To = k ! (?n + 1), rl_RelType = k ! (?n + 2)\<rparr>"
  let ?A = "map ?f (map en_Key (filter ?F es))"
  let ?B = "map ?r (filter (\<lambda>k. k ! (?n + 3) \<noteq> l) (map en_Key (filter ?F fs)))"
  have R: "(f, t, d) \<in> ?R \<longleftrightarrow> view s (fwdKey g f t d) \<noteq> None" for f t d by (simp add: graph_of_def)
  have Rr: "(f, t, d) \<in> ?R \<longleftrightarrow> view s (revKey g d t f) \<noteq> None" for f t d
    unfolding R by (rule graph_inv_mirror [OF g])
  have fk: "fwdPrefix g l @ [t, x] = fwdKey g l t x" "revPrefix g l @ [t, x] = revKey g l t x" for t x
    by (simp_all add: fwdPrefix_def fwdKey_def revPrefix_def revKey_def)
  have ff: "?f (fwdKey g f t d) = \<lparr>rl_From = f, rl_To = d, rl_RelType = t\<rparr>"
    and rr: "?r (revKey g d t f) = \<lparr>rl_From = f, rl_To = d, rl_RelType = t\<rparr>"
    and r3: "revKey g d t f ! (?n + 3) = f" for f t d
    by (simp_all add: fwdKey_def revKey_def nth_append)
  have setA: "set (map en_Key (filter ?F es)) = {fwdKey g l t d | t d. (l, t, d) \<in> ?R}"
    using es(3) unfolding fk R .
  have setB: "set (filter (\<lambda>k. k ! (?n + 3) \<noteq> l) (map en_Key (filter ?F fs))) =
      {revKey g l t f | t f. (f, t, l) \<in> ?R \<and> f \<noteq> l}"
  proof -
    have "set (map en_Key (filter ?F fs)) = {revKey g l t f | t f. (f, t, l) \<in> ?R}"
      using fs(3) unfolding fk Rr .
    then show ?thesis unfolding set_filter by (auto simp: r3)
  qed
  have A: "set ?A = {\<lparr>rl_From = l, rl_To = d, rl_RelType = t\<rparr> | t d. (l, t, d) \<in> ?R}"
  proof -
    have "set ?A = ?f ` {fwdKey g l t d | t d. (l, t, d) \<in> ?R}" by (simp only: set_map [of ?f] setA)
    also have "\<dots> = {?f (fwdKey g l t d) | t d. (l, t, d) \<in> ?R}" by blast
    finally show ?thesis by (simp only: ff)
  qed
  have B: "set ?B = {\<lparr>rl_From = f, rl_To = l, rl_RelType = t\<rparr> | f t. (f, t, l) \<in> ?R \<and> f \<noteq> l}"
  proof -
    have "set ?B = ?r ` {revKey g l t f | t f. (f, t, l) \<in> ?R \<and> f \<noteq> l}" by (simp only: set_map [of ?r] setB)
    also have "\<dots> = {?r (revKey g l t f) | f t. (f, t, l) \<in> ?R \<and> f \<noteq> l}" by blast
    finally show ?thesis by (simp only: rr)
  qed
  have injA: "inj_on ?f {fwdKey g l t d | t d. (l, t, d) \<in> ?R}"
  proof (rule inj_onI)
    fix x y assume "x \<in> {fwdKey g l t d | t d. (l, t, d) \<in> ?R}" "y \<in> {fwdKey g l t d | t d. (l, t, d) \<in> ?R}"
      and eq: "?f x = ?f y"
    then obtain t d t' d' where xy: "x = fwdKey g l t d" "y = fwdKey g l t' d'" by blast
    have "\<lparr>rl_From = l, rl_To = d, rl_RelType = t\<rparr> = \<lparr>rl_From = l, rl_To = d', rl_RelType = t'\<rparr>"
      using eq unfolding xy ff .
    then show "x = y" by (simp add: xy)
  qed
  have injB: "inj_on ?r {revKey g l t f | t f. (f, t, l) \<in> ?R \<and> f \<noteq> l}"
  proof (rule inj_onI)
    fix x y assume "x \<in> {revKey g l t f | t f. (f, t, l) \<in> ?R \<and> f \<noteq> l}"
      "y \<in> {revKey g l t f | t f. (f, t, l) \<in> ?R \<and> f \<noteq> l}" and eq: "?r x = ?r y"
    then obtain t f t' f' where xy: "x = revKey g l t f" "y = revKey g l t' f'" by blast
    have "\<lparr>rl_From = f, rl_To = l, rl_RelType = t\<rparr> = \<lparr>rl_From = f', rl_To = l, rl_RelType = t'\<rparr>"
      using eq unfolding xy rr .
    then show "x = y" by (simp add: xy)
  qed
  have dA: "distinct ?A" unfolding distinct_map [of ?f] setA using es(2) injA by blast
  have dB: "distinct ?B" unfolding distinct_map [of ?r] setB using distinct_filter [OF fs(2)] injB by blast
  have "Relations store g cs l s = Inr (?A @ ?B)"
  proof -
    have "validateSegments g [l] = None" using l by (simp only: validate_iff [OF good])
    then show ?thesis
      unfolding Relations_def Let_def es(1) fs(1) forward_relations_eq reverse_relations_eq
      by (simp only: option.case sum.case)
  qed
  moreover have "distinct (?A @ ?B)" unfolding distinct_append A B using dA dB by blast
  moreover have "set (?A @ ?B) = touching l ?R" unfolding set_append A B touching_def by blast
  ultimately show ?thesis by blast
qed

lemma see_neighbors_eq:
  "see_neighbors plen types (map Inr es) seen =
     Inr (fold List.insert (map (\<lambda>k. k ! (plen + 3)) (filter (\<lambda>k. types = [] \<or> k ! (plen + 2) \<in> set types)
       (map en_Key (filter (\<lambda>e. length (en_Key e) = plen + 4) es)))) seen)"
  by (induction es arbitrary: seen) (auto simp: Let_def)

lemma fold_insert: "distinct (fold List.insert xs seen) = distinct seen" "set (fold List.insert xs seen) = set xs \<union> set seen"
  by (induction xs arbitrary: seen) auto

lemma Neighbors_ok:
  assumes good: "good g" and s: "inv s" and c: "\<And>i. no_err (cs i)" and l: "clean (kg_sep g) [l]" and types: "clean (kg_sep g) types"
    and g: "graph_inv js g (view s)"
  shows "\<exists>ns. Neighbors store g cs l types s = Inr ns \<and> sorted ns \<and> distinct ns \<and>
    set ns = adjacent (\<lambda>t. types = [] \<or> t \<in> set types) (ag_rels (graph_of js g (view s))) l"
proof -
  let ?n = "length (kg_prefix g)" and ?R = "ag_rels (graph_of js g (view s))" and ?T = "remdups types"
  let ?F = "\<lambda>e. length (en_Key e) = ?n + 4" and ?P = "\<lambda>k::key. ?T = [] \<or> k ! (?n + 2) \<in> set ?T"
  obtain es where es: "st_List store (cs 0) (fwdPrefix g l) s = map Inr es" "distinct (map en_Key (filter ?F es))"
    "set (map en_Key (filter ?F es)) = {fwdPrefix g l @ [t, x] | t x. view s (fwdPrefix g l @ [t, x]) \<noteq> None}"
    using list_index [OF good s c l] by blast
  obtain fs where fs: "st_List store (cs 1) (revPrefix g l) s = map Inr fs" "distinct (map en_Key (filter ?F fs))"
    "set (map en_Key (filter ?F fs)) = {revPrefix g l @ [t, x] | t x. view s (revPrefix g l @ [t, x]) \<noteq> None}"
    using list_index [OF good s c l] by blast
  let ?A = "map (\<lambda>k. k ! (?n + 3)) (filter ?P (map en_Key (filter ?F es)))"
  let ?B = "map (\<lambda>k. k ! (?n + 3)) (filter ?P (map en_Key (filter ?F fs)))"
  have R: "(f, t, d) \<in> ?R \<longleftrightarrow> view s (fwdKey g f t d) \<noteq> None" for f t d by (simp add: graph_of_def)
  have Rr: "(f, t, d) \<in> ?R \<longleftrightarrow> view s (revKey g d t f) \<noteq> None" for f t d
    unfolding R by (rule graph_inv_mirror [OF g])
  have fk: "fwdPrefix g l @ [t, x] = fwdKey g l t x" "revPrefix g l @ [t, x] = revKey g l t x" for t x
    by (simp_all add: fwdPrefix_def fwdKey_def revPrefix_def revKey_def)
  have k3: "fwdKey g l t x ! (?n + 3) = x" "revKey g l t x ! (?n + 3) = x"
    "fwdKey g l t x ! (?n + 2) = t" "revKey g l t x ! (?n + 2) = t" for t x
    by (simp_all add: fwdKey_def revKey_def nth_append)
  have T: "?T = [] \<or> t \<in> set ?T \<longleftrightarrow> types = [] \<or> t \<in> set types" for t by simp
  have P: "?P k = (types = [] \<or> k ! (?n + 2) \<in> set types)" for k by simp
  have setA: "set (map en_Key (filter ?F es)) = {fwdKey g l t d | t d. (l, t, d) \<in> ?R}"
    using es(3) unfolding fk R .
  have setB: "set (map en_Key (filter ?F fs)) = {revKey g l t f | t f. (f, t, l) \<in> ?R}"
    using fs(3) unfolding fk Rr .
  have A: "set ?A = {x. \<exists>t. (types = [] \<or> t \<in> set types) \<and> (l, t, x) \<in> ?R}"
  proof -
    have "set ?A = (\<lambda>k. k ! (?n + 3)) ` {k \<in> {fwdKey g l t d | t d. (l, t, d) \<in> ?R}. types = [] \<or> k ! (?n + 2) \<in> set types}"
      by (simp only: set_map [of "\<lambda>k. k ! (?n + 3)"] set_filter setA P)
    also have "\<dots> = {fwdKey g l t d ! (?n + 3) | t d. (l, t, d) \<in> ?R \<and> (types = [] \<or> fwdKey g l t d ! (?n + 2) \<in> set types)}"
      by blast
    finally show ?thesis unfolding k3 by blast
  qed
  have B: "set ?B = {x. \<exists>t. (types = [] \<or> t \<in> set types) \<and> (x, t, l) \<in> ?R}"
  proof -
    have "set ?B = (\<lambda>k. k ! (?n + 3)) ` {k \<in> {revKey g l t f | t f. (f, t, l) \<in> ?R}. types = [] \<or> k ! (?n + 2) \<in> set types}"
      by (simp only: set_map [of "\<lambda>k. k ! (?n + 3)"] set_filter setB P)
    also have "\<dots> = {revKey g l t f ! (?n + 3) | t f. (f, t, l) \<in> ?R \<and> (types = [] \<or> revKey g l t f ! (?n + 2) \<in> set types)}"
      by blast
    finally show ?thesis unfolding k3 by blast
  qed
  have v: "validateSegments g [l] = None" "validateSegments g types = None"
    using l types by (simp_all only: validate_iff [OF good])
  let ?seen = "fold List.insert ?B (fold List.insert ?A [])"
  have "Neighbors store g cs l types s = Inr (sort ?seen)"
    unfolding Neighbors_def Let_def v option.case es(1) fs(1) see_neighbors_eq sum.case ..
  moreover have "set (sort ?seen) = adjacent (\<lambda>t. types = [] \<or> t \<in> set types) ?R l"
    unfolding set_sort fold_insert(2) A B adjacent_def by auto
  moreover have "distinct (sort ?seen)" unfolding distinct_sort fold_insert(1) by simp
  ultimately show ?thesis using sorted_sort by blast
qed

lemma visit_new_ok:
  "distinct v \<Longrightarrow> \<exists>new. visit_new ns (v, x) = (v @ new, x @ new) \<and> set new = set ns - set v \<and> distinct (v @ new)"
proof (induction ns arbitrary: v x)
  case (Cons n ns)
  show ?case
  proof (cases "n \<in> set v")
    case True
    then show ?thesis using Cons.IH [OF Cons.prems, of x] by auto
  next
    case False
    then have "distinct (v @ [n])" using Cons.prems by simp
    from Cons.IH [OF this, of "x @ [n]"] obtain new where
      "visit_new ns (v @ [n], x @ [n]) = ((v @ [n]) @ new, (x @ [n]) @ new)"
      "set new = set ns - set (v @ [n])" "distinct ((v @ [n]) @ new)" by blast
    then show ?thesis using False by (intro exI [of _ "n # new"]) auto
  qed
qed simp

lemma adjacent_clean:
  assumes good: "good g" and adj: "x \<in> adjacent T (ag_rels (graph_of js g (view s))) l"
  shows "clean (kg_sep g) [x]"
proof -
  obtain t where "view s (fwdKey g l t x) \<noteq> None \<or> view s (fwdKey g x t l) \<noteq> None"
    using adj by (auto simp: adjacent_def graph_of_def)
  then show ?thesis using rel_clean [OF good] by fastforce
qed

lemma expand_frontier_ok:
  assumes good: "good g" and s: "inv s" and g: "graph_inv js g (view s)"
  shows "(\<And>i j. no_err (cs i j)) \<Longrightarrow> clean (kg_sep g) labels \<Longrightarrow> distinct v \<Longrightarrow>
    \<exists>new. expand_frontier store g cs labels s (v, x) = Inr (v @ new, x @ new) \<and>
      set new = (\<Union>l \<in> set labels. adjacent (\<lambda>_. True) (ag_rels (graph_of js g (view s))) l) - set v \<and> distinct (v @ new)"
proof (induction labels arbitrary: v x cs)
  case (Cons l labels)
  let ?adj = "adjacent (\<lambda>_. True) (ag_rels (graph_of js g (view s)))"
  obtain ns where ns: "Neighbors store g (cs 0) l [] s = Inr ns" "set ns = ?adj l"
    using Neighbors_ok [OF good s _ _ _ g, of "cs 0" l "[]"] Cons.prems(1,2) by auto
  obtain new1 where n1: "visit_new ns (v, x) = (v @ new1, x @ new1)" "set new1 = set ns - set v" "distinct (v @ new1)"
    using visit_new_ok [OF Cons.prems(3), of ns x] by blast
  have cl: "clean (kg_sep g) labels" using Cons.prems(2) by simp
  obtain new2 where n2: "expand_frontier store g (\<lambda>i. cs (i + 1)) labels s (v @ new1, x @ new1) =
      Inr ((v @ new1) @ new2, (x @ new1) @ new2)"
    "set new2 = (\<Union>l \<in> set labels. ?adj l) - set (v @ new1)" "distinct ((v @ new1) @ new2)"
    using Cons.IH [of "\<lambda>i. cs (i + 1)" "v @ new1" "x @ new1", OF Cons.prems(1) cl n1(3)] by auto
  show ?case
    using ns n1 n2 by (intro exI [of _ "new1 @ new2"]) auto
qed simp

lemma expand_hops_ok:
  assumes good: "good g" and s: "inv s" and g: "graph_inv js g (view s)"
  defines "R \<equiv> ag_rels (graph_of js g (view s))"
  shows "(\<And>h i j. no_err (cs h i j)) \<Longrightarrow> clean (kg_sep g) frontier \<Longrightarrow> distinct visited \<Longrightarrow>
    set frontier \<subseteq> set visited \<Longrightarrow>
    (\<forall>l \<in> set visited - set frontier. adjacent (\<lambda>_. True) R l \<subseteq> set visited) \<Longrightarrow>
    \<exists>res. expand_hops store g cs hops frontier s visited = Inr res \<and> distinct res \<and>
      set res = (round_of R ^^ hops) (set visited)"
proof (induction hops arbitrary: cs frontier visited)
  case (Suc hops)
  let ?adj = "adjacent (\<lambda>_. True) R"
  show ?case
  proof (cases "frontier = []")
    case True
    then have "round_of R (set visited) = set visited" using Suc.prems(5) by (auto simp: round_of_def)
    then have "(round_of R ^^ n) (set visited) = set visited" for n by (induction n) simp_all
    then show ?thesis using True Suc.prems(3) by (simp del: funpow.simps)
  next
    case False
    obtain new where n: "expand_frontier store g (cs 0) frontier s (visited, []) = Inr (visited @ new, new)"
      "set new = (\<Union>l \<in> set frontier. ?adj l) - set visited" "distinct (visited @ new)"
      using expand_frontier_ok [OF good s g, of "cs 0" frontier visited "[]"] Suc.prems(1-3) by (auto simp: R_def)
    have cl: "clean (kg_sep g) new"
      unfolding clean_def using n(2) adjacent_clean [OF good, of _ "\<lambda>_. True" js s] by (fastforce simp: R_def)
    have r: "set (visited @ new) = round_of R (set visited)"
      using n(2) Suc.prems(4,5) by (auto simp: round_of_def)
    have "\<forall>l \<in> set (visited @ new) - set new. ?adj l \<subseteq> set (visited @ new)"
      using n(2) Suc.prems(5) by auto
    then obtain res where "expand_hops store g (\<lambda>i. cs (i + 1)) hops new s (visited @ new) = Inr res" "distinct res"
      "set res = (round_of R ^^ hops) (set (visited @ new))"
      using Suc.IH [of "\<lambda>i. cs (i + 1)" new "visited @ new", OF Suc.prems(1) cl n(3)] by auto
    then show ?thesis using False n(1) r by (simp add: funpow_swap1)
  qed
qed simp

lemma within_rounds: "(round_of R ^^ n) S = within R n S"
proof (induction n)
  case 0
  show ?case by (auto simp: within_def)
next
  case (Suc n)
  let ?E = "{(a, b). b \<in> adjacent (\<lambda>_. True) R a}"
  have "round_of R (within R n S) = within R (Suc n) S"
  proof (intro equalityI subsetI)
    fix x assume "x \<in> round_of R (within R n S)"
    then consider "x \<in> within R n S" | y where "y \<in> within R n S" "(y, x) \<in> ?E" by (auto simp: round_of_def)
    then show "x \<in> within R (Suc n) S"
    proof cases
      case 1
      then show ?thesis unfolding within_def by (blast intro: le_SucI)
    next
      case 2
      then obtain l k where "l \<in> S" "k \<le> n" "(l, y) \<in> ?E ^^ k" unfolding within_def by blast
      then have "(l, x) \<in> ?E ^^ Suc k" using 2(2) by (rule_tac relpow_Suc_I)
      then show ?thesis unfolding within_def using \<open>l \<in> S\<close> \<open>k \<le> n\<close> by blast
    qed
  next
    fix x assume "x \<in> within R (Suc n) S"
    then obtain l k where lk: "l \<in> S" "k \<le> Suc n" "(l, x) \<in> ?E ^^ k" unfolding within_def by blast
    show "x \<in> round_of R (within R n S)"
    proof (cases k)
      case 0
      then have "x \<in> within R n S" using lk unfolding within_def by (force intro: exI [of _ "0::nat"])
      then show ?thesis by (simp add: round_of_def)
    next
      case (Suc j)
      then obtain y where "(l, y) \<in> ?E ^^ j" "(y, x) \<in> ?E" using lk(3) by (auto elim: relpow_Suc_E)
      moreover then have "y \<in> within R n S" using lk Suc unfolding within_def by blast
      ultimately show ?thesis by (auto simp: round_of_def)
    qed
  qed
  then show ?case using Suc by simp
qed

lemma Expand_ok:
  assumes good: "good g" and s: "inv s" and c: "\<And>h i j. no_err (cs h i j)" and l: "clean (kg_sep g) labels" and g: "graph_inv js g (view s)"
  shows "\<exists>xs. Expand store g cs labels hops s = Inr xs \<and> sorted xs \<and> distinct xs \<and>
    set xs = within (ag_rels (graph_of js g (view s))) (nat hops) (set labels)"
proof -
  obtain res where "expand_hops store g cs (nat hops) labels s (remdups labels) = Inr res" "distinct res"
    "set res = within (ag_rels (graph_of js g (view s))) (nat hops) (set labels)"
    using expand_hops_ok [OF good s g, of cs labels "remdups labels" "nat hops"] c l by (auto simp: within_rounds)
  moreover have "validateSegments g labels = None" using l by (simp only: validate_iff [OF good])
  ultimately show ?thesis by (simp add: Expand_def)
qed

end

end
