(* ===== verification/GraphOps.thy ===== *)
theory GraphOps
  imports GraphThms
begin

text \<open>
  The operations of the graph against the abstract graph, and runs of them.
\<close>

text \<open>What is asked of the JSON package: what it writes is not empty and can be read back.\<close>

definition json_ok :: "'v json \<Rightarrow> bool" where
  "json_ok js \<longleftrightarrow> (\<forall>a d. js_Marshal js a = Inr d \<longrightarrow> d \<noteq> [] \<and> (\<exists>a'. js_Unmarshal js d = Inr a'))"

definition empty_graph :: "'v agraph" where "empty_graph = \<lparr>ag_ents = Map.empty, ag_rels = {}\<rparr>"

lemma graph_of_empty: "graph_of js g Map.empty = empty_graph" "graph_inv js g Map.empty"
  by (simp_all add: graph_of_def empty_graph_def graph_inv_def)

section \<open>Updates of the map seen as updates of the graph\<close>

lemma graph_put_entity:
  "graph_of js g (m(entityKey g l \<mapsto> d)) =
     (graph_of js g m)\<lparr>ag_ents := (ag_ents (graph_of js g m))(l \<mapsto> decoded_attrs js d)\<rparr>"
  "graph_inv js g m \<Longrightarrow> d = [] \<or> (\<exists>a. js_Unmarshal js d = Inr a) \<Longrightarrow> graph_inv js g (m(entityKey g l \<mapsto> d))"
  by (auto simp: graph_of_def graph_inv_def fun_eq_iff)

lemma graph_put_relation:
  "graph_of js g (m(fwdKey g f t d \<mapsto> [], revKey g d t f \<mapsto> [])) =
     (graph_of js g m)\<lparr>ag_rels := insert (f, t, d) (ag_rels (graph_of js g m))\<rparr>"
  "graph_inv js g m \<Longrightarrow> graph_inv js g (m(fwdKey g f t d \<mapsto> [], revKey g d t f \<mapsto> []))"
  by (auto simp: graph_of_def graph_inv_def fun_eq_iff)

lemma graph_del_relation:
  "graph_of js g (m(fwdKey g f t d := None, revKey g d t f := None)) =
     (graph_of js g m)\<lparr>ag_rels := ag_rels (graph_of js g m) - {(f, t, d)}\<rparr>"
  "graph_inv js g m \<Longrightarrow> graph_inv js g (m(fwdKey g f t d := None, revKey g d t f := None))"
  by (auto simp: graph_of_def graph_inv_def fun_eq_iff)

lemma fold_del: "fold (\<lambda>k m. m(k := None)) ks m = (\<lambda>k. if k \<in> set ks then None else m k)"
  by (induction ks arbitrary: m) (auto simp: fun_eq_iff)

definition relation_keys :: "KVGraph \<Rightarrow> Relation list \<Rightarrow> key list" where
  "relation_keys g rels =
     concat (map (\<lambda>r. [fwdKey g (rl_From r) (rl_RelType r) (rl_To r), revKey g (rl_To r) (rl_RelType r) (rl_From r)]) rels)"

lemma relation_keys_iff:
  "entityKey g l \<notin> set (relation_keys g rels)"
  "fwdKey g f t d \<in> set (relation_keys g rels) \<longleftrightarrow> \<lparr>rl_From = f, rl_To = d, rl_RelType = t\<rparr> \<in> set rels"
  "revKey g d t f \<in> set (relation_keys g rels) \<longleftrightarrow> \<lparr>rl_From = f, rl_To = d, rl_RelType = t\<rparr> \<in> set rels"
proof (induction rels)
  case (Cons r rels)
  obtain f' d' t' where "r = \<lparr>rl_From = f', rl_To = d', rl_RelType = t'\<rparr>" by (cases r)
  then show
    "entityKey g l \<notin> set (relation_keys g (r # rels))"
    "fwdKey g f t d \<in> set (relation_keys g (r # rels)) \<longleftrightarrow> \<lparr>rl_From = f, rl_To = d, rl_RelType = t\<rparr> \<in> set (r # rels)"
    "revKey g d t f \<in> set (relation_keys g (r # rels)) \<longleftrightarrow> \<lparr>rl_From = f, rl_To = d, rl_RelType = t\<rparr> \<in> set (r # rels)"
    using Cons by (auto simp: relation_keys_def)
qed (simp_all add: relation_keys_def)

lemma graph_del_entity:
  assumes rels: "set rels = touching l (ag_rels (graph_of js g m))" and inv: "graph_inv js g m"
  defines "m' \<equiv> fold (\<lambda>k m. m(k := None)) (entityKey g l # relation_keys g rels) m"
  shows "graph_of js g m' = \<lparr>ag_ents = (ag_ents (graph_of js g m))(l := None),
      ag_rels = {(f, t, d) \<in> ag_rels (graph_of js g m). f \<noteq> l \<and> d \<noteq> l}\<rparr>"
    and "graph_inv js g m'"
proof -
  have m': "m' (entityKey g a) = (if a = l then None else m (entityKey g a))"
    "m' (fwdKey g f t d) = (if \<lparr>rl_From = f, rl_To = d, rl_RelType = t\<rparr> \<in> set rels then None else m (fwdKey g f t d))"
    "m' (revKey g d t f) = (if \<lparr>rl_From = f, rl_To = d, rl_RelType = t\<rparr> \<in> set rels then None else m (revKey g d t f))"
    for a f t d
    by (simp_all add: m'_def fold_del relation_keys_iff)
  show "graph_of js g m' = \<lparr>ag_ents = (ag_ents (graph_of js g m))(l := None),
      ag_rels = {(f, t, d) \<in> ag_rels (graph_of js g m). f \<noteq> l \<and> d \<noteq> l}\<rparr>"
    unfolding graph_of_def m' rels by (auto simp: graph_of_def touching_def fun_eq_iff)
  have "m' k \<noteq> None \<Longrightarrow> m k \<noteq> None" for k by (simp add: m'_def fold_del split: if_splits)
  then show "graph_inv js g m'"
    using inv unfolding graph_inv_def m' by (auto simp del: not_None_eq)
qed

section \<open>The operations\<close>

context kv_graph begin

lemma GetEntity_ok:
  assumes good: "good g" and s: "inv s" and c: "no_err c" and g: "graph_inv js g (view s)"
  shows "GetEntity js store g c l s =
    (case validateSegments g [l] of Some err \<Rightarrow> Inl err
     | None \<Rightarrow> (case ag_ents (graph_of js g (view s)) l of None \<Rightarrow> Inl GraphNotFound
         | Some a \<Rightarrow> Inr \<lparr>ge_Label = l, ge_Attrs = a\<rparr>), s)"
proof (cases "validateSegments g [l]")
  case None
  then have "ok (entityKey g l)" using validate_iff [OF good] keys_ok(1) [OF good] by blast
  then have "st_Get store c (entityKey g l) s =
      (case view s (entityKey g l) of None \<Rightarrow> Inl KvNotFound | Some v \<Rightarrow> Inr v, s)"
    by (rule get [OF s _ c])
  moreover have "view s (entityKey g l) = Some d \<Longrightarrow> d = [] \<or> (\<exists>a. js_Unmarshal js d = Inr a)" for d
    using g by (simp add: graph_inv_def)
  ultimately show ?thesis
    using None by (cases "view s (entityKey g l)") (auto simp: GetEntity_def graph_of_def decoded_attrs_def)
qed (simp add: GetEntity_def)

lemma SetEntity_ok:
  assumes good: "good g" and js: "json_ok js" and s: "inv s" and c: "no_err c" and g: "graph_inv js g (view s)"
  shows "\<exists>r s'. SetEntity js store g c e s = (r, s') \<and> inv s' \<and> graph_inv js g (view s') \<and>
    agraph_exec js g (GSet e) (graph_of js g (view s)) = (r, graph_of js g (view s'))"
proof (cases "validateSegments g [ge_Label e]")
  case None
  then have k: "ok (entityKey g (ge_Label e))" using validate_iff [OF good] keys_ok(1) [OF good] by blast
  show ?thesis
  proof (cases "js_Marshal js (ge_Attrs e)")
    case (Inr d)
    then have d: "d = [] \<or> (\<exists>a. js_Unmarshal js d = Inr a)" using js by (simp add: json_ok_def)
    obtain s' where "st_Set store c (entityKey g (ge_Label e)) d s = (None, s')" "inv s'"
      "view s' = (view s)(entityKey g (ge_Label e) \<mapsto> d)"
      using set [OF s k c] by blast
    then show ?thesis
      using None Inr graph_put_entity(2) [OF g d] 
      by (simp add: SetEntity_def checked_def put_entity_def graph_put_entity(1))
  qed (use None s g in \<open>simp add: SetEntity_def checked_def put_entity_def\<close>)
qed (use s g in \<open>simp add: SetEntity_def checked_def\<close>)

lemma MergeAttrs_ok:
  assumes good: "good g" and js: "json_ok js" and s: "inv s" and c: "\<And>i. no_err (cs i)" and g: "graph_inv js g (view s)"
  shows "\<exists>r s'. MergeAttrs js store g cs l a s = (r, s') \<and> inv s' \<and> graph_inv js g (view s') \<and>
    agraph_exec js g (GMerge l a) (graph_of js g (view s)) = (r, graph_of js g (view s'))"
proof (cases "validateSegments g [l]")
  case None
  show ?thesis
  proof (cases "ag_ents (graph_of js g (view s)) l")
    case None2: None
    then show ?thesis
      using None s g GetEntity_ok [OF good s c g, of 0 l] by (simp add: MergeAttrs_def checked_def)
  next
    case (Some old)
    have "GetEntity js store g (cs 0) l s = (Inr \<lparr>ge_Label = l, ge_Attrs = old\<rparr>, s)"
      using None Some GetEntity_ok [OF good s c g, of 0 l] by simp
    moreover have "agraph_exec js g (GMerge l a) (graph_of js g (view s)) =
        agraph_exec js g (GSet \<lparr>ge_Label = l, ge_Attrs = merged a old\<rparr>) (graph_of js g (view s))"
      using Some by (simp add: checked_def None)
    ultimately show ?thesis
      using None SetEntity_ok [OF good js s c g, of 1 "\<lparr>ge_Label = l, ge_Attrs = merged a old\<rparr>"]
      by (simp add: MergeAttrs_def merged_def Let_def)
  qed
qed (use s g in \<open>simp add: MergeAttrs_def checked_def\<close>)

lemma AddRelation_ok:
  assumes good: "good g" and s: "inv s" and c: "no_err c" and g: "graph_inv js g (view s)"
  shows "\<exists>r' s'. AddRelation store g c r s = (r', s') \<and> inv s' \<and> graph_inv js g (view s') \<and>
    agraph_exec js g (GAdd r) (graph_of js g (view s)) = (r', graph_of js g (view s'))"
proof (cases "validateSegments g [rl_From r, rl_To r, rl_RelType r]")
  case None
  let ?f = "fwdKey g (rl_From r) (rl_RelType r) (rl_To r)" and ?b = "revKey g (rl_To r) (rl_RelType r) (rl_From r)"
  have "clean (kg_sep g) [rl_From r, rl_To r, rl_RelType r]" using None validate_iff [OF good] by blast
  then have "\<forall>e \<in> List.set [entry ?f [], entry ?b []]. ok (en_Key e) \<and> en_Deadline e = None"
    by (simp add: keys_ok [OF good] entry_def)
  from batch_set [OF s this c] obtain s' where
    "st_BatchSet store c [entry ?f [], entry ?b []] s = (None, s')" "inv s'" "view s' = (view s)(?f \<mapsto> [], ?b \<mapsto> [])"
    by (auto simp: entry_def)
  then show ?thesis
    using None graph_put_relation(2) [OF g] by (simp add: AddRelation_def checked_def graph_put_relation(1))
qed (use s g in \<open>simp add: AddRelation_def checked_def\<close>)

lemma RemoveRelation_ok:
  assumes good: "good g" and s: "inv s" and c: "no_err c" and g: "graph_inv js g (view s)"
  shows "\<exists>r' s'. RemoveRelation store g c f d t s = (r', s') \<and> inv s' \<and> graph_inv js g (view s') \<and>
    agraph_exec js g (GRemove f d t) (graph_of js g (view s)) = (r', graph_of js g (view s'))"
proof (cases "validateSegments g [f, d, t]")
  case None
  have "clean (kg_sep g) [f, d, t]" using None validate_iff [OF good] by blast
  then have "\<forall>k \<in> List.set [fwdKey g f t d, revKey g d t f]. ok k" by (simp add: keys_ok [OF good])
  from batch_delete [OF s this c] obtain s' where
    "st_BatchDelete store c [fwdKey g f t d, revKey g d t f] s = (None, s')" "inv s'"
    "view s' = (view s)(fwdKey g f t d := None, revKey g d t f := None)" by auto
  then show ?thesis
    using None graph_del_relation(2) [OF g] by (simp add: RemoveRelation_def checked_def graph_del_relation(1))
qed (use s g in \<open>simp add: RemoveRelation_def checked_def\<close>)

lemma DeleteEntity_ok:
  assumes good: "good g" and s: "inv s" and c: "\<And>i. no_err (cs i)" and g: "graph_inv js g (view s)"
  shows "\<exists>r s'. DeleteEntity store g cs l s = (r, s') \<and> inv s' \<and> graph_inv js g (view s') \<and>
    agraph_exec js g (GDelete l) (graph_of js g (view s)) = (r, graph_of js g (view s'))"
proof (cases "validateSegments g [l]")
  case None
  then have l: "clean (kg_sep g) [l]" using validate_iff [OF good] by blast
  obtain rels where rels: "Relations store g cs l s = Inr rels"
    "List.set rels = touching l (ag_rels (graph_of js g (view s)))"
    using Relations_ok [OF good s _ l g, of cs] c by blast
  have "clean (kg_sep g) [rl_From r, rl_RelType r, rl_To r]" if r: "r \<in> List.set rels" for r
  proof -
    obtain f t d where "r = \<lparr>rl_From = f, rl_To = d, rl_RelType = t\<rparr>" "view s (fwdKey g f t d) \<noteq> None"
      using r unfolding rels(2) touching_def graph_of_def by auto
    then show ?thesis using rel_clean [OF good, of s f t d] by simp
  qed
  then have "\<forall>k \<in> List.set (entityKey g l # relation_keys g rels). ok k"
    using l by (fastforce simp: keys_ok [OF good] relation_keys_def)
  from batch_delete [OF s this c [of 2]] obtain s' where
    s': "st_BatchDelete store (cs 2) (entityKey g l # relation_keys g rels) s = (None, s')" "inv s'"
    "view s' = fold (\<lambda>k m. m(k := None)) (entityKey g l # relation_keys g rels) (view s)" by blast
  have "DeleteEntity store g cs l s = (None, s')"
    using None s'(1) by (simp add: DeleteEntity_def rels(1) relation_keys_def)
  then show ?thesis
    using None s'(2) graph_del_entity [OF rels(2) g] unfolding s'(3) [symmetric] by (simp add: checked_def)
qed (use s g in \<open>simp add: DeleteEntity_def checked_def\<close>)

lemma graph_exec_ok:
  assumes "good g" and "json_ok js" and "inv s" and "\<And>i. no_err (cs i)" and "graph_inv js g (view s)"
  shows "\<exists>r s'. graph_exec js store g cs op s = (r, s') \<and> inv s' \<and> graph_inv js g (view s') \<and>
    agraph_exec js g op (graph_of js g (view s)) = (r, graph_of js g (view s'))"
proof (cases op)
  case (GSet e)
  then show ?thesis using SetEntity_ok [OF assms] by (simp del: agraph_exec.simps)
next
  case (GDelete l)
  then show ?thesis using DeleteEntity_ok [OF assms(1,3-5)] by (simp del: agraph_exec.simps)
next
  case (GMerge l a)
  then show ?thesis using MergeAttrs_ok [OF assms] by (simp del: agraph_exec.simps)
next
  case (GAdd r)
  then show ?thesis using AddRelation_ok [OF assms(1,3-5)] by (simp del: agraph_exec.simps)
next
  case (GRemove f d t)
  then show ?thesis using RemoveRelation_ok [OF assms(1,3-5)] by (simp del: agraph_exec.simps)
qed

text \<open>Listing the entities.\<close>

lemma entity_yields_ok:
  assumes g: "graph_inv js g (view s)"
  shows "(\<And>e. e \<in> List.set es \<Longrightarrow> \<exists>l d. e = entry (entityKey g l) d \<and> view s (entityKey g l) = Some d) \<Longrightarrow>
    entity_yields js pre (map Inr es) =
      map (\<lambda>e. Inr \<lparr>ge_Label = last (en_Key e), ge_Attrs = decoded_attrs js (en_Value e)\<rparr>)
        (filter (\<lambda>e. hasPrefix (last (en_Key e)) pre) es)"
proof (induction es)
  case (Cons e es)
  obtain l d where e: "e = entry (entityKey g l) d" "view s (entityKey g l) = Some d" using Cons.prems [of e] by auto
  then have d: "d = [] \<or> (\<exists>a. js_Unmarshal js d = Inr a)" using g by (simp add: graph_inv_def)
  have "pre = [] \<Longrightarrow> hasPrefix x pre" for x by (simp add: hasPrefix_def)
  then show ?case
    using Cons d by (auto simp: e(1) entry_def entityKey_def decoded_attrs_def Let_def)
qed simp

lemma ListEntities_ok:
  assumes good: "good g" and s: "inv s" and c: "no_err c" and g: "graph_inv js g (view s)"
  shows "\<exists>es. ListEntities js store g c pre s = map Inr es \<and> distinct (map ge_Label es) \<and>
    List.set es = {\<lparr>ge_Label = l, ge_Attrs = a\<rparr> | l a. ag_ents (graph_of js g (view s)) l = Some a \<and> hasPrefix l pre}"
proof -
  obtain es where es: "st_List store c (entityPrefix g) s = map Inr es" "lists rank (view s) (entityPrefix g) es"
    using list [OF s keys_ok(4) [OF good] c] by blast
  have sh: "\<exists>l d. e = entry (entityKey g l) d \<and> view s (entityKey g l) = Some d" if "e \<in> List.set es" for e
  proof -
    obtain r v where r: "r \<noteq> []" "view s (entityPrefix g @ r) = Some v" "e = entry (entityPrefix g @ r) v"
      using es(2) \<open>e \<in> List.set es\<close> unfolding lists_def by blast
    then have "length r \<le> 1" using g by (simp add: graph_inv_def)
    then obtain l where "r = [l]" using r(1) by (cases r) auto
    then show ?thesis using r by (auto simp: entityKey_def entityPrefix_def)
  qed
  let ?fs = "filter (\<lambda>e. hasPrefix (last (en_Key e)) pre) es"
  let ?E = "\<lambda>e. \<lparr>ge_Label = last (en_Key e), ge_Attrs = decoded_attrs js (en_Value e)\<rparr>"
  have "ListEntities js store g c pre s = map Inr (map ?E ?fs)"
    using entity_yields_ok [OF g sh] es(1) by (simp add: ListEntities_def)
  moreover have "distinct (map ge_Label (map ?E ?fs))"
  proof -
    have "distinct (map en_Key ?fs)"
      using es(2) by (intro distinct_ranked [where f = rank] sorted_wrt_filter) (simp add: lists_def)
    moreover have "inj_on last (en_Key ` List.set ?fs)"
    proof (rule inj_onI)
      fix x y assume "x \<in> en_Key ` List.set ?fs" "y \<in> en_Key ` List.set ?fs" and l: "last x = last y"
      then obtain a b where "x = entityKey g a" "y = entityKey g b" using sh by (fastforce simp: entry_def)
      then show "x = y" using l by (simp add: entityKey_def)
    qed
    ultimately have "distinct (map last (map en_Key ?fs))"
      unfolding distinct_map [of last] set_map by blast
    then show ?thesis by (simp add: comp_def)
  qed
  moreover have "List.set (map ?E ?fs) =
      {\<lparr>ge_Label = l, ge_Attrs = a\<rparr> | l a. ag_ents (graph_of js g (view s)) l = Some a \<and> hasPrefix l pre}"
  proof (intro equalityI subsetI)
    fix x assume "x \<in> List.set (map ?E ?fs)"
    then obtain e where e: "e \<in> List.set es" "hasPrefix (last (en_Key e)) pre" "x = ?E e" by auto
    obtain l d where "e = entry (entityKey g l) d" "view s (entityKey g l) = Some d" using sh [OF e(1)] by blast
    then show "x \<in> {\<lparr>ge_Label = l, ge_Attrs = a\<rparr> | l a. ag_ents (graph_of js g (view s)) l = Some a \<and> hasPrefix l pre}"
      using e by (auto simp: entry_def graph_of_def entityKey_def)
  next
    fix x
    assume "x \<in> {\<lparr>ge_Label = l, ge_Attrs = a\<rparr> | l a. ag_ents (graph_of js g (view s)) l = Some a \<and> hasPrefix l pre}"
    then obtain l d where x: "x = \<lparr>ge_Label = l, ge_Attrs = decoded_attrs js d\<rparr>" "view s (entityKey g l) = Some d"
      "hasPrefix l pre" by (auto simp: graph_of_def)
    then have "entry (entityKey g l) d \<in> List.set es"
      using es(2) by (auto simp: lists_def entityKey_def entityPrefix_def)
    then have "entry (entityKey g l) d \<in> List.set ?fs" using x(3) by (simp add: entry_def entityKey_def)
    then have "?E (entry (entityKey g l) d) \<in> List.set (map ?E ?fs)" unfolding set_map by (rule imageI)
    then show "x \<in> List.set (map ?E ?fs)" using x by (simp add: entry_def entityKey_def)
  qed
  ultimately show ?thesis by blast
qed

end

end
