(* ===== verification/GraphMemory.thy ===== *)
theory GraphMemory
  imports GraphOps
begin

text \<open>
  The graph over the in-memory store, and over a view of it under a prefix: runs of its operations
  against the abstract graph, what its queries answer after a run, and its traversals.
\<close>

section \<open>Runs\<close>

fun graph_run ::
  "'v json \<Rightarrow> 's Store \<Rightarrow> KVGraph \<Rightarrow> ((nat \<Rightarrow> kv_call) \<times> 'v graph_op) list \<Rightarrow> 's \<Rightarrow> graph_error option list \<times> 's" where
  "graph_run js st g [] s = ([], s)"
| "graph_run js st g ((cs, op) # ops) s =
     (case graph_exec js st g cs op s of (r, s) \<Rightarrow> (case graph_run js st g ops s of (rs, s) \<Rightarrow> (r # rs, s)))"

fun agraph_run :: "'v json \<Rightarrow> KVGraph \<Rightarrow> 'v graph_op list \<Rightarrow> 'v agraph \<Rightarrow> graph_error option list \<times> 'v agraph" where
  "agraph_run js g [] G = ([], G)"
| "agraph_run js g (op # ops) G =
     (case agraph_exec js g op G of (r, G) \<Rightarrow> (case agraph_run js g ops G of (rs, G) \<Rightarrow> (r # rs, G)))"

definition calm :: "((nat \<Rightarrow> kv_call) \<times> 'v graph_op) list \<Rightarrow> bool" where
  "calm ops \<longleftrightarrow> (\<forall>(cs, op) \<in> set ops. \<forall>i. no_err (cs i))"

lemma calm_simps [simp]: "calm []" "calm ((cs, op) # ops) \<longleftrightarrow> (\<forall>i. no_err (cs i)) \<and> calm ops"
  by (simp_all add: calm_def)

context kv_graph begin

lemma graph_run_ok:
  assumes good: "good g" and js: "json_ok js"
  shows "calm ops \<Longrightarrow> inv s \<Longrightarrow> graph_inv js g (view s) \<Longrightarrow>
    graph_run js store g ops s = (rs, s') \<Longrightarrow>
    inv s' \<and> graph_inv js g (view s') \<and>
    agraph_run js g (map snd ops) (graph_of js g (view s)) = (rs, graph_of js g (view s'))"
proof (induction ops arbitrary: s rs)
  case (Cons a ops)
  obtain cs op where a: "a = (cs, op)" by (cases a)
  obtain r s1 where e: "graph_exec js store g cs op s = (r, s1)" "inv s1" "graph_inv js g (view s1)"
    "agraph_exec js g op (graph_of js g (view s)) = (r, graph_of js g (view s1))"
    using graph_exec_ok [OF good js Cons.prems(2) _ Cons.prems(3), of cs op] Cons.prems(1) a by auto
  obtain rs1 where r: "graph_run js store g ops s1 = (rs1, s')" "rs = r # rs1"
    using Cons.prems(4) e(1) by (auto simp: a split: prod.splits)
  show ?case
    using Cons.IH [OF _ e(2,3) r(1)] Cons.prems(1) e(4) r(2) by (simp add: a)
qed simp

end

section \<open>The graph in memory\<close>

text \<open>
  A graph that is configured like its store, with an ASCII separator that occurs neither in its prefix
  nor in the names of its indexes.
\<close>

definition mem_graph :: "Options option \<Rightarrow> KVGraph \<Rightarrow> bool" where
  "mem_graph o' g \<longleftrightarrow> kg_sep g = sep o' \<and> kg_sep g < 0x80 \<and> clean (kg_sep g) (kg_prefix g @ [tag_e, tag_r, tag_ri])"

interpretation mg: kv_graph "Memory_Store others" "mem_view o'" "mem_inv o'" "mem_ok o'" "mem_okp o'" "mem_rank o'"
  "mem_graph o'" for others o'
  by unfold_locales (auto simp: mem_graph_def mem_ok_def mem_okp_def append_eq_Cons_conv)

interpretation pmg: kv_graph "Prefixed (Memory_Store others) pre" "\<lambda>s k. mem_view o' s (pre @ k)" "mem_inv o'"
  "\<lambda>k. mem_ok o' (pre @ k)" "\<lambda>p. mem_okp o' (pre @ p)" "\<lambda>k. mem_rank o' (pre @ k)"
  "\<lambda>g. mem_graph o' g \<and> clean (sep o') pre" for others o' pre
  by unfold_locales (auto simp: mem_graph_def mem_ok_def mem_okp_def append_eq_Cons_conv)

lemma NewKVGraph_good:
  "sep o' < 0x80 \<Longrightarrow> clean (sep o') (prefix @ [tag_e, tag_r, tag_ri]) \<Longrightarrow> mem_graph o' (NewKVGraph prefix [sep o'])"
  by (simp add: mem_graph_def NewKVGraph_def)

text \<open>
  C1: Whatever sequence of updates a graph over a store in memory has served, its answers, the errors
  included, are those of a table of entities and a set of relations, and the entities and relations it
  has stored are the ones of that table and that set, in both indexes alike.
\<close>

theorem graph_refines:
  assumes "mem_graph o' g" and "json_ok js" and "calm ops"
    and "graph_run js (Memory_Store others) g ops (NewMemory o') = (rs, m)"
  shows "agraph_run js g (map snd ops) empty_graph = (rs, graph_of js g (mem_view o' m)) \<and>
    (\<forall>f t d. mem_view o' m (fwdKey g f t d) \<noteq> None \<longleftrightarrow> mem_view o' m (revKey g d t f) \<noteq> None)"
proof -
  note run = mg.graph_run_ok [OF assms(1-3) mem_inv_New _ assms(4)]
  show ?thesis using run graph_inv_mirror by (fastforce simp: mem_view_New graph_of_empty)
qed

text \<open>A JSON package that knows one value, and a graph with one relation.\<close>

definition sample_json :: "unit json" where
  "sample_json = \<lparr>js_Marshal = (\<lambda>a. Inr [0x7b, 0x7d]), js_Unmarshal = (\<lambda>d. Inr (Some []))\<rparr>"

definition sample_graph :: KVGraph where "sample_graph = NewKVGraph [[0x67]] []"

definition sample_graph_ops :: "((nat \<Rightarrow> kv_call) \<times> unit graph_op) list" where
  "sample_graph_ops = map (Pair (\<lambda>_. quiet_call))
     [GSet \<lparr>ge_Label = [0x61], ge_Attrs = None\<rparr>, GAdd \<lparr>rl_From = [0x61], rl_To = [0x62], rl_RelType = [0x6b]\<rparr>,
      GAdd \<lparr>rl_From = [0x62], rl_To = [0x63], rl_RelType = [0x6b]\<rparr>]"

lemma sample_ok: "mem_graph None sample_graph" "json_ok sample_json" "calm sample_graph_ops"
  by (simp_all add: mem_graph_def sample_graph_def NewKVGraph_def sep_def DefaultSeparator_def tag_e_def tag_r_def
      tag_ri_def json_ok_def sample_json_def sample_graph_ops_def quiet_call)

lemma sample_labels: "validateSegments sample_graph [[0x61]] = None" "validateSegments sample_graph [] = None"
  by (simp_all add: sample_graph_def NewKVGraph_def sep_string_def DefaultSeparator_def)

lemma sample_abstract:
  "snd (agraph_run sample_json sample_graph (map snd sample_graph_ops) empty_graph) =
     \<lparr>ag_ents = [[0x61] \<mapsto> Some []], ag_rels = {([0x62], [0x6b], [0x63]), ([0x61], [0x6b], [0x62])}\<rparr>"
  by (simp add: sample_json_def sample_graph_ops_def checked_def put_entity_def decoded_attrs_def empty_graph_def
      sample_graph_def NewKVGraph_def sep_string_def DefaultSeparator_def)

theorem graph_refines_witness:
  "agraph_run sample_json sample_graph (map snd sample_graph_ops) empty_graph =
     (fst (graph_run sample_json (Memory_Store id) sample_graph sample_graph_ops (NewMemory None)),
      graph_of sample_json sample_graph
        (mem_view None (snd (graph_run sample_json (Memory_Store id) sample_graph sample_graph_ops (NewMemory None))))) \<and>
   (\<forall>f t d.
      mem_view None (snd (graph_run sample_json (Memory_Store id) sample_graph sample_graph_ops (NewMemory None)))
        (fwdKey sample_graph f t d) \<noteq> None \<longleftrightarrow>
      mem_view None (snd (graph_run sample_json (Memory_Store id) sample_graph sample_graph_ops (NewMemory None)))
        (revKey sample_graph d t f) \<noteq> None)"
  by (rule graph_refines [OF sample_ok, of id]) simp

lemma after_run:
  assumes "mem_graph o' g" and "json_ok js" and "calm ops"
    and "graph_run js (Memory_Store others) g ops (NewMemory o') = (rs, m)"
  defines "G \<equiv> snd (agraph_run js g (map snd ops) empty_graph)"
  shows "mem_inv o' m" "graph_inv js g (mem_view o' m)" "graph_of js g (mem_view o' m) = G"
  using mg.graph_run_ok [OF assms(1-3) mem_inv_New _ assms(4)]
  by (simp_all add: G_def mem_view_New graph_of_empty)

text \<open>
  C2: After any sequence of updates the queries answer from the abstract graph: an entity is found with
  its attributes or not found, the entities of a label prefix are listed once each, the relations of
  an entity are listed once each, loops included, and the neighbours are sorted and without
  repetition, for the asked types of relation or for all.
\<close>

theorem graph_queries:
  assumes g: "mem_graph o' g" and "json_ok js" and "calm ops"
    and "graph_run js (Memory_Store others) g ops (NewMemory o') = (rs, m)"
    and c: "\<forall>i. no_err (cs i)" and l: "validateSegments g [l] = None" and t: "validateSegments g types = None"
  defines "G \<equiv> snd (agraph_run js g (map snd ops) empty_graph)" and "M \<equiv> Memory_Store others"
  shows "fst (GetEntity js M g (cs 0) l m) =
      (case ag_ents G l of None \<Rightarrow> Inl GraphNotFound | Some a \<Rightarrow> Inr \<lparr>ge_Label = l, ge_Attrs = a\<rparr>) \<and>
    (\<exists>es. ListEntities js M g (cs 0) pre m = map Inr es \<and> distinct (map ge_Label es) \<and>
       set es = {\<lparr>ge_Label = n, ge_Attrs = a\<rparr> | n a. ag_ents G n = Some a \<and> hasPrefix n pre}) \<and>
    (\<exists>rels. Relations M g cs l m = Inr rels \<and> distinct rels \<and> set rels = touching l (ag_rels G)) \<and>
    (\<exists>ns. Neighbors M g cs l types m = Inr ns \<and> sorted ns \<and> distinct ns \<and>
       set ns = adjacent (\<lambda>t. types = [] \<or> t \<in> set types) (ag_rels G) l)"
proof -
  note run = after_run [OF assms(1-4), folded G_def]
  have l': "clean (kg_sep g) [l]" and t': "clean (kg_sep g) types"
    using l t mg.validate_iff [OF g] by (blast, blast)
  have get: "fst (GetEntity js M g (cs 0) l m) =
      (case ag_ents G l of None \<Rightarrow> Inl GraphNotFound | Some a \<Rightarrow> Inr \<lparr>ge_Label = l, ge_Attrs = a\<rparr>)"
    using mg.GetEntity_ok [OF g run(1) spec [OF c] run(2), of others 0 l] unfolding run(3) M_def l by simp
  have rels: "\<exists>rels. Relations M g cs l m = Inr rels \<and> distinct rels \<and> set rels = touching l (ag_rels G)"
    using mg.Relations_ok [OF g run(1) _ l' run(2), of cs] c unfolding run(3) M_def by blast
  have ns: "\<exists>ns. Neighbors M g cs l types m = Inr ns \<and> sorted ns \<and> distinct ns \<and>
      set ns = adjacent (\<lambda>t. types = [] \<or> t \<in> set types) (ag_rels G) l"
    using mg.Neighbors_ok [OF g run(1) _ l' t' run(2), of cs] c unfolding run(3) M_def by blast
  show ?thesis
    using get rels ns mg.ListEntities_ok [OF g run(1) spec [OF c] run(2), of others 0 pre]
    unfolding run(3) M_def by blast
qed

theorem graph_queries_witness:
  "fst (GetEntity sample_json (Memory_Store id) sample_graph quiet_call [0x61]
      (snd (graph_run sample_json (Memory_Store id) sample_graph sample_graph_ops (NewMemory None)))) =
     Inr \<lparr>ge_Label = [0x61], ge_Attrs = Some []\<rparr>"
  using graph_queries [OF sample_ok prod.collapse [symmetric], of "\<lambda>_. quiet_call" "[0x61]" "[]" id "[]"]
  by (simp add: quiet_call sample_abstract sample_labels del: validateSegments.simps)

text \<open>
  C3: On every graph, cycles included, \<^verbatim>\<open>Expand\<close> returns, sorted and without repetition, exactly the labels that at most \<open>hops\<close> relations, followed in either direction, connect to a seed.
\<close>

theorem graph_expand:
  assumes g: "mem_graph o' g" and "json_ok js" and "calm ops"
    and "graph_run js (Memory_Store others) g ops (NewMemory o') = (rs, m)"
    and c: "\<forall>h i j. no_err (cs h i j)" and l: "validateSegments g labels = None"
  defines "G \<equiv> snd (agraph_run js g (map snd ops) empty_graph)"
  shows "\<exists>xs. Expand (Memory_Store others) g cs labels hops m = Inr xs \<and> sorted xs \<and> distinct xs \<and>
    set xs = within (ag_rels G) (nat hops) (set labels)"
proof -
  note run = after_run [OF assms(1-4), folded G_def]
  have "clean (kg_sep g) labels" using l mg.validate_iff [OF g] by blast
  from mg.Expand_ok [OF g run(1) _ this run(2)] show ?thesis using c unfolding run(3) by blast
qed

theorem graph_expand_witness:
  "\<exists>xs. Expand (Memory_Store id) sample_graph (\<lambda>_ _ _. quiet_call) [[0x61]] 1
      (snd (graph_run sample_json (Memory_Store id) sample_graph sample_graph_ops (NewMemory None))) = Inr xs \<and>
    sorted xs \<and> distinct xs \<and>
    set xs = within {([0x62], [0x6b], [0x63]), ([0x61], [0x6b], [0x62])} 1 {[0x61]}"
  using graph_expand [OF sample_ok prod.collapse [symmetric], of "\<lambda>_ _ _. quiet_call" "[[0x61]]" id 1]
  by (simp add: quiet_call sample_abstract sample_labels del: validateSegments.simps)

end
