(* ===== verification/KcpService.thy ===== *)
theory KcpService
  imports MuxHeap
begin

text \<open>
  The service multiplexer of the kcp package, \<^verbatim>\<open>pkgs/giznet/internal/kcp/service.go\<close>: the smaller
  sibling of the one in \<^verbatim>\<open>core\<close>. Only an OPEN frame of a service the callback admits creates a
  multiplexer. As there, the multiplexers live in a list and the table holds positions of it.
\<close>

record KcpServiceConfig =
  ksc_IsClient :: bool
  ksc_Output :: "(u64 \<Rightarrow> bytes \<Rightarrow> nat \<Rightarrow> kcp_error option) option"
  ksc_OnOutputError :: bool
  ksc_OnNewService :: "(u64 \<Rightarrow> bool) option"
  ksc_DefaultKcpMuxConfig :: KcpMuxConfig
  ksc_overhead :: nat

record KcpServiceState =
  kst_serviceID :: u64
  kst_mux :: nat

record KcpServiceMux =
  ks_config :: KcpServiceConfig
  ks_services :: "(u64, KcpServiceState) gomap"
  ks_closeCh :: bool
  ks_closed :: bool
  ks_closeOnce :: bool
  ks_outputErrors :: u64
  ks_muxes :: "KcpMux list"
  ks_log :: "mux_event list"

definition NewKcpServiceMux :: "KcpServiceConfig \<Rightarrow> KcpServiceMux" where
  "NewKcpServiceMux cfg =
     \<lparr>ks_config = cfg, ks_services = [], ks_closeCh = False, ks_closed = False, ks_closeOnce = False,
      ks_outputErrors = 0, ks_muxes = [], ks_log = []\<rparr>"

definition ks_emit :: "mux_event \<Rightarrow> KcpServiceMux \<Rightarrow> KcpServiceMux" where
  "ks_emit ev m = m\<lparr>ks_log := ks_log m @ [ev]\<rparr>"

definition ks_reportOutputError :: "u64 \<Rightarrow> kcp_error option \<Rightarrow> KcpServiceMux \<Rightarrow> KcpServiceMux" where
  "ks_reportOutputError service err m =
     (case err of
        None \<Rightarrow> m
      | Some e \<Rightarrow>
          let m = m\<lparr>ks_outputErrors := ks_outputErrors m + 1\<rparr>
          in if ksc_OnOutputError (ks_config m) then ks_emit (Report service e) m else m)"

text \<open>The multiplexers get the \<^verbatim>\<open>Output\<close> callback itself; what they report is counted here.\<close>

definition ks_env :: "KcpServiceMux \<Rightarrow> mux_env" where
  "ks_env m = \<lparr>env_output = ksc_Output (ks_config m), env_reportErr = True,
     env_overhead = ksc_overhead (ks_config m)\<rparr>"

fun ks_absorb :: "mux_event \<Rightarrow> KcpServiceMux \<Rightarrow> KcpServiceMux" where
  "ks_absorb (Frame service data) m = ks_emit (Frame service data) m"
| "ks_absorb (Report service err) m = ks_reportOutputError service (Some err) m"

definition ks_set_mux :: "nat \<Rightarrow> KcpMux \<Rightarrow> KcpServiceMux \<Rightarrow> KcpServiceMux" where
  "ks_set_mux r mux m =
     fold ks_absorb (drop (length (mx_log (ks_muxes m ! r))) (mx_log mux))
       (m\<lparr>ks_muxes := (ks_muxes m)[r := mux]\<rparr>)"

definition ks_sendControlFrame ::
  "u64 \<Rightarrow> u64 \<Rightarrow> u8 \<Rightarrow> bytes \<Rightarrow> KcpServiceMux \<Rightarrow> KcpServiceMux" where
  "ks_sendControlFrame service streamID frameType payload m =
     (let frame = [frameType] @ put_u32 (ucast streamID) @ payload in
      case ksc_Output (ks_config m) of
        None \<Rightarrow> m
      | Some out \<Rightarrow>
          ks_reportOutputError service (out service frame (length (ks_log m)))
            (ks_emit (Frame service frame) m))"

definition ks_getService :: "u64 \<Rightarrow> KcpServiceMux \<Rightarrow> KcpServiceState option" where
  "ks_getService service m = map_get (ks_services m) service"

definition ks_getOrCreateService ::
  "u64 \<Rightarrow> KcpServiceMux \<Rightarrow> (kcp_error + KcpServiceState) \<times> KcpServiceMux" where
  "ks_getOrCreateService service m =
     (if ks_closed m then (Inl ErrServiceMuxClosed, m)
      else case ks_getService service m of
        Some state \<Rightarrow> (Inr state, m)
      | None \<Rightarrow>
          let state = \<lparr>kst_serviceID = service, kst_mux = length (ks_muxes m)\<rparr>
          in (Inr state,
              m\<lparr>ks_services := map_put service state (ks_services m),
                ks_muxes := ks_muxes m @ [NewKcpMux service (ksc_IsClient (ks_config m))
                  (ksc_DefaultKcpMuxConfig (ks_config m))]\<rparr>))"

definition ks_mux_input ::
  "int \<Rightarrow> KcpServiceState \<Rightarrow> bytes \<Rightarrow> KcpServiceMux \<Rightarrow> (kcp_error option \<times> KcpServiceMux) list" where
  "ks_mux_input now state data m =
     map (\<lambda>(err, mux). (err, ks_set_mux (kst_mux state) mux m))
       (Input (ks_env m) now data (ks_muxes m ! kst_mux state))"

definition ks_Input ::
  "int \<Rightarrow> u64 \<Rightarrow> bytes \<Rightarrow> KcpServiceMux \<Rightarrow> (kcp_error option \<times> KcpServiceMux) list" where
  "ks_Input now service data m =
     (if ks_closed m then [(Some ErrServiceMuxClosed, m)]
      else case ks_getService service m of
        Some state \<Rightarrow> ks_mux_input now state data m
      | None \<Rightarrow>
          (case decodeMuxFrame (ksc_overhead (ks_config m)) data of
             Inl e \<Rightarrow> [(Some e, m)]
           | Inr (streamID, frameType, payload) \<Rightarrow>
               if frameType = kcpMuxFrameOpen
                 \<and> (case ksc_OnNewService (ks_config m) of None \<Rightarrow> False | Some f \<Rightarrow> f service)
               then (case ks_getOrCreateService service m of
                       (Inl e, m) \<Rightarrow> [(Some e, m)]
                     | (Inr state, m) \<Rightarrow> ks_mux_input now state data m)
               else if frameType = kcpMuxFrameOpen then
                 [(None, ks_sendControlFrame service streamID kcpMuxFrameClose [streamCloseReasonAbort] m)]
               else if frameType = kcpMuxFrameClose then
                 [(None, ks_sendControlFrame service streamID kcpMuxFrameCloseAck [] m)]
               else if frameType = kcpMuxFrameCloseAck then [(None, m)]
               else
                 [(None, ks_sendControlFrame service streamID kcpMuxFrameClose
                           [streamCloseReasonInvalid] m)]))"

definition ks_OpenStream ::
  "int \<Rightarrow> u64 \<Rightarrow> KcpServiceMux \<Rightarrow> ((kcp_error + nat \<times> stream) \<times> KcpServiceMux) option" where
  "ks_OpenStream now service m =
     (if ks_closed m then Some (Inl ErrServiceMuxClosed, m)
      else case ks_getOrCreateService service m of
        (Inl e, m) \<Rightarrow> Some (Inl e, m)
      | (Inr state, m) \<Rightarrow>
          (case Open (ks_env m) now (ks_muxes m ! kst_mux state) of
             None \<Rightarrow> None
           | Some (Inl e, mux) \<Rightarrow> Some (Inl e, ks_set_mux (kst_mux state) mux m)
           | Some (Inr s, mux) \<Rightarrow> Some (Inr (kst_mux state, s), ks_set_mux (kst_mux state) mux m)))"

definition ks_AcceptStream ::
  "int \<Rightarrow> accept_choice list \<Rightarrow> u64 \<Rightarrow> KcpServiceMux \<Rightarrow>
     (kcp_error + nat \<times> stream) option \<times> KcpServiceMux" where
  "ks_AcceptStream now choices service m =
     (if ks_closed m then (Some (Inl ErrServiceMuxClosed), m)
      else case ks_getOrCreateService service m of
        (Inl e, m) \<Rightarrow> (Some (Inl e), m)
      | (Inr state, m) \<Rightarrow>
          (case Accept now choices (ks_muxes m ! kst_mux state) of
             (None, mux) \<Rightarrow> (None, ks_set_mux (kst_mux state) mux m)
           | (Some (Inl e), mux) \<Rightarrow> (Some (Inl e), ks_set_mux (kst_mux state) mux m)
           | (Some (Inr s), mux) \<Rightarrow> (Some (Inr (kst_mux state, s)), ks_set_mux (kst_mux state) mux m)))"

definition ks_Close :: "int \<Rightarrow> int \<Rightarrow> KcpServiceMux \<Rightarrow> KcpServiceMux" where
  "ks_Close now later m =
     (if ks_closeOnce m then m
      else
        let m = m\<lparr>ks_closeOnce := True, ks_closed := True, ks_closeCh := True\<rparr>;
            states = map snd (ks_services m);
            m = m\<lparr>ks_services := []\<rparr>
        in fold (\<lambda>state m. ks_set_mux (kst_mux state)
             (Close (ks_env m) now later (ks_muxes m ! kst_mux state)) m) states m)"

definition ks_NumServices :: "KcpServiceMux \<Rightarrow> nat" where
  "ks_NumServices m = length (ks_services m)"

definition ks_NumStreams :: "KcpServiceMux \<Rightarrow> nat" where
  "ks_NumStreams m = sum_list (map (\<lambda>(_, state). NumStreams (ks_muxes m ! kst_mux state)) (ks_services m))"

definition ks_OutputErrorCount :: "KcpServiceMux \<Rightarrow> u64" where
  "ks_OutputErrorCount m = ks_outputErrors m"

section \<open>The table of services\<close>

definition ks_refs :: "KcpServiceMux \<Rightarrow> u64 \<Rightarrow> nat option" where
  "ks_refs m s = map_option kst_mux (ks_getService s m)"

definition ks_inv :: "KcpServiceMux \<Rightarrow> bool" where
  "ks_inv m \<longleftrightarrow> muxes.consistent (ks_env m) (ks_refs m) (ks_muxes m)"

definition ks_same :: "KcpServiceMux \<Rightarrow> KcpServiceMux \<Rightarrow> bool" where
  "ks_same m m' \<longleftrightarrow> ks_config m' = ks_config m \<and> ks_services m' = ks_services m
     \<and> ks_closed m' = ks_closed m \<and> ks_muxes m' = ks_muxes m"

lemma ks_same_trans: "ks_same m m' \<Longrightarrow> ks_same m' m'' \<Longrightarrow> ks_same m m''"
  by (simp add: ks_same_def)

lemma ks_report_same: "ks_same m (ks_reportOutputError s e m)"
  by (simp add: ks_same_def ks_reportOutputError_def ks_emit_def Let_def split: option.split)

lemma ks_emit_same: "ks_same m (ks_emit ev m)"
  by (simp add: ks_same_def ks_emit_def)

lemma ks_control_same: "ks_same m (ks_sendControlFrame s i ft p m)"
  using ks_same_trans [OF ks_emit_same ks_report_same]
  by (auto simp: ks_sendControlFrame_def Let_def ks_same_def [of m m] split: option.splits)

lemma ks_fold_same: "ks_same m (fold ks_absorb evs m)"
proof (induction evs arbitrary: m)
  case (Cons ev evs)
  have "ks_same m (ks_absorb ev m)" by (cases ev) (simp_all add: ks_emit_same ks_report_same)
  from ks_same_trans [OF this Cons.IH] show ?case by simp
qed (simp add: ks_same_def)

lemma ks_set_mux_fields [simp]:
  "ks_config (ks_set_mux r mux m) = ks_config m" "ks_services (ks_set_mux r mux m) = ks_services m"
  "ks_closed (ks_set_mux r mux m) = ks_closed m" "ks_muxes (ks_set_mux r mux m) = (ks_muxes m)[r := mux]"
  using ks_fold_same [of "m\<lparr>ks_muxes := (ks_muxes m)[r := mux]\<rparr>"
      "drop (length (mx_log (ks_muxes m ! r))) (mx_log mux)"]
  by (simp_all add: ks_set_mux_def ks_same_def)

lemma ks_views:
  assumes "ks_config m' = ks_config m" "ks_services m' = ks_services m"
  shows "ks_env m' = ks_env m" "ks_refs m' = ks_refs m" "ks_getService s m' = ks_getService s m"
  using assms by (simp_all add: ks_env_def ks_refs_def ks_getService_def fun_eq_iff)

lemma ks_ref:
  assumes "ks_inv m" "ks_getService k m = Some st"
  shows "kst_mux st < length (ks_muxes m)" "mx_serviceID (ks_muxes m ! kst_mux st) = k"
    "mux_reach (ks_env m) (ks_muxes m ! kst_mux st)"
proof -
  have "ks_refs m k = Some (kst_mux st)" using assms(2) by (simp add: ks_refs_def)
  with muxes.consistentD [OF assms(1) [unfolded ks_inv_def] this]
  show "kst_mux st < length (ks_muxes m)" "mx_serviceID (ks_muxes m ! kst_mux st) = k"
    "mux_reach (ks_env m) (ks_muxes m ! kst_mux st)" by simp_all
qed

lemma ks_inv_run:
  assumes "ks_inv m" "mux_step (ks_env m) (ks_muxes m ! r) mux"
  shows "ks_inv (ks_set_mux r mux m)"
  using muxes.consistent_run [OF assms(1) [unfolded ks_inv_def] assms(2)]
  by (simp add: ks_inv_def ks_views [of "ks_set_mux r mux m" m])

lemma ks_inv_same: "ks_same m m' \<Longrightarrow> ks_inv m \<Longrightarrow> ks_inv m'"
  using ks_views [of m' m] by (simp add: ks_inv_def ks_same_def)

lemma ks_getOrCreate_ok:
  assumes inv: "ks_inv m" and g: "ks_getOrCreateService s m = (res, m1)"
  shows "ks_inv m1 \<and> (\<forall>st. res = Inr st \<longrightarrow> ks_getService s m1 = Some st)"
proof (cases "ks_closed m \<or> ks_getService s m \<noteq> None")
  case True
  then show ?thesis using inv g by (auto simp: ks_getOrCreateService_def split: if_splits)
next
  case False
  let ?mux = "NewKcpMux s (ksc_IsClient (ks_config m)) (ksc_DefaultKcpMuxConfig (ks_config m))"
  have m1: "res = Inr \<lparr>kst_serviceID = s, kst_mux = length (ks_muxes m)\<rparr>"
    "m1 = m\<lparr>ks_services := map_put s \<lparr>kst_serviceID = s, kst_mux = length (ks_muxes m)\<rparr> (ks_services m),
       ks_muxes := ks_muxes m @ [?mux]\<rparr>"
    using g False by (auto simp: ks_getOrCreateService_def Let_def)
  have "ks_refs m1 = (ks_refs m)(s \<mapsto> length (ks_muxes m))" "ks_env m1 = ks_env m"
    by (auto simp: m1 ks_refs_def ks_getService_def ks_env_def fun_eq_iff)
  moreover have "muxes.consistent (ks_env m) ((ks_refs m)(s \<mapsto> length (ks_muxes m))) (ks_muxes m @ [?mux])"
    using inv by (intro muxes.consistent_new) (auto simp: ks_inv_def intro: mux_reach.new)
  ultimately show ?thesis by (simp add: ks_inv_def m1 ks_getService_def)
qed

lemma ks_mux_input_ok:
  assumes "ks_inv m" "(err, m') \<in> set (ks_mux_input now st d m)"
  shows "ks_inv m'"
proof -
  obtain mux where "(err, mux) \<in> set (Input (ks_env m) now d (ks_muxes m ! kst_mux st))"
    "m' = ks_set_mux (kst_mux st) mux m" using assms(2) by (auto simp: ks_mux_input_def)
  then show ?thesis using ks_inv_run [OF assms(1) input_step] by blast
qed

text \<open>
  C19: input never breaks the table of services, and a service comes into being only when an OPEN
  frame of an admitted service arrives; every other frame of an unknown service leaves services
  and multiplexers as they were.
\<close>

theorem kcp_service_input:
  assumes "ks_inv m" "(err, m') \<in> set (ks_Input now s d m)"
  shows "ks_inv m' \<and> (\<forall>k st. ks_getService k m' = Some st \<longrightarrow> kst_mux st < length (ks_muxes m')
         \<and> mx_serviceID (ks_muxes m' ! kst_mux st) = k \<and> mux_reach (ks_env m') (ks_muxes m' ! kst_mux st))
     \<and> (ks_getService s m = None \<longrightarrow>
          (ks_services m' = ks_services m \<and> ks_muxes m' = ks_muxes m)
          \<or> (\<exists>i p f. decodeMuxFrame (ksc_overhead (ks_config m)) d = Inr (i, kcpMuxFrameOpen, p)
               \<and> ksc_OnNewService (ks_config m) = Some f \<and> f s))"
proof -
  have "ks_inv m' \<and> (ks_getService s m = None \<longrightarrow>
          (ks_services m' = ks_services m \<and> ks_muxes m' = ks_muxes m)
          \<or> (\<exists>i p f. decodeMuxFrame (ksc_overhead (ks_config m)) d = Inr (i, kcpMuxFrameOpen, p)
               \<and> ksc_OnNewService (ks_config m) = Some f \<and> f s))"
  proof (cases "ks_closed m \<or> ks_getService s m \<noteq> None \<or>
      (\<exists>e. decodeMuxFrame (ksc_overhead (ks_config m)) d = Inl e)")
    case True
    then show ?thesis using assms ks_mux_input_ok by (auto simp: ks_Input_def split: if_splits option.splits)
  next
    case False
    then obtain i ft p where dec: "decodeMuxFrame (ksc_overhead (ks_config m)) d = Inr (i, ft, p)"
      by (cases "decodeMuxFrame (ksc_overhead (ks_config m)) d") auto
    obtain res m1 where g: "ks_getOrCreateService s m = (res, m1)" by fastforce
    note ok = ks_getOrCreate_ok [OF assms(1) g]
    have same: "ks_inv m' \<and> ks_services m' = ks_services m \<and> ks_muxes m' = ks_muxes m"
      if "ks_same m m'" using that ks_inv_same [OF that assms(1)] by (simp add: ks_same_def)
    show ?thesis
    proof (cases "ft = kcpMuxFrameOpen \<and> (\<exists>f. ksc_OnNewService (ks_config m) = Some f \<and> f s)")
      case True
      have "ks_inv m'"
      proof (cases res)
        case (Inl e)
        then show ?thesis using assms(2) False True ok by (auto simp: ks_Input_def dec g)
      next
        case (Inr st)
        then have "(err, m') \<in> set (ks_mux_input now st d m1)"
          using assms(2) False True by (auto simp: ks_Input_def dec g)
        then show ?thesis using ks_mux_input_ok ok by blast
      qed
      then show ?thesis using True dec by blast
    next
      case other: False
      then have "ks_same m m' \<or> m' = m"
        using assms(2) False ks_control_same
        by (auto simp: ks_Input_def dec split: if_splits option.splits)
      then show ?thesis using same assms(1) by auto
    qed
  qed
  then show ?thesis using ks_ref by blast
qed

definition toy_kcp_service :: KcpServiceMux where
  "toy_kcp_service = NewKcpServiceMux \<lparr>ksc_IsClient = False, ksc_Output = Some (\<lambda>_ _ _. None),
     ksc_OnOutputError = False, ksc_OnNewService = Some (\<lambda>s. s = 4),
     ksc_DefaultKcpMuxConfig = \<lparr>mc_CloseAckTimeout = 0, mc_IdleStreamTimeout = 0,
       mc_AcceptBacklog = 0, mc_MaxActiveStreams = 0\<rparr>, ksc_overhead = 24\<rparr>"

theorem kcp_service_input_witness:
  "\<exists>err m'. ks_Input 1 5 (mux_frame 1 kcpMuxFrameClose [0]) toy_kcp_service = [(err, m')]
     \<and> ks_services m' = ks_services toy_kcp_service"
proof -
  have inv: "ks_inv toy_kcp_service"
    by (simp add: ks_inv_def toy_kcp_service_def NewKcpServiceMux_def muxes.consistent_def ks_refs_def
        ks_getService_def)
  have dec: "decodeMuxFrame 24 (mux_frame 1 kcpMuxFrameClose [0]) = Inr (1, kcpMuxFrameClose, [0])"
    by (rule decode_control) simp_all
  obtain err m' where i: "ks_Input 1 5 (mux_frame 1 kcpMuxFrameClose [0]) toy_kcp_service = [(err, m')]"
    by (auto simp: ks_Input_def toy_kcp_service_def NewKcpServiceMux_def ks_getService_def dec)
  then have "(err, m') \<in> set (ks_Input 1 5 (mux_frame 1 kcpMuxFrameClose [0]) toy_kcp_service)" by simp
  from kcp_service_input [OF inv this] have "ks_services m' = ks_services toy_kcp_service"
    by (auto simp: toy_kcp_service_def NewKcpServiceMux_def ks_getService_def dec)
  with i show ?thesis by blast
qed

end
