(* ===== verification/OggCrc.thy ===== *)
theory OggCrc
  imports GizPrelude
begin

text \<open>
  The checksum of Ogg pages, \<^verbatim>\<open>pkgs/audio/codec/ogg/crc.go\<close>: a table of 256 words and one lookup for
  each byte. It is shown to be the bit-serial register of the generator polynomial, a linear
  function that tells apart two inputs that differ in one byte.
\<close>

section \<open>The code\<close>

definition polynomial :: u32 where "polynomial = 0x04c11db7"

definition crc_bit :: "u32 \<Rightarrow> u32" where
  "crc_bit crc =
     (if crc AND push_bit 31 1 \<noteq> 0 then push_bit 1 crc XOR polynomial else push_bit 1 crc)"

definition buildOGGCRCTable :: "u32 list" where
  "buildOGGCRCTable = map (\<lambda>i. (crc_bit ^^ 8) (push_bit 24 (of_nat i))) [0..<256]"

definition crc_step :: "u32 \<Rightarrow> u8 \<Rightarrow> u32" where
  "crc_step crc b =
     push_bit 8 crc XOR buildOGGCRCTable ! unat (ucast (drop_bit 24 crc XOR ucast b) :: u8)"

definition oggCRC :: "bytes \<Rightarrow> u32" where
  "oggCRC data = fold (\<lambda>b crc. crc_step crc b) data 0"

section \<open>The bit-serial register\<close>

text \<open>A byte is added at the top of the register, which is then clocked eight times.\<close>

definition crc_serial :: "u32 \<Rightarrow> u8 \<Rightarrow> u32" where
  "crc_serial crc b = (crc_bit ^^ 8) (crc XOR push_bit 24 (ucast b))"

lemma crc_bit_alt: "crc_bit c = push_bit 1 c XOR (if bit c 31 then polynomial else 0)"
  by (simp add: crc_bit_def bit_iff_and_push_bit_not_eq_0)

lemma crc_bit_xor: "crc_bit (a XOR b) = crc_bit a XOR crc_bit b"
  by (rule bit_word_eqI) (auto simp: crc_bit_alt bit_simps)

lemma crc_bits_xor: "(crc_bit ^^ n) (a XOR b) = (crc_bit ^^ n) a XOR (crc_bit ^^ n) b"
  by (induction n) (simp_all add: crc_bit_xor)

text \<open>The polynomial is odd, so a clock tick loses nothing.\<close>

lemma crc_bit_inj: "crc_bit a = crc_bit b \<Longrightarrow> a = b"
proof -
  assume eq: "crc_bit a = crc_bit b"
  have p0: "bit polynomial 0" by (simp add: polynomial_def)
  have top: "bit (crc_bit c) 0 = bit c 31" for c
  proof -
    have "\<not> bit (push_bit 1 c) 0" by (subst bit_push_bit_iff) simp
    then show ?thesis unfolding crc_bit_alt bit_xor_iff using p0 by auto
  qed
  have sh: "push_bit 1 c = crc_bit c XOR (if bit c 31 then polynomial else 0)" for c
    unfolding crc_bit_alt by (simp only: xor.assoc xor_self_eq xor.right_neutral)
  have pq: "push_bit 1 a = push_bit 1 b"
    unfolding sh using eq top [of a] top [of b] by simp
  have low: "bit a n = bit b n" if "n < 31" for n
  proof -
    have "bit (push_bit 1 c) (Suc n) = bit c n" for c :: u32
      using that by (subst bit_push_bit_iff) simp
    then show ?thesis using pq by metis
  qed
  show "a = b"
  proof (rule bit_word_eqI)
    fix n :: nat assume "n < LENGTH(32)"
    then consider "n < 31" | "n = 31" by fastforce
    then show "bit a n = bit b n" using low top [of a] top [of b] eq by cases simp_all
  qed
qed

lemma crc_bits_inj: "(crc_bit ^^ n) a = (crc_bit ^^ n) b \<Longrightarrow> a = b"
  by (induction n) (auto dest: crc_bit_inj)

lemma crc_bits_low: "\<forall>k \<ge> 32 - n. \<not> bit c k \<Longrightarrow> n \<le> 32 \<Longrightarrow> (crc_bit ^^ n) c = push_bit n c"
proof (induction n)
  case (Suc n)
  have "(crc_bit ^^ n) c = push_bit n c" using Suc by (simp add: Suc_diff_le)
  moreover have "\<not> bit (push_bit n c) 31"
    using Suc.prems by (auto simp: bit_simps)
  ultimately have "(crc_bit ^^ Suc n) c = push_bit 1 (push_bit n c)"
    by (simp only: funpow.simps comp_apply crc_bit_alt if_False xor.right_neutral)
  then show ?case by (simp only: push_bit_push_bit plus_1_eq_Suc)
qed simp

lemma table_nth: "buildOGGCRCTable ! unat i = (crc_bit ^^ 8) (push_bit 24 (ucast (i::u8)))"
proof -
  have "unat i < 256" using unsigned_less [of i] by simp
  then have "buildOGGCRCTable ! unat i = (crc_bit ^^ 8) (push_bit 24 (of_nat (unat i)))"
    by (simp only: buildOGGCRCTable_def nth_map length_upt nth_upt) simp
  moreover have "of_nat (unat i) = (ucast i :: u32)" by (rule of_nat_unat)
  ultimately show ?thesis by simp
qed

lemma crc_step_serial: "crc_step c b = crc_serial c b"
proof -
  let ?low = "take_bit 24 c"
  let ?i = "ucast (drop_bit 24 c XOR ucast b) :: u8"
  have split: "c XOR push_bit 24 (ucast b) = push_bit 24 (ucast ?i) XOR ?low"
    by (rule bit_word_eqI) (auto simp: bit_simps)
  have low: "(crc_bit ^^ 8) ?low = push_bit 8 c"
  proof -
    have "(crc_bit ^^ 8) ?low = push_bit 8 ?low"
      by (rule crc_bits_low) (auto simp: bit_simps)
    also have "\<dots> = push_bit 8 c" by (rule bit_word_eqI) (auto simp: bit_simps)
    finally show ?thesis .
  qed
  show ?thesis
    unfolding crc_step_def crc_serial_def split crc_bits_xor low table_nth by (rule xor.commute)
qed

section \<open>Two inputs that differ in one byte\<close>

lemma xor_right_cancel: "a XOR c = b XOR c \<Longrightarrow> a = b" for a b c :: "'a::len word"
  by (metis xor.assoc xor_self_eq xor.right_neutral)

lemma crc_serial_inj_state: "crc_serial a x = crc_serial b x \<Longrightarrow> a = b"
  unfolding crc_serial_def by (drule crc_bits_inj) (rule xor_right_cancel)

lemma crc_serial_inj_byte: "crc_serial a x = crc_serial a y \<Longrightarrow> x = y"
proof -
  assume "crc_serial a x = crc_serial a y"
  then have "push_bit 24 (ucast x :: u32) = push_bit 24 (ucast y)"
    unfolding crc_serial_def by (metis crc_bits_inj xor_right_cancel xor.commute)
  then have "drop_bit 24 (push_bit 24 (ucast x :: u32)) = drop_bit 24 (push_bit 24 (ucast y))" by simp
  moreover have "ucast (drop_bit 24 (push_bit 24 (ucast z :: u32)) :: u32) = (z::u8)" for z
    by (rule bit_word_eqI) (auto simp: bit_simps)
  ultimately show "x = y" by metis
qed

lemma crc_fold_inj:
  "fold (\<lambda>b crc. crc_step crc b) xs a = fold (\<lambda>b crc. crc_step crc b) xs b \<Longrightarrow> a = b"
  by (induction xs arbitrary: a b) (auto simp: crc_step_serial dest: crc_serial_inj_state)

lemma oggCRC_one_byte:
  assumes "i < length xs" and "oggCRC (xs[i := x]) = oggCRC xs"
  shows "x = xs ! i"
proof -
  have xs: "xs = take i xs @ xs ! i # drop (Suc i) xs" using assms(1) by (rule id_take_nth_drop)
  have upd: "xs[i := x] = take i xs @ x # drop (Suc i) xs" using assms(1) by (rule upd_conv_take_nth_drop)
  let ?f = "fold (\<lambda>b crc. crc_step crc b)"
  let ?a = "?f (take i xs) 0"
  have f: "oggCRC (take i xs @ y # drop (Suc i) xs) = ?f (drop (Suc i) xs) (crc_step ?a y)" for y
    by (simp add: oggCRC_def)
  have "?f (drop (Suc i) xs) (crc_step ?a x) = ?f (drop (Suc i) xs) (crc_step ?a (xs ! i))"
    using assms(2) upd xs f by metis
  then have "crc_serial ?a x = crc_serial ?a (xs ! i)" by (metis crc_fold_inj crc_step_serial)
  then show ?thesis by (rule crc_serial_inj_byte)
qed

text \<open>
  C1: The checksum, computed by one table lookup per byte, is that of the bit-serial register:
  each byte is added at the top of the register and shifted through the generator polynomial bit by
  bit.
\<close>

theorem oggCRC_bit_serial: "oggCRC data = fold (\<lambda>b crc. crc_serial crc b) data 0"
  by (simp add: oggCRC_def crc_step_serial)

end
