(* ===== verification/OggPage.thy ===== *)
theory OggPage
  imports OggCrc
begin

text \<open>
  Ogg pages, \<^verbatim>\<open>pkgs/audio/codec/ogg/page.go\<close> and \<^verbatim>\<open>constants.go\<close>: validation, serialisation with a
  checksum, and parsing. A \<^verbatim>\<open>*Page\<close> is an option. An error made with \<^verbatim>\<open>fmt.Errorf\<close> is a constructor
  with the arguments of its format; a wrapped error (\<^verbatim>\<open>%w\<close>) is an argument, so that
  \<^verbatim>\<open>errors.Is\<close> can look inside.
\<close>

definition CapturePattern :: bytes where "CapturePattern = [0x4f, 0x67, 0x67, 0x53]"
definition pageHeaderSize :: nat where "pageHeaderSize = 27"
definition maxPageSegments :: nat where "maxPageSegments = 255"
definition maxSegmentSize :: nat where "maxSegmentSize = 255"
definition HeaderTypeContinued :: u8 where "HeaderTypeContinued = 1"
definition HeaderTypeBOS :: u8 where "HeaderTypeBOS = 2"
definition HeaderTypeEOS :: u8 where "HeaderTypeEOS = 4"
definition GranulePositionUnknown :: u64 where "GranulePositionUnknown = NOT 0"

lemmas ogg_consts = CapturePattern_def pageHeaderSize_def maxPageSegments_def maxSegmentSize_def
  HeaderTypeContinued_def HeaderTypeBOS_def HeaderTypeEOS_def

datatype ogg_error =
    ErrPageNil
  | ErrPageVersion u8
  | ErrHeaderTypeBits u8
  | ErrSegmentCount nat
  | ErrPayloadLength nat nat
  | ErrMarshalPage ogg_error
  | ErrTrailingData nat
  | ErrTooShortHeader nat
  | ErrCapturePattern bytes
  | ErrTruncatedSegmentTable nat nat
  | ErrTruncatedPayload nat nat
  | ErrChecksum u32 u32
  | ErrParsePage ogg_error
  | ErrParsePages nat ogg_error
  | ErrNegativeLength int
  | ErrPageCount nat
  | ErrSequenceOverflow u32 nat
  | ErrPayloadOverflow nat nat nat
  | ErrBuildPages ogg_error
  | ErrNotConsumed nat nat
  | ErrMarshalPages nat ogg_error
  | ErrExtractPage nat ogg_error
  | ErrUnexpectedContinuation nat
  | ErrMissingContinuation nat
  | ErrSegmentOverflow nat nat nat nat nat
  | ErrTrailingPayload nat nat nat
  | ErrUnterminatedPacket
  | ErrReaderNil
  | ErrTruncatedHeader ogg_error
  | ErrReadHeader ogg_error
  | ErrTruncatedSegments ogg_error
  | ErrReadSegments ogg_error
  | ErrTruncatedRead ogg_error
  | ErrReadPayload ogg_error
  | ErrReadPage ogg_error
  | ErrWriterNil
  | ErrBroken
  | ErrEnded
  | ErrWritePacket ogg_error
  | ErrWriteMarshal nat ogg_error
  | ErrWritePage nat ogg_error
  | ErrShortWrite nat nat nat
  | EOF
  | ErrUnexpectedEOF
  | ErrIO nat

record Page =
  pg_Version :: u8
  pg_HeaderType :: u8
  pg_GranulePosition :: u64
  pg_BitstreamSerial :: u32
  pg_PageSequence :: u32
  pg_Checksum :: u32
  pg_Segments :: bytes
  pg_Payload :: bytes

section \<open>Validation\<close>

definition HasContinuation :: "Page option \<Rightarrow> bool" where
  "HasContinuation p = (case p of None \<Rightarrow> False | Some p \<Rightarrow> pg_HeaderType p AND HeaderTypeContinued \<noteq> 0)"

definition HasBOS :: "Page option \<Rightarrow> bool" where
  "HasBOS p = (case p of None \<Rightarrow> False | Some p \<Rightarrow> pg_HeaderType p AND HeaderTypeBOS \<noteq> 0)"

definition HasEOS :: "Page option \<Rightarrow> bool" where
  "HasEOS p = (case p of None \<Rightarrow> False | Some p \<Rightarrow> pg_HeaderType p AND HeaderTypeEOS \<noteq> 0)"

definition segment_sum :: "bytes \<Rightarrow> nat" where
  "segment_sum segs = foldl (\<lambda>n seg. n + unat seg) 0 segs"

definition Page_Validate :: "Page option \<Rightarrow> ogg_error option" where
  "Page_Validate p =
     (case p of None \<Rightarrow> Some ErrPageNil
      | Some p \<Rightarrow>
        if pg_Version p \<noteq> 0 then Some (ErrPageVersion (pg_Version p))
        else if pg_HeaderType p AND NOT (HeaderTypeContinued OR HeaderTypeBOS OR HeaderTypeEOS) \<noteq> 0 then
          Some (ErrHeaderTypeBits (pg_HeaderType p))
        else if length (pg_Segments p) > maxPageSegments then Some (ErrSegmentCount (length (pg_Segments p)))
        else if segment_sum (pg_Segments p) \<noteq> length (pg_Payload p) then
          Some (ErrPayloadLength (length (pg_Payload p)) (segment_sum (pg_Segments p)))
        else None)"

section \<open>Serialisation\<close>

definition MarshalBinary :: "Page option \<Rightarrow> ogg_error + bytes" where
  "MarshalBinary pp =
     (case Page_Validate pp of Some err \<Rightarrow> Inl (ErrMarshalPage err)
      | None \<Rightarrow>
        let p = the pp;
            headerLen = pageHeaderSize + length (pg_Segments p);
            raw = replicate (headerLen + length (pg_Payload p)) 0;
            raw = copy_at raw 0 4 CapturePattern;
            raw = raw[4 := pg_Version p];
            raw = raw[5 := pg_HeaderType p];
            raw = copy_at raw 6 14 (put_u64 (pg_GranulePosition p));
            raw = copy_at raw 14 18 (put_u32 (pg_BitstreamSerial p));
            raw = copy_at raw 18 22 (put_u32 (pg_PageSequence p));
            raw = raw[26 := of_nat (length (pg_Segments p))];
            raw = copy_at raw 27 headerLen (pg_Segments p);
            raw = copy_at raw headerLen (length raw) (pg_Payload p);
            checksum = oggCRC raw
        in Inr (copy_at raw 22 26 (put_u32 checksum)))"

section \<open>Parsing\<close>

definition parsePagePrefix :: "bytes \<Rightarrow> ogg_error + Page \<times> nat" where
  "parsePagePrefix raw =
     (if length raw < pageHeaderSize then Inl (ErrTooShortHeader (length raw))
      else if take 4 raw \<noteq> CapturePattern then Inl (ErrCapturePattern (take 4 raw))
      else if raw ! 4 \<noteq> 0 then Inl (ErrPageVersion (raw ! 4))
      else
        let segCount = unat (raw ! 26); headerLen = pageHeaderSize + segCount in
        if length raw < headerLen then Inl (ErrTruncatedSegmentTable (length raw) headerLen)
        else
          let payloadLen = segment_sum (go_slice raw 27 headerLen); totalLen = headerLen + payloadLen in
          if length raw < totalLen then Inl (ErrTruncatedPayload (length raw) totalLen)
          else
            let pageBytes = take totalLen raw;
                wantChecksum = get_u32 (go_slice pageBytes 22 26);
                checksumInput = pageBytes[22 := 0, 23 := 0, 24 := 0, 25 := 0];
                gotChecksum = oggCRC checksumInput in
            if gotChecksum \<noteq> wantChecksum then Inl (ErrChecksum wantChecksum gotChecksum)
            else
              let p = \<lparr>pg_Version = pageBytes ! 4, pg_HeaderType = pageBytes ! 5,
                       pg_GranulePosition = get_u64 (go_slice pageBytes 6 14),
                       pg_BitstreamSerial = get_u32 (go_slice pageBytes 14 18),
                       pg_PageSequence = get_u32 (go_slice pageBytes 18 22),
                       pg_Checksum = wantChecksum,
                       pg_Segments = go_slice pageBytes 27 headerLen,
                       pg_Payload = go_slice pageBytes headerLen totalLen\<rparr> in
              (case Page_Validate (Some p) of
                 Some err \<Rightarrow> Inl (ErrParsePage err)
               | None \<Rightarrow> Inr (p, totalLen)))"

definition ParsePage :: "bytes \<Rightarrow> ogg_error + Page" where
  "ParsePage raw =
     (case parsePagePrefix raw of Inl err \<Rightarrow> Inl err
      | Inr (p, consumed) \<Rightarrow>
        if consumed \<noteq> length raw then Inl (ErrTrailingData (length raw - consumed)) else Inr p)"

text \<open>A page takes at least the size of its header.\<close>

lemma parsePagePrefix_consumed:
  "parsePagePrefix raw = Inr (p, n) \<Longrightarrow> pageHeaderSize \<le> n \<and> n \<le> length raw"
  by (auto simp: parsePagePrefix_def Let_def split: if_splits option.splits)

function ParsePages_loop :: "nat \<Rightarrow> bytes \<Rightarrow> ogg_error + Page list" where
  "ParsePages_loop offset stream =
     (if offset < length stream then
        (case parsePagePrefix (drop offset stream) of
           Inl err \<Rightarrow> Inl (ErrParsePages offset err)
         | Inr (p, consumed) \<Rightarrow>
             (case ParsePages_loop (offset + consumed) stream of
                Inl err \<Rightarrow> Inl err
              | Inr pages \<Rightarrow> Inr (p # pages)))
      else Inr [])"
  by pat_completeness auto
termination
proof (relation "measure (\<lambda>(offset, stream). length stream - offset)", simp)
  fix offset :: nat and stream x2 and p :: Page and consumed
  assume "offset < length stream" "parsePagePrefix (drop offset stream) = Inr x2" "(p, consumed) = x2"
  then show "((offset + consumed, stream), (offset, stream)) \<in> measure (\<lambda>(offset, stream). length stream - offset)"
    using parsePagePrefix_consumed [of "drop offset stream" p consumed] by (auto simp: pageHeaderSize_def)
qed

declare ParsePages_loop.simps [simp del]

definition ParsePages :: "bytes \<Rightarrow> ogg_error + Page list" where
  "ParsePages stream = (if length stream = 0 then Inr [] else ParsePages_loop 0 stream)"

section \<open>The layout in closed form\<close>

text \<open>The bytes of a page with the checksum \<open>c\<close>.\<close>

definition page_bytes :: "Page \<Rightarrow> u32 \<Rightarrow> bytes" where
  "page_bytes p c =
     CapturePattern @ [pg_Version p, pg_HeaderType p] @ put_u64 (pg_GranulePosition p)
     @ put_u32 (pg_BitstreamSerial p) @ put_u32 (pg_PageSequence p) @ put_u32 c
     @ [of_nat (length (pg_Segments p))] @ pg_Segments p @ pg_Payload p"

definition page_crc :: "Page \<Rightarrow> u32" where "page_crc p = oggCRC (page_bytes p 0)"

lemma put_u32_0: "put_u32 0 = [0, 0, 0, 0]"
  by (simp add: put_u32_def)

lemma segment_sum_Nil [simp]: "segment_sum [] = 0"
  by (simp add: segment_sum_def)

lemma foldl_segment_sum: "foldl (\<lambda>n seg. n + unat seg) a segs = a + segment_sum segs"
proof (induction segs arbitrary: a)
  case (Cons s segs)
  show ?case using Cons.IH [of "a + unat s"] Cons.IH [of "0 + unat s"] by (simp add: segment_sum_def)
qed simp

lemma segment_sum_Cons [simp]: "segment_sum (s # segs) = unat s + segment_sum segs"
  using foldl_segment_sum [of "unat s" segs] by (simp add: segment_sum_def)

lemma segment_sum_append [simp]: "segment_sum (a @ b) = segment_sum a + segment_sum b"
  by (induction a) simp_all

lemma MarshalBinary_eq:
  assumes "Page_Validate (Some p) = None"
  shows "MarshalBinary (Some p) = Inr (page_bytes p (page_crc p))"
proof -
  let ?n = "length (pg_Segments p)" and ?m = "length (pg_Payload p)"
  have m0: "replicate (pageHeaderSize + ?n + ?m) (0::u8) =
     [0,0,0,0] @ [0,0] @ replicate 8 0 @ replicate 4 0 @ replicate 4 0 @ replicate 4 0 @ [0] @
     replicate ?n 0 @ replicate ?m 0"
    by (simp add: pageHeaderSize_def replicate_add add.commute [of _ 27] eval_nat_numeral)
  have cp: "copy_at (pre @ mid @ post) i j src = pre @ src @ post"
    if "length pre = i" "i + length mid = j" "length src = length mid" for pre mid post src :: bytes and i j
    using that by (simp add: copy_at_block go_copy_same_length)
  let ?V = "[pg_Version p, pg_HeaderType p]" and ?C = CapturePattern
  let ?g = "put_u64 (pg_GranulePosition p)" and ?s = "put_u32 (pg_BitstreamSerial p)"
    and ?q = "put_u32 (pg_PageSequence p)"
  have r1: "copy_at ([0,0,0,0] @ A) 0 4 ?C = ?C @ A" for A
    using cp [of "[]" 0 "[0,0,0,0]" 4 ?C A] by (simp add: CapturePattern_def)
  have r2: "(?C @ [0,0] @ A)[4 := v, 5 := h] = ?C @ [v, h] @ A" for A :: bytes and v h
    by (simp add: CapturePattern_def)
  have r3: "copy_at (?C @ ?V @ replicate 8 0 @ A) 6 14 ?g = ?C @ ?V @ ?g @ A" for A
    using cp [of "?C @ ?V" 6 "replicate 8 0" 14 ?g A] by (simp add: CapturePattern_def)
  have r4: "copy_at (?C @ ?V @ ?g @ replicate 4 0 @ A) 14 18 ?s = ?C @ ?V @ ?g @ ?s @ A" for A
    using cp [of "?C @ ?V @ ?g" 14 "replicate 4 0" 18 ?s A] by (simp add: CapturePattern_def)
  have r5: "copy_at (?C @ ?V @ ?g @ ?s @ replicate 4 0 @ A) 18 22 ?q = ?C @ ?V @ ?g @ ?s @ ?q @ A" for A
    using cp [of "?C @ ?V @ ?g @ ?s" 18 "replicate 4 0" 22 ?q A] by (simp add: CapturePattern_def)
  have r6: "(?C @ ?V @ ?g @ ?s @ ?q @ replicate 4 0 @ [0] @ A)[26 := x] =
      ?C @ ?V @ ?g @ ?s @ ?q @ replicate 4 0 @ [x] @ A" for A :: bytes and x
    by (simp add: CapturePattern_def list_update_append)
  have r7: "copy_at (?C @ ?V @ ?g @ ?s @ ?q @ replicate 4 0 @ [x] @ replicate ?n 0 @ A) 27
      (pageHeaderSize + ?n) (pg_Segments p) =
      ?C @ ?V @ ?g @ ?s @ ?q @ replicate 4 0 @ [x] @ pg_Segments p @ A" for A x
    using cp [of "?C @ ?V @ ?g @ ?s @ ?q @ replicate 4 0 @ [x]" 27 "replicate ?n 0" "pageHeaderSize + ?n"
        "pg_Segments p" A]
    by (simp add: CapturePattern_def pageHeaderSize_def)
  have r8: "copy_at (?C @ ?V @ ?g @ ?s @ ?q @ replicate 4 0 @ [x] @ pg_Segments p @ replicate ?m 0)
      (pageHeaderSize + ?n) (length (?C @ ?V @ ?g @ ?s @ ?q @ replicate 4 0 @ [x] @ pg_Segments p @ replicate ?m 0))
      (pg_Payload p) =
      ?C @ ?V @ ?g @ ?s @ ?q @ put_u32 0 @ [x] @ pg_Segments p @ pg_Payload p" for x
    using cp [of "?C @ ?V @ ?g @ ?s @ ?q @ replicate 4 0 @ [x] @ pg_Segments p" "pageHeaderSize + ?n"
        "replicate ?m 0" "pageHeaderSize + ?n + ?m" "pg_Payload p" "[]"]
    by (simp add: CapturePattern_def pageHeaderSize_def put_u32_0 eval_nat_numeral)
  have r9: "copy_at (?C @ ?V @ ?g @ ?s @ ?q @ put_u32 0 @ A) 22 26 (put_u32 c) = ?C @ ?V @ ?g @ ?s @ ?q @ put_u32 c @ A"
    for A c
    using cp [of "?C @ ?V @ ?g @ ?s @ ?q" 22 "put_u32 0" 26 "put_u32 c" A] by (simp add: CapturePattern_def)
  show ?thesis
    unfolding MarshalBinary_def assms option.case option.sel Let_def m0 r1 r2 r3 r4 r5 r6 r7 r8 r9
      page_crc_def page_bytes_def ..
qed

section \<open>Parsing and serialising\<close>

lemma length_page_bytes: "length (page_bytes p c) = 27 + length (pg_Segments p) + length (pg_Payload p)"
  by (simp add: page_bytes_def CapturePattern_def)

lemma Page_Validate_None:
  "Page_Validate (Some p) = None \<longleftrightarrow>
     pg_Version p = 0 \<and> pg_HeaderType p AND NOT (HeaderTypeContinued OR HeaderTypeBOS OR HeaderTypeEOS) = 0 \<and>
     length (pg_Segments p) \<le> 255 \<and> segment_sum (pg_Segments p) = length (pg_Payload p)"
  by (auto simp: Page_Validate_def maxPageSegments_def)

lemma Page_Validate_Checksum [simp]:
  "Page_Validate (Some (p\<lparr>pg_Checksum := c\<rparr>)) = Page_Validate (Some p)"
  by (simp add: Page_Validate_def)

lemma page_bytes_Checksum [simp]: "page_bytes (p\<lparr>pg_Checksum := c\<rparr>) x = page_bytes p x"
  by (simp add: page_bytes_def)

lemma page_crc_Checksum [simp]: "page_crc (p\<lparr>pg_Checksum := c\<rparr>) = page_crc p"
  by (simp add: page_crc_def)

lemma header_fields:
  fixes p :: Page
  defines "raw c rest \<equiv> page_bytes p c @ rest"
  shows "take 4 (raw c rest) = CapturePattern" "raw c rest ! 4 = pg_Version p" "raw c rest ! 5 = pg_HeaderType p"
    "go_slice (raw c rest) 6 14 = put_u64 (pg_GranulePosition p)"
    "go_slice (raw c rest) 14 18 = put_u32 (pg_BitstreamSerial p)"
    "go_slice (raw c rest) 18 22 = put_u32 (pg_PageSequence p)"
    "go_slice (raw c rest) 22 26 = put_u32 c"
    "raw c rest ! 26 = of_nat (length (pg_Segments p))"
    "drop 27 (raw c rest) = pg_Segments p @ pg_Payload p @ rest"
    "(raw c rest)[22 := 0, 23 := 0, 24 := 0, 25 := 0] = raw 0 rest"
  by (simp_all add: raw_def page_bytes_def CapturePattern_def go_slice_def put_u32_def put_u64_def eval_nat_numeral)

lemma parse_page_bytes:
  assumes v: "Page_Validate (Some p) = None"
  shows "parsePagePrefix (page_bytes p (page_crc p) @ rest) =
     Inr (p\<lparr>pg_Checksum := page_crc p\<rparr>, length (page_bytes p (page_crc p)))"
proof -
  let ?b = "page_bytes p (page_crc p)" and ?n = "length (pg_Segments p)" and ?m = "length (pg_Payload p)"
  have n: "unat (of_nat ?n :: u8) = ?n" "?n \<le> 255" and sum: "segment_sum (pg_Segments p) = ?m"
    and ver: "pg_Version p = 0"
    using v by (auto simp: Page_Validate_None unat_of_nat)
  note h = header_fields [of p "page_crc p" rest] header_fields [of p "page_crc p" "[]", simplified]
  have len: "length (?b @ rest) = 27 + ?n + ?m + length rest" "length ?b = 27 + ?n + ?m"
    by (simp_all add: length_page_bytes)
  have sl: "go_slice xs i j = take (j - i) (drop i xs)" for xs :: bytes and i j
    by (simp add: go_slice_def drop_take)
  have segs: "go_slice (?b @ rest) 27 (27 + ?n) = pg_Segments p" "go_slice ?b 27 (27 + ?n) = pg_Segments p"
    unfolding sl h(9,19) by simp_all
  have pay: "go_slice ?b (27 + ?n) (27 + ?n + ?m) = pg_Payload p"
    unfolding sl using h(19) by (simp add: drop_drop [symmetric] add.commute [of 27] del: drop_drop)
  have rec: "\<lparr>pg_Version = 0, pg_HeaderType = pg_HeaderType p, pg_GranulePosition = pg_GranulePosition p,
      pg_BitstreamSerial = pg_BitstreamSerial p, pg_PageSequence = pg_PageSequence p,
      pg_Checksum = page_crc p, pg_Segments = pg_Segments p, pg_Payload = pg_Payload p\<rparr> =
      p\<lparr>pg_Checksum := page_crc p\<rparr>"
    using ver by (cases p) simp
  have tk: "take (27 + ?n + ?m) (?b @ rest) = ?b" using len(2) by simp
  show ?thesis
    unfolding parsePagePrefix_def Let_def h(1,2,8) n(1) pageHeaderSize_def segs sum tk h(12-20) ver pay
      page_crc_def [symmetric] get_put_u32_exact get_put_u64_exact rec
    using v len by simp
qed

lemma split_header:
  fixes raw :: bytes
  assumes "27 \<le> length raw"
  shows "raw = take 4 raw @ [raw ! 4, raw ! 5] @ go_slice raw 6 14 @ go_slice raw 14 18 @ go_slice raw 18 22 @
     go_slice raw 22 26 @ [raw ! 26] @ drop 27 raw"
proof -
  have sl: "go_slice raw i j = take (j - i) (drop i raw)" for i j by (simp add: go_slice_def drop_take)
  have nth: "[raw ! i] = take 1 (drop i raw)" if "i < 27" for i
    using that assms by (simp add: take_Suc_conv_app_nth hd_drop_conv_nth take_Suc)
  have two: "[raw ! 4, raw ! 5] = take 2 (drop 4 raw)"
    using nth [of 4] nth [of 5] assms by (simp add: numeral_2_eq_2 take_Suc hd_drop_conv_nth drop_Suc [symmetric] tl_drop)
  have step: "take k (drop i raw) @ drop (i + k) raw = drop i raw" for i k
    by (metis add.commute append_take_drop_id drop_drop)
  show ?thesis
    unfolding sl nth [of 26, simplified] two
    using step [of 1 26] step [of 4 22] step [of 4 18] step [of 4 14] step [of 8 6] step [of 2 4] by simp
qed

lemma parse_inv:
  assumes "parsePagePrefix raw = Inr (p, n)"
  shows "n \<le> length raw" "Page_Validate (Some p) = None" "pg_Checksum p = page_crc p"
    "take n raw = page_bytes p (page_crc p)"
proof -
  let ?h = "27 + unat (raw ! 26)"
  let ?s = "go_slice raw 27 ?h"
  let ?t = "?h + segment_sum ?s"
  let ?b = "take ?t raw"
  let ?z = "?b[22 := 0, 23 := 0, 24 := 0, 25 := 0]"
  from assms have len: "27 \<le> length raw" "?h \<le> length raw" "?t \<le> length raw" and cp: "take 4 raw = CapturePattern"
    and ver: "raw ! 4 = 0" and crc: "oggCRC ?z = get_u32 (go_slice ?b 22 26)"
    and p: "p = \<lparr>pg_Version = ?b ! 4, pg_HeaderType = ?b ! 5, pg_GranulePosition = get_u64 (go_slice ?b 6 14),
                 pg_BitstreamSerial = get_u32 (go_slice ?b 14 18), pg_PageSequence = get_u32 (go_slice ?b 18 22),
                 pg_Checksum = get_u32 (go_slice ?b 22 26), pg_Segments = go_slice ?b 27 ?h,
                 pg_Payload = go_slice ?b ?h ?t\<rparr>"
    and n: "n = ?t" and v: "Page_Validate (Some p) = None"
    by (auto simp: parsePagePrefix_def Let_def pageHeaderSize_def split: if_splits option.splits)
  show "n \<le> length raw" "Page_Validate (Some p) = None" using len n v by auto
  have lb: "length ?b = ?t" using len by simp
  have segs: "go_slice ?b 27 ?h = ?s" by (simp add: go_slice_def min_def)
  have ls: "length (pg_Segments p) = unat (raw ! 26)" using len by (simp add: p segs)
  have d27: "drop 27 ?b = pg_Segments p @ pg_Payload p"
  proof -
    have sl: "go_slice xs i j = take (j - i) (drop i xs)" for xs :: bytes and i j
      by (simp add: go_slice_def drop_take)
    have s: "pg_Segments p = take (unat (raw ! 26)) (drop 27 ?b)" unfolding p by (simp add: sl)
    have "pg_Payload p = go_slice ?b ?h (length ?b)" unfolding lb by (simp add: p)
    also have "\<dots> = drop ?h ?b" by (simp only: go_slice_def take_all order_refl)
    also have "\<dots> = drop (unat (raw ! 26)) (drop 27 ?b)" by (simp only: drop_drop add.commute)
    finally show ?thesis using s by (metis append_take_drop_id)
  qed
  have b: "?b = page_bytes p (pg_Checksum p)"
  proof -
    have "?b = take 4 ?b @ [?b ! 4, ?b ! 5] @ go_slice ?b 6 14 @ go_slice ?b 14 18 @ go_slice ?b 18 22 @
        go_slice ?b 22 26 @ [?b ! 26] @ drop 27 ?b"
      by (rule split_header) (use len in simp)
    also have "\<dots> = page_bytes p (pg_Checksum p)"
      unfolding page_bytes_def d27 using cp len ls
      by (simp add: p put_get_u32 put_get_u64)
    finally show ?thesis .
  qed
  have "?z = page_bytes p 0"
    using header_fields(10) [of p "pg_Checksum p" "[]"] b by simp
  then show c: "pg_Checksum p = page_crc p" using crc by (simp add: p page_crc_def)
  show "take n raw = page_bytes p (page_crc p)" using b c n by simp
qed

lemma ParsePage_iff:
  "ParsePage raw = Inr p \<longleftrightarrow> parsePagePrefix raw = Inr (p, length raw)"
  by (auto simp: ParsePage_def split: sum.splits if_splits)

lemma ParsePage_bytes:
  "Page_Validate (Some p) = None \<Longrightarrow>
   ParsePage (page_bytes p (page_crc p)) = Inr (p\<lparr>pg_Checksum := page_crc p\<rparr>)"
  using parse_page_bytes [of p "[]"] by (simp add: ParsePage_iff)

lemma ParsePage_inv:
  "ParsePage raw = Inr p \<Longrightarrow>
     raw = page_bytes p (page_crc p) \<and> pg_Checksum p = page_crc p \<and> Page_Validate (Some p) = None"
  using parse_inv [of raw p "length raw"] by (simp add: ParsePage_iff)

text \<open>
  C1: Parsing and serialising are inverse to each other: what is serialised from a valid page parses
  to that page with its checksum filled in, and what parses is the serialisation of the page it
  parses to. Exactly the valid pages are serialised.
\<close>

theorem ogg_page_codec:
  "MarshalBinary (Some p) = Inr raw \<longleftrightarrow>
     Page_Validate (Some p) = None \<and> ParsePage raw = Inr (p\<lparr>pg_Checksum := page_crc p\<rparr>)"
proof
  assume m: "MarshalBinary (Some p) = Inr raw"
  then have v: "Page_Validate (Some p) = None" by (auto simp: MarshalBinary_def split: option.splits)
  then show "Page_Validate (Some p) = None \<and> ParsePage raw = Inr (p\<lparr>pg_Checksum := page_crc p\<rparr>)"
    using m ParsePage_bytes [OF v] by (simp add: MarshalBinary_eq)
next
  assume "Page_Validate (Some p) = None \<and> ParsePage raw = Inr (p\<lparr>pg_Checksum := page_crc p\<rparr>)"
  then show "MarshalBinary (Some p) = Inr raw"
    using ParsePage_inv [of raw "p\<lparr>pg_Checksum := page_crc p\<rparr>"] by (simp add: MarshalBinary_eq)
qed

text \<open>Of a parsed page the checksum covers every byte but its own four.\<close>

lemma ParsePage_checksum:
  assumes "ParsePage raw = Inr p"
  shows "27 \<le> length raw" "oggCRC (raw[22 := 0, 23 := 0, 24 := 0, 25 := 0]) = get_u32 (go_slice raw 22 26)"
proof -
  have raw: "raw = page_bytes p (page_crc p)" using ParsePage_inv [OF assms] by simp
  show "27 \<le> length raw" by (subst raw) (simp add: length_page_bytes)
  show "oggCRC (raw[22 := 0, 23 := 0, 24 := 0, 25 := 0]) = get_u32 (go_slice raw 22 26)"
    using header_fields(7,10) [of p "page_crc p" "[]"] raw by (simp add: page_crc_def)
qed

lemma get_u32_inject: "length a = 4 \<Longrightarrow> length b = 4 \<Longrightarrow> get_u32 a = get_u32 b \<Longrightarrow> a = b"
  by (metis put_get_u32)

lemma update_checksum_field:
  assumes "22 \<le> i" "i < 26"
  shows "raw[i := b, 22 := 0, 23 := 0, 24 := 0, 25 := 0] = raw[22 := 0, 23 := 0, 24 := 0, 25 := (0::u8)]"
proof -
  from assms consider "i = 22" | "i = 23" | "i = 24" | "i = 25" by fastforce
  then show ?thesis by cases (simp_all add: list_update_swap)
qed

lemma go_slice_update_other: "i < a \<or> b \<le> i \<Longrightarrow> go_slice (xs[i := x]) a b = go_slice xs a b"
  by (auto simp: go_slice_def take_update_swap drop_update_swap list_update_beyond min_def)

text \<open>
  C2: A page in which one byte was changed, wherever it is, does not parse.
\<close>

theorem corrupted_page_rejected:
  assumes "ParsePage raw = Inr p" and "i < length raw" and "b \<noteq> raw ! i"
  shows "\<exists>e. ParsePage (raw[i := b]) = Inl e"
proof (rule ccontr)
  assume "\<nexists>e. ParsePage (raw[i := b]) = Inl e"
  then obtain q where q: "ParsePage (raw[i := b]) = Inr q"
    by (cases "ParsePage (raw[i := b])") auto
  note P = ParsePage_checksum [OF assms(1)] and Q = ParsePage_checksum [OF q]
  let ?z = "\<lambda>xs::bytes. xs[22 := 0, 23 := 0, 24 := 0, 25 := 0]"
  show False
  proof (cases "22 \<le> i \<and> i < 26")
    case True
    then have "get_u32 (go_slice (raw[i := b]) 22 26) = get_u32 (go_slice raw 22 26)"
      using P(2) Q(2) by (simp add: update_checksum_field)
    then have "go_slice (raw[i := b]) 22 26 ! (i - 22) = go_slice raw 22 26 ! (i - 22)"
      using get_u32_inject [of "go_slice (raw[i := b]) 22 26" "go_slice raw 22 26"] P(1) by simp
    then show False using True P(1) assms(3) by (simp add: go_slice_def)
  next
    case False
    then have "oggCRC ((?z raw)[i := b]) = oggCRC (?z raw)"
      using P(2) Q(2) by (auto simp: go_slice_update_other list_update_swap)
    then have "b = ?z raw ! i" by (rule oggCRC_one_byte [rotated]) (use assms(2) in simp)
    then show False using False assms(3) by (auto simp: nth_list_update split: if_splits)
  qed
qed

definition sample_page :: Page where
  "sample_page = \<lparr>pg_Version = 0, pg_HeaderType = 2, pg_GranulePosition = 7, pg_BitstreamSerial = 9,
     pg_PageSequence = 0, pg_Checksum = 0, pg_Segments = [2], pg_Payload = [1, 2]\<rparr>"

lemma sample_page_valid: "Page_Validate (Some sample_page) = None"
  by (simp add: Page_Validate_None sample_page_def ogg_consts)

theorem corrupted_page_rejected_witness:
  "\<exists>e. ParsePage ((page_bytes sample_page (page_crc sample_page))[26 := 2]) = Inl e"
  by (rule corrupted_page_rejected [OF ParsePage_bytes [OF sample_page_valid]])
    (simp_all add: page_bytes_def sample_page_def CapturePattern_def put_u32_def put_u64_def)

end
