(* ===== verification/OggPacket.thy ===== *)
theory OggPacket
  imports OggPage
begin

text \<open>
  Logical packets, \<^verbatim>\<open>pkgs/audio/codec/ogg/packet.go\<close>: a packet is laced into segments of 255 bytes,
  the last one shorter, and cut into pages of at most 255 segments; the packets are collected
  again from pages in order.
\<close>

record Packet =
  pk_Data :: bytes
  pk_GranulePosition :: u64
  pk_BOS :: bool
  pk_EOS :: bool

section \<open>From packets to pages\<close>

function lacing_loop :: "nat \<Rightarrow> bytes" where
  "lacing_loop remain =
     (if maxSegmentSize \<le> remain then of_nat maxSegmentSize # lacing_loop (remain - maxSegmentSize)
      else [of_nat remain])"
  by pat_completeness auto
termination by (relation "measure id") (simp_all add: maxSegmentSize_def)

declare lacing_loop.simps [simp del]

definition packetLacing :: "int \<Rightarrow> ogg_error + bytes" where
  "packetLacing packetLen =
     (if packetLen < 0 then Inl (ErrNegativeLength packetLen) else Inr (lacing_loop (nat packetLen)))"

text \<open>
  A page of \<^verbatim>\<open>BuildPacketPages\<close>; \<open>rest\<close> is \<^verbatim>\<open>segs[segOffset:]\<close> and \<open>off\<close> is \<^verbatim>\<open>payloadOffset\<close>.
\<close>

definition chunk_page ::
  "u32 \<Rightarrow> u32 \<Rightarrow> bytes \<Rightarrow> u64 \<Rightarrow> bool \<Rightarrow> bool \<Rightarrow> nat \<Rightarrow> nat \<Rightarrow> bytes \<Rightarrow> Page" where
  "chunk_page serial sequence packet granulePos bos eos idx off rest =
     (let chunkSegs = take maxPageSegments rest;
          payload = go_slice packet off (off + segment_sum chunkSegs);
          headerType = (if idx > 0 then HeaderTypeContinued else 0);
          headerType = (if idx = 0 \<and> bos then headerType OR HeaderTypeBOS else headerType);
          isLast = (length rest \<le> maxPageSegments);
          headerType = (if isLast \<and> eos then headerType OR HeaderTypeEOS else headerType)
      in \<lparr>pg_Version = 0, pg_HeaderType = headerType,
          pg_GranulePosition = (if isLast then granulePos else GranulePositionUnknown),
          pg_BitstreamSerial = serial, pg_PageSequence = sequence + of_nat idx,
          pg_Checksum = 0, pg_Segments = chunkSegs, pg_Payload = payload\<rparr>)"

text \<open>The loop; \<^verbatim>\<open>payloadOffset\<close> is returned with the pages.\<close>

function build_loop ::
  "u32 \<Rightarrow> u32 \<Rightarrow> bytes \<Rightarrow> u64 \<Rightarrow> bool \<Rightarrow> bool \<Rightarrow> nat \<Rightarrow> nat \<Rightarrow> bytes \<Rightarrow> ogg_error + Page list \<times> nat" where
  "build_loop serial sequence packet granulePos bos eos idx off rest =
     (if rest = [] then Inr ([], off)
      else
        let chunkPayloadLen = segment_sum (take maxPageSegments rest) in
        if off + chunkPayloadLen > length packet then
          Inl (ErrPayloadOverflow off chunkPayloadLen (length packet))
        else
          let p = chunk_page serial sequence packet granulePos bos eos idx off rest in
          (case Page_Validate (Some p) of
             Some err \<Rightarrow> Inl (ErrBuildPages err)
           | None \<Rightarrow>
               (case build_loop serial sequence packet granulePos bos eos (idx + 1) (off + chunkPayloadLen)
                       (drop maxPageSegments rest) of
                  Inl err \<Rightarrow> Inl err
                | Inr (pages, off) \<Rightarrow> Inr (p # pages, off))))"
  by pat_completeness auto
termination
  by (relation "measure (\<lambda>(_, _, _, _, _, _, _, _, rest). length rest)") (simp_all add: maxPageSegments_def)

declare build_loop.simps [simp del]

definition BuildPacketPages ::
  "u32 \<Rightarrow> u32 \<Rightarrow> bytes \<Rightarrow> u64 \<Rightarrow> bool \<Rightarrow> bool \<Rightarrow> ogg_error + Page list" where
  "BuildPacketPages serial sequence packet granulePos bos eos =
     (case packetLacing (int (length packet)) of Inl err \<Rightarrow> Inl err
      | Inr segs \<Rightarrow>
        let pageCount = (length segs + maxPageSegments - 1) div maxPageSegments in
        if pageCount \<le> 0 then Inl (ErrPageCount pageCount)
        else if unat sequence + pageCount - 1 > 2 ^ 32 - 1 then Inl (ErrSequenceOverflow sequence pageCount)
        else case build_loop serial sequence packet granulePos bos eos 0 0 segs of
            Inl err \<Rightarrow> Inl err
          | Inr (pages, off) \<Rightarrow>
              if off \<noteq> length packet then Inl (ErrNotConsumed off (length packet)) else Inr pages)"

fun marshal_loop :: "nat \<Rightarrow> Page option list \<Rightarrow> ogg_error + bytes" where
  "marshal_loop idx [] = Inr []"
| "marshal_loop idx (p # pages) =
     (if p = None then Inl (ErrMarshalPages idx ErrPageNil)
      else case MarshalBinary p of
          Inl err \<Rightarrow> Inl (ErrMarshalPages idx err)
        | Inr raw \<Rightarrow>
            (case marshal_loop (idx + 1) pages of Inl err \<Rightarrow> Inl err | Inr out \<Rightarrow> Inr (raw @ out)))"

definition MarshalPages :: "Page option list \<Rightarrow> ogg_error + bytes" where
  "MarshalPages pages = marshal_loop 0 pages"

section \<open>From pages to packets\<close>

text \<open>The variables the loops carry: the bytes of the packet under way and what is known of it.\<close>

record extract_state =
  xs_buf :: bytes
  xs_expectingContinuation :: bool
  xs_currentPacketBOS :: bool

definition idle_state :: extract_state where
  "idle_state = \<lparr>xs_buf = [], xs_expectingContinuation = False, xs_currentPacketBOS = False\<rparr>"

text \<open>
  One segment: None when it overflows the payload; otherwise the packet it ends, if any, and the
  state and payload offset after it.
\<close>

definition extract_segment ::
  "Page \<Rightarrow> nat \<Rightarrow> nat \<Rightarrow> u8 \<Rightarrow> extract_state \<Rightarrow> (Packet option \<times> extract_state \<times> nat) option" where
  "extract_segment page segIdx off seg st =
     (let st = (if \<not> xs_expectingContinuation st \<and> length (xs_buf st) = 0
                then st\<lparr>xs_currentPacketBOS := HasBOS (Some page) \<and> segIdx = 0\<rparr> else st);
          chunkLen = unat seg in
      if off + chunkLen > length (pg_Payload page) then None
      else
        let st = (if chunkLen > 0
                  then st\<lparr>xs_buf := xs_buf st @ go_slice (pg_Payload page) off (off + chunkLen)\<rparr> else st);
            off = off + chunkLen in
        if unat seg < maxSegmentSize then
          Some (Some \<lparr>pk_Data = xs_buf st, pk_GranulePosition = pg_GranulePosition page,
                      pk_BOS = xs_currentPacketBOS st,
                      pk_EOS = HasEOS (Some page) \<and> int segIdx = int (length (pg_Segments page)) - 1\<rparr>,
                idle_state, off)
        else Some (None, st\<lparr>xs_expectingContinuation := True\<rparr>, off))"

text \<open>The loop over the segments of a page, in \<^verbatim>\<open>ExtractPackets\<close>.\<close>

fun extract_segments ::
  "Page \<Rightarrow> nat \<Rightarrow> nat \<Rightarrow> nat \<Rightarrow> bytes \<Rightarrow> extract_state \<Rightarrow> ogg_error + Packet list \<times> extract_state \<times> nat" where
  "extract_segments page pageIdx segIdx off [] st = Inr ([], st, off)"
| "extract_segments page pageIdx segIdx off (seg # segs) st =
     (case extract_segment page segIdx off seg st of
        None \<Rightarrow> Inl (ErrSegmentOverflow pageIdx segIdx off (unat seg) (length (pg_Payload page)))
      | Some (pkt, st, off) \<Rightarrow>
          (case extract_segments page pageIdx (segIdx + 1) off segs st of
             Inl err \<Rightarrow> Inl err
           | Inr (pkts, rest) \<Rightarrow> Inr ((case pkt of None \<Rightarrow> pkts | Some k \<Rightarrow> k # pkts), rest)))"

definition continuation_error :: "Page \<Rightarrow> nat \<Rightarrow> extract_state \<Rightarrow> ogg_error option" where
  "continuation_error page pageIdx st =
     (if HasContinuation (Some page) then
        (if \<not> xs_expectingContinuation st then Some (ErrUnexpectedContinuation pageIdx) else None)
      else if xs_expectingContinuation st then Some (ErrMissingContinuation pageIdx) else None)"

fun extract_pages ::
  "nat \<Rightarrow> extract_state \<Rightarrow> Page option list \<Rightarrow> ogg_error + Packet list \<times> extract_state" where
  "extract_pages pageIdx st [] = Inr ([], st)"
| "extract_pages pageIdx st (page # pages) =
     (case page of None \<Rightarrow> Inl (ErrExtractPage pageIdx ErrPageNil)
      | Some pg \<Rightarrow>
        (case Page_Validate page of Some err \<Rightarrow> Inl (ErrExtractPage pageIdx err)
         | None \<Rightarrow>
           (case continuation_error pg pageIdx st of Some err \<Rightarrow> Inl err
            | None \<Rightarrow>
              (case extract_segments pg pageIdx 0 0 (pg_Segments pg) st of Inl err \<Rightarrow> Inl err
               | Inr (pkts, st, off) \<Rightarrow>
                   if off \<noteq> length (pg_Payload pg) then
                     Inl (ErrTrailingPayload pageIdx off (length (pg_Payload pg)))
                   else (case extract_pages (pageIdx + 1) st pages of Inl err \<Rightarrow> Inl err
                         | Inr (rest, st) \<Rightarrow> Inr (pkts @ rest, st))))))"

definition ExtractPackets :: "Page option list \<Rightarrow> ogg_error + Packet list" where
  "ExtractPackets pages =
     (case extract_pages 0 idle_state pages of Inl err \<Rightarrow> Inl err
      | Inr (packets, st) \<Rightarrow>
          if xs_expectingContinuation st then Inl ErrUnterminatedPacket else Inr packets)"

section \<open>Lacing\<close>

lemma lacing_loop_eq:
  "lacing_loop n = replicate (n div 255) 255 @ [of_nat (n mod 255)]"
proof (induction n rule: lacing_loop.induct)
  case (1 n)
  show ?case
  proof (cases "255 \<le> n")
    case True
    then have "n div 255 = Suc ((n - 255) div 255)" "n mod 255 = (n - 255) mod 255"
      by (simp_all add: le_div_geq le_mod_geq)
    then show ?thesis using 1 True by (simp add: maxSegmentSize_def lacing_loop.simps [of n])
  next
    case False
    then show ?thesis by (simp add: maxSegmentSize_def lacing_loop.simps [of n])
  qed
qed

lemma segment_sum_replicate [simp]: "segment_sum (replicate k 255) = 255 * k"
  by (induction k) simp_all

section \<open>What is built is extracted\<close>

lemma slice_append_slice: "i \<le> j \<Longrightarrow> j \<le> k \<Longrightarrow> go_slice xs i j @ go_slice xs j k = go_slice xs i k"
proof -
  assume "i \<le> j" "j \<le> k"
  then have k: "k - i = (j - i) + (k - j)" by simp
  have "take (k - i) (drop i xs) = take (j - i) (drop i xs) @ take (k - j) (drop (j - i) (drop i xs))"
    unfolding k by (rule take_add)
  then show ?thesis using \<open>i \<le> j\<close> by (simp add: go_slice_def drop_take)
qed

text \<open>Whether the packet under way began a stream, as the loop sees it at segment \<open>i\<close>.\<close>

definition begins :: "Page \<Rightarrow> nat \<Rightarrow> extract_state \<Rightarrow> bool" where
  "begins page i st =
     (if \<not> xs_expectingContinuation st \<and> xs_buf st = [] then HasBOS (Some page) \<and> i = 0
      else xs_currentPacketBOS st)"

lemma extract_full_segment:
  "off + 255 \<le> length (pg_Payload page) \<Longrightarrow>
   extract_segment page i off 255 st =
     Some (None, \<lparr>xs_buf = xs_buf st @ go_slice (pg_Payload page) off (off + 255),
                  xs_expectingContinuation = True, xs_currentPacketBOS = begins page i st\<rparr>, off + 255)"
  by (cases st) (simp add: extract_segment_def begins_def maxSegmentSize_def)

lemma extract_last_segment:
  "r < 255 \<Longrightarrow> off + r \<le> length (pg_Payload page) \<Longrightarrow>
   extract_segment page i off (of_nat r) st =
     Some (Some \<lparr>pk_Data = xs_buf st @ go_slice (pg_Payload page) off (off + r),
             pk_GranulePosition = pg_GranulePosition page, pk_BOS = begins page i st,
             pk_EOS = HasEOS (Some page) \<and> int i = int (length (pg_Segments page)) - 1\<rparr>,
           idle_state, off + r)"
proof -
  assume r: "r < 255" and len: "off + r \<le> length (pg_Payload page)"
  have u: "unat (of_nat r :: u8) = r" using r by (simp add: unat_of_nat)
  show ?thesis using r len by (cases st) (cases "r = 0"; simp add: extract_segment_def begins_def maxSegmentSize_def u Let_def go_slice_def)
qed

lemma extract_full_segments:
  "off + 255 * k \<le> length (pg_Payload page) \<Longrightarrow>
   extract_segments page n i off (replicate k 255 @ segs) st =
     extract_segments page n (i + k) (off + 255 * k) segs
       (if k = 0 then st else
          \<lparr>xs_buf = xs_buf st @ go_slice (pg_Payload page) off (off + 255 * k),
           xs_expectingContinuation = True, xs_currentPacketBOS = begins page i st\<rparr>)"
proof (induction k arbitrary: i off st)
  case (Suc k)
  let ?st = "\<lparr>xs_buf = xs_buf st @ go_slice (pg_Payload page) off (off + 255),
              xs_expectingContinuation = True, xs_currentPacketBOS = begins page i st\<rparr>"
  have "extract_segments page n i off (replicate (Suc k) 255 @ segs) st =
      extract_segments page n (Suc i) (off + 255) (replicate k 255 @ segs) ?st"
    using Suc.prems by (simp add: extract_full_segment split: sum.split prod.split)
  also have "\<dots> = extract_segments page n (Suc i + k) (off + 255 + 255 * k) segs
      (if k = 0 then ?st else
          \<lparr>xs_buf = xs_buf ?st @ go_slice (pg_Payload page) (off + 255) (off + 255 + 255 * k),
           xs_expectingContinuation = True, xs_currentPacketBOS = begins page (Suc i) ?st\<rparr>)"
    by (rule Suc.IH) (use Suc.prems in simp)
  also have "begins page (Suc i) ?st = begins page i st" by (simp add: begins_def)
  finally show ?case
    using slice_append_slice [of off "off + 255" "off + 255 + 255 * k" "pg_Payload page"]
    by (cases "k = 0") (simp_all add: algebra_simps)
qed simp

definition under_way :: "nat \<Rightarrow> bytes \<Rightarrow> nat \<Rightarrow> bool \<Rightarrow> extract_state" where
  "under_way idx packet off bos =
     (if idx = 0 then idle_state
      else \<lparr>xs_buf = take off packet, xs_expectingContinuation = True, xs_currentPacketBOS = bos\<rparr>)"

lemma chunk_page_fields:
  fixes serial sequence packet g bos eos idx off rest
  defines "p \<equiv> chunk_page serial sequence packet g bos eos idx off rest"
  shows "pg_Segments p = take 255 rest" "pg_Checksum p = 0" "pg_Version p = 0"
    "pg_Payload p = go_slice packet off (off + segment_sum (take 255 rest))"
    "pg_GranulePosition p = (if length rest \<le> 255 then g else GranulePositionUnknown)"
    "pg_PageSequence p = sequence + of_nat idx" "pg_BitstreamSerial p = serial"
  by (simp_all add: p_def chunk_page_def Let_def maxPageSegments_def)

lemma chunk_page_header:
  fixes serial sequence packet g bos eos idx off rest
  defines "p \<equiv> chunk_page serial sequence packet g bos eos idx off rest"
  shows "HasContinuation (Some p) \<longleftrightarrow> idx > 0" "HasBOS (Some p) \<longleftrightarrow> idx = 0 \<and> bos"
    "HasEOS (Some p) \<longleftrightarrow> length rest \<le> 255 \<and> eos"
    "pg_HeaderType p AND NOT (HeaderTypeContinued OR HeaderTypeBOS OR HeaderTypeEOS) = 0"
  by (cases "idx > 0"; cases bos; cases "length rest \<le> 255"; cases eos;
      simp add: p_def chunk_page_def Let_def ogg_consts HasContinuation_def HasBOS_def HasEOS_def)+

lemma begins_under_way:
  "HasBOS (Some page) = (idx = 0 \<and> bos) \<Longrightarrow> begins page 0 (under_way idx packet off bos) = bos"
  by (simp add: begins_def under_way_def idle_state_def) 

lemma buf_under_way: "(idx = 0 \<Longrightarrow> off = 0) \<Longrightarrow> xs_buf (under_way idx packet off bos) = take off packet"
  by (simp add: under_way_def idle_state_def)

lemma expecting_under_way [simp]: "xs_expectingContinuation (under_way idx packet off bos) = (idx > 0)"
  by (simp add: under_way_def idle_state_def)

text \<open>
  The pages built from segment \<open>idx * 255\<close> on, extracted when the segments before them have been
  seen, end with the packet and leave nothing over.
\<close>

lemma build_extract:
  assumes "off + 255 * k + r = length packet" and "r < 255" and "idx = 0 \<Longrightarrow> off = 0"
  shows "\<exists>pages. build_loop serial sequence packet g bos eos idx off (replicate k 255 @ [of_nat r]) =
      Inr (pages, length packet) \<and>
    (\<forall>n. extract_pages n (under_way idx packet off bos) (map Some pages) =
       Inr ([\<lparr>pk_Data = packet, pk_GranulePosition = g, pk_BOS = bos, pk_EOS = eos\<rparr>], idle_state)) \<and>
    (\<forall>p \<in> set pages. Page_Validate (Some p) = None \<and> pg_Checksum p = 0) \<and>
    length pages = Suc (k div 255)"
  using assms
proof (induction k arbitrary: idx off rule: less_induct)
  case (less k)
  define rest :: bytes where "rest = replicate k 255 @ [of_nat r]"
  define p where "p = chunk_page serial sequence packet g bos eos idx off rest"
  let ?n = "segment_sum (take 255 rest)"
  let ?st = "under_way idx packet off bos"
  let ?pkt = "\<lparr>pk_Data = packet, pk_GranulePosition = g, pk_BOS = bos, pk_EOS = eos\<rparr>"
  note f = chunk_page_fields [of serial sequence packet g bos eos idx off rest, folded p_def]
  note h = chunk_page_header [of serial sequence packet g bos eos idx off rest, folded p_def]
  have lrest: "length rest = Suc k" by (simp add: rest_def)
  have r: "unat (of_nat r :: u8) = r" using less.prems(2) by (simp add: unat_of_nat)
  have n: "?n = (if k < 255 then 255 * k + r else 255 * 255)"
    using r by (simp add: rest_def min_def)
  have fits: "off + ?n \<le> length packet" using n less.prems(1) by (auto split: if_splits)
  have plen: "length (pg_Payload p) = ?n" using fits by (simp add: f del: take_append)
  have v: "Page_Validate (Some p) = None"
    using plen h(4) by (simp add: Page_Validate_None f del: take_append)
  have cont: "continuation_error p m ?st = None" for m
    using h(1) by (simp add: continuation_error_def)
  have bgn: "begins p 0 ?st = bos" by (rule begins_under_way [OF h(2)])
  have buf: "xs_buf ?st @ pg_Payload p = take (off + ?n) packet"
  proof -
    have "xs_buf ?st = take off packet" by (rule buf_under_way) (rule less.prems(3))
    then show ?thesis unfolding f(4) by (simp only: take_go_slice le_add1)
  qed
  have build: "build_loop serial sequence packet g bos eos idx off rest =
      (case build_loop serial sequence packet g bos eos (idx + 1) (off + ?n) (drop 255 rest) of
         Inl err \<Rightarrow> Inl err | Inr (pages, off) \<Rightarrow> Inr (p # pages, off))"
  proof -
    have "rest \<noteq> []" by (simp add: rest_def)
    then show ?thesis
      using fits v by (subst build_loop.simps) (simp add: Let_def maxPageSegments_def p_def [symmetric])
  qed
  have all: "go_slice (pg_Payload p) 0 ?n = pg_Payload p" using plen by (simp add: go_slice_def)
  show ?case
  proof (cases "k < 255")
    case True
    have k: "?n = 255 * k + r" "take 255 rest = rest" "drop 255 rest = []" using n True lrest by simp_all
    have seg: "extract_segments p m 0 0 (pg_Segments p) ?st = Inr ([?pkt], idle_state, ?n)" for m
    proof -
      let ?st' = "if k = 0 then ?st else
          \<lparr>xs_buf = xs_buf ?st @ go_slice (pg_Payload p) 0 (255 * k),
           xs_expectingContinuation = True, xs_currentPacketBOS = begins p 0 ?st\<rparr>"
      have "extract_segments p m 0 0 rest ?st = extract_segments p m k (255 * k) [of_nat r] ?st'"
        unfolding rest_def using extract_full_segments [of 0 k p m 0 "[of_nat r]" ?st] plen k(1) by simp
      moreover have "begins p k ?st' = bos"
      proof (cases "k = 0")
        case True
        then have "begins p k ?st' = begins p 0 ?st" by (simp only: if_True refl)
        then show ?thesis using bgn by (rule trans)
      next
        case False
        show ?thesis unfolding bgn using False by (simp add: begins_def)
      qed
      moreover have "xs_buf ?st' @ go_slice (pg_Payload p) (255 * k) (255 * k + r) = packet"
        using slice_append_slice [of 0 "255 * k" "255 * k + r" "pg_Payload p"] buf all k(1) less.prems(1)
        by (simp add: go_slice_def)
      moreover have "extract_segment p k (255 * k) (of_nat r) ?st' =
          Some (Some \<lparr>pk_Data = xs_buf ?st' @ go_slice (pg_Payload p) (255 * k) (255 * k + r),
             pk_GranulePosition = pg_GranulePosition p, pk_BOS = begins p k ?st',
             pk_EOS = HasEOS (Some p) \<and> int k = int (length (pg_Segments p)) - 1\<rparr>, idle_state, 255 * k + r)"
        by (rule extract_last_segment) (use less.prems(2) plen k(1) in simp_all)
      ultimately show ?thesis using k True h(3) f lrest by simp
    qed
    have "build_loop serial sequence packet g bos eos idx off rest = Inr ([p], off + ?n)"
      unfolding build k(3) by (simp add: build_loop.simps)
    then show ?thesis
      unfolding rest_def [symmetric] using v cont seg plen k(1) less.prems(1) True f(2)
      by (intro exI [of _ "[p]"]) (simp add: div_eq_0_iff)
  next
    case False
    have k: "?n = 255 * 255" "take 255 rest = replicate 255 255 @ []"
        "drop 255 rest = replicate (k - 255) 255 @ [of_nat r]"
      using n False by (simp_all add: rest_def min_def)
    have st: "under_way (idx + 1) packet (off + ?n) bos =
        \<lparr>xs_buf = xs_buf ?st @ pg_Payload p, xs_expectingContinuation = True, xs_currentPacketBOS = begins p 0 ?st\<rparr>"
      unfolding buf bgn by (simp add: under_way_def)
    have seg: "extract_segments p m 0 0 (pg_Segments p) ?st = Inr ([], under_way (idx + 1) packet (off + ?n) bos, ?n)" for m
      unfolding f(1) k(2) using extract_full_segments [of 0 255 p m 0 "[]" ?st] plen k(1) all st by simp
    have len': "off + ?n + 255 * (k - 255) + r = length packet"
      using less.prems(1) False k(1) by (simp add: diff_mult_distrib2)
    have "k - 255 < k" using False by simp
    then obtain pages where pages:
      "build_loop serial sequence packet g bos eos (idx + 1) (off + ?n) (replicate (k - 255) 255 @ [of_nat r]) =
         Inr (pages, length packet)"
      "\<And>m. extract_pages m (under_way (idx + 1) packet (off + ?n) bos) (map Some pages) = Inr ([?pkt], idle_state)"
      "\<forall>p \<in> set pages. Page_Validate (Some p) = None \<and> pg_Checksum p = 0"
      "length pages = Suc ((k - 255) div 255)"
      using less.IH [of "k - 255" "off + ?n" "idx + 1", OF _ len' less.prems(2)] by auto
    have "build_loop serial sequence packet g bos eos idx off rest = Inr (p # pages, length packet)"
      unfolding build k(3) pages(1) by simp
    then show ?thesis
      unfolding rest_def [symmetric] using v cont seg plen pages(2-4) False f(2)
      by (intro exI [of _ "p # pages"]) (simp add: le_div_geq del: take_append)
  qed
qed

text \<open>The number of pages a packet takes.\<close>

definition page_count :: "bytes \<Rightarrow> nat" where
  "page_count packet = Suc (length packet div 255 div 255)"

lemma BuildPacketPages_cases:
  obtains (overflow) "unat sequence + page_count packet > 2 ^ 32"
      "BuildPacketPages serial sequence packet g bos eos = Inl (ErrSequenceOverflow sequence (page_count packet))"
  | (built) pages where "unat sequence + page_count packet \<le> 2 ^ 32"
      "BuildPacketPages serial sequence packet g bos eos = Inr pages"
      "\<And>n. extract_pages n idle_state (map Some pages) =
         Inr ([\<lparr>pk_Data = packet, pk_GranulePosition = g, pk_BOS = bos, pk_EOS = eos\<rparr>], idle_state)"
      "\<forall>p \<in> set pages. Page_Validate (Some p) = None \<and> pg_Checksum p = 0"
      "length pages = page_count packet"
proof -
  let ?k = "length packet div 255" and ?r = "length packet mod 255"
  have l: "packetLacing (int (length packet)) = Inr (replicate ?k 255 @ [of_nat ?r])"
    by (simp add: packetLacing_def lacing_loop_eq)
  have n: "(length (replicate ?k (255::u8) @ [of_nat ?r]) + maxPageSegments - 1) div maxPageSegments = page_count packet"
    by (simp add: maxPageSegments_def page_count_def)
  have pos: "page_count packet > 0" by (simp add: page_count_def)
  obtain pages where p:
    "build_loop serial sequence packet g bos eos 0 0 (replicate ?k 255 @ [of_nat ?r]) = Inr (pages, length packet)"
    "\<And>n. extract_pages n (under_way 0 packet 0 bos) (map Some pages) =
       Inr ([\<lparr>pk_Data = packet, pk_GranulePosition = g, pk_BOS = bos, pk_EOS = eos\<rparr>], idle_state)"
    "\<forall>p \<in> set pages. Page_Validate (Some p) = None \<and> pg_Checksum p = 0"
    "length pages = Suc (?k div 255)"
    using build_extract [of 0 ?k ?r packet 0 serial sequence g bos eos] by auto
  have b: "BuildPacketPages serial sequence packet g bos eos =
      (if unat sequence + page_count packet - 1 > 2 ^ 32 - 1 then Inl (ErrSequenceOverflow sequence (page_count packet))
       else Inr pages)"
    unfolding BuildPacketPages_def l sum.case Let_def n p(1) using pos by simp
  show thesis
  proof (cases "unat sequence + page_count packet > 2 ^ 32")
    case True
    then show thesis using b by (intro overflow) simp_all
  next
    case False
    then show thesis
      using b p pos by (intro built [of pages]) (simp_all add: page_count_def under_way_def)
  qed
qed

lemma extract_pages_append:
  "extract_pages n st a = Inr (ps, st') \<Longrightarrow>
   extract_pages n st (a @ b) =
     (case extract_pages (n + length a) st' b of Inl err \<Rightarrow> Inl err | Inr (qs, st'') \<Rightarrow> Inr (ps @ qs, st''))"
proof (induction a arbitrary: n st ps)
  case (Cons p a)
  from Cons.prems obtain pg ps1 st1 ps2 where
    "p = Some pg" "Page_Validate p = None" "continuation_error pg n st = None"
    "extract_segments pg n 0 0 (pg_Segments pg) st = Inr (ps1, st1, length (pg_Payload pg))"
    and e: "extract_pages (n + 1) st1 a = Inr (ps2, st')" and ps: "ps = ps1 @ ps2"
    by (auto split: option.splits sum.splits prod.splits if_splits)
  then show ?case using Cons.IH [OF e] by (auto split: sum.split)
qed (simp split: sum.split)

end
