(* ===== verification/OggStream.thy ===== *)
theory OggStream
  imports OggPacket
begin

text \<open>
  Writing packets to a stream and reading them back, \<^verbatim>\<open>pkgs/audio/codec/ogg/stream_writer.go\<close> and
  \<^verbatim>\<open>stream_reader.go\<close>. The \<^verbatim>\<open>io.Writer\<close> is a function on a state, an \<^verbatim>\<open>io.Reader\<close> is the bytes it
  still has and the error it gives when they are used up. A nil writer is \<open>None\<close>.
\<close>

section \<open>The writer\<close>

type_synonym 'w io_writer = "bytes \<Rightarrow> 'w \<Rightarrow> (nat \<times> ogg_error option) \<times> 'w"

record 'w StreamWriter =
  sw_w :: "'w option"
  sw_serial :: u32
  sw_nextSequence :: u32
  sw_started :: bool
  sw_ended :: bool
  sw_broken :: bool

definition NewStreamWriter :: "'w option \<Rightarrow> u32 \<Rightarrow> ogg_error + 'w StreamWriter" where
  "NewStreamWriter w serial =
     (if w = None then Inl ErrWriterNil
      else Inr \<lparr>sw_w = w, sw_serial = serial, sw_nextSequence = 0, sw_started = False, sw_ended = False,
                sw_broken = False\<rparr>)"

definition NextSequence :: "'w StreamWriter option \<Rightarrow> u32" where
  "NextSequence sw = (case sw of None \<Rightarrow> 0 | Some s \<Rightarrow> sw_nextSequence s)"

text \<open>The loop over the pages of a packet: the bytes written and the error, and the writer after it.\<close>

fun write_pages ::
  "'w io_writer \<Rightarrow> nat \<Rightarrow> nat \<Rightarrow> Page list \<Rightarrow> 'w StreamWriter \<Rightarrow> (nat \<times> ogg_error option) \<times> 'w StreamWriter" where
  "write_pages wr idx written [] sw = ((written, None), sw)"
| "write_pages wr idx written (p # pages) sw =
     (case MarshalBinary (Some p) of
        Inl err \<Rightarrow> ((written, Some (ErrWriteMarshal idx err)), sw)
      | Inr raw \<Rightarrow>
          (case wr raw (the (sw_w sw)) of ((n, werr), w) \<Rightarrow>
             let sw = sw\<lparr>sw_w := Some w\<rparr>;
                 written = written + n;
                 sw = (if n = length raw
                       then sw\<lparr>sw_started := True, sw_nextSequence := sw_nextSequence sw + 1\<rparr> else sw) in
             (case werr of
                Some e \<Rightarrow>
                  ((written, Some (ErrWritePage idx e)), if n > 0 \<or> idx > 0 then sw\<lparr>sw_broken := True\<rparr> else sw)
              | None \<Rightarrow>
                  if n \<noteq> length raw then
                    ((written, Some (ErrShortWrite idx n (length raw))), sw\<lparr>sw_broken := True\<rparr>)
                  else write_pages wr (idx + 1) written pages sw)))"

definition WritePacket ::
  "'w io_writer \<Rightarrow> bytes \<Rightarrow> u64 \<Rightarrow> bool \<Rightarrow> 'w StreamWriter \<Rightarrow> (nat \<times> ogg_error option) \<times> 'w StreamWriter" where
  "WritePacket wr packet granulePos eos sw =
     (if sw_w sw = None then ((0, Some ErrWriterNil), sw)
      else if sw_broken sw then ((0, Some ErrBroken), sw)
      else if sw_ended sw then ((0, Some ErrEnded), sw)
      else
        let bos = (\<not> sw_started sw) in
        case BuildPacketPages (sw_serial sw) (sw_nextSequence sw) packet granulePos bos eos of
          Inl err \<Rightarrow> ((0, Some (ErrWritePacket err)), sw)
        | Inr pages \<Rightarrow>
            (case write_pages wr 0 0 pages sw of
               ((written, Some err), sw) \<Rightarrow> ((written, Some err), sw)
             | ((written, None), sw) \<Rightarrow> ((written, None), if eos then sw\<lparr>sw_ended := True\<rparr> else sw)))"

section \<open>The reader\<close>

text \<open>\<^verbatim>\<open>errors.Is\<close> follows the errors that \<^verbatim>\<open>%w\<close> wraps.\<close>

fun errors_Is :: "ogg_error \<Rightarrow> ogg_error \<Rightarrow> bool" where
  "errors_Is (ErrMarshalPage e) t = (ErrMarshalPage e = t \<or> errors_Is e t)"
| "errors_Is (ErrParsePage e) t = (ErrParsePage e = t \<or> errors_Is e t)"
| "errors_Is (ErrTruncatedHeader e) t = (ErrTruncatedHeader e = t \<or> errors_Is e t)"
| "errors_Is (ErrReadHeader e) t = (ErrReadHeader e = t \<or> errors_Is e t)"
| "errors_Is (ErrTruncatedSegments e) t = (ErrTruncatedSegments e = t \<or> errors_Is e t)"
| "errors_Is (ErrReadSegments e) t = (ErrReadSegments e = t \<or> errors_Is e t)"
| "errors_Is (ErrTruncatedRead e) t = (ErrTruncatedRead e = t \<or> errors_Is e t)"
| "errors_Is (ErrReadPayload e) t = (ErrReadPayload e = t \<or> errors_Is e t)"
| "errors_Is (ErrReadPage e) t = (ErrReadPage e = t \<or> errors_Is e t)"
| "errors_Is e t = (e = t)"

record reader =
  rd_data :: bytes
  rd_err :: ogg_error

text \<open>\<^verbatim>\<open>io.ReadFull\<close>.\<close>

definition ReadFull :: "nat \<Rightarrow> reader \<Rightarrow> (ogg_error + bytes) \<times> reader" where
  "ReadFull n r =
     (if n \<le> length (rd_data r) then (Inr (take n (rd_data r)), r\<lparr>rd_data := drop n (rd_data r)\<rparr>)
      else if rd_data r \<noteq> [] \<and> rd_err r = EOF then (Inl ErrUnexpectedEOF, r\<lparr>rd_data := []\<rparr>)
      else (Inl (rd_err r), r\<lparr>rd_data := []\<rparr>))"

definition NextPage :: "reader \<Rightarrow> (ogg_error + Page) \<times> reader" where
  "NextPage r =
     (case ReadFull pageHeaderSize r of
        (Inl err, r) \<Rightarrow>
          (Inl (if errors_Is err EOF then EOF
                else if errors_Is err ErrUnexpectedEOF then ErrTruncatedHeader err
                else ErrReadHeader err), r)
      | (Inr header, r) \<Rightarrow>
          (case ReadFull (unat (header ! 26)) r of
             (Inl err, r) \<Rightarrow>
               (Inl (if errors_Is err ErrUnexpectedEOF \<or> errors_Is err EOF then ErrTruncatedSegments err
                     else ErrReadSegments err), r)
           | (Inr segments, r) \<Rightarrow>
               (case ReadFull (segment_sum segments) r of
                  (Inl err, r) \<Rightarrow>
                    (Inl (if errors_Is err ErrUnexpectedEOF \<or> errors_Is err EOF then ErrTruncatedRead err
                          else ErrReadPayload err), r)
                | (Inr payload, r) \<Rightarrow>
                    (case ParsePage (header @ segments @ payload) of
                       Inl err \<Rightarrow> (Inl (ErrReadPage err), r)
                     | Inr page \<Rightarrow> (Inr page, r)))))"

text \<open>Every page that is read shortens the reader.\<close>

lemma ReadFull_length: "length (rd_data (snd (ReadFull n r))) \<le> length (rd_data r)"
  by (simp add: ReadFull_def)

lemma ReadFull_Inr:
  "ReadFull n r = (Inr bs, r') \<Longrightarrow>
     n \<le> length (rd_data r) \<and> bs = take n (rd_data r) \<and> r' = r\<lparr>rd_data := drop n (rd_data r)\<rparr>"
  by (auto simp: ReadFull_def split: if_splits)

lemma NextPage_Inr_length:
  assumes "NextPage r = (Inr page, r')"
  shows "length (rd_data r') < length (rd_data r)"
proof -
  from assms obtain h r1 s r2 d where r1: "ReadFull pageHeaderSize r = (Inr h, r1)"
    and r2: "ReadFull (unat (h ! 26)) r1 = (Inr s, r2)"
    and r3: "ReadFull (segment_sum s) r2 = (Inr d, r')"
    by (auto simp: NextPage_def split: prod.splits sum.splits)
  have "length (rd_data r1) < length (rd_data r)"
    using ReadFull_Inr [OF r1] by (auto simp: pageHeaderSize_def)
  moreover have "length (rd_data r2) \<le> length (rd_data r1)"
    using ReadFull_length [of "unat (h ! 26)" r1] r2 by simp
  moreover have "length (rd_data r') \<le> length (rd_data r2)"
    using ReadFull_length [of "segment_sum s" r2] r3 by simp
  ultimately show ?thesis by simp
qed

function ReadAllPages :: "reader \<Rightarrow> ogg_error + Page list" where
  "ReadAllPages r =
     (case NextPage r of
        (Inl err, r) \<Rightarrow> if errors_Is err EOF then Inr [] else Inl err
      | (Inr p, r) \<Rightarrow>
          (case ReadAllPages r of Inl err \<Rightarrow> Inl err | Inr pages \<Rightarrow> Inr (p # pages)))"
  by pat_completeness auto
termination
  by (relation "measure (\<lambda>r. length (rd_data r))") (auto dest: NextPage_Inr_length [OF sym])

declare ReadAllPages.simps [simp del]

definition ReadAllPackets :: "reader \<Rightarrow> ogg_error + Packet list" where
  "ReadAllPackets r =
     (case ReadAllPages r of Inl err \<Rightarrow> Inl err | Inr pages \<Rightarrow> ExtractPackets (map Some pages))"

text \<open>
  The iterator \<^verbatim>\<open>Packets\<close>: what it yields to a consumer that does not stop, the packets and then
  perhaps an error. A consumer that stops has seen a prefix.
\<close>

fun yield_segments ::
  "Page \<Rightarrow> nat \<Rightarrow> nat \<Rightarrow> nat \<Rightarrow> bytes \<Rightarrow> extract_state \<Rightarrow> Packet list \<times> (ogg_error + extract_state \<times> nat)" where
  "yield_segments page pageIdx segIdx off [] st = ([], Inr (st, off))"
| "yield_segments page pageIdx segIdx off (seg # segs) st =
     (case extract_segment page segIdx off seg st of
        None \<Rightarrow> ([], Inl (ErrSegmentOverflow pageIdx segIdx off (unat seg) (length (pg_Payload page))))
      | Some (pkt, st, off) \<Rightarrow>
          (case yield_segments page pageIdx (segIdx + 1) off segs st of
             (pkts, rest) \<Rightarrow> ((case pkt of None \<Rightarrow> pkts | Some k \<Rightarrow> k # pkts), rest)))"

function Packets_loop :: "reader \<Rightarrow> nat \<Rightarrow> extract_state \<Rightarrow> Packet list \<times> ogg_error option" where
  "Packets_loop r pageIdx st =
     (case NextPage r of
        (Inl err, r) \<Rightarrow>
          if errors_Is err EOF then
            ([], if xs_expectingContinuation st then Some ErrUnterminatedPacket else None)
          else ([], Some err)
      | (Inr page, r) \<Rightarrow>
          (case continuation_error page pageIdx st of Some err \<Rightarrow> ([], Some err)
           | None \<Rightarrow>
             (case yield_segments page pageIdx 0 0 (pg_Segments page) st of
                (pkts, Inl err) \<Rightarrow> (pkts, Some err)
              | (pkts, Inr (st, off)) \<Rightarrow>
                  if off \<noteq> length (pg_Payload page) then
                    (pkts, Some (ErrTrailingPayload pageIdx off (length (pg_Payload page))))
                  else (case Packets_loop r (pageIdx + 1) st of (rest, err) \<Rightarrow> (pkts @ rest, err)))))"
  by pat_completeness auto
termination
  by (relation "measure (\<lambda>(r, _, _). length (rd_data r))") (auto dest: NextPage_Inr_length [OF sym])

declare Packets_loop.simps [simp del]

definition Packets :: "reader \<Rightarrow> Packet list \<times> ogg_error option" where
  "Packets r = Packets_loop r 0 idle_state"

section \<open>Reading what was written\<close>

abbreviation encoded :: "Page \<Rightarrow> bytes" where "encoded p \<equiv> page_bytes p (page_crc p)"

abbreviation stamped :: "Page \<Rightarrow> Page" where "stamped p \<equiv> p\<lparr>pg_Checksum := page_crc p\<rparr>"

lemma valid_segments: "Page_Validate (Some p) = None \<Longrightarrow> unat (of_nat (length (pg_Segments p)) :: u8) = length (pg_Segments p)"
  by (simp add: Page_Validate_None unat_of_nat)

lemma NextPage_cut:
  assumes v: "Page_Validate (Some p) = None"
  shows "ReadFull pageHeaderSize \<lparr>rd_data = encoded p @ rest, rd_err = e\<rparr> =
      (Inr (take 27 (encoded p)), \<lparr>rd_data = pg_Segments p @ pg_Payload p @ rest, rd_err = e\<rparr>)"
    "unat (take 27 (encoded p) ! 26) = length (pg_Segments p)"
    "take 27 (encoded p) @ pg_Segments p @ pg_Payload p = encoded p"
proof -
  have n: "27 \<le> length (encoded p)" by (simp add: length_page_bytes)
  note d = header_fields(9) [of p "page_crc p"]
  have "take 27 (encoded p @ rest) = take 27 (encoded p)" using n by simp
  then show "ReadFull pageHeaderSize \<lparr>rd_data = encoded p @ rest, rd_err = e\<rparr> =
      (Inr (take 27 (encoded p)), \<lparr>rd_data = pg_Segments p @ pg_Payload p @ rest, rd_err = e\<rparr>)"
    using n d [of rest] by (simp add: ReadFull_def pageHeaderSize_def del: take_append drop_append)
  show "unat (take 27 (encoded p) ! 26) = length (pg_Segments p)"
    using header_fields(8) [of p "page_crc p" "[]"] valid_segments [OF v] by simp
  show "take 27 (encoded p) @ pg_Segments p @ pg_Payload p = encoded p"
    using d [of "[]"] append_take_drop_id [of 27 "encoded p"] by simp
qed

lemma NextPage_encoded:
  assumes v: "Page_Validate (Some p) = None"
  shows "NextPage \<lparr>rd_data = encoded p @ rest, rd_err = e\<rparr> = (Inr (stamped p), \<lparr>rd_data = rest, rd_err = e\<rparr>)"
proof -
  have sum: "segment_sum (pg_Segments p) = length (pg_Payload p)" using v by (simp add: Page_Validate_None)
  show ?thesis
    unfolding NextPage_def NextPage_cut(1) [OF v] prod.case sum.case NextPage_cut(2) [OF v]
    by (simp add: ReadFull_def sum NextPage_cut(3) [OF v] ParsePage_bytes [OF v])
qed

lemma ReadAllPages_encoded:
  "\<forall>p \<in> set pages. Page_Validate (Some p) = None \<Longrightarrow>
   ReadAllPages \<lparr>rd_data = concat (map encoded pages) @ rest, rd_err = e\<rparr> =
     (case ReadAllPages \<lparr>rd_data = rest, rd_err = e\<rparr> of
        Inl err \<Rightarrow> Inl err | Inr tl_pages \<Rightarrow> Inr (map stamped pages @ tl_pages))"
proof (induction pages)
  case (Cons p pages)
  then show ?case
    by (subst ReadAllPages.simps) (simp add: NextPage_encoded split: sum.split)
qed (simp split: sum.split)

lemma ReadAllPages_EOF: "ReadAllPages \<lparr>rd_data = [], rd_err = EOF\<rparr> = Inr []"
  by (subst ReadAllPages.simps) (simp add: NextPage_def ReadFull_def pageHeaderSize_def)

text \<open>
  C1: A stream that ends right behind the header of a page, or right behind its segment table, is
  read as if it had ended before that page: no error is reported. (The wrapped \<^verbatim>\<open>io.EOF\<close> is taken
  for the end of the stream.)
\<close>

theorem truncated_page_unnoticed:
  assumes "\<forall>p \<in> set pages. Page_Validate (Some p) = None" and "Page_Validate (Some q) = None"
    and "n = 27 \<and> pg_Segments q \<noteq> [] \<or> n = 27 + length (pg_Segments q) \<and> pg_Payload q \<noteq> []"
  shows "ReadAllPages \<lparr>rd_data = concat (map encoded pages) @ take n (encoded q), rd_err = EOF\<rparr> = Inr (map stamped pages)"
proof -
  note d = header_fields(9) [of q "page_crc q" "[]"]
  have len: "27 \<le> length (encoded q)" by (simp add: length_page_bytes)
  have sum: "segment_sum (pg_Segments q) = length (pg_Payload q)" using assms(2) by (simp add: Page_Validate_None)
  have hdr: "ReadFull pageHeaderSize \<lparr>rd_data = take (27 + k) (encoded q), rd_err = EOF\<rparr> =
      (Inr (take 27 (encoded q)), \<lparr>rd_data = take k (pg_Segments q @ pg_Payload q), rd_err = EOF\<rparr>)" for k
    using len d by (simp add: ReadFull_def pageHeaderSize_def drop_take)
  have "NextPage \<lparr>rd_data = take n (encoded q), rd_err = EOF\<rparr> =
      (Inl (if n = 27 then ErrTruncatedSegments EOF else ErrTruncatedRead EOF), \<lparr>rd_data = [], rd_err = EOF\<rparr>)"
    using assms(3)
  proof (elim disjE conjE)
    assume "n = 27" "pg_Segments q \<noteq> []"
    then show ?thesis
      using hdr [of 0] NextPage_cut(2) [OF assms(2)] by (simp add: NextPage_def ReadFull_def [of "length (pg_Segments q)"])
  next
    assume n: "n = 27 + length (pg_Segments q)" and p: "pg_Payload q \<noteq> []"
    then have s: "pg_Segments q \<noteq> []" using sum by auto
    show ?thesis
      using hdr [of "length (pg_Segments q)"] NextPage_cut(2) [OF assms(2)] n p s sum
      by (simp add: NextPage_def ReadFull_def [of "length _"])
  qed
  then have "ReadAllPages \<lparr>rd_data = take n (encoded q), rd_err = EOF\<rparr> = Inr []"
    by (subst ReadAllPages.simps) simp
  then show ?thesis using ReadAllPages_encoded [OF assms(1), of "take n (encoded q)" EOF] by simp
qed

theorem truncated_page_unnoticed_witness:
  "ReadAllPages \<lparr>rd_data = concat (map encoded [sample_page]) @ take 27 (encoded sample_page), rd_err = EOF\<rparr> =
     Inr (map stamped [sample_page])"
  by (rule truncated_page_unnoticed [where q = sample_page])
    (simp_all add: sample_page_valid, simp add: sample_page_def)

section \<open>Packets through a stream\<close>

text \<open>A \<^verbatim>\<open>bytes.Buffer\<close> as a writer: it takes everything.\<close>

definition append_writer :: "bytes io_writer" where
  "append_writer raw out = ((length raw, None), out @ raw)"

fun write_all ::
  "'w io_writer \<Rightarrow> (bytes \<times> u64 \<times> bool) list \<Rightarrow> 'w StreamWriter \<Rightarrow> ogg_error option \<times> 'w StreamWriter" where
  "write_all wr [] sw = (None, sw)"
| "write_all wr ((packet, granulePos, eos) # pkts) sw =
     (case WritePacket wr packet granulePos eos sw of
        ((_, Some err), sw) \<Rightarrow> (Some err, sw)
      | ((_, None), sw) \<Rightarrow> write_all wr pkts sw)"

text \<open>The packets as a reader is to see them: the first of a stream begins it.\<close>

fun as_read :: "bool \<Rightarrow> (bytes \<times> u64 \<times> bool) list \<Rightarrow> Packet list" where
  "as_read bos [] = []"
| "as_read bos ((packet, granulePos, eos) # pkts) =
     \<lparr>pk_Data = packet, pk_GranulePosition = granulePos, pk_BOS = bos, pk_EOS = eos\<rparr> # as_read False pkts"

lemma write_pages_append:
  "\<forall>p \<in> set pages. Page_Validate (Some p) = None \<Longrightarrow> sw_w sw = Some out \<Longrightarrow>
   write_pages append_writer idx written pages sw =
     ((written + length (concat (map encoded pages)), None),
      sw\<lparr>sw_w := Some (out @ concat (map encoded pages)), sw_started := (sw_started sw \<or> pages \<noteq> []),
         sw_nextSequence := sw_nextSequence sw + of_nat (length pages)\<rparr>)"
proof (induction pages arbitrary: idx written sw out)
  case (Cons p pages)
  then show ?case by (simp add: MarshalBinary_eq append_writer_def add.assoc Let_def)
qed simp

lemma WritePacket_pages:
  assumes w: "sw_w sw = Some out" and ok: "WritePacket append_writer packet g eos sw = ((n, None), sw')"
  shows "\<exists>pages. sw_w sw' = Some (out @ concat (map encoded pages)) \<and>
    (\<forall>p \<in> set pages. Page_Validate (Some p) = None) \<and> sw_started sw' \<and>
    (\<forall>n. extract_pages n idle_state (map Some pages) =
       Inr ([\<lparr>pk_Data = packet, pk_GranulePosition = g, pk_BOS = (\<not> sw_started sw), pk_EOS = eos\<rparr>], idle_state))"
proof (cases rule: BuildPacketPages_cases [of "sw_nextSequence sw" packet "sw_serial sw" g "\<not> sw_started sw" eos])
  case overflow
  then show ?thesis using w ok by (auto simp: WritePacket_def split: if_splits)
next
  case (built pages)
  have ne: "pages \<noteq> []" using built(5) by (auto simp: page_count_def)
  have v: "\<forall>p \<in> set pages. Page_Validate (Some p) = None" using built(4) by simp
  have wp: "write_pages append_writer 0 0 pages sw = ((0 + length (concat (map encoded pages)), None),
      sw\<lparr>sw_w := Some (out @ concat (map encoded pages)), sw_started := (sw_started sw \<or> pages \<noteq> []),
         sw_nextSequence := sw_nextSequence sw + of_nat (length pages)\<rparr>)"
    by (rule write_pages_append [OF v w])
  have open_writer: "\<not> sw_broken sw" "\<not> sw_ended sw"
    using w ok by (auto simp: WritePacket_def split: if_splits)
  have b: "sw_w sw' = Some (out @ concat (map encoded pages))" "sw_started sw'"
    using ok w open_writer ne by (auto simp: WritePacket_def Let_def built(2) wp split: if_splits)
  then show ?thesis using v built(3) by blast
qed

lemma write_all_pages:
  "sw_w sw = Some out \<Longrightarrow> write_all append_writer pkts sw = (None, sw') \<Longrightarrow>
   \<exists>pages. sw_w sw' = Some (out @ concat (map encoded pages)) \<and>
     (\<forall>p \<in> set pages. Page_Validate (Some p) = None) \<and>
     (\<forall>n. extract_pages n idle_state (map Some pages) = Inr (as_read (\<not> sw_started sw) pkts, idle_state))"
proof (induction pkts arbitrary: sw out)
  case Nil
  then show ?case by (intro exI [of _ "[]"]) simp
next
  case (Cons k pkts)
  obtain packet g eos where k: "k = (packet, g, eos)" by (cases k)
  from Cons.prems(2) obtain n sw1 where wp: "WritePacket append_writer packet g eos sw = ((n, None), sw1)"
    and rest: "write_all append_writer pkts sw1 = (None, sw')"
    by (auto simp: k split: prod.splits option.splits)
  obtain ps1 where 1: "sw_w sw1 = Some (out @ concat (map encoded ps1))"
    "\<forall>p \<in> set ps1. Page_Validate (Some p) = None" "sw_started sw1"
    "\<And>n. extract_pages n idle_state (map Some ps1) =
       Inr ([\<lparr>pk_Data = packet, pk_GranulePosition = g, pk_BOS = (\<not> sw_started sw), pk_EOS = eos\<rparr>], idle_state)"
    using WritePacket_pages [OF Cons.prems(1) wp] by auto
  obtain ps2 where 2: "sw_w sw' = Some ((out @ concat (map encoded ps1)) @ concat (map encoded ps2))"
    "\<forall>p \<in> set ps2. Page_Validate (Some p) = None"
    "\<And>n. extract_pages n idle_state (map Some ps2) = Inr (as_read False pkts, idle_state)"
    using Cons.IH [OF 1(1) rest] 1(3) by auto
  show ?case
    using 1 2 k extract_pages_append [OF 1(4), of _ "map Some ps2"]
    by (intro exI [of _ "ps1 @ ps2"]) auto
qed

lemma extract_segment_Checksum: "extract_segment (p\<lparr>pg_Checksum := c\<rparr>) = extract_segment p"
  by (intro ext) (simp add: extract_segment_def HasBOS_def HasEOS_def Let_def)

lemma extract_segments_Checksum:
  "extract_segments (p\<lparr>pg_Checksum := c\<rparr>) n i off segs st = extract_segments p n i off segs st"
  by (induction p n i off segs st rule: extract_segments.induct)
    (auto simp: extract_segment_Checksum split: option.splits prod.splits sum.splits)

lemma extract_pages_stamped:
  "extract_pages n st (map Some (map stamped pages)) = extract_pages n st (map Some pages)"
  by (induction pages arbitrary: n st)
    (auto simp: extract_segments_Checksum continuation_error_def HasContinuation_def
      split: option.splits prod.splits sum.splits)

section \<open>The iterator\<close>

lemma NextPage_valid: "NextPage r = (Inr page, r') \<Longrightarrow> Page_Validate (Some page) = None"
  by (auto simp: NextPage_def dest: ParsePage_inv split: prod.splits sum.splits)

lemma extract_yield_segments:
  "extract_segments page n i off segs st =
     (case yield_segments page n i off segs st of (pkts, Inl err) \<Rightarrow> Inl err | (pkts, Inr x) \<Rightarrow> Inr (pkts, x))"
  by (induction page n i off segs st rule: yield_segments.induct)
    (simp_all split: option.split prod.split sum.split)

lemma yield_segments_Inr:
  "yield_segments page n i off segs st = (pkts, Inr x) \<longleftrightarrow> extract_segments page n i off segs st = Inr (pkts, x)"
  unfolding extract_yield_segments by (auto split: prod.split sum.split)

lemma Packets_loop_iff:
  "Packets_loop r n st = (ps, None) \<longleftrightarrow>
     (\<exists>pages st'. ReadAllPages r = Inr pages \<and> extract_pages n st (map Some pages) = Inr (ps, st') \<and>
        \<not> xs_expectingContinuation st')"
proof (induction r n st arbitrary: ps rule: Packets_loop.induct)
  case (1 r n st)
  obtain res r' where np: "NextPage r = (res, r')" by (cases "NextPage r")
  show ?case
  proof (cases res)
    case (Inl err)
    then show ?thesis
      using np by (subst Packets_loop.simps, subst ReadAllPages.simps) auto
  next
    case (Inr page)
    have v: "Page_Validate (Some page) = None" using np Inr NextPage_valid by simp
    show ?thesis
    proof (cases "\<exists>pkts st1. continuation_error page n st = None \<and>
        yield_segments page n 0 0 (pg_Segments page) st = (pkts, Inr (st1, length (pg_Payload page)))")
      case False
      have "Packets_loop r n st \<noteq> (ps, None)"
        using np Inr False by (subst Packets_loop.simps) (auto split: option.splits prod.splits sum.splits)
      moreover have "extract_pages n st (map Some (page # pages)) \<noteq> Inr x" for pages x
        using False by (auto simp: yield_segments_Inr split: option.splits prod.splits sum.splits)
      ultimately show ?thesis
        using np Inr by (subst ReadAllPages.simps) (auto split: sum.splits simp del: extract_pages.simps)
    next
      case True
      then obtain pkts st1 where c: "continuation_error page n st = None"
        and y: "yield_segments page n 0 0 (pg_Segments page) st = (pkts, Inr (st1, length (pg_Payload page)))"
        by blast
      then have e: "extract_segments page n 0 0 (pg_Segments page) st = Inr (pkts, st1, length (pg_Payload page))"
        by (simp add: yield_segments_Inr)
      have IH: "Packets_loop r' (n + 1) st1 = (ps', None) \<longleftrightarrow>
          (\<exists>pages st'. ReadAllPages r' = Inr pages \<and> extract_pages (n + 1) st1 (map Some pages) = Inr (ps', st') \<and>
            \<not> xs_expectingContinuation st')" for ps'
        using "1.IH" np Inr c y by fastforce
      have l: "Packets_loop r n st = (case Packets_loop r' (n + 1) st1 of (rest, err) \<Rightarrow> (pkts @ rest, err))"
        using np Inr c y by (subst Packets_loop.simps) simp
      have a: "ReadAllPages r = (case ReadAllPages r' of Inl err \<Rightarrow> Inl err | Inr pages \<Rightarrow> Inr (page # pages))"
        using np Inr by (subst ReadAllPages.simps) simp
      have x: "extract_pages n st (map Some (page # pages)) =
          (case extract_pages (n + 1) st1 (map Some pages) of Inl err \<Rightarrow> Inl err | Inr (rest, st) \<Rightarrow> Inr (pkts @ rest, st))"
        for pages using v c e by simp
      have x': "extract_pages n st (map Some (page # pages)) = Inr (ps, st') \<longleftrightarrow>
          (\<exists>ps'. extract_pages (n + 1) st1 (map Some pages) = Inr (ps', st') \<and> ps = pkts @ ps')" for pages st'
        unfolding x by (auto split: sum.splits)
      have "Packets_loop r n st = (ps, None) \<longleftrightarrow> (\<exists>ps'. Packets_loop r' (n + 1) st1 = (ps', None) \<and> ps = pkts @ ps')"
        unfolding l by (auto split: prod.split)
      also have "\<dots> \<longleftrightarrow> (\<exists>pages st' ps'. ReadAllPages r' = Inr pages \<and>
          extract_pages (n + 1) st1 (map Some pages) = Inr (ps', st') \<and> \<not> xs_expectingContinuation st' \<and> ps = pkts @ ps')"
        unfolding IH by blast
      also have "\<dots> \<longleftrightarrow> (\<exists>pages st'. ReadAllPages r' = Inr pages \<and>
          extract_pages n st (map Some (page # pages)) = Inr (ps, st') \<and> \<not> xs_expectingContinuation st')"
        unfolding x' by blast
      also have "\<dots> \<longleftrightarrow> (\<exists>pages st'. ReadAllPages r = Inr pages \<and>
          extract_pages n st (map Some pages) = Inr (ps, st') \<and> \<not> xs_expectingContinuation st')"
        unfolding a by (auto split: sum.splits simp del: extract_pages.simps)
      finally show ?thesis .
    qed
  qed
qed

text \<open>
  C2: The iterator over the packets of a stream ends without an error exactly when reading all pages
  first and extracting the packets succeeds, and then yields the same packets.
\<close>

theorem packets_streaming_equiv: "Packets r = (ps, None) \<longleftrightarrow> ReadAllPackets r = Inr ps"
  unfolding Packets_def Packets_loop_iff
  by (auto simp: ReadAllPackets_def ExtractPackets_def split: sum.splits if_splits)

text \<open>
  C3: Packets that a stream writer accepted, whatever their sizes, are read back from the bytes it
  wrote, each with its granule position and flags and in order, the first of them marked as the
  beginning of the stream.
\<close>

theorem ogg_stream_roundtrip:
  assumes "NewStreamWriter (Some []) serial = Inr sw" and "write_all append_writer pkts sw = (None, sw')"
  shows "ReadAllPackets \<lparr>rd_data = the (sw_w sw'), rd_err = EOF\<rparr> = Inr (as_read True pkts)"
proof -
  have sw: "sw_w sw = Some []" "\<not> sw_started sw" using assms(1) by (auto simp: NewStreamWriter_def)
  obtain pages where p: "sw_w sw' = Some (concat (map encoded pages))"
    "\<forall>p \<in> set pages. Page_Validate (Some p) = None"
    "\<And>n. extract_pages n idle_state (map Some pages) = Inr (as_read True pkts, idle_state)"
    using write_all_pages [OF sw(1) assms(2)] sw(2) by auto
  have "ReadAllPages \<lparr>rd_data = concat (map encoded pages), rd_err = EOF\<rparr> = Inr (map stamped pages)"
    using ReadAllPages_encoded [OF p(2), of "[]" EOF] by (simp add: ReadAllPages_EOF)
  then show ?thesis
    using p(1,3) extract_pages_stamped [of 0 idle_state pages]
    by (simp add: ReadAllPackets_def ExtractPackets_def idle_state_def)
qed

text \<open>Two packets, the first of 65025 bytes, which takes a second page for its last, empty segment.\<close>

definition sample_packets :: "(bytes \<times> u64 \<times> bool) list" where
  "sample_packets = [(replicate 65025 7, 5, False), ([1, 2], 9, True)]"

definition sample_writer :: "bytes StreamWriter" where
  "sample_writer = \<lparr>sw_w = Some [], sw_serial = 3, sw_nextSequence = 0, sw_started = False, sw_ended = False,
     sw_broken = False\<rparr>"

lemma WritePacket_accepts:
  assumes w: "sw_w sw = Some out" "\<not> sw_broken sw" "\<not> sw_ended sw"
    and seq: "unat (sw_nextSequence sw) + page_count packet \<le> 2 ^ 32"
  shows "\<exists>n out'. WritePacket append_writer packet g eos sw =
    ((n, None), sw\<lparr>sw_w := Some out', sw_started := True,
       sw_nextSequence := sw_nextSequence sw + of_nat (page_count packet), sw_ended := eos\<rparr>)"
proof (cases rule: BuildPacketPages_cases [of "sw_nextSequence sw" packet "sw_serial sw" g "\<not> sw_started sw" eos])
  case overflow
  then show ?thesis using seq by simp
next
  case (built pages)
  have ne: "pages \<noteq> []" using built(5) by (auto simp: page_count_def)
  have v: "\<forall>p \<in> set pages. Page_Validate (Some p) = None" using built(4) by simp
  let ?out = "out @ concat (map encoded pages)"
  let ?sw = "sw\<lparr>sw_w := Some ?out, sw_started := True,
       sw_nextSequence := sw_nextSequence sw + of_nat (page_count packet)\<rparr>"
  have "?sw\<lparr>sw_ended := False\<rparr> = ?sw" using w(3) by (cases sw) simp
  then have "(if eos then ?sw\<lparr>sw_ended := True\<rparr> else ?sw) = ?sw\<lparr>sw_ended := eos\<rparr>" by (cases eos) simp_all
  then have "WritePacket append_writer packet g eos sw = ((length (concat (map encoded pages)), None), ?sw\<lparr>sw_ended := eos\<rparr>)"
    using w ne built(5) write_pages_append [OF v w(1), of 0 0]
    by (simp add: WritePacket_def Let_def built(2))
  then show ?thesis by blast
qed

theorem ogg_stream_roundtrip_witness:
  "\<exists>sw'. write_all append_writer sample_packets sample_writer = (None, sw') \<and>
     ReadAllPackets \<lparr>rd_data = the (sw_w sw'), rd_err = EOF\<rparr> = Inr (as_read True sample_packets)"
proof -
  obtain n out where 1: "WritePacket append_writer (replicate 65025 7) 5 False sample_writer =
      ((n, None), sample_writer\<lparr>sw_w := Some out, sw_started := True,
       sw_nextSequence := sw_nextSequence sample_writer + of_nat (page_count (replicate 65025 7)), sw_ended := False\<rparr>)"
    using WritePacket_accepts [of sample_writer "[]" "replicate 65025 7" 5 False]
    by (auto simp: sample_writer_def page_count_def)
  let ?sw = "sample_writer\<lparr>sw_w := Some out, sw_started := True,
       sw_nextSequence := sw_nextSequence sample_writer + of_nat (page_count (replicate 65025 7)), sw_ended := False\<rparr>"
  obtain n' out' where 2: "WritePacket append_writer [1, 2] 9 True ?sw = ((n', None), ?sw\<lparr>sw_w := Some out',
      sw_started := True, sw_nextSequence := sw_nextSequence ?sw + of_nat (page_count [1, 2]), sw_ended := True\<rparr>)"
    using WritePacket_accepts [of ?sw out "[1, 2]" 9 True] by (auto simp: sample_writer_def page_count_def)
  have "\<exists>sw'. write_all append_writer sample_packets sample_writer = (None, sw')"
    using 1 2 by (simp add: sample_packets_def)
  moreover have "NewStreamWriter (Some []) 3 = Inr sample_writer" by (simp add: NewStreamWriter_def sample_writer_def)
  ultimately show ?thesis using ogg_stream_roundtrip by blast
qed

end
