(* ===== verification/TopicTrie.thy ===== *)
theory TopicTrie
  imports KvKey
begin

text \<open>
  The trie of topic patterns, \<^verbatim>\<open>pkgs/trie/trie.go\<close>: patterns are segments between slashes, \<^verbatim>\<open>+\<close> stands for
  any one segment and a final \<^verbatim>\<open>#\<close> for any rest. A callback of \<^verbatim>\<open>Set\<close> is a function from the value it
  finds to the value it leaves and its error; the zero value of the element type is a parameter. A nil
  map of children and an empty one are the same list.
\<close>

datatype trie_error = ErrInvalidPattern | ErrCallback nat

datatype 'v Trie = Trie
  (tr_children: "(bytes, 'v Trie) gomap")
  (tr_any: "'v Trie option")
  (tr_all: "'v Trie option")
  (tr_set: bool)
  (tr_value: 'v)

definition New :: "'v \<Rightarrow> 'v Trie" where
  "New zero = Trie [] None None False zero"

type_synonym 'v set_func = "'v \<Rightarrow> bool \<Rightarrow> 'v \<times> nat option"

definition slash_char :: u8 where "slash_char = 0x2f"
definition plus_seg :: bytes where "plus_seg = [0x2b]"
definition hash_seg :: bytes where "hash_seg = [0x23]"

text \<open>The first segment and the rest behind the slash, if there is one.\<close>

definition cut_path :: "bytes \<Rightarrow> bytes \<times> bytes" where
  "cut_path path =
     (let first = takeWhile (\<lambda>c. c \<noteq> slash_char) path in
      if length first = length path then (path, []) else (first, drop (length first + 1) path))"

lemma cut_path_less: "path \<noteq> [] \<Longrightarrow> length (snd (cut_path path)) < length path"
  by (auto simp: cut_path_def Let_def)

definition setFunc :: "'v set_func \<Rightarrow> 'v Trie \<Rightarrow> trie_error option \<times> 'v Trie" where
  "setFunc fn t =
     (case fn (tr_value t) (tr_set t) of
        (v, Some err) \<Rightarrow> (Some (ErrCallback err), Trie (tr_children t) (tr_any t) (tr_all t) (tr_set t) v)
      | (v, None) \<Rightarrow> (None, Trie (tr_children t) (tr_any t) (tr_all t) True v))"

function Trie_Set :: "'v \<Rightarrow> 'v set_func \<Rightarrow> bytes \<Rightarrow> 'v Trie \<Rightarrow> trie_error option \<times> 'v Trie" where
  "Trie_Set zero fn path t =
     (if length path = 0 then setFunc fn t
      else
        let first = fst (cut_path path); subseq = snd (cut_path path) in
        case map_get (tr_children t) first of
          Some ch \<Rightarrow>
            (case Trie_Set zero fn subseq ch of
               (err, ch) \<Rightarrow> (err, Trie (map_put first ch (tr_children t)) (tr_any t) (tr_all t) (tr_set t) (tr_value t)))
        | None \<Rightarrow>
            if first = plus_seg then
              (case Trie_Set zero fn subseq (case tr_any t of None \<Rightarrow> New zero | Some a \<Rightarrow> a) of
                 (err, a) \<Rightarrow> (err, Trie (tr_children t) (Some a) (tr_all t) (tr_set t) (tr_value t)))
            else if first = hash_seg then
              if length subseq \<noteq> 0 then (Some ErrInvalidPattern, t)
              else
                (case setFunc fn (case tr_all t of None \<Rightarrow> New zero | Some a \<Rightarrow> a) of
                   (err, a) \<Rightarrow> (err, Trie (tr_children t) (tr_any t) (Some a) (tr_set t) (tr_value t)))
            else
              (case Trie_Set zero fn subseq (New zero) of
                 (err, ch) \<Rightarrow> (err, Trie (map_put first ch (tr_children t)) (tr_any t) (tr_all t) (tr_set t) (tr_value t))))"
  by pat_completeness auto
termination by (relation "measure (\<lambda>(_, _, path, _). length path)") (auto simp: cut_path_less)

declare Trie_Set.simps [simp del]

definition SetValue :: "'v \<Rightarrow> bytes \<Rightarrow> 'v \<Rightarrow> 'v Trie \<Rightarrow> trie_error option \<times> 'v Trie" where
  "SetValue zero path value t = Trie_Set zero (\<lambda>_ _. (value, None)) path t"

text \<open>The pointer to the value is the value, or \<open>None\<close> for nil.\<close>

function match :: "'v Trie \<Rightarrow> bytes \<Rightarrow> bytes \<Rightarrow> bytes \<times> 'v option \<times> bool" where
  "match t matched path =
     (if length path = 0 then (matched, Some (tr_value t), tr_set t)
      else
        let first = fst (cut_path path); subseq = snd (cut_path path);
            exact = (case map_get (tr_children t) first of
                Some ch \<Rightarrow> match ch (matched @ slash_char # first) subseq | None \<Rightarrow> ([], None, False));
            any = (case tr_any t of
                Some a \<Rightarrow> match a (matched @ slash_char # plus_seg) subseq | None \<Rightarrow> ([], None, False));
            all = (case tr_all t of
                Some a \<Rightarrow> match a (matched @ slash_char # hash_seg) [] | None \<Rightarrow> ([], None, False))
        in if snd (snd exact) then exact else if snd (snd any) then any
           else if snd (snd all) then all else ([], None, False))"
  by pat_completeness auto
termination by (relation "measure (\<lambda>(_, _, path). length path)") (auto simp: cut_path_less)

declare match.simps [simp del]

definition Get :: "'v Trie \<Rightarrow> bytes \<Rightarrow> 'v option \<times> bool" where
  "Get t path = (case match t [] path of (_, val, ok) \<Rightarrow> (val, ok))"

definition GetValue :: "'v \<Rightarrow> 'v Trie \<Rightarrow> bytes \<Rightarrow> 'v \<times> bool" where
  "GetValue zero t path = (case Get t path of (ptr, ok) \<Rightarrow> if \<not> ok then (zero, False) else (the ptr, True))"

definition Match :: "'v Trie \<Rightarrow> bytes \<Rightarrow> bytes \<times> 'v option \<times> bool" where
  "Match t path = match t [] path"

text \<open>The nodes in the order of a walk, each with its path.\<close>

fun walkWithPath :: "bytes list \<Rightarrow> 'v Trie \<Rightarrow> (bytes list \<times> 'v Trie) list" where
  "walkWithPath path (Trie children any all is_set value) =
     concat (map (\<lambda>(seg, ch). walkWithPath (path @ [seg]) ch) children) @
     (case any of Some a \<Rightarrow> walkWithPath (path @ [plus_seg]) a | None \<Rightarrow> []) @
     (case all of Some a \<Rightarrow> walkWithPath (path @ [hash_seg]) a | None \<Rightarrow> []) @
     [(path, Trie children any all is_set value)]"

definition Walk :: "'v Trie \<Rightarrow> (bytes \<times> 'v \<times> bool) list" where
  "Walk t = map (\<lambda>(path, node). (strings_Join slash_char path, tr_value node, tr_set node)) (walkWithPath [] t)"

definition Trie_String :: "('v \<Rightarrow> bytes) \<Rightarrow> 'v Trie \<Rightarrow> bytes" where
  "Trie_String show_value t =
     strings_Join 0x0a (sort (map (\<lambda>(path, node). strings_Join slash_char path @ [0x3a, 0x20] @ show_value (tr_value node))
       (filter (\<lambda>(_, node). tr_set node) (walkWithPath [] t))))"

definition Len :: "'v Trie \<Rightarrow> nat" where
  "Len t = length (filter (\<lambda>(_, _, is_set). is_set) (Walk t))"

section \<open>Patterns\<close>

text \<open>The segments of a path; a final slash does not add one.\<close>

function segs :: "bytes \<Rightarrow> bytes list" where
  "segs path = (if path = [] then [] else fst (cut_path path) # segs (snd (cut_path path)))"
  by pat_completeness auto
termination by (relation "measure length") (auto simp: cut_path_less)

declare segs.simps [simp del]

lemma segs_Nil [simp]: "segs [] = []"
  by (simp add: segs.simps)

lemma segs_Nil_iff [simp]: "segs path = [] \<longleftrightarrow> path = []"
  by (simp add: segs.simps)

text \<open>Which patterns are accepted, which paths a pattern covers, and which of two patterns comes first.\<close>

fun valid_pattern :: "bytes list \<Rightarrow> bool" where
  "valid_pattern [] = True"
| "valid_pattern (s # p) = ((s = hash_seg \<longrightarrow> p = []) \<and> valid_pattern p)"

fun covers :: "bytes list \<Rightarrow> bytes list \<Rightarrow> bool" where
  "covers [] ss = (ss = [])"
| "covers (x # p) [] = False"
| "covers (x # p) (s # ss) = (x = hash_seg \<and> p = [] \<or> x \<noteq> hash_seg \<and> (x = plus_seg \<or> x = s) \<and> covers p ss)"

definition rank :: "bytes \<Rightarrow> nat" where
  "rank s = (if s = plus_seg then 1 else if s = hash_seg then 2 else 0)"

fun precedes :: "bytes list \<Rightarrow> bytes list \<Rightarrow> bool" where
  "precedes [] q = (q = [])"
| "precedes (x # p) [] = False"
| "precedes (x # p) (y # q) = (rank x < rank y \<or> x = y \<and> precedes p q)"

definition route_of :: "bytes list \<Rightarrow> bytes" where
  "route_of p = concat (map (\<lambda>s. slash_char # s) p)"

text \<open>
  The answer to a lookup in a table of patterns: the first of those that cover the path, or a refusal.
\<close>

definition answers :: "(bytes list \<rightharpoonup> 'v) \<Rightarrow> bytes list \<Rightarrow> bytes \<times> 'v option \<times> bool \<Rightarrow> bool" where
  "answers M ss r \<longleftrightarrow>
     (case r of (route, val, ok) \<Rightarrow>
        if ok then \<exists>p v. route = route_of p \<and> val = Some v \<and> M p = Some v \<and> covers p ss \<and>
          (\<forall>q. M q \<noteq> None \<and> covers q ss \<longrightarrow> precedes p q)
        else \<forall>q. covers q ss \<longrightarrow> M q = None)"

end
