(* ===== verification/TopicTrieThms.thy ===== *)
theory TopicTrieThms
  imports TopicTrie
begin

text \<open>
  The trie against a table of patterns: setting a path updates the table at that pattern, and matching
  a path finds the first of the patterns that cover it.
\<close>

section \<open>The table of a trie\<close>

fun stored :: "'v Trie \<Rightarrow> bytes list \<Rightarrow> 'v option" where
  "stored t [] = (if tr_set t then Some (tr_value t) else None)"
| "stored t (s # p) =
     (case (if s = plus_seg then tr_any t else if s = hash_seg then tr_all t else map_get (tr_children t) s) of
        None \<Rightarrow> None | Some c \<Rightarrow> stored c p)"

definition leaf :: "'v Trie \<Rightarrow> bool" where
  "leaf t \<longleftrightarrow> tr_children t = [] \<and> tr_any t = None \<and> tr_all t = None"

fun trie_ok :: "'v Trie \<Rightarrow> bool" where
  "trie_ok (Trie children any all is_set value) \<longleftrightarrow>
     wf_map children \<and> (\<forall>(k, c) \<in> set children. k \<noteq> plus_seg \<and> k \<noteq> hash_seg \<and> trie_ok c) \<and>
     (case any of None \<Rightarrow> True | Some a \<Rightarrow> trie_ok a) \<and>
     (case all of None \<Rightarrow> True | Some a \<Rightarrow> leaf a)"

lemma plus_hash [simp]: "plus_seg \<noteq> hash_seg" "hash_seg \<noteq> plus_seg"
  by (simp_all add: plus_seg_def hash_seg_def)

lemma trie_ok_New [simp]: "trie_ok (New zero)" "leaf (New zero)" "stored (New zero) = Map.empty"
proof -
  show "stored (New zero) = Map.empty"
  proof
    fix p show "stored (New zero) p = None" by (cases p) (simp_all add: New_def)
  qed
qed (simp_all add: New_def leaf_def)

lemma stored_leaf: "leaf t \<Longrightarrow> stored t p = (if p = [] \<and> tr_set t then Some (tr_value t) else None)"
  by (cases p) (auto simp: leaf_def)

lemma trie_okD:
  assumes "trie_ok t"
  shows "wf_map (tr_children t)" "map_get (tr_children t) s = Some c \<Longrightarrow> s \<noteq> plus_seg \<and> s \<noteq> hash_seg \<and> trie_ok c"
    "tr_any t = Some a \<Longrightarrow> trie_ok a" "tr_all t = Some a \<Longrightarrow> leaf a"
  using assms by (cases t; auto dest: map_of_SomeD)+

lemma trie_okI:
  "wf_map (tr_children t) \<Longrightarrow> (\<And>s c. map_get (tr_children t) s = Some c \<Longrightarrow> s \<noteq> plus_seg \<and> s \<noteq> hash_seg \<and> trie_ok c) \<Longrightarrow>
   (\<And>a. tr_any t = Some a \<Longrightarrow> trie_ok a) \<Longrightarrow> (\<And>a. tr_all t = Some a \<Longrightarrow> leaf a) \<Longrightarrow> trie_ok t"
  by (cases t) (auto split: option.split dest: wf_map_mem)

section \<open>Setting\<close>

text \<open>\<^verbatim>\<open>Set\<close> on the segments of the path.\<close>

fun set_at :: "'v \<Rightarrow> 'v set_func \<Rightarrow> bytes list \<Rightarrow> 'v Trie \<Rightarrow> trie_error option \<times> 'v Trie" where
  "set_at zero fn [] t = setFunc fn t"
| "set_at zero fn (s # ss) t =
     (case map_get (tr_children t) s of
        Some ch \<Rightarrow> (case set_at zero fn ss ch of
          (err, ch) \<Rightarrow> (err, Trie (map_put s ch (tr_children t)) (tr_any t) (tr_all t) (tr_set t) (tr_value t)))
      | None \<Rightarrow>
          if s = plus_seg then
            (case set_at zero fn ss (case tr_any t of None \<Rightarrow> New zero | Some a \<Rightarrow> a) of
               (err, a) \<Rightarrow> (err, Trie (tr_children t) (Some a) (tr_all t) (tr_set t) (tr_value t)))
          else if s = hash_seg then
            if ss \<noteq> [] then (Some ErrInvalidPattern, t)
            else (case setFunc fn (case tr_all t of None \<Rightarrow> New zero | Some a \<Rightarrow> a) of
                (err, a) \<Rightarrow> (err, Trie (tr_children t) (tr_any t) (Some a) (tr_set t) (tr_value t)))
          else (case set_at zero fn ss (New zero) of
              (err, ch) \<Rightarrow> (err, Trie (map_put s ch (tr_children t)) (tr_any t) (tr_all t) (tr_set t) (tr_value t))))"

lemma Trie_Set_segs: "Trie_Set zero fn path t = set_at zero fn (segs path) t"
proof (induction zero fn path t rule: Trie_Set.induct)
  case (1 zero fn path t)
  let ?s = "fst (cut_path path)" and ?r = "snd (cut_path path)"
  show ?case
  proof (cases "path = []")
    case True
    then show ?thesis by (simp add: Trie_Set.simps)
  next
    case False
    then have s: "segs path = ?s # segs ?r" by (simp add: segs.simps)
    have l: "length path = 0 \<longleftrightarrow> False" using False by simp
    show ?thesis
    proof (cases "map_get (tr_children t) ?s")
      case None
      show ?thesis
        unfolding Trie_Set.simps [of zero fn path] s l set_at.simps Let_def None if_False option.case
        using 1(1,2) [OF _ refl refl None] False by simp
    next
      case (Some ch)
      show ?thesis
        unfolding Trie_Set.simps [of zero fn path] s l set_at.simps Let_def Some if_False option.case
        using 1(3) [OF _ refl refl Some] False by simp
    qed
  qed
qed

text \<open>What one call of \<^verbatim>\<open>Set\<close> does to the table.\<close>

definition table_set ::
  "'v set_func \<Rightarrow> bytes list \<Rightarrow> (bytes list \<rightharpoonup> 'v) \<Rightarrow> trie_error option \<Rightarrow> (bytes list \<rightharpoonup> 'v) \<Rightarrow> bool" where
  "table_set fn ss M err M' \<longleftrightarrow>
     (if \<not> valid_pattern ss then err = Some ErrInvalidPattern \<and> M' = M
      else \<exists>x. (M ss \<noteq> None \<longrightarrow> M ss = Some x) \<and>
        (case fn x (M ss \<noteq> None) of
           (v, None) \<Rightarrow> err = None \<and> M' = M(ss \<mapsto> v)
         | (v, Some e) \<Rightarrow> err = Some (ErrCallback e) \<and> M' = M(ss := if M ss = None then None else Some v)))"

lemma setFunc_table:
  "setFunc fn t = (err, t') \<Longrightarrow> stored t' = (stored t)([] := stored t' []) \<and>
     table_set fn [] (stored t) err (stored t') \<and> (leaf t \<longrightarrow> leaf t') \<and> (trie_ok t \<longrightarrow> trie_ok t')"
proof -
  assume s: "setFunc fn t = (err, t')"
  have p: "stored t' (a # p) = stored t (a # p)" for a p
    using s by (auto simp: setFunc_def split: prod.splits option.splits)
  have e: "stored t' = (stored t)([] := stored t' [])"
  proof
    fix p show "stored t' p = ((stored t)([] := stored t' [])) p" by (cases p) (simp_all add: p del: stored.simps)
  qed
  moreover have "table_set fn [] (stored t) err (stored t')"
    using s by (subst e)
      (auto simp: table_set_def setFunc_def fun_eq_iff split: prod.splits option.splits if_splits intro!: exI [of _ "tr_value t"])
  moreover have "leaf t \<longrightarrow> leaf t'" "trie_ok t \<longrightarrow> trie_ok t'"
    using s by (cases t; auto simp: leaf_def setFunc_def split: prod.splits option.splits)+
  ultimately show ?thesis by blast
qed

lemma table_set_Cons:
  assumes c: "table_set fn ss (\<lambda>p. M (s # p)) err (\<lambda>p. M' (s # p))"
    and other: "\<And>q. \<nexists>p. q = s # p \<Longrightarrow> M' q = M q" and s: "s = hash_seg \<Longrightarrow> ss = []"
  shows "table_set fn (s # ss) M err M'"
proof -
  have v: "valid_pattern (s # ss) \<longleftrightarrow> valid_pattern ss" using s by auto
  have eq: "M' = M(s # ss := y)" if "\<And>p. M' (s # p) = ((\<lambda>p. M (s # p))(ss := y)) p" for y
  proof
    fix q show "M' q = (M(s # ss := y)) q"
    proof (cases "\<exists>p. q = s # p")
      case True
      then show ?thesis using that by (auto split: if_splits)
    next
      case False
      then show ?thesis using other [of q] by auto
    qed
  qed
  have same: "M' = M" if "\<And>p. M' (s # p) = M (s # p)"
    using eq [of "M (s # ss)"] that by (simp add: fun_upd_idem)
  show ?thesis
  proof (cases "valid_pattern ss")
    case False
    then show ?thesis using c v same by (auto simp: table_set_def fun_eq_iff)
  next
    case True
    then obtain x where x: "M (s # ss) \<noteq> None \<longrightarrow> M (s # ss) = Some x"
      and r: "case fn x (M (s # ss) \<noteq> None) of
           (v, None) \<Rightarrow> err = None \<and> (\<lambda>p. M' (s # p)) = (\<lambda>p. M (s # p))(ss \<mapsto> v)
         | (v, Some e) \<Rightarrow> err = Some (ErrCallback e) \<and>
             (\<lambda>p. M' (s # p)) = (\<lambda>p. M (s # p))(ss := if M (s # ss) = None then None else Some v)"
      using c True unfolding table_set_def by (simp only: not_True_eq_False if_False) (elim exE conjE, rule that)
    obtain v e where fn: "fn x (M (s # ss) \<noteq> None) = (v, e)" by fastforce
    have v': "valid_pattern (s # ss)" using True v by blast
    show ?thesis
    proof (cases e)
      case None
      then have "err = None" "M' = M(s # ss \<mapsto> v)" using r eq [of "Some v"] unfolding fn by (simp_all add: fun_eq_iff)
      then show ?thesis using v' unfolding table_set_def
        by (simp only: not_True_eq_False if_False) (rule exI [of _ x], use x fn None in simp)
    next
      case (Some e')
      let ?y = "if M (s # ss) = None then None else Some v"
      have "err = Some (ErrCallback e')" "M' = M(s # ss := ?y)"
        using r eq [of ?y] unfolding fn Some by (simp_all add: fun_eq_iff)
      then show ?thesis using v' unfolding table_set_def
        by (simp only: not_True_eq_False if_False) (rule exI [of _ x], use x fn Some in simp)
    qed
  qed
qed

lemma stored_child:
  "s \<noteq> plus_seg \<Longrightarrow> s \<noteq> hash_seg \<Longrightarrow> stored (Trie (map_put s c (tr_children t)) (tr_any t) (tr_all t) (tr_set t) (tr_value t)) q =
     (case q of x # p \<Rightarrow> if x = s then stored c p else stored t q | [] \<Rightarrow> stored t q)"
  "stored (Trie (tr_children t) (Some c) (tr_all t) (tr_set t) (tr_value t)) q =
     (case q of x # p \<Rightarrow> if x = plus_seg then stored c p else stored t q | [] \<Rightarrow> stored t q)"
  "stored (Trie (tr_children t) (tr_any t) (Some c) (tr_set t) (tr_value t)) q =
     (case q of x # p \<Rightarrow> if x = hash_seg then stored c p else stored t q | [] \<Rightarrow> stored t q)"
  by (cases q; simp)+

lemma trie_ok_put_child:
  "trie_ok t \<Longrightarrow> trie_ok c \<Longrightarrow> s \<noteq> plus_seg \<Longrightarrow> s \<noteq> hash_seg \<Longrightarrow>
   trie_ok (Trie (map_put s c (tr_children t)) (tr_any t) (tr_all t) (tr_set t) (tr_value t))"
  by (rule trie_okI) (auto dest: trie_okD(2-4) simp: trie_okD(1) split: if_splits)

lemma set_at_table:
  "trie_ok t \<Longrightarrow> set_at zero fn ss t = (err, t') \<Longrightarrow> trie_ok t' \<and> table_set fn ss (stored t) err (stored t')"
proof (induction ss arbitrary: t t')
  case Nil
  then show ?case using setFunc_table [of fn t err t'] unfolding set_at.simps by blast
next
  case (Cons s ss)
  show ?case
  proof (cases "map_get (tr_children t) s")
    case (Some ch)
    then have s: "s \<noteq> plus_seg" "s \<noteq> hash_seg" "trie_ok ch" using trie_okD(2) [OF Cons.prems(1)] by blast+
    obtain ch' where ch': "set_at zero fn ss ch = (err, ch')"
      "t' = Trie (map_put s ch' (tr_children t)) (tr_any t) (tr_all t) (tr_set t) (tr_value t)"
      using Cons.prems(2) Some by (auto split: prod.splits)
    have ih: "trie_ok ch'" "table_set fn ss (stored ch) err (stored ch')" using Cons.IH [OF s(3) ch'(1)] by blast+
    have "table_set fn (s # ss) (stored t) err (stored t')"
      by (rule table_set_Cons) (use ih(2) Some s in \<open>auto simp: ch'(2) stored_child(1) split: list.split\<close>)
    then show ?thesis using trie_ok_put_child [OF Cons.prems(1) ih(1) s(1,2)] unfolding ch'(2) by blast
  next
    case None
    consider "s = plus_seg" | "s = hash_seg" "ss \<noteq> []" | "s = hash_seg" "ss = []" | "s \<noteq> plus_seg" "s \<noteq> hash_seg" by blast
    then show ?thesis
    proof cases
      case 1
      let ?a = "case tr_any t of None \<Rightarrow> New zero | Some a \<Rightarrow> a"
      have a: "trie_ok ?a" "stored ?a = (\<lambda>p. stored t (s # p))"
        using trie_okD(3) [OF Cons.prems(1)] 1 by (auto split: option.split)
      obtain a' where a': "set_at zero fn ss ?a = (err, a')"
        "t' = Trie (tr_children t) (Some a') (tr_all t) (tr_set t) (tr_value t)"
        using Cons.prems(2) None 1 by (auto split: prod.splits)
      have ih: "trie_ok a'" "table_set fn ss (stored ?a) err (stored a')" using Cons.IH [OF a(1) a'(1)] by blast+
      have "table_set fn (s # ss) (stored t) err (stored t')"
        by (rule table_set_Cons) (use ih(2) 1 in \<open>auto simp: a(2) a'(2) stored_child(2) split: list.split\<close>)
      moreover have "trie_ok t'"
        unfolding a'(2) by (rule trie_okI) (use ih(1) in \<open>auto dest: trie_okD(2-4) [OF Cons.prems(1)] intro: trie_okD(1) [OF Cons.prems(1)]\<close>)
      ultimately show ?thesis by blast
    next
      case 2
      then show ?thesis using Cons.prems None by (simp add: table_set_def)
    next
      case 3
      let ?a = "case tr_all t of None \<Rightarrow> New zero | Some a \<Rightarrow> a"
      have a: "leaf ?a" "stored ?a = (\<lambda>p. stored t (s # p))"
        using trie_okD(4) [OF Cons.prems(1)] 3 by (auto split: option.split)
      obtain a' where a': "setFunc fn ?a = (err, a')"
        "t' = Trie (tr_children t) (tr_any t) (Some a') (tr_set t) (tr_value t)"
        using Cons.prems(2) None 3 by (auto split: prod.splits)
      have ih: "leaf a'" "table_set fn [] (stored ?a) err (stored a')" using setFunc_table [OF a'(1)] a(1) by blast+
      have "table_set fn (s # ss) (stored t) err (stored t')"
        by (rule table_set_Cons) (use ih(2) 3 in \<open>auto simp: a(2) a'(2) stored_child(3) split: list.split\<close>)
      moreover have "trie_ok t'"
        unfolding a'(2) by (rule trie_okI) (use ih(1) in \<open>auto dest: trie_okD(2-4) [OF Cons.prems(1)] intro: trie_okD(1) [OF Cons.prems(1)]\<close>)
      ultimately show ?thesis by blast
    next
      case 4
      obtain ch' where ch': "set_at zero fn ss (New zero) = (err, ch')"
        "t' = Trie (map_put s ch' (tr_children t)) (tr_any t) (tr_all t) (tr_set t) (tr_value t)"
        using Cons.prems(2) None 4 by (auto split: prod.splits)
      have ih: "trie_ok ch'" "table_set fn ss (stored (New zero)) err (stored ch')"
        using Cons.IH [OF trie_ok_New(1) ch'(1)] by blast+
      have "table_set fn (s # ss) (stored t) err (stored t')"
        by (rule table_set_Cons) (use ih(2) None 4 in \<open>auto simp: ch'(2) stored_child(1) split: list.split\<close>)
      then show ?thesis using trie_ok_put_child [OF Cons.prems(1) ih(1) 4] unfolding ch'(2) by blast
    qed
  qed
qed

section \<open>Matching\<close>

definition refusal :: "bytes \<times> 'v option \<times> bool" where "refusal = ([], None, False)"

fun match_at :: "'v Trie \<Rightarrow> bytes \<Rightarrow> bytes list \<Rightarrow> bytes \<times> 'v option \<times> bool" where
  "match_at t matched [] = (matched, Some (tr_value t), tr_set t)"
| "match_at t matched (s # ss) =
     (let exact = (case map_get (tr_children t) s of
            Some ch \<Rightarrow> match_at ch (matched @ slash_char # s) ss | None \<Rightarrow> refusal);
          any = (case tr_any t of Some a \<Rightarrow> match_at a (matched @ slash_char # plus_seg) ss | None \<Rightarrow> refusal);
          all = (case tr_all t of Some a \<Rightarrow> match_at a (matched @ slash_char # hash_seg) [] | None \<Rightarrow> refusal)
      in if snd (snd exact) then exact else if snd (snd any) then any
         else if snd (snd all) then all else refusal)"

lemma match_segs: "match t matched path = match_at t matched (segs path)"
proof (induction t matched path rule: match.induct)
  case (1 t matched path)
  let ?s = "fst (cut_path path)" and ?r = "snd (cut_path path)"
  show ?case
  proof (cases "path = []")
    case True
    then show ?thesis by (simp add: match.simps)
  next
    case False
    then have s: "segs path = ?s # segs ?r" by (simp add: segs.simps)
    have l: "length path = 0 \<longleftrightarrow> False" using False by simp
    have e: "(case map_get (tr_children t) ?s of
        Some ch \<Rightarrow> match ch (matched @ slash_char # ?s) ?r | None \<Rightarrow> ([], None, False)) =
      (case map_get (tr_children t) ?s of
        Some ch \<Rightarrow> match_at ch (matched @ slash_char # ?s) (segs ?r) | None \<Rightarrow> refusal)"
      using 1(1) [OF _ refl refl] False by (simp add: refusal_def split: option.split)
    have a: "(case tr_any t of Some a \<Rightarrow> match a (matched @ slash_char # plus_seg) ?r | None \<Rightarrow> ([], None, False)) =
      (case tr_any t of Some a \<Rightarrow> match_at a (matched @ slash_char # plus_seg) (segs ?r) | None \<Rightarrow> refusal)"
      using 1(2) [OF _ refl refl refl] False by (simp add: refusal_def split: option.split)
    have h: "(case tr_all t of Some a \<Rightarrow> match a (matched @ slash_char # hash_seg) [] | None \<Rightarrow> ([], None, False)) =
      (case tr_all t of Some a \<Rightarrow> match_at a (matched @ slash_char # hash_seg) [] | None \<Rightarrow> refusal)"
      by (simp add: refusal_def match.simps split: option.split)
    show ?thesis
      unfolding match.simps [of t matched path] s l match_at.simps Let_def if_False e a h refusal_def ..
  qed
qed

definition answers_from :: "bytes \<Rightarrow> (bytes list \<rightharpoonup> 'v) \<Rightarrow> bytes list \<Rightarrow> bytes \<times> 'v option \<times> bool \<Rightarrow> bool" where
  "answers_from pre M ss r \<longleftrightarrow>
     (case r of (route, val, ok) \<Rightarrow>
        if ok then \<exists>p v. route = pre @ route_of p \<and> val = Some v \<and> M p = Some v \<and> covers p ss \<and>
          (\<forall>q. M q \<noteq> None \<and> covers q ss \<longrightarrow> precedes p q)
        else \<forall>q. covers q ss \<longrightarrow> M q = None)"

lemma answers_hit:
  assumes "answers_from pre M ss r" and "snd (snd r)"
  obtains p v where "r = (pre @ route_of p, Some v, True)" "M p = Some v" "covers p ss"
    "\<And>q. M q \<noteq> None \<Longrightarrow> covers q ss \<Longrightarrow> precedes p q"
  using assms by (cases r) (auto simp: answers_from_def)

lemma answersI:
  "M p = Some v \<Longrightarrow> covers p ss \<Longrightarrow> (\<And>q. M q \<noteq> None \<Longrightarrow> covers q ss \<Longrightarrow> precedes p q) \<Longrightarrow>
   answers_from pre M ss (pre @ route_of p, Some v, True)"
  by (auto simp: answers_from_def)

lemma answers_miss: "answers_from pre M ss r \<Longrightarrow> \<not> snd (snd r) \<Longrightarrow> covers q ss \<Longrightarrow> M q = None"
  by (cases r) (auto simp: answers_from_def)

lemma rank_simps [simp]:
  "rank plus_seg = 1" "rank hash_seg = 2" "rank s = 0 \<longleftrightarrow> s \<noteq> plus_seg \<and> s \<noteq> hash_seg"
  by (simp_all add: rank_def)

lemma covers_Cons:
  assumes "covers q (s # ss)"
  obtains (exact) p where "q = s # p" "s \<noteq> plus_seg" "s \<noteq> hash_seg" "covers p ss"
    | (any) p where "q = plus_seg # p" "covers p ss" | (all) "q = [hash_seg]"
  using assms by (cases q) auto

lemma match_at_answers: "trie_ok t \<Longrightarrow> answers_from pre (stored t) ss (match_at t pre ss)"
proof (induction ss arbitrary: t pre)
  case Nil
  have "covers q [] \<longleftrightarrow> q = []" for q by (cases q) auto
  then show ?case by (simp add: answers_from_def route_of_def)
next
  case (Cons s ss)
  let ?exact = "case map_get (tr_children t) s of
      Some ch \<Rightarrow> match_at ch (pre @ slash_char # s) ss | None \<Rightarrow> refusal"
  let ?any = "case tr_any t of Some a \<Rightarrow> match_at a (pre @ slash_char # plus_seg) ss | None \<Rightarrow> refusal"
  let ?all = "case tr_all t of Some a \<Rightarrow> match_at a (pre @ slash_char # hash_seg) [] | None \<Rightarrow> refusal"
  have refuse: "answers_from x Map.empty ss refusal" for x by (simp add: answers_from_def refusal_def)
  have e: "answers_from (pre @ slash_char # s) (\<lambda>p. case map_get (tr_children t) s of None \<Rightarrow> None | Some c \<Rightarrow> stored c p) ss ?exact"
  proof (cases "map_get (tr_children t) s")
    case None
    then show ?thesis by (simp add: refuse)
  next
    case (Some ch)
    then show ?thesis using Cons.IH trie_okD(2) [OF Cons.prems] by auto
  qed
  have a: "answers_from (pre @ slash_char # plus_seg) (\<lambda>p. stored t (plus_seg # p)) ss ?any"
  proof (cases "tr_any t")
    case None
    then show ?thesis by (simp add: refuse)
  next
    case (Some a)
    then show ?thesis using Cons.IH trie_okD(3) [OF Cons.prems] by auto
  qed
  have sx: "stored t (s # p) = (case map_get (tr_children t) s of None \<Rightarrow> None | Some c \<Rightarrow> stored c p)"
    if "s \<noteq> plus_seg" "s \<noteq> hash_seg" for p using that by simp
  have r: "match_at t pre (s # ss) = (if snd (snd ?exact) then ?exact else if snd (snd ?any) then ?any
      else if snd (snd ?all) then ?all else refusal)" by (simp add: Let_def)
  show ?case
  proof (cases "snd (snd ?exact)")
    case True
    then obtain ch where ch: "map_get (tr_children t) s = Some ch" by (cases "map_get (tr_children t) s") (auto simp: refusal_def)
    then have s: "s \<noteq> plus_seg" "s \<noteq> hash_seg" using trie_okD(2) [OF Cons.prems] by blast+
    obtain p v where p: "?exact = ((pre @ slash_char # s) @ route_of p, Some v, True)"
      "stored t (s # p) = Some v" "covers p ss"
      "\<And>q. stored t (s # q) \<noteq> None \<Longrightarrow> covers q ss \<Longrightarrow> precedes p q"
      using answers_hit [OF e [folded sx [OF s]] True] by blast
    have "precedes (s # p) q" if q: "stored t q \<noteq> None" "covers q (s # ss)" for q
      using q(2) by (cases rule: covers_Cons) (use q(1) p(4) s in \<open>auto simp del: stored.simps simp: rank_def\<close>)
    then show ?thesis
      unfolding r if_P [OF True] unfolding p(1)
      using answersI [of "stored t" "s # p" v "s # ss" pre] p(2,3) s
      by (simp add: route_of_def del: stored.simps)
  next
    case miss: False
    have no_exact: "stored t (s # q) = None" if "covers q ss" "s \<noteq> plus_seg" "s \<noteq> hash_seg" for q
      using answers_miss [OF e miss that(1)] sx [OF that(2,3)] by simp
    show ?thesis
    proof (cases "snd (snd ?any)")
      case True
      then obtain p v where p: "?any = ((pre @ slash_char # plus_seg) @ route_of p, Some v, True)"
        "stored t (plus_seg # p) = Some v" "covers p ss"
        "\<And>q. stored t (plus_seg # q) \<noteq> None \<Longrightarrow> covers q ss \<Longrightarrow> precedes p q"
        using answers_hit [OF a] by blast
      have "precedes (plus_seg # p) q" if q: "stored t q \<noteq> None" "covers q (s # ss)" for q
        using q(2) by (cases rule: covers_Cons) (use q(1) p(4) no_exact in \<open>auto simp del: stored.simps\<close>)
      then show ?thesis
        unfolding r if_not_P [OF miss] if_P [OF True] unfolding p(1)
        using answersI [of "stored t" "plus_seg # p" v "s # ss" pre] p(2,3)
        by (simp add: route_of_def del: stored.simps)
    next
      case miss2: False
      have no_any: "stored t (plus_seg # q) = None" if "covers q ss" for q
        using answers_miss [OF a miss2 that] .
      show ?thesis
      proof (cases "snd (snd ?all)")
        case True
        then obtain l where l: "tr_all t = Some l" "tr_set l" by (cases "tr_all t") (auto simp: refusal_def)
        have "precedes [hash_seg] q" if q: "stored t q \<noteq> None" "covers q (s # ss)" for q
          using q(2) by (cases rule: covers_Cons) (use q(1) no_exact no_any in \<open>auto simp del: stored.simps\<close>)
        then show ?thesis
          unfolding r if_not_P [OF miss] if_not_P [OF miss2] if_P [OF True]
          using answersI [of "stored t" "[hash_seg]" "tr_value l" "s # ss" pre] l by (simp add: route_of_def)
      next
        case miss3: False
        have h: "stored t [hash_seg] = None" using miss3 by (auto split: option.split)
        have "stored t q = None" if q: "covers q (s # ss)" for q
          using q by (cases rule: covers_Cons) (use h no_exact no_any in \<open>auto simp del: stored.simps\<close>)
        then show ?thesis
          unfolding r if_not_P [OF miss] if_not_P [OF miss2] if_not_P [OF miss3] by (simp add: answers_from_def refusal_def)
      qed
    qed
  qed
qed

section \<open>Walking\<close>

text \<open>The walk visits every stored pattern once.\<close>

definition marked :: "(bytes list \<times> 'v Trie) list \<Rightarrow> bytes list list" where
  "marked ns = map fst (filter (\<lambda>(_, node). tr_set node) ns)"

lemma marked_simps [simp]:
  "marked [] = []" "marked (a @ b) = marked a @ marked b"
  "marked ((p, n) # ns) = (if tr_set n then p # marked ns else marked ns)"
  "marked (concat nss) = concat (map marked nss)"
  by (induction nss) (simp_all add: marked_def)

definition walked :: "bytes list \<Rightarrow> bytes list list \<Rightarrow> 'v Trie \<Rightarrow> bool" where
  "walked path ps t \<longleftrightarrow> distinct ps \<and> set ps = {path @ p | p. stored t p \<noteq> None}"

lemma walked_prefix: "walked (path @ [s]) ps t \<Longrightarrow> p \<in> set ps \<Longrightarrow> \<exists>q. p = path @ s # q"
  by (auto simp: walked_def)

lemma walkWithPath_marked: "trie_ok t \<Longrightarrow> walked path (marked (walkWithPath path t)) t"
proof (induction path t rule: walkWithPath.induct)
  case (1 path children any all is_set val)
  let ?t = "Trie children any all is_set val"
  have wf: "wf_map children" and ok: "\<And>k c. (k, c) \<in> set children \<Longrightarrow> k \<noteq> plus_seg \<and> k \<noteq> hash_seg \<and> trie_ok c"
    using 1(4) by auto
  let ?cs = "map (\<lambda>(seg, ch). marked (walkWithPath (path @ [seg]) ch)) children"
  let ?a = "marked (case any of Some a \<Rightarrow> walkWithPath (path @ [plus_seg]) a | None \<Rightarrow> [])"
  let ?h = "marked (case all of Some a \<Rightarrow> walkWithPath (path @ [hash_seg]) a | None \<Rightarrow> [])"
  have c: "walked (path @ [k]) (marked (walkWithPath (path @ [k]) c)) c" if "(k, c) \<in> set children" for k c
    using 1(1) [OF that refl] ok [OF that] by simp
  have a: "set ?a = {path @ plus_seg # p | p. stored ?t (plus_seg # p) \<noteq> None} \<and> distinct ?a"
    using 1(2) 1(4) by (auto simp: walked_def split: option.split)
  have h: "set ?h = {path @ hash_seg # p | p. stored ?t (hash_seg # p) \<noteq> None} \<and> distinct ?h"
  proof (cases all)
    case (Some l)
    then have "trie_ok l" using 1(4) by (cases l) (simp add: leaf_def)
    then show ?thesis using 1(3) [OF Some] Some by (auto simp: walked_def)
  qed simp
  have cs: "set (concat ?cs) = {path @ s # p | s p. s \<noteq> plus_seg \<and> s \<noteq> hash_seg \<and> stored ?t (s # p) \<noteq> None}"
  proof (intro equalityI subsetI)
    fix x assume "x \<in> set (concat ?cs)"
    then obtain k d where k: "(k, d) \<in> set children" "x \<in> set (marked (walkWithPath (path @ [k]) d))" by auto
    then obtain p where "x = path @ k # p" "stored d p \<noteq> None" using c by (auto simp: walked_def)
    then show "x \<in> {path @ s # p | s p. s \<noteq> plus_seg \<and> s \<noteq> hash_seg \<and> stored ?t (s # p) \<noteq> None}"
      using ok [OF k(1)] k(1) wf by (auto simp: wf_map_mem)
  next
    fix x assume "x \<in> {path @ s # p | s p. s \<noteq> plus_seg \<and> s \<noteq> hash_seg \<and> stored ?t (s # p) \<noteq> None}"
    then obtain s p d where s: "x = path @ s # p" "map_get children s = Some d" "stored d p \<noteq> None"
      by (auto split: option.splits)
    then have m: "(s, d) \<in> set children" by (blast intro: map_of_SomeD)
    then have "x \<in> set (marked (walkWithPath (path @ [s]) d))" using c [OF m] s by (simp add: walked_def)
    then show "x \<in> set (concat ?cs)" unfolding set_concat set_map using m by (auto intro!: bexI [of _ "(s, d)"])
  qed
  have dcs: "distinct (concat ?cs)"
  proof -
    have "distinct (map fst cs) \<Longrightarrow> set cs \<subseteq> set children \<Longrightarrow>
        distinct (concat (map (\<lambda>(seg, ch). marked (walkWithPath (path @ [seg]) ch)) cs))" for cs
    proof (induction cs)
      case (Cons e cs)
      obtain k d where e: "e = (k, d)" by (cases e)
      have "set (marked (walkWithPath (path @ [k]) d)) \<inter>
          set (concat (map (\<lambda>(seg, ch). marked (walkWithPath (path @ [seg]) ch)) cs)) = {}"
      proof (intro equals0I)
        fix x assume "x \<in> set (marked (walkWithPath (path @ [k]) d)) \<inter>
          set (concat (map (\<lambda>(seg, ch). marked (walkWithPath (path @ [seg]) ch)) cs))"
        then obtain k' d' where x: "x \<in> set (marked (walkWithPath (path @ [k]) d))"
          "(k', d') \<in> set cs" "x \<in> set (marked (walkWithPath (path @ [k']) d'))" by auto
        have "k = k'"
          using walked_prefix [OF c x(1)] walked_prefix [OF c x(3)] Cons.prems(2) x(2) by (auto simp: e)
        then show False using Cons.prems(1) x(2) by (force simp: e)
      qed
      then show ?case using Cons c [of k d] by (simp add: e walked_def)
    qed simp
    then show ?thesis using wf by (simp add: wf_map_def)
  qed
  have m: "marked (walkWithPath path ?t) = concat ?cs @ ?a @ ?h @ (if is_set then [path] else [])"
    by (simp add: comp_def split_def)
  have "set (marked (walkWithPath path ?t)) = {path @ p | p. stored ?t p \<noteq> None}"
  proof (intro equalityI subsetI)
    fix x assume "x \<in> set (marked (walkWithPath path ?t))"
    then have "x \<in> set (concat ?cs) \<or> x \<in> set ?a \<or> x \<in> set ?h \<or> x = path @ [] \<and> stored ?t [] \<noteq> None"
      unfolding m by (auto split: if_splits)
    then show "x \<in> {path @ p | p. stored ?t p \<noteq> None}"
      unfolding cs conjunct1 [OF a] conjunct1 [OF h] by blast
  next
    fix x assume "x \<in> {path @ p | p. stored ?t p \<noteq> None}"
    then obtain p where p: "x = path @ p" "stored ?t p \<noteq> None" by blast
    show "x \<in> set (marked (walkWithPath path ?t))"
    proof (cases p)
      case Nil
      then show ?thesis using p unfolding m by (auto split: if_splits)
    next
      case (Cons s q)
      have "x \<in> set (concat ?cs) \<or> x \<in> set ?a \<or> x \<in> set ?h"
        unfolding cs conjunct1 [OF a] conjunct1 [OF h] using p Cons by blast
      then show ?thesis unfolding m by auto
    qed
  qed
  moreover have "distinct (marked (walkWithPath path ?t))"
    unfolding m using a h dcs cs by (auto simp del: stored.simps set_concat)
  ultimately show ?case by (simp only: walked_def)
qed

end
