(* ===== verification/TopicTrieProps.thy ===== *)
theory TopicTrieProps
  imports TopicTrieThms
begin

text \<open>
  What a trie answers after any sequence of calls of \<^verbatim>\<open>SetValue\<close>, and what a callback does to it.
\<close>

fun set_run :: "'v \<Rightarrow> (bytes \<times> 'v) list \<Rightarrow> 'v Trie \<Rightarrow> trie_error option list \<times> 'v Trie" where
  "set_run zero [] t = ([], t)"
| "set_run zero ((path, v) # sets) t =
     (case SetValue zero path v t of (err, t) \<Rightarrow> (case set_run zero sets t of (errs, t) \<Rightarrow> (err # errs, t)))"

fun table_run :: "(bytes \<times> 'v) list \<Rightarrow> (bytes list \<rightharpoonup> 'v) \<Rightarrow> trie_error option list \<times> (bytes list \<rightharpoonup> 'v)" where
  "table_run [] M = ([], M)"
| "table_run ((path, v) # sets) M =
     (let ok = valid_pattern (segs path); err = (if ok then None else Some ErrInvalidPattern);
          M = (if ok then M(segs path \<mapsto> v) else M)
      in case table_run sets M of (errs, M) \<Rightarrow> (err # errs, M))"

lemma SetValue_table:
  assumes "trie_ok t" and "SetValue zero path v t = (err, t')"
  shows "trie_ok t'" "err = (if valid_pattern (segs path) then None else Some ErrInvalidPattern)"
    "stored t' = (if valid_pattern (segs path) then (stored t)(segs path \<mapsto> v) else stored t)"
  using set_at_table [OF assms(1) assms(2) [unfolded SetValue_def Trie_Set_segs]]
  by (auto simp: table_set_def split: if_splits)

lemma set_run_table:
  "trie_ok t \<Longrightarrow> set_run zero sets t = (errs, t') \<Longrightarrow> trie_ok t' \<and> table_run sets (stored t) = (errs, stored t')"
proof (induction sets arbitrary: t errs)
  case (Cons a sets)
  obtain path v where a: "a = (path, v)" by (cases a)
  obtain err t1 where s: "SetValue zero path v t = (err, t1)" by fastforce
  obtain errs' where r: "set_run zero sets t1 = (errs', t')" "errs = err # errs'"
    using Cons.prems(2) s by (auto simp: a split: prod.splits)
  show ?case
    using Cons.IH [OF SetValue_table(1) [OF Cons.prems(1) s] r(1)] SetValue_table(2,3) [OF Cons.prems(1) s]
    by (simp add: a r(2) Let_def)
qed simp

lemma answers_stored: "trie_ok t \<Longrightarrow> answers (stored t) (segs path) (Match t path)"
  using match_at_answers [of t "[]" "segs path"]
  by (simp only: Match_def match_segs answers_def answers_from_def append_Nil)

lemma Len_stored: "trie_ok t \<Longrightarrow> Len t = card (dom (stored t))"
proof -
  assume ok: "trie_ok t"
  have "Len t = length (marked (walkWithPath [] t))"
    by (simp add: Len_def Walk_def marked_def filter_map comp_def split_def)
  also have "\<dots> = card (dom (stored t))"
    using walkWithPath_marked [OF ok, of "[]"] by (auto simp: walked_def dom_def distinct_card [symmetric])
  finally show ?thesis .
qed

text \<open>
  C1: A trie behaves as a table of patterns, whatever is set in whatever order: a path with \<^verbatim>\<open>#\<close> before its
  end is refused and changes nothing, every other path sets its pattern; a lookup finds the value of
  the most specific pattern that covers the path, segment by segment a literal before \<^verbatim>\<open>+\<close> before \<^verbatim>\<open>#\<close>, and
  misses when none does; and the trie counts the patterns.
\<close>

theorem trie_is_pattern_table:
  "case (set_run zero sets (New zero), table_run sets Map.empty) of ((errs, t), (errs', M)) \<Rightarrow>
     errs = errs' \<and> answers M (segs path) (Match t path) \<and> Len t = card (dom M)"
proof -
  obtain errs t where r: "set_run zero sets (New zero) = (errs, t)" by fastforce
  have t: "trie_ok t" "table_run sets Map.empty = (errs, stored t)"
    using set_run_table [OF trie_ok_New(1) r] by simp_all
  show ?thesis using answers_stored [OF t(1)] Len_stored [OF t(1)] by (simp add: r t(2))
qed

text \<open>
  C2: A callback is told whether the pattern has a value and finds that value; when it fails, its error
  is returned, no pattern appears, but what it has written to an existing value stays.
\<close>

theorem trie_callback:
  assumes "trie_ok t" and "Trie_Set zero fn path t = (err, t')"
  shows "trie_ok t' \<and> table_set fn (segs path) (stored t) err (stored t')"
  using set_at_table [OF assms(1) assms(2) [unfolded Trie_Set_segs]] .

definition count_calls :: "nat set_func" where "count_calls x existed = (x + 1, None)"

theorem trie_callback_witness:
  "trie_ok (snd (Trie_Set 0 count_calls [0x61] (New 0))) \<and>
   table_set count_calls (segs [0x61]) (stored (New 0))
     (fst (Trie_Set 0 count_calls [0x61] (New 0))) (stored (snd (Trie_Set 0 count_calls [0x61] (New 0))))"
  by (rule trie_callback [OF trie_ok_New(1) prod.collapse [symmetric]])

text \<open>
  The route of a pattern with a leading slash starts with two slashes.
\<close>

lemma route_of_leading_slash:
  "Match (snd (SetValue (0::nat) [0x2f, 0x61] 7 (New 0))) [0x2f, 0x61] = ([0x2f, 0x2f, 0x61], Some 7, True)"
  by (simp add: Match_def match.simps SetValue_def Trie_Set.simps cut_path_def slash_char_def plus_seg_def hash_seg_def
      New_def setFunc_def)

text \<open>The pattern \<^verbatim>\<open>a/#\<close> does not cover \<^verbatim>\<open>a\<close>.\<close>

lemma rest_is_not_empty: "\<not> covers [s, hash_seg] [s]"
  by simp

end
