(* ===== verification/Spec2Isabelle.thy ===== *)
theory Spec2Isabelle
  imports
    GizPrelude NoiseMessage NoiseCipher NoiseHandshake NoiseAgreement NoiseExchange NoiseReplay
    NoiseSession SecureChannel GizVarint CoreConsts CoreConn NoiseFrame CoreConnInv CoreConnTick
    CoreConnThms NoiseWire NoiseIK CoreRekey KcpConn IdCycle KcpMux KcpMuxInv KcpMuxSteps
    KcpMuxProps KcpMuxLog MuxHeap CoreServiceMux CoreServiceMuxProps CoreServiceMuxThms
    CoreSessionManager CoreUDP CoreUDPHandshake CoreUDPInv CoreUDPThms CoreUDPPipe
    CoreUDPPipeInv CoreUDPPipeThms KvKey KvStore KvThms GraphKv KvMemory GraphThms GraphOps
    GraphMemory KcpService OggCrc OggPage OggPacket OggStream TopicTrie TopicTrieThms
    TopicTrieProps
begin

text \<open>
  The network core of GizClaw (\<^verbatim>\<open>src/pkgs/giznet/internal\<close>), translated definition by definition from
  the Go sources, with the properties that make it correct.

  \<^bold>\<open>The program.\<close> Peers know each other by static Curve25519 keys. Two peers run a Noise handshake over
  datagrams, derive a session, and send transport packets under it. A packet carries a protocol byte
  and a payload; payloads of the protocol KCP carry frames of multiplexed reliable streams, grouped by
  service, all others are direct packets. Time drives retransmission, rekeying, keepalives and expiry.
  The parts call each other downwards:
  \<^verbatim>\<open>core/udp.go\<close> (peers, handshakes, goroutines) uses \<^verbatim>\<open>core/service_mux.go\<close> (services of a
  peer), which uses \<^verbatim>\<open>kcp/kcp_mux.go\<close> (streams of a service), which uses \<^verbatim>\<open>kcp/conn.go\<close> (one stream over
  the KCP library); \<^verbatim>\<open>core/udp.go\<close> and \<^verbatim>\<open>core/conn.go\<close> (a connection to one peer, with rekeying) use the
  package \<^verbatim>\<open>noise\<close> (handshake, sessions, replay filter, wire messages).

  \<^bold>\<open>Theories and sources.\<close>
  \<^item> \<open>GizPrelude\<close>: bytes as 8-bit words, \<^verbatim>\<open>encoding/binary\<close>, \<^verbatim>\<open>copy\<close>, Go maps as association lists,
    the collections of rewrite rules the components share. \<open>IdCycle\<close>: the locale of identifier
    allocators, interpreted by the session manager and the stream multiplexer.
  \<^item> \<open>GizVarint\<close>: \<^verbatim>\<open>core/varint.go\<close>, \<^verbatim>\<open>core/payload.go\<close>. \<open>CoreConsts\<close>: \<^verbatim>\<open>core/consts.go\<close>,
    \<^verbatim>\<open>core/protocol.go\<close>, \<^verbatim>\<open>timer/timer.go\<close>.
  \<^item> \<open>NoiseMessage\<close> (\<^verbatim>\<open>noise/message.go\<close>), \<open>NoiseCipher\<close> (\<^verbatim>\<open>cipher.go\<close>, \<^verbatim>\<open>keypair.go\<close>), \<open>NoiseHandshake\<close>
    (\<^verbatim>\<open>state.go\<close>, \<^verbatim>\<open>handshake.go\<close>), \<open>NoiseReplay\<close> (\<^verbatim>\<open>replay.go\<close>), \<open>NoiseSession\<close> (\<^verbatim>\<open>session.go\<close>) hold the
    definitions. \<open>NoiseAgreement\<close>, \<open>NoiseExchange\<close>, \<open>NoiseFrame\<close>, \<open>NoiseWire\<close>, \<open>NoiseIK\<close> hold the lemmas
    on whole handshakes; \<open>SecureChannel\<close> goes from the handshake to the two sessions.
  \<^item> \<open>CoreSessionManager\<close>: \<^verbatim>\<open>core/manager.go\<close>.
  \<^item> \<open>KcpConn\<close>: \<^verbatim>\<open>kcp/conn.go\<close>. \<open>KcpMux\<close>: \<^verbatim>\<open>kcp/kcp_mux.go\<close>, with its invariant (\<open>KcpMuxInv\<close>), its steps
    (\<open>KcpMuxSteps\<close>), its output (\<open>KcpMuxLog\<close>) and its properties (\<open>KcpMuxProps\<close>). \<open>KcpService\<close>:
    \<^verbatim>\<open>kcp/service.go\<close>. \<open>MuxHeap\<close>: the locale of a table of components shared by pointer,
    interpreted on \<open>KcpMux\<close> and used by both service multiplexers.
  \<^item> \<open>CoreServiceMux\<close>, \<open>CoreServiceMuxProps\<close>, \<open>CoreServiceMuxThms\<close>: \<^verbatim>\<open>core/service_mux.go\<close>.
  \<^item> \<open>CoreConn\<close>: \<^verbatim>\<open>core/conn.go\<close>, \<^verbatim>\<open>core/errors.go\<close>; its runs and invariant (\<open>CoreConnInv\<close>,
    \<open>CoreConnThms\<close>), its timer (\<open>CoreConnTick\<close>), two of them rekeying (\<open>CoreRekey\<close>).
  \<^item> \<open>CoreUDP\<close>: \<^verbatim>\<open>core/udp.go\<close>, \<^verbatim>\<open>core/peer.go\<close>; one lemma per operation for its invariant (\<open>CoreUDPInv\<close>), its
    runs (\<open>CoreUDPThms\<close>), two of them connecting (\<open>CoreUDPHandshake\<close>). \<open>CoreUDPPipe\<close>,
    \<open>CoreUDPPipeInv\<close>, \<open>CoreUDPPipeThms\<close>: its receiving goroutines, queues and packet pool.

  \<^bold>\<open>How the code is modelled.\<close> A struct is a record, an error a constructor of a datatype, a fallible
  function returns a sum or an option, a machine integer is a word of its width. A Go map is an
  association list with distinct keys, whose order stands for the arbitrary order of a walk. Objects
  shared by pointer live in lists inside the state of their owner and are named by their index.
  A method that holds a lock is one step. Where a method
  unlocks in its middle, what other goroutines do there is an argument of the definition (a function on
  the state), and the theorems quantify over all functions that are runs of the other operations.
  Time is an integer argument, in nanoseconds. Callbacks and writes append to a log in the state.
  A panic is a value: None, a flag, or an error constructor.

  \<^bold>\<open>Parameters.\<close> BLAKE2s, ChaCha20-Poly1305, AES-GCM and X25519 are a record of functions; what the
  theorems assume of them (opening what was sealed returns it, Diffie-Hellman commutes, lengths) is
  stated as hypotheses and shown satisfiable by a toy instance in each witness. Likewise the KCP library
  and the datagram transport.

  \<^bold>\<open>Bounds and fuel.\<close> No definition uses fuel: loops are recursions over lists, except the two allocators
  of identifiers, which are partial functions into options (\<open>CreateSession_spec\<close> and \<open>IdCycle\<close> prove that
  they return). Session counters
  are 64-bit words and \<open>session_nonces_unique\<close> is stated for fewer than \<open>2 ^ 64\<close> operations, beyond which
  the counter of the code wraps.

  \<^bold>\<open>What the lemmas show.\<close> Agreement of handshakes of every pattern, secrecy-independent: both sides end
  with the same transcript and exchanged keys. Sessions deliver every packet once and never reuse a
  counter. The replay bitmap answers as a set with a window. Connections, multiplexers, the session
  table and the network keep their invariants in every run. Streams and services are isolated from each
  other; closing is final and is reported. Strangers are refused. The receiving pipeline neither uses
  nor releases a packet twice and delivers in order. Several theorems state where the code does
  less than one would want (a forged packet moves the replay window; a replayed initiation takes over
  a peer); the manifest lists these as findings.

  \<^bold>\<open>Not modelled.\<close> The outbound queues of \<^verbatim>\<open>core/udp.go\<close>, its sockets and options; the blocking loops of
  \<^verbatim>\<open>core/dial.go\<close> and \<^verbatim>\<open>core/listener.go\<close>; the adapters around the core (\<^verbatim>\<open>giznoise\<close>, \<^verbatim>\<open>gizwebrtc\<close>,
  \<^verbatim>\<open>gizhttp\<close>); cryptographic secrecy (keys and ciphertexts are byte strings, so what an attacker cannot
  compute is not expressed); fairness and real time. Outside the network core: the application services
  under \<^verbatim>\<open>src/pkgs/gizclaw\<close>, the audio and AI packages and the command line, which are adapters of
  stores, codecs and remote services; generated code.
\<close>

end
